(* ===== verification/Kernel_Prelude.thy ===== *)
theory Kernel_Prelude
  imports Main "HOL-Library.Word" "HOL-Library.Monad_Syntax"
begin

text \<open>
  Shared ground of the development: the C integer types as words, byte-addressed memory with
  little-endian loads and stores of any width, circular disjointness of address ranges, the
  "first index that satisfies" loop of the allocators, and the collections of rewrite rules that
  the component theories hand to \<open>simp\<close>.
\<close>

unbundle bit_operations_syntax

section \<open>Integer types\<close>

text \<open>The typedefs of \<^verbatim>\<open>src/libc/include/stdint.h\<close> on x86-64; \<open>size_t\<close>, \<open>uintptr_t\<close> and
  pointers are 64-bit words.\<close>

type_synonym u8 = "8 word"
type_synonym u16 = "16 word"
type_synonym u32 = "32 word"
type_synonym u64 = "64 word"

text \<open>\<open>mem_simps\<close>: reading memory after writing it; \<open>kernel_defs\<close>: the small definitions a
  component proof unfolds.\<close>

named_theorems mem_simps
named_theorems kernel_defs

section \<open>Loops that look for the first index\<close>

fun find_from :: "(nat \<Rightarrow> bool) \<Rightarrow> nat \<Rightarrow> nat \<Rightarrow> nat option" where
  "find_from P i 0 = None"
| "find_from P i (Suc k) = (if P i then Some i else find_from P (Suc i) k)"

definition first_index :: "(nat \<Rightarrow> bool) \<Rightarrow> nat \<Rightarrow> nat option" where
  "first_index P n = find_from P 0 n"

lemma find_from_Some_iff:
  "find_from P i k = Some j \<longleftrightarrow> i \<le> j \<and> j < i + k \<and> P j \<and> (\<forall>l. i \<le> l \<and> l < j \<longrightarrow> \<not> P l)"
proof (induction k arbitrary: i)
  case 0
  then show ?case by auto
next
  case (Suc k)
  show ?case
  proof (cases "P i")
    case True
    then show ?thesis by (auto simp: le_less)
  next
    case False
    then show ?thesis
      using Suc.IH[of "Suc i"] by (auto simp: Suc_le_eq) (metis le_neq_implies_less)+
  qed
qed

lemma find_from_None_iff:
  "find_from P i k = None \<longleftrightarrow> (\<forall>l. i \<le> l \<and> l < i + k \<longrightarrow> \<not> P l)"
proof (induction k arbitrary: i)
  case 0
  then show ?case by auto
next
  case (Suc k)
  then show ?case
    by (auto simp: Suc_le_eq) (metis le_neq_implies_less)
qed

lemma first_index_Some_iff:
  "first_index P n = Some j \<longleftrightarrow> j < n \<and> P j \<and> (\<forall>l<j. \<not> P l)"
  by (auto simp: first_index_def find_from_Some_iff)

lemma first_index_None_iff:
  "first_index P n = None \<longleftrightarrow> (\<forall>l<n. \<not> P l)"
  by (auto simp: first_index_def find_from_None_iff)

lemma first_index_SomeD:
  assumes "first_index P n = Some j"
  shows "j < n" and "P j" and "\<And>l. l < j \<Longrightarrow> \<not> P l"
  using assms by (auto simp: first_index_Some_iff)

lemma first_index_exists: "j < n \<Longrightarrow> P j \<Longrightarrow> \<exists>i. first_index P n = Some i"
  by (metis first_index_None_iff option.exhaust)

lemma first_index_Suc:
  "first_index P (Suc n) =
     (case first_index P n of Some j \<Rightarrow> Some j | None \<Rightarrow> if P n then Some n else None)"
proof (cases "first_index P n")
  case None
  then have none: "\<forall>l<n. \<not> P l" by (simp add: first_index_None_iff)
  show ?thesis
  proof (cases "P n")
    case True
    with none have "first_index P (Suc n) = Some n" by (simp add: first_index_Some_iff)
    with None True show ?thesis by simp
  next
    case False
    with none have "first_index P (Suc n) = None" by (simp add: first_index_None_iff less_Suc_eq)
    with None False show ?thesis by simp
  qed
next
  case (Some j)
  then have "first_index P (Suc n) = Some j" by (simp add: first_index_Some_iff)
  with Some show ?thesis by simp
qed

section \<open>Words as numbers\<close>

lemma unat64_less: "unat (x :: u64) < 2 ^ 64"
proof -
  have "unat x < 2 ^ LENGTH(64)" by (rule unsigned_less)
  then show ?thesis by simp
qed

lemma unat64_minus_1: "unat (- 1 :: u64) = 2 ^ 64 - 1"
  by (simp only: unsigned_minus_1_eq_mask mask_eq_exp_minus_1) simp

lemma sint_u32: "sint w = (if unat w < 2 ^ 31 then int (unat w) else int (unat w) - 2 ^ 32)" for w :: u32
proof -
  have "int (unat w) = sint w mod 2 ^ 32" using uint_sint[of w] by (simp add: take_bit_eq_mod)
  moreover have b: "- (2 ^ 31) \<le> sint w" "sint w < 2 ^ 31" using sint_greater_eq[of w] sint_less[of w] by simp_all
  moreover have "sint w mod 2 ^ 32 = sint w + 2 ^ 32" if "sint w < 0"
  proof -
    have "sint w mod 2 ^ 32 = (sint w + 2 ^ 32) mod 2 ^ 32" by simp
    also have "\<dots> = sint w + 2 ^ 32" using that b by (intro mod_pos_pos_trivial) auto
    finally show ?thesis .
  qed
  moreover have "unat w < 2 ^ 31 \<longleftrightarrow> uint w < 2 ^ 31"
    using of_nat_less_iff[where 'a = int, of "unat w" "2 ^ 31"] by simp
  ultimately show ?thesis by (cases "sint w < 0") (auto simp: mod_pos_pos_trivial)
qed

lemma unat_eq_1_iff: "unat x = Suc 0 \<longleftrightarrow> x = (1 :: 'a::len word)"
  by (metis One_nat_def unsigned_1 unsigned_word_eqI)

text \<open>Clearing the bits of a mask, as the code rounds down.\<close>

lemma and_not_split:
  fixes x m :: "'a::len word"
  shows "unat (x AND NOT m) + unat (x AND m) = unat x"
proof -
  have "(x AND m) + (x AND NOT m) = x"
    using word_plus_and_or[of "x AND m" "x AND NOT m"]
    by (simp flip: bit.conj_disj_distrib add: and.assoc and.left_commute)
  then have eq: "x AND NOT m = x - (x AND m)" by (simp add: eq_diff_eq add.commute)
  have le: "x AND m \<le> x" by (rule word_and_le2)
  then have "unat (x AND m) \<le> unat x" by (simp add: word_le_nat_alt)
  then show ?thesis using unat_sub[OF le] eq by simp
qed

lemma round_down_bounds:
  fixes x m :: "'a::len word"
  shows "unat (x AND NOT m) \<le> unat x" and "unat x \<le> unat (x AND NOT m) + unat m"
proof -
  have "x AND m \<le> m" by (rule word_and_le1)
  then have "unat (x AND m) \<le> unat m" by (simp add: word_le_nat_alt)
  then show "unat (x AND NOT m) \<le> unat x" and "unat x \<le> unat (x AND NOT m) + unat m"
    using and_not_split[of x m] by linarith+
qed

section \<open>Circular ranges of addresses\<close>

text \<open>\<open>apart a n b k\<close>: the \<open>n\<close> bytes from \<open>a\<close> and the \<open>k\<close> bytes from \<open>b\<close> share no
  address, where addresses wrap at \<open>2 ^ 64\<close>; a closed instance evaluates.\<close>

definition apart :: "u64 \<Rightarrow> nat \<Rightarrow> u64 \<Rightarrow> nat \<Rightarrow> bool" where
  "apart a n b k \<longleftrightarrow> n \<le> unat (b - a) \<and> k \<le> unat (a - b)"

lemma apart_sym: "apart a n b k \<longleftrightarrow> apart b k a n"
  by (auto simp: apart_def)

lemma apart_mono: "apart a n b k \<Longrightarrow> n' \<le> n \<Longrightarrow> k' \<le> k \<Longrightarrow> apart a n' b k'"
  by (auto simp: apart_def)

lemma apart_neq:
  assumes "apart a n b k" and "i < n" and "j < k"
  shows "a + of_nat i \<noteq> b + of_nat j"
proof
  assume eq: "a + of_nat i = b + of_nat j"
  show False
  proof (cases "j \<le> i")
    case True
    have "b - a = of_nat (i - j)"
      using eq True by (simp add: algebra_simps)
    then have "unat (b - a) = (i - j) mod 2 ^ 64"
      by (simp add: unat_of_nat)
    then have "unat (b - a) \<le> i - j" by (metis mod_less_eq_dividend)
    with assms(1,2) True show False unfolding apart_def by linarith
  next
    case False
    have "a - b = of_nat (j - i)"
      using eq False by (simp add: algebra_simps)
    then have "unat (a - b) = (j - i) mod 2 ^ 64"
      by (simp add: unat_of_nat)
    then have "unat (a - b) \<le> j - i" by (metis mod_less_eq_dividend)
    with assms(1,3) False show False unfolding apart_def by linarith
  qed
qed

lemma apart_iff: "apart a n b k \<longleftrightarrow> n \<le> unat (b - a) \<and> k \<le> unat (a - b)"
  by (simp add: apart_def)

text \<open>Linear (non-wrapping) ranges, the form in which regions of memory are given.\<close>

lemma apart_linear:
  assumes "unat a + n \<le> unat b" and "unat b + k \<le> 2 ^ 64" and "0 < n"
  shows "apart a n b k"
proof -
  have "unat (b - a) = unat b - unat a"
    using assms(1) by (simp add: unat_sub word_le_nat_alt)
  moreover have "unat (a - b) = unat a + 2 ^ 64 - unat b"
    using assms by (simp add: unat_sub_if' word_size)
  ultimately show ?thesis using assms by (simp add: apart_def) linarith
qed

lemma unat_of_nat_less: "i < 2 ^ 64 \<Longrightarrow> unat (of_nat i :: u64) = i"
  by (simp add: unat_of_nat)

text \<open>Parts of ranges that are apart, and parts of one range.\<close>

lemma apart_sub:
  assumes ap: "apart a n b k" and ij: "i + x \<le> n" "j + y \<le> k" and pos: "0 < x" "0 < y"
  shows "apart (a + of_nat i) x (b + of_nat j) y"
proof -
  let ?D = "unat (b - a)"
  have n: "n \<le> ?D" and k: "k \<le> unat (a - b)" using ap by (auto simp: apart_def)
  have "a \<noteq> b" using n ij(1) pos(1) by auto
  then have "unat a \<noteq> unat b" by (metis unsigned_word_eqI)
  then have sum: "unat (a - b) + ?D = 2 ^ 64"
    using unat64_less[of a] unat64_less[of b] by (auto simp: unat_sub_if' word_size)
  have "(b + of_nat j) - (a + of_nat i) = (b - a) + of_nat j - of_nat i" by simp
  also have "\<dots> = of_nat (?D + j - i)" using n ij(1) by simp
  finally have "(b + of_nat j) - (a + of_nat i) = of_nat (?D + j - i)" .
  moreover have "unat (of_nat (?D + j - i) :: u64) = ?D + j - i"
    using n k ij pos sum by (intro unat_of_nat_less) linarith
  ultimately have 1: "unat ((b + of_nat j) - (a + of_nat i)) = ?D + j - i" by (simp only:)
  have "(a + of_nat i) - (b + of_nat j) = (a - b) + of_nat i - of_nat j" by simp
  also have "\<dots> = of_nat (unat (a - b) + i - j)" using k ij(2) by simp
  finally have "(a + of_nat i) - (b + of_nat j) = of_nat (unat (a - b) + i - j)" .
  moreover have "unat (of_nat (unat (a - b) + i - j) :: u64) = unat (a - b) + i - j"
    using n k ij pos sum by (intro unat_of_nat_less) linarith
  ultimately have 2: "unat ((a + of_nat i) - (b + of_nat j)) = unat (a - b) + i - j" by (simp only:)
  show ?thesis unfolding apart_def 1 2 using n k ij by linarith
qed

lemma apart_offsets:
  assumes "i + n \<le> j" and "j + k \<le> 2 ^ 64" and "0 < n" and "0 < k"
  shows "apart (b + of_nat i) n (b + of_nat j) k"
proof -
  have "(b + of_nat j) - (b + of_nat i) = of_nat (j - i)" using assms(1) by simp
  moreover have "unat (of_nat (j - i) :: u64) = j - i"
    using assms by (intro unat_of_nat_less) linarith
  ultimately have 1: "unat ((b + of_nat j) - (b + of_nat i)) = j - i" by (simp only:)
  have "(b + of_nat i) - (b + of_nat j) = of_nat (2 ^ 64 + i - j)"
    using assms by simp
  moreover have "unat (of_nat (2 ^ 64 + i - j) :: u64) = 2 ^ 64 + i - j"
    using assms by (intro unat_of_nat_less) linarith
  ultimately have 2: "unat ((b + of_nat i) - (b + of_nat j)) = 2 ^ 64 + i - j" by (simp only:)
  show ?thesis unfolding apart_def 1 2 using assms by linarith
qed

section \<open>Byte-addressed memory\<close>

type_synonym memory = "u64 \<Rightarrow> u8"

definition read_bytes :: "memory \<Rightarrow> u64 \<Rightarrow> nat \<Rightarrow> u8 list" where
  "read_bytes m a n = map (\<lambda>i. m (a + of_nat i)) [0..<n]"

fun write_bytes :: "memory \<Rightarrow> u64 \<Rightarrow> u8 list \<Rightarrow> memory" where
  "write_bytes m a [] = m"
| "write_bytes m a (b # bs) = write_bytes (m(a := b)) (a + 1) bs"

definition word_of_bytes :: "u8 list \<Rightarrow> 'a::len word" where
  "word_of_bytes bs = foldr (\<lambda>b w. ucast b OR push_bit 8 w) bs 0"

definition bytes_of :: "nat \<Rightarrow> 'a::len word \<Rightarrow> u8 list" where
  "bytes_of n v = map (\<lambda>i. ucast (drop_bit (8 * i) v)) [0..<n]"

definition load16 :: "memory \<Rightarrow> u64 \<Rightarrow> u16" where
  "load16 m a = word_of_bytes (read_bytes m a 2)"

definition load32 :: "memory \<Rightarrow> u64 \<Rightarrow> u32" where
  "load32 m a = word_of_bytes (read_bytes m a 4)"

definition load64 :: "memory \<Rightarrow> u64 \<Rightarrow> u64" where
  "load64 m a = word_of_bytes (read_bytes m a 8)"

definition store16 :: "memory \<Rightarrow> u64 \<Rightarrow> u16 \<Rightarrow> memory" where
  "store16 m a v = write_bytes m a (bytes_of 2 v)"

definition store32 :: "memory \<Rightarrow> u64 \<Rightarrow> u32 \<Rightarrow> memory" where
  "store32 m a v = write_bytes m a (bytes_of 4 v)"

definition store64 :: "memory \<Rightarrow> u64 \<Rightarrow> u64 \<Rightarrow> memory" where
  "store64 m a v = write_bytes m a (bytes_of 8 v)"

lemma length_read_bytes [simp]: "length (read_bytes m a n) = n"
  by (simp add: read_bytes_def)

lemma nth_read_bytes [simp]: "i < n \<Longrightarrow> read_bytes m a n ! i = m (a + of_nat i)"
  by (simp add: read_bytes_def)

lemma length_bytes_of [simp]: "length (bytes_of n v) = n"
  by (simp add: bytes_of_def)

lemma write_bytes_at:
  "length bs \<le> 2 ^ 64 \<Longrightarrow>
   write_bytes m a bs x = (if unat (x - a) < length bs then bs ! unat (x - a) else m x)"
proof (induction bs arbitrary: m a)
  case Nil
  then show ?case by simp
next
  case (Cons b bs)
  have IH: "write_bytes (m(a := b)) (a + 1) bs x =
      (if unat (x - (a + 1)) < length bs then bs ! unat (x - (a + 1)) else (m(a := b)) x)"
    using Cons.prems by (intro Cons.IH) simp
  show ?case
  proof (cases "x = a")
    case True
    have "x - (a + 1) = - 1" using True by simp
    then have "unat (x - (a + 1)) = 2 ^ 64 - 1" by (simp only: unat64_minus_1)
    with Cons.prems have "\<not> unat (x - (a + 1)) < length bs" by simp
    with IH True show ?thesis by simp
  next
    case False
    then have nz: "x - a \<noteq> 0" by simp
    then have "unat (x - a - 1) = unat (x - a) - 1" by (rule unat_minus_one)
    moreover have "0 < unat (x - a)" using nz by (simp add: unat_gt_0)
    ultimately have "unat (x - a) = Suc (unat (x - a - 1))" by simp
    with IH False show ?thesis by (simp add: diff_diff_eq)
  qed
qed

lemma write_bytes_apart:
  assumes "apart a (length bs) b n" and "j < n"
  shows "write_bytes m a bs (b + of_nat j) = m (b + of_nat j)"
proof -
  have len: "length bs \<le> 2 ^ 64"
    using assms(1) unat64_less[of "b - a"] by (simp add: apart_def)
  have "\<not> unat (b + of_nat j - a) < length bs"
  proof
    assume "unat (b + of_nat j - a) < length bs"
    with assms have "a + of_nat (unat (b + of_nat j - a)) \<noteq> b + of_nat j"
      by (intro apart_neq)
    then show False by simp
  qed
  with len show ?thesis by (simp add: write_bytes_at)
qed

lemma read_write_bytes_apart [mem_simps]:
  "apart a (length bs) b n \<Longrightarrow> read_bytes (write_bytes m a bs) b n = read_bytes m b n"
  by (rule nth_equalityI) (auto simp: write_bytes_apart)

lemma read_write_bytes_same [mem_simps]:
  assumes "length bs \<le> 2 ^ 64"
  shows "read_bytes (write_bytes m a bs) a (length bs) = bs"
  by (rule nth_equalityI)
    (use assms in \<open>auto simp: write_bytes_at unat_of_nat\<close>)

lemma bit_word_of_bytes:
  "bit (word_of_bytes bs :: 'a::len word) k \<longleftrightarrow>
     k < LENGTH('a) \<and> k < 8 * length bs \<and> bit (bs ! (k div 8)) (k mod 8)"
proof (induction bs arbitrary: k)
  case Nil
  then show ?case by (simp add: word_of_bytes_def)
next
  case (Cons b bs)
  have unfold: "(word_of_bytes (b # bs) :: 'a word) = ucast b OR push_bit 8 (word_of_bytes bs)"
    by (simp add: word_of_bytes_def)
  show ?case
  proof (cases "k < 8")
    case True
    then show ?thesis by (auto simp: unfold bit_simps)
  next
    case False
    then obtain j where j: "k = j + 8" by (metis add.commute le_Suc_ex not_less)
    have "\<not> bit b (j + 8)" by (simp add: bit_word.rep_eq) 
    moreover have "(j + 8) div 8 = Suc (j div 8)" by simp
    ultimately show ?thesis
      using Cons.IH[of j] j by (auto simp: unfold bit_simps simp del: div_add_self2)
  qed
qed

lemma word_of_bytes_of [mem_simps]:
  fixes v :: "'a::len word"
  assumes "LENGTH('a) \<le> 8 * n"
  shows "word_of_bytes (bytes_of n v) = v"
proof (rule bit_word_eqI)
  fix k assume k: "k < LENGTH('a)"
  with assms have "k div 8 < n" by (simp add: div_less_iff_less_mult mult.commute)
  with k assms show "bit (word_of_bytes (bytes_of n v) :: 'a word) k \<longleftrightarrow> bit v k"
    by (simp add: bit_word_of_bytes bytes_of_def bit_simps)
qed

lemma load64_store64_same [mem_simps]: "load64 (store64 m a v) a = v"
  using read_write_bytes_same[of "bytes_of 8 v" m a] word_of_bytes_of[of 8 v]
  by (simp add: load64_def store64_def)

lemma load32_store32_same [mem_simps]: "load32 (store32 m a v) a = v"
  using read_write_bytes_same[of "bytes_of 4 v" m a] word_of_bytes_of[of 4 v]
  by (simp add: load32_def store32_def)

lemma load64_store64_apart [mem_simps]:
  "apart a 8 b 8 \<Longrightarrow> load64 (store64 m a v) b = load64 m b"
  by (simp add: load64_def store64_def read_write_bytes_apart)

lemma store64_apart [mem_simps]: "apart a 8 b n \<Longrightarrow> read_bytes (store64 m a v) b n = read_bytes m b n"
  by (simp add: store64_def read_write_bytes_apart)

section \<open>Alignment\<close>

definition aligned8 :: "u64 \<Rightarrow> bool" where
  "aligned8 a \<longleftrightarrow> unat a mod 8 = 0"

lemma aligned8_code: "aligned8 a \<longleftrightarrow> a AND 7 = 0"
proof -
  have "a AND 7 = a mod 8"
    using take_bit_eq_mask[of 3 a] take_bit_eq_mod[of 3 a] by (simp add: mask_eq_exp_minus_1)
  then have "unat (a AND 7) = unat a mod 8" by (simp add: unat_mod_distrib)
  then show ?thesis by (metis aligned8_def unat_eq_zero)
qed

lemma aligned8_apart:
  assumes "aligned8 a" and "aligned8 b" and "a \<noteq> b"
  shows "apart a 8 b 8"
proof -
  have "8 \<le> unat (y - x)" if "aligned8 x" "aligned8 y" "x \<noteq> y" for x y :: u64
  proof -
    have "unat (y - x) mod 8 = 0"
      using that(1,2) by (auto simp: unat_sub_if' word_size aligned8_def mod_eq_0_iff_dvd
          intro!: dvd_diff_nat dvd_add)
    moreover have "unat (y - x) \<noteq> 0" using that(3) by (simp add: unat_eq_zero)
    ultimately show ?thesis by presburger
  qed
  with assms show ?thesis by (simp add: apart_def)
qed

lemma load64_store64_aligned [mem_simps]:
  assumes "aligned8 a" and "aligned8 b"
  shows "load64 (store64 m a v) b = (if a = b then v else load64 m b)"
  using assms by (simp add: load64_store64_same load64_store64_apart aligned8_apart)

end
