(* ===== verification/Boot_Info.thy ===== *)
theory Boot_Info
  imports Kernel_Prelude
begin

text \<open>
  The structure the BOOTBOOT loader hands to the kernel
  (\<^verbatim>\<open>src/kernel/include/boot/bootboot.h\<close>): the frame buffer's geometry, the ACPI pointer and the
  memory map, an array of entries whose size word carries the type in its low four bits.
\<close>

section \<open>Memory map entries\<close>

record mmap_ent =
  ent_ptr :: u64
  ent_size :: u64

definition MMapEnt_Ptr :: "mmap_ent \<Rightarrow> u64" where
  "MMapEnt_Ptr a = ent_ptr a"

definition MMapEnt_Size :: "mmap_ent \<Rightarrow> u64" where
  "MMapEnt_Size a = ent_size a AND 0xFFFFFFFFFFFFFFF0"

definition MMapEnt_Type :: "mmap_ent \<Rightarrow> u64" where
  "MMapEnt_Type a = ent_size a AND 0xF"

definition MMapEnt_IsFree :: "mmap_ent \<Rightarrow> bool" where
  "MMapEnt_IsFree a \<longleftrightarrow> ent_size a AND 0xF = 1"

definition MMAP_FREE :: nat where
  "MMAP_FREE = 1"

section \<open>The boot structure\<close>

record bootboot =
  bb_magic :: "u8 list"
  bb_size :: u32
  bb_protocol :: u8
  bb_fb_type :: u8
  bb_numcores :: u16
  bb_bspid :: u16
  bb_timezone :: u16
  bb_datetime :: "u8 list"
  bb_initrd_ptr :: u64
  bb_initrd_size :: u64
  bb_fb_ptr :: u64
  bb_fb_size :: u32
  bb_fb_width :: u32
  bb_fb_height :: u32
  bb_fb_scanline :: u32
  bb_acpi_ptr :: u64
  bb_smbi_ptr :: u64
  bb_efi_ptr :: u64
  bb_mp_ptr :: u64
  bb_mmap :: "nat \<Rightarrow> mmap_ent"

text \<open>\<open>(bootboot.size - 128) / sizeof(MMapEnt)\<close>: the subtraction is done at 32 bits and wraps, the
  division at 64.\<close>

definition num_mmap_entries :: "bootboot \<Rightarrow> nat" where
  "num_mmap_entries bb = unat (ucast (bb_size bb - 128) div 16 :: u64)"

definition mmap_entries :: "bootboot \<Rightarrow> mmap_ent list" where
  "mmap_entries bb = map (bb_mmap bb) [0..<num_mmap_entries bb]"

lemma length_mmap_entries [simp]: "length (mmap_entries bb) = num_mmap_entries bb"
  by (simp add: mmap_entries_def)

text \<open>Size and type are the two halves of one word: neither loses a bit of it.\<close>

lemma MMapEnt_size_type: "MMapEnt_Size a OR MMapEnt_Type a = ent_size a"
proof -
  have "(0xFFFFFFFFFFFFFFF0 :: u64) OR 0xF = - 1" by simp
  then have "ent_size a AND (0xFFFFFFFFFFFFFFF0 OR 0xF) = ent_size a"
    by (simp only: bit.conj_one_right)
  then show ?thesis
    unfolding MMapEnt_Size_def MMapEnt_Type_def by (simp only: bit.conj_disj_distrib)
qed

lemma MMapEnt_IsFree_iff: "MMapEnt_IsFree a \<longleftrightarrow> MMapEnt_Type a = 1"
  by (simp add: MMapEnt_IsFree_def MMapEnt_Type_def)

end
