(* ===== verification/Float64.thy ===== *)
theory Float64
  imports Kernel_Prelude
begin

text \<open>
  The double precision numbers of C on x86-64, as far as the kernel computes with them: negation,
  comparison with zero, subtraction, multiplication by ten and the conversions from and to the
  integer types. A finite number is a significand and a binary exponent. Every operation rounds to
  53 bits, to nearest and ties to even; an operation never makes the exponent smaller than that of
  its operands, so that no result falls between two numbers of the subnormal range. The two zeros
  are one value here (no operation below tells them apart).
\<close>

datatype double = Number int int | Infinity bool | NaN

fun bit_len :: "nat \<Rightarrow> nat" where
  "bit_len n = (if n = 0 then 0 else Suc (bit_len (n div 2)))"

declare bit_len.simps [simp del]

lemma bit_len_le: "bit_len n \<le> k \<longleftrightarrow> n < 2 ^ k"
proof (induction k arbitrary: n)
  case 0
  then show ?case by (simp add: bit_len.simps[of n])
next
  case (Suc k)
  have "n div 2 < 2 ^ k \<longleftrightarrow> n < 2 ^ Suc k" by (simp add: div_less_iff_less_mult mult.commute)
  then show ?case using Suc.IH[of "n div 2"] by (simp add: bit_len.simps[of n])
qed

section \<open>Rounding\<close>

text \<open>The multiple of \<open>2 ^ k\<close> nearest to \<open>n\<close>, divided by \<open>2 ^ k\<close>; the even one of two.\<close>

definition half_even :: "nat \<Rightarrow> nat \<Rightarrow> nat" where
  "half_even n k =
     (let q = n div 2 ^ k; r = n mod 2 ^ k
      in if 2 ^ k < 2 * r \<or> 2 * r = 2 ^ k \<and> odd q then q + 1 else q)"

lemma half_even_0 [simp]: "half_even n 0 = n"
  by (simp add: half_even_def)

lemma half_even_near:
  shows "2 * (half_even n k * 2 ^ k) \<le> 2 * n + 2 ^ k" and "2 * n \<le> 2 * (half_even n k * 2 ^ k) + 2 ^ k"
proof -
  obtain P q r where P: "P = (2 :: nat) ^ k" and q: "q = n div P" and r: "r = n mod P" by simp
  have n: "n = q * P + r" unfolding q r by (rule div_mult_mod_eq [symmetric])
  have lt: "r < P" by (simp add: r P)
  have "half_even n k = (if P < 2 * r \<or> 2 * r = P \<and> odd q then q + 1 else q)"
    by (simp add: half_even_def Let_def q r P)
  then consider "half_even n k = q" "2 * r \<le> P" | "half_even n k = q + 1" "P \<le> 2 * r"
    by (cases "P < 2 * r \<or> 2 * r = P \<and> odd q") auto
  then have "2 * (half_even n k * P) \<le> 2 * n + P \<and> 2 * n \<le> 2 * (half_even n k * P) + P"
    by cases (use n lt in \<open>simp_all add: algebra_simps\<close>)
  then show "2 * (half_even n k * 2 ^ k) \<le> 2 * n + 2 ^ k" "2 * n \<le> 2 * (half_even n k * 2 ^ k) + 2 ^ k"
    by (simp_all add: P)
qed

lemma half_even_exact: "2 ^ k dvd n \<Longrightarrow> half_even n k * 2 ^ k = n"
  by (auto simp: half_even_def Let_def)

text \<open>\<open>fl m e\<close>: the number \<open>m * 2 ^ e\<close> as a double.\<close>

definition fl :: "int \<Rightarrow> int \<Rightarrow> double" where
  "fl m e =
     (let n = nat \<bar>m\<bar>; k = bit_len n - 53; q = half_even n k
      in if q \<noteq> 0 \<and> 1024 < int (bit_len q) + int k + e then Infinity (m < 0)
         else Number (sgn m * int q) (e + int k))"

section \<open>Operations\<close>

fun less_zero :: "double \<Rightarrow> bool" where
  "less_zero (Number m e) = (m < 0)"
| "less_zero (Infinity s) = s"
| "less_zero NaN = False"

fun negate :: "double \<Rightarrow> double" where
  "negate (Number m e) = Number (- m) e"
| "negate (Infinity s) = Infinity (\<not> s)"
| "negate NaN = NaN"

fun minus_double :: "double \<Rightarrow> double \<Rightarrow> double" where
  "minus_double (Number a e) (Number b f) =
     (let g = min e f in fl (a * 2 ^ nat (e - g) - b * 2 ^ nat (f - g)) g)"
| "minus_double (Infinity s) (Number b f) = Infinity s"
| "minus_double (Number a e) (Infinity s) = Infinity (\<not> s)"
| "minus_double (Infinity s) (Infinity t) = (if s = t then NaN else Infinity s)"
| "minus_double NaN y = NaN"
| "minus_double x NaN = NaN"

fun times_ten :: "double \<Rightarrow> double" where
  "times_ten (Number m e) = fl (m * 10) e"
| "times_ten x = x"

section \<open>Conversions\<close>

text \<open>Towards zero. \<^verbatim>\<open>cvttsd2si\<close> answers the smallest integer where the value does not fit, and for
  what is no number.\<close>

definition truncated :: "int \<Rightarrow> int \<Rightarrow> int" where
  "truncated m e = (if 0 \<le> e then m * 2 ^ nat e else sgn m * (\<bar>m\<bar> div 2 ^ nat (- e)))"

fun long_of_double :: "double \<Rightarrow> u64" where
  "long_of_double (Number m e) =
     (let t = truncated m e in if - (2 ^ 63) \<le> t \<and> t < 2 ^ 63 then of_int t else 0x8000000000000000)"
| "long_of_double _ = 0x8000000000000000"

fun int_of_double :: "double \<Rightarrow> u32" where
  "int_of_double (Number m e) =
     (let t = truncated m e in if - (2 ^ 31) \<le> t \<and> t < 2 ^ 31 then of_int t else 0x80000000)"
| "int_of_double _ = 0x80000000"

definition double_of_long :: "u64 \<Rightarrow> double" where
  "double_of_long v = fl (sint v) 0"

definition double_of_int :: "u32 \<Rightarrow> double" where
  "double_of_int v = fl (sint v) 0"

section \<open>Where nothing is rounded\<close>

lemma fl_exact:
  assumes "\<bar>m\<bar> < 2 ^ 53" and "e \<le> 971"
  shows "fl m e = Number m e"
proof -
  have "bit_len (nat \<bar>m\<bar>) \<le> 53"
    using assms(1) unfolding bit_len_le by (simp add: nat_less_iff)
  with assms(2) show ?thesis by (auto simp: fl_def Let_def sgn_if)
qed

text \<open>In general the significand keeps the sign and at most 53 bits, or is the next power of two.\<close>

lemma fl_number:
  assumes m: "0 \<le> m" "m < 2 ^ (53 + j)" and e: "e + int j \<le> 970"
  obtains q k where "fl m e = Number (int q) (e + int k)" and "q \<le> 2 ^ 53" and "k \<le> j"
    and "2 * (int q * 2 ^ k) \<le> 2 * m + 2 ^ k" and "2 * m \<le> 2 * (int q * 2 ^ k) + 2 ^ k"
    and "k = 0 \<Longrightarrow> int q = m" and "k \<noteq> 0 \<Longrightarrow> 2 ^ 53 \<le> m"
proof -
  define n where "n = nat m"
  define k where "k = bit_len n - 53"
  define q where "q = half_even n k"
  have mn: "m = int n" using m(1) by (simp add: n_def)
  have "n < 2 ^ (53 + j)" using m(2) unfolding mn by (metis of_nat_less_iff of_nat_numeral of_nat_power)
  then have k: "k \<le> j" using bit_len_le[of n "53 + j"] by (simp add: k_def)
  have "bit_len n \<le> 53 + k" by (simp add: k_def)
  then have "n < 2 ^ (53 + k)" by (simp only: bit_len_le)
  then have dv: "n div 2 ^ k < 2 ^ 53" by (simp add: div_less_iff_less_mult power_add)
  have q: "q \<le> 2 ^ 53"
  proof -
    have "q \<le> n div 2 ^ k + 1" by (auto simp: q_def half_even_def Let_def)
    with dv show ?thesis by simp
  qed
  then have "q < 2 ^ 54" by simp
  then have bq: "bit_len q \<le> 54" by (simp only: bit_len_le)
  have big: "2 ^ 53 \<le> n" if "k \<noteq> 0"
    using that bit_len_le[of n 53] by (simp add: k_def)
  have lt: "int (bit_len q) + int k + e \<le> 1024 \<or> q = 0"
    using bq k e by linarith
  have "fl m e = Number (sgn m * int q) (e + int k)"
    using lt unfolding fl_def by (auto simp: mn q_def k_def Let_def)
  moreover have "sgn m * int q = int q"
    by (cases "n = 0") (simp_all add: mn q_def half_even_def)
  ultimately have fl: "fl m e = Number (int q) (e + int k)" by simp
  note near = half_even_near[of n k, folded q_def]
  show ?thesis
  proof (rule that[OF fl q k])
    show "2 * (int q * 2 ^ k) \<le> 2 * m + 2 ^ k"
      using near(1) unfolding mn by (metis (mono_tags) of_nat_add of_nat_le_iff of_nat_mult of_nat_numeral of_nat_power)
    show "2 * m \<le> 2 * (int q * 2 ^ k) + 2 ^ k"
      using near(2) unfolding mn by (metis (mono_tags) of_nat_add of_nat_le_iff of_nat_mult of_nat_numeral of_nat_power)
    show "int q = m" if "k = 0" using that by (simp add: q_def mn)
    show "2 ^ 53 \<le> m" if "k \<noteq> 0" using big[OF that] unfolding mn by (metis of_nat_le_iff of_nat_numeral of_nat_power)
  qed
qed

end
