(* ===== verification/Machine_IO.thy ===== *)
theory Machine_IO
  imports Float64
begin

text \<open>
  The hardware as the kernel sees it. An instruction that reads (\<open>in\<close>, a volatile load, \<open>rdmsr\<close>,
  \<open>cpuid\<close>) takes its value from an arbitrary stream of answers, so a theorem about a driver holds
  for every device; every access is appended to a trace, in program order. The port routines are
  those of \<^verbatim>\<open>src/kernel/source/hardware/io/io.c\<close>. Calls of the output routines of other
  components (\<open>print_numstr\<close>, \<open>log\<close>) are events that carry the call's arguments; the routines
  themselves are modelled in the theories Format and Display.
\<close>

section \<open>Arguments of the variadic printers\<close>

datatype va_arg =
    VInt u32      \<comment> \<open>\<^verbatim>\<open>int\<close>, also the promoted \<^verbatim>\<open>char\<close>\<close>
  | VLong u64     \<comment> \<open>\<^verbatim>\<open>long\<close>, \<^verbatim>\<open>unsigned long\<close>\<close>
  | VPtr u64      \<comment> \<open>\<^verbatim>\<open>void *\<close>\<close>
  | VStr string   \<comment> \<open>\<^verbatim>\<open>char *\<close>, the bytes before the terminating zero\<close>
  | VDouble double

datatype log_level = LOG_LEVEL_DEBUG | LOG_LEVEL_INFO | LOG_LEVEL_WARN | LOG_LEVEL_ERROR

section \<open>Events and the world\<close>

datatype io_event =
    In8 u16 u8 | Out8 u16 u8
  | In16 u16 u16 | Out16 u16 u16
  | In32 u16 u32 | Out32 u16 u32
  | InWords u16 "u16 list" | OutWords u16 "u16 list"
  | MmioRead u64 u64 | MmioWrite u64 u64
  | Rdmsr u32 u32 u32 | Wrmsr u32 u32 u32
  | Cpuid u32 u32 u32 u32 u32
  | ReadCr3 u64 | WriteCr3 u64 | Invlpg u64
  | Rdtsc u64 | ReadFlags u64 | ReadRsp u64
  | Lgdt u64 | Lidt u64 | Ltr u16 | Iretq u64 u64
  | Cli | Sti | Hlt | Pause
  | Print string u32 "va_arg list"
| PrintChar char u32
  | Log log_level string "va_arg list"
  | TermWrite string

record io_world =
  answer :: "nat \<Rightarrow> u64"
  asked :: nat
  trace :: "io_event list"

definition emit :: "io_event \<Rightarrow> io_world \<Rightarrow> io_world" where
  "emit e w = w\<lparr>trace := trace w @ [e]\<rparr>"

definition ask :: "io_world \<Rightarrow> u64 \<times> io_world" where
  "ask w = (answer w (asked w), w\<lparr>asked := Suc (asked w)\<rparr>)"

definition print_call :: "string \<Rightarrow> u32 \<Rightarrow> va_arg list \<Rightarrow> io_world \<Rightarrow> io_world" where
  "print_call s color args = emit (Print s color args)"

definition log_call :: "log_level \<Rightarrow> string \<Rightarrow> va_arg list \<Rightarrow> io_world \<Rightarrow> io_world" where
  "log_call l s args = emit (Log l s args)"

definition term_write :: "string \<Rightarrow> io_world \<Rightarrow> io_world" where
  "term_write s = emit (TermWrite s)"

section \<open>Port input and output\<close>

definition out_b :: "u16 \<Rightarrow> u8 \<Rightarrow> io_world \<Rightarrow> io_world" where
  "out_b port v = emit (Out8 port v)"

definition in_b :: "u16 \<Rightarrow> io_world \<Rightarrow> u8 \<times> io_world" where
  "in_b port w = (let (a, w) = ask w; v = ucast a in (v, emit (In8 port v) w))"

definition out_w :: "u16 \<Rightarrow> u16 \<Rightarrow> io_world \<Rightarrow> io_world" where
  "out_w port v = emit (Out16 port v)"

definition in_w :: "u16 \<Rightarrow> io_world \<Rightarrow> u16 \<times> io_world" where
  "in_w port w = (let (a, w) = ask w; v = ucast a in (v, emit (In16 port v) w))"

definition out_l :: "u16 \<Rightarrow> u32 \<Rightarrow> io_world \<Rightarrow> io_world" where
  "out_l port v = emit (Out32 port v)"

definition in_l :: "u16 \<Rightarrow> io_world \<Rightarrow> u32 \<times> io_world" where
  "in_l port w = (let (a, w) = ask w; v = ucast a in (v, emit (In32 port v) w))"

definition out_q :: "u16 \<Rightarrow> u64 \<Rightarrow> io_world \<Rightarrow> io_world" where
  "out_q port v w =
     (let w = out_l port (ucast (v AND 0xFFFFFFFF)) w
      in out_l (port + 4) (ucast (drop_bit 32 v)) w)"

definition in_q :: "u16 \<Rightarrow> io_world \<Rightarrow> u64 \<times> io_world" where
  "in_q port w =
     (let (lo, w) = in_l port w; (hi, w) = in_l (port + 4) w
      in (ucast lo OR push_bit 32 (ucast hi), w))"

fun ask_words :: "nat \<Rightarrow> io_world \<Rightarrow> u16 list \<times> io_world" where
  "ask_words 0 w = ([], w)"
| "ask_words (Suc n) w =
     (let (a, w) = ask w; (vs, w) = ask_words n w in (ucast a # vs, w))"

text \<open>\<open>rep insw\<close> fills a buffer of \<open>count\<close> words, \<open>rep outsw\<close> writes one.\<close>

definition in_sw :: "u16 \<Rightarrow> nat \<Rightarrow> io_world \<Rightarrow> u16 list \<times> io_world" where
  "in_sw port count w = (let (vs, w) = ask_words count w in (vs, emit (InWords port vs) w))"

definition out_sw :: "u16 \<Rightarrow> u16 list \<Rightarrow> io_world \<Rightarrow> io_world" where
  "out_sw port vs = emit (OutWords port vs)"

section \<open>What an access does to the world\<close>

lemma trace_emit [simp]: "trace (emit e w) = trace w @ [e]"
  and answer_emit [simp]: "answer (emit e w) = answer w"
  and asked_emit [simp]: "asked (emit e w) = asked w"
  by (simp_all add: emit_def)

lemma ask_simps [simp]:
  "fst (ask w) = answer w (asked w)"
  "trace (snd (ask w)) = trace w"
  "answer (snd (ask w)) = answer w"
  "asked (snd (ask w)) = Suc (asked w)"
  by (simp_all add: ask_def)

lemma in_b_simps [simp]:
  "fst (in_b p w) = ucast (answer w (asked w))"
  "trace (snd (in_b p w)) = trace w @ [In8 p (ucast (answer w (asked w)))]"
  "answer (snd (in_b p w)) = answer w"
  "asked (snd (in_b p w)) = Suc (asked w)"
  by (simp_all add: in_b_def ask_def Let_def)

lemma out_b_simps [simp]:
  "trace (out_b p v w) = trace w @ [Out8 p v]"
  "answer (out_b p v w) = answer w"
  "asked (out_b p v w) = asked w"
  by (simp_all add: out_b_def)

lemma in_l_simps [simp]:
  "fst (in_l p w) = ucast (answer w (asked w))"
  "trace (snd (in_l p w)) = trace w @ [In32 p (ucast (answer w (asked w)))]"
  "answer (snd (in_l p w)) = answer w"
  "asked (snd (in_l p w)) = Suc (asked w)"
  by (simp_all add: in_l_def ask_def Let_def)

lemma out_l_simps [simp]:
  "trace (out_l p v w) = trace w @ [Out32 p v]"
  "answer (out_l p v w) = answer w"
  "asked (out_l p v w) = asked w"
  by (simp_all add: out_l_def)

lemma print_call_simps [simp]:
  "trace (print_call s c as w) = trace w @ [Print s c as]"
  "answer (print_call s c as w) = answer w"
  "asked (print_call s c as w) = asked w"
  by (simp_all add: print_call_def)

lemma log_call_simps [simp]:
  "trace (log_call l s as w) = trace w @ [Log l s as]"
  "answer (log_call l s as w) = answer w"
  "asked (log_call l s as w) = asked w"
  by (simp_all add: log_call_def)

lemma ask_words_simps [simp]:
  "length (fst (ask_words n w)) = n"
  "trace (snd (ask_words n w)) = trace w"
  "answer (snd (ask_words n w)) = answer w"
  "asked (snd (ask_words n w)) = asked w + n"
  by (induction n arbitrary: w) (auto simp: Let_def split_beta ask_def)

lemma ask_words_nth:
  "i < n \<Longrightarrow> fst (ask_words n w) ! i = ucast (answer w (asked w + i))"
  by (induction n arbitrary: w i) (auto simp: Let_def split_beta less_Suc_eq_0_disj)

lemma in_sw_simps [simp]:
  "length (fst (in_sw p n w)) = n"
  "trace (snd (in_sw p n w)) = trace w @ [InWords p (fst (in_sw p n w))]"
  "answer (snd (in_sw p n w)) = answer w"
  "asked (snd (in_sw p n w)) = asked w + n"
  by (simp_all add: in_sw_def Let_def split_beta)

text \<open>A quadword written as two longwords and read back from a device that answers with what
  was written.\<close>

lemma quad_halves:
  "ucast (ucast (v AND 0xFFFFFFFF) :: u32) OR push_bit 32 (ucast (ucast (drop_bit 32 v) :: u32)) = (v :: u64)"
proof (rule bit_word_eqI)
  fix k assume "k < LENGTH(64)"
  moreover have "v AND 0xFFFFFFFF = take_bit 32 v"
    by (simp only: take_bit_eq_mask mask_eq_exp_minus_1) simp
  ultimately show "bit (ucast (ucast (v AND 0xFFFFFFFF) :: u32) OR
      push_bit 32 (ucast (ucast (drop_bit 32 v) :: u32)) :: u64) k = bit v k"
    by (auto simp: bit_simps)
qed

section \<open>What a run adds\<close>

text \<open>\<open>w'\<close> comes after \<open>w\<close> on the same hardware, and every event between satisfies \<open>P\<close>.\<close>

definition extends :: "(io_event \<Rightarrow> bool) \<Rightarrow> io_world \<Rightarrow> io_world \<Rightarrow> bool" where
  "extends P w w' \<longleftrightarrow> answer w' = answer w \<and> (\<exists>es. trace w' = trace w @ es \<and> list_all P es)"

named_theorems extends_intros

lemma extends_refl [simp, extends_intros]: "extends P w w"
  by (simp add: extends_def)

lemma extends_trans: "extends P w w' \<Longrightarrow> extends P w' w'' \<Longrightarrow> extends P w w''"
  by (auto simp: extends_def)

lemma extends_emit [extends_intros]: "P e \<Longrightarrow> extends P v w \<Longrightarrow> extends P v (emit e w)"
  by (auto simp: extends_def)

lemma extends_ask [extends_intros]: "extends P v w \<Longrightarrow> extends P v (snd (ask w))"
  by (simp add: extends_def)

lemma extends_fold:
  "(\<And>x w. x \<in> set xs \<Longrightarrow> extends P w (f x w)) \<Longrightarrow> extends P v w \<Longrightarrow> extends P v (fold f xs w)"
proof (induction xs arbitrary: w)
  case (Cons x xs)
  have "extends P v (f x w)" using Cons.prems(1)[of x w] Cons.prems(2) by (auto intro: extends_trans)
  then show ?case using Cons.IH Cons.prems(1) by simp
qed simp

lemma extends_if [extends_intros]:
  "(b \<Longrightarrow> extends P v w) \<Longrightarrow> (\<not> b \<Longrightarrow> extends P v w') \<Longrightarrow> extends P v (if b then w else w')"
  by simp

lemma extends_print_call [extends_intros]: "P (Print s c as) \<Longrightarrow> extends P v w \<Longrightarrow> extends P v (print_call s c as w)"
  and extends_log_call [extends_intros]: "P (Log l s as) \<Longrightarrow> extends P v w \<Longrightarrow> extends P v (log_call l s as w)"
  and extends_out_b [extends_intros]: "P (Out8 p x) \<Longrightarrow> extends P v w \<Longrightarrow> extends P v (out_b p x w)"
  by (simp_all add: print_call_def log_call_def out_b_def extends_emit)

lemma extends_in_b [extends_intros]:
  "(\<And>x. P (In8 p x)) \<Longrightarrow> extends P v w \<Longrightarrow> extends P v (snd (in_b p w))"
  by (auto simp: extends_def)

lemma extends_in_sw [extends_intros]:
  "(\<And>x. P (InWords p x)) \<Longrightarrow> extends P v w \<Longrightarrow> extends P v (snd (in_sw p n w))"
  by (auto simp: extends_def)

end
