(* ===== verification/Alloc_Spec.thy ===== *)
theory Alloc_Spec
  imports Kernel_Prelude
begin

text \<open>
  The contract of the kernel's physical memory allocators, as the paging, process and window code
  rely on it: an allocation takes its bytes out of the free ones, and a failed one changes nothing.
  What follows for a whole run of allocations, that no two of them overlap, is proved once here and
  reached by the providers through an interpretation.
\<close>

section \<open>Ranges of bytes\<close>

definition byte_range :: "u64 \<Rightarrow> u64 \<Rightarrow> nat set" where
  "byte_range a n = {unat a ..< unat a + unat n}"

lemma byte_range_0 [simp]: "byte_range a 0 = {}"
  by (simp add: byte_range_def)

lemma byte_range_disjoint:
  "unat a + unat n \<le> unat b \<or> unat b + unat k \<le> unat a \<Longrightarrow> byte_range a n \<inter> byte_range b k = {}"
  by (auto simp: byte_range_def)

section \<open>Runs of allocations\<close>

text \<open>\<open>run_allocs alloc ns s\<close> asks for \<open>ns\<close> in turn and keeps the requests that were met.\<close>

fun run_allocs :: "(u64 \<Rightarrow> 's \<Rightarrow> u64 \<times> 's) \<Rightarrow> u64 list \<Rightarrow> 's \<Rightarrow> (u64 \<times> u64) list \<times> 's" where
  "run_allocs alloc [] s = ([], s)"
| "run_allocs alloc (n # ns) s =
     (let (a, s1) = alloc n s; (rs, s2) = run_allocs alloc ns s1
      in (if a = 0 then rs else (a, n) # rs, s2))"

definition disjoint_regions :: "u64 \<times> u64 \<Rightarrow> u64 \<times> u64 \<Rightarrow> bool" where
  "disjoint_regions r q \<longleftrightarrow>
     byte_range (fst r) (snd r) \<inter> byte_range (fst q) (snd q) = {}"

definition regions_bytes :: "(u64 \<times> u64) list \<Rightarrow> nat set" where
  "regions_bytes rs = (\<Union>(a, n) \<in> set rs. byte_range a n)"

lemma regions_bytes_simps [simp]:
  "regions_bytes [] = {}"
  "regions_bytes (r # rs) = byte_range (fst r) (snd r) \<union> regions_bytes rs"
  by (auto simp: regions_bytes_def split: prod.splits)

lemma regions_bytes_append [simp]:
  "regions_bytes (xs @ ys) = regions_bytes xs \<union> regions_bytes ys"
  by (auto simp: regions_bytes_def)

lemma in_regions_bytes:
  "x \<in> regions_bytes rs \<longleftrightarrow> (\<exists>r \<in> set rs. x \<in> byte_range (fst r) (snd r))"
  by (simp add: regions_bytes_def case_prod_unfold)

lemma byte_range_subset_regions: "r \<in> set rs \<Longrightarrow> byte_range (fst r) (snd r) \<subseteq> regions_bytes rs"
  by (auto simp: regions_bytes_def split: prod.splits)

section \<open>The contract\<close>

locale byte_allocator =
  fixes alloc :: "u64 \<Rightarrow> 's \<Rightarrow> u64 \<times> 's"
    and free_bytes :: "'s \<Rightarrow> nat set"
    and inv :: "'s \<Rightarrow> bool"
  assumes alloc_inv: "inv s \<Longrightarrow> alloc n s = (a, s') \<Longrightarrow> inv s'"
    and alloc_fail: "inv s \<Longrightarrow> alloc n s = (0, s') \<Longrightarrow> s' = s"
    and alloc_within: "inv s \<Longrightarrow> alloc n s = (a, s') \<Longrightarrow> a \<noteq> 0 \<Longrightarrow> byte_range a n \<subseteq> free_bytes s"
    and alloc_takes: "inv s \<Longrightarrow> alloc n s = (a, s') \<Longrightarrow> a \<noteq> 0 \<Longrightarrow>
      free_bytes s' = free_bytes s - byte_range a n"
begin

lemma alloc_free_mono: "inv s \<Longrightarrow> alloc n s = (a, s') \<Longrightarrow> free_bytes s' \<subseteq> free_bytes s"
  by (cases "a = 0") (auto dest: alloc_fail alloc_takes)

lemma run_inv: "inv s \<Longrightarrow> run_allocs alloc ns s = (rs, s') \<Longrightarrow> inv s'"
  by (induction ns arbitrary: s rs s') (auto simp: Let_def split: prod.splits dest: alloc_inv)

lemma run_takes:
  "inv s \<Longrightarrow> run_allocs alloc ns s = (rs, s') \<Longrightarrow>
   regions_bytes rs \<subseteq> free_bytes s \<and> free_bytes s' = free_bytes s - regions_bytes rs"
proof (induction ns arbitrary: s rs s')
  case Nil
  then show ?case by simp
next
  case (Cons n ns)
  obtain a s1 where a: "alloc n s = (a, s1)" by fastforce
  obtain rs1 s2 where r: "run_allocs alloc ns s1 = (rs1, s2)" by fastforce
  have IH: "regions_bytes rs1 \<subseteq> free_bytes s1 \<and> free_bytes s2 = free_bytes s1 - regions_bytes rs1"
    using Cons.IH[OF alloc_inv[OF Cons.prems(1) a] r] .
  have eqs: "rs = (if a = 0 then rs1 else (a, n) # rs1)" "s' = s2"
    using Cons.prems(2) a r by auto
  show ?case
  proof (cases "a = 0")
    case True
    with a Cons.prems(1) have "s1 = s" by (auto dest: alloc_fail)
    with IH eqs True show ?thesis by simp
  next
    case False
    with IH eqs alloc_within[OF Cons.prems(1) a] alloc_takes[OF Cons.prems(1) a]
    show ?thesis by auto
  qed
qed

lemma run_disjoint:
  "inv s \<Longrightarrow> run_allocs alloc ns s = (rs, s') \<Longrightarrow> sorted_wrt disjoint_regions rs"
proof (induction ns arbitrary: s rs s')
  case Nil
  then show ?case by simp
next
  case (Cons n ns)
  obtain a s1 where a: "alloc n s = (a, s1)" by fastforce
  obtain rs1 s2 where r: "run_allocs alloc ns s1 = (rs1, s2)" by fastforce
  note inv1 = alloc_inv[OF Cons.prems(1) a]
  have IH: "sorted_wrt disjoint_regions rs1" using Cons.IH[OF inv1 r] .
  have eq: "rs = (if a = 0 then rs1 else (a, n) # rs1)"
    using Cons.prems(2) a r by auto
  show ?case
  proof (cases "a = 0")
    case False
    have "disjoint_regions (a, n) q" if "q \<in> set rs1" for q
      using byte_range_subset_regions[OF that] run_takes[OF inv1 r]
        alloc_takes[OF Cons.prems(1) a False] by (fastforce simp: disjoint_regions_def)
    with IH eq False show ?thesis by simp
  qed (use IH eq in simp)
qed

end

end
