(* ===== verification/Pmm.thy ===== *)
theory Pmm
  imports Boot_Info Machine_IO Alloc_Spec
begin

text \<open>
  The physical memory manager, \<^verbatim>\<open>src/kernel/source/memory/pmm.c\<close>: the free and used block tables
  filled from the boot memory map, the first-fit \<open>allocate_memory\<close> that every other component
  allocates with, \<open>free_memory\<close>, and the aligned allocation built on them. The two tables are C
  arrays of \<open>NUM_BLOCKS\<close> entries; they are functions on \<open>nat\<close> here, and the properties that
  depend on it bound the indices.
\<close>

section \<open>State\<close>

definition PAGE_SIZE :: u64 where
  "PAGE_SIZE = 4096"

definition NUM_BLOCKS :: nat where
  "NUM_BLOCKS = 12000"

record memory_block =
  mb_address :: u64
  mb_size :: u64
  mb_next_block :: u64

record pmm =
  free_blocks :: u16
  used_blocks :: u16
  start_address :: u64
  total_memory :: u64
  free_memory_blocks :: "nat \<Rightarrow> memory_block"
  used_memory_blocks :: "nat \<Rightarrow> memory_block"

text \<open>The statics before \<open>init_blocks\<close>: everything is zero.\<close>

definition zero_block :: memory_block where
  "zero_block = \<lparr>mb_address = 0, mb_size = 0, mb_next_block = 0\<rparr>"

definition pmm_bss :: pmm where
  "pmm_bss = \<lparr>free_blocks = 0, used_blocks = 0, start_address = 0, total_memory = 0,
     free_memory_blocks = (\<lambda>_. zero_block), used_memory_blocks = (\<lambda>_. zero_block)\<rparr>"

section \<open>Reading the memory map\<close>

text \<open>\<open>calculate_memory_usage\<close>: (total, free, used).\<close>

definition usage_step :: "mmap_ent \<Rightarrow> u64 \<times> u64 \<times> u64 \<Rightarrow> u64 \<times> u64 \<times> u64" where
  "usage_step e acc =
     (let (total, free, used) = acc;
          sz = MMapEnt_Size e;
          type = (ucast (MMapEnt_Type e) :: u8)
      in if unat type = MMAP_FREE then (total + sz, free + sz, used)
         else (total + sz, free, used + sz))"

definition calculate_memory_usage :: "bootboot \<Rightarrow> u64 \<times> u64 \<times> u64" where
  "calculate_memory_usage bb = fold usage_step (mmap_entries bb) (0, 0, 0)"

text \<open>\<open>parse_memory_map\<close>: the same walk, one line printed per entry, the entry at address 0 shortened
  by its first byte before it is printed and counted as free.\<close>

definition parse_step ::
  "bootboot \<Rightarrow> nat \<Rightarrow> u64 \<times> u64 \<times> io_world \<Rightarrow> u64 \<times> u64 \<times> io_world" where
  "parse_step bb i acc =
     (let (total, free, w) = acc;
          e = bb_mmap bb i;
          base_addr = MMapEnt_Ptr e;
          sz = MMapEnt_Size e;
          type = (ucast (MMapEnt_Type e) :: u32);
          total = total + sz;
          (base_addr, sz) = (if base_addr = 0 then (base_addr + 1, sz - 1) else (base_addr, sz));
          w = print_call ''Entry %lu: Base Address: %p, Size: %lu kb |  %lu Mb, Type: %d\<newline>'' 0x00AA00
                [VLong (of_nat i), VPtr base_addr, VLong (sz div 1024),
                 VLong (sz div (1024 * 1024)), VInt type] w;
          free = (if unat type = MMAP_FREE then free + sz else free)
      in (total, free, w))"

definition parse_memory_map :: "bootboot \<Rightarrow> io_world \<Rightarrow> io_world" where
  "parse_memory_map bb w =
     (let n = num_mmap_entries bb;
          w = print_call ''\<newline>Number of memory entry = %lu entries \<newline> '' 0x00AA00 [VLong (of_nat n)] w;
          (total, free, w) = fold (parse_step bb) [0..<n] (0, 0, w);
          w = print_call ''The Total memory = %lu kb or %lu mb or %lu Gb'' 156
                [VLong (total div 1024), VLong (total div (1024 * 1024)),
                 VLong (total div (1024 * 1024 * 1024))] w
      in print_call ''\<newline>The Free memory = %lu kb or %lu mb or %lu Gb'' 156
           [VLong (free div 1024), VLong (free div (1024 * 1024)),
            VLong (free div (1024 * 1024 * 1024))] w)"

text \<open>\<open>init_blocks\<close>: one step per entry; the second component is the local \<open>current_free_block\<close>.
  The spin lock around the loop is the subject of theory Spinlock.\<close>

definition init_block_step :: "bootboot \<Rightarrow> nat \<Rightarrow> pmm \<times> u64 \<Rightarrow> pmm \<times> u64" where
  "init_block_step bb i acc =
     (let (s, current_free_block) = acc;
          e = bb_mmap bb i;
          base_addr = MMapEnt_Ptr e;
          sz = MMapEnt_Size e;
          type = (ucast (MMapEnt_Type e) :: u32);
          s = s\<lparr>total_memory := total_memory s + sz\<rparr>;
          (base_addr, s, current_free_block) =
            (if unat type = MMAP_FREE then
               let (base_addr, sz) =
                     (if base_addr = 0 then (base_addr + 1, sz - 1) else (base_addr, sz));
                   k = unat (free_blocks s);
                   b = \<lparr>mb_address = base_addr, mb_size = sz,
                        mb_next_block = current_free_block\<rparr>
               in (base_addr,
                   s\<lparr>free_memory_blocks := (free_memory_blocks s)(k := b),
                     free_blocks := free_blocks s + 1\<rparr>,
                   base_addr)
             else
               let k = unat (used_blocks s);
                   b = (used_memory_blocks s k)\<lparr>mb_address := base_addr, mb_size := sz\<rparr>
               in (base_addr,
                   s\<lparr>used_memory_blocks := (used_memory_blocks s)(k := b),
                     used_blocks := used_blocks s + 1\<rparr>,
                   current_free_block));
          s = (if i = 0 then s\<lparr>start_address := base_addr\<rparr> else s)
      in (s, current_free_block))"

definition init_blocks :: "bootboot \<Rightarrow> pmm \<Rightarrow> pmm" where
  "init_blocks bb s = fst (fold (init_block_step bb) [0..<num_mmap_entries bb] (s, 0))"

definition physical_memory_init :: "bootboot \<Rightarrow> pmm \<Rightarrow> pmm" where
  "physical_memory_init bb s = init_blocks bb s"

text \<open>\<open>print_blocks\<close> collects the map again before it prints; its counter is a \<^verbatim>\<open>uint8_t\<close>, so with more
  than 255 free blocks the loop does not end.\<close>

partial_function (option) print_free_blocks :: "pmm \<Rightarrow> u8 \<Rightarrow> io_world \<Rightarrow> io_world option" where
  "print_free_blocks s i w =
     (if unat i < unat (free_blocks s)
      then print_free_blocks s (i + 1)
             (print_call ''Adrress: %p , size: %ld kb\<newline>'' 0x7ff4
                [VLong (mb_address (free_memory_blocks s (unat i))),
                 VLong (mb_size (free_memory_blocks s (unat i)) div 1024)] w)
      else Some w)"

definition print_blocks :: "bootboot \<Rightarrow> pmm \<times> io_world \<Rightarrow> (pmm \<times> io_world) option" where
  "print_blocks bb sw =
     (let (s, w) = sw;
          s = init_blocks bb s;
          w = print_call ''\<newline>\<newline>Total Memory = %ld kb\<newline>'' 0x045fe [VLong (total_memory s div 1024)] w
      in do { w \<leftarrow> print_free_blocks s 0 w; Some (s, w) })"

section \<open>Looking up and removing blocks\<close>

definition find_block :: "u64 \<Rightarrow> (nat \<Rightarrow> memory_block) \<Rightarrow> u64" where
  "find_block address block =
     (case first_index (\<lambda>i. mb_address (block i) = address) NUM_BLOCKS of
        Some i \<Rightarrow> mb_size (block i)
      | None \<Rightarrow> 0)"

text \<open>The loop clears every matching entry; its iterations touch different entries.\<close>

definition remove_block :: "u64 \<Rightarrow> (nat \<Rightarrow> memory_block) \<Rightarrow> (nat \<Rightarrow> memory_block)" where
  "remove_block address block =
     (\<lambda>i. if i < NUM_BLOCKS \<and> mb_address (block i) = address
          then (block i)\<lparr>mb_address := 0, mb_size := 0\<rparr> else block i)"

section \<open>Allocation\<close>

definition allocate_memory :: "u64 \<Rightarrow> pmm \<Rightarrow> u64 \<times> pmm" where
  "allocate_memory sz s =
     (case first_index (\<lambda>i. sz \<le> mb_size (free_memory_blocks s i)) (unat (free_blocks s)) of
        Some i \<Rightarrow>
          let b = free_memory_blocks s i;
              address = mb_address b
          in (address,
              s\<lparr>free_memory_blocks := (free_memory_blocks s)
                  (i := b\<lparr>mb_address := mb_address b + sz, mb_size := mb_size b - sz\<rparr>)\<rparr>)
      | None \<Rightarrow> (0, s))"

definition allocate_page :: "pmm \<Rightarrow> u64 \<times> pmm" where
  "allocate_page s = allocate_memory PAGE_SIZE s"

section \<open>Freeing\<close>

text \<open>The neighbour search counts with a \<^verbatim>\<open>uint8_t\<close>: it only ends when \<open>free_blocks\<close> is at most 255.
  \<open>None\<close> is "does not return".\<close>

record neighbours =
  front_neighbor :: u64
  back_neighbor :: u64
  f_neighbor_pos :: u8
  b_neighbor_pos :: u8

definition neighbour_step :: "pmm \<Rightarrow> u64 \<Rightarrow> u64 \<Rightarrow> u8 \<Rightarrow> neighbours \<Rightarrow> neighbours" where
  "neighbour_step s address sz i n =
     (let b = free_memory_blocks s (unat i);
          n_address = mb_address b;
          n_size = mb_size b;
          n = (if n_address + n_size + 1 = address
               then n\<lparr>front_neighbor := n_address, f_neighbor_pos := i\<rparr> else n)
      in if address + sz + 1 = n_address
         then n\<lparr>back_neighbor := n_address, b_neighbor_pos := i\<rparr> else n)"

partial_function (option) neighbour_loop ::
  "pmm \<Rightarrow> u64 \<Rightarrow> u64 \<Rightarrow> u8 \<Rightarrow> neighbours \<Rightarrow> neighbours option" where
  "neighbour_loop s address sz i n =
     (if unat i < unat (free_blocks s)
      then neighbour_loop s address sz (i + 1) (neighbour_step s address sz i n)
      else Some n)"

definition no_neighbours :: neighbours where
  "no_neighbours = \<lparr>front_neighbor = 0, back_neighbor = 0, f_neighbor_pos = 0, b_neighbor_pos = 0\<rparr>"

definition free_memory :: "u64 \<Rightarrow> pmm \<Rightarrow> pmm option" where
  "free_memory address s =
     (let sz = find_block address (used_memory_blocks s)
      in if sz = 0 then Some s
         else do {
           n \<leftarrow> neighbour_loop s address sz 0 no_neighbours;
           let removed = remove_block address (used_memory_blocks s);
           let blocks = free_memory_blocks s;
           if front_neighbor n \<noteq> 0 then
             (let k = unat (f_neighbor_pos n)
              in Some (s\<lparr>free_memory_blocks := blocks(k := (blocks k)\<lparr>mb_size := mb_size (blocks k) + sz\<rparr>),
                        used_memory_blocks := removed\<rparr>))
           else if back_neighbor n \<noteq> 0 then
             (let k = unat (b_neighbor_pos n)
              in Some (s\<lparr>free_memory_blocks := blocks(k := (blocks k)\<lparr>mb_address := address\<rparr>),
                        used_memory_blocks := removed\<rparr>))
           else
             (let k = unat (free_blocks s) + 1
              in Some (s\<lparr>free_memory_blocks :=
                           blocks(k := (blocks k)\<lparr>mb_address := address, mb_size := sz\<rparr>),
                        free_blocks := free_blocks s + 1,
                        used_memory_blocks := removed\<rparr>))
         })"

section \<open>Aligned allocation\<close>

text \<open>\<open>aligned_alloc\<close> keeps the unaligned pointer in the eight bytes before the block it returns.\<close>

definition aligned_alloc :: "u64 \<Rightarrow> u64 \<Rightarrow> pmm \<times> memory \<Rightarrow> u64 \<times> pmm \<times> memory" where
  "aligned_alloc alignment sz sm =
     (let (s, m) = sm;
          alignment = (if alignment < 8 then 8 else alignment)
      in if alignment AND (alignment - 1) \<noteq> 0 then (0, s, m)
         else
           let (original, s) = allocate_memory (sz + alignment - 1 + 8) s
           in if original = 0 then (0, s, m)
              else
                let aligned = (original + alignment - 1 + 8) AND NOT (alignment - 1)
                in (aligned, s, store64 m (aligned - 8) original))"

definition aligned_free :: "u64 \<Rightarrow> pmm \<times> memory \<Rightarrow> pmm option" where
  "aligned_free ptr sm =
     (let (s, m) = sm
      in if ptr \<noteq> 0 then free_memory (load64 m (ptr - 8)) s else Some s)"

section \<open>The free extents and their invariant\<close>

text \<open>The live part of the free table as (address, size) pairs. \<open>pmm_wf\<close>: no block starts at the
  null address or reaches the end of the address space, and blocks do not overlap.\<close>

definition free_extents :: "pmm \<Rightarrow> (u64 \<times> u64) list" where
  "free_extents s =
     map (\<lambda>i. (mb_address (free_memory_blocks s i), mb_size (free_memory_blocks s i)))
       [0..<unat (free_blocks s)]"

definition extent_ok :: "u64 \<times> u64 \<Rightarrow> bool" where
  "extent_ok e \<longleftrightarrow> fst e \<noteq> 0 \<and> unat (fst e) + unat (snd e) < 2 ^ 64"

definition extents_apart :: "u64 \<times> u64 \<Rightarrow> u64 \<times> u64 \<Rightarrow> bool" where
  "extents_apart e f \<longleftrightarrow>
     unat (fst e) + unat (snd e) \<le> unat (fst f) \<or> unat (fst f) + unat (snd f) \<le> unat (fst e)"

definition extents_wf :: "(u64 \<times> u64) list \<Rightarrow> bool" where
  "extents_wf es \<longleftrightarrow> list_all extent_ok es \<and> sorted_wrt extents_apart es"

definition pmm_wf :: "pmm \<Rightarrow> bool" where
  "pmm_wf s \<longleftrightarrow> extents_wf (free_extents s)"

definition free_bytes :: "pmm \<Rightarrow> nat set" where
  "free_bytes s = regions_bytes (free_extents s)"

lemma extents_apart_sym: "extents_apart e f \<longleftrightarrow> extents_apart f e"
  by (auto simp: extents_apart_def)

lemma length_free_extents [simp]: "length (free_extents s) = unat (free_blocks s)"
  by (simp add: free_extents_def)

lemma nth_free_extents:
  "i < unat (free_blocks s) \<Longrightarrow>
   free_extents s ! i = (mb_address (free_memory_blocks s i), mb_size (free_memory_blocks s i))"
  by (simp add: free_extents_def)

text \<open>Taking \<open>n\<close> bytes from the front of block \<open>i\<close>.\<close>

definition take_front :: "u64 \<Rightarrow> u64 \<times> u64 \<Rightarrow> u64 \<times> u64" where
  "take_front n e = (fst e + n, snd e - n)"

lemma take_front_facts:
  assumes "extent_ok e" and "n \<le> snd e"
  shows "unat (fst (take_front n e)) = unat (fst e) + unat n"
    and "unat (snd (take_front n e)) = unat (snd e) - unat n"
    and "extent_ok (take_front n e)"
proof -
  have n: "unat n \<le> unat (snd e)" using assms(2) by (simp add: word_le_nat_alt)
  with assms(1) have lt: "unat (fst e) + unat n < 2 ^ 64" by (simp add: extent_ok_def)
  then have add: "unat (fst e + n) = unat (fst e) + unat n"
    by (simp add: unat_word_ariths)
  moreover have sub: "unat (snd e - n) = unat (snd e) - unat n"
    using assms(2) by (rule unat_sub)
  moreover have "fst e + n \<noteq> 0"
    using add assms(1) by (metis add_is_0 extent_ok_def unat_eq_zero)
  ultimately show "unat (fst (take_front n e)) = unat (fst e) + unat n"
    and "unat (snd (take_front n e)) = unat (snd e) - unat n"
    and "extent_ok (take_front n e)"
    using assms(1) n by (auto simp: take_front_def extent_ok_def)
qed

lemma extents_wf_nth:
  "extents_wf es \<longleftrightarrow> (\<forall>i<length es. extent_ok (es ! i)) \<and>
     (\<forall>i<length es. \<forall>j<length es. i \<noteq> j \<longrightarrow> extents_apart (es ! i) (es ! j))"
  by (auto simp: extents_wf_def list_all_length sorted_wrt_iff_nth_less)
    (metis extents_apart_sym linorder_neqE_nat)

lemma extents_wf_take_front:
  assumes wf: "extents_wf es" and i: "i < length es" and n: "n \<le> snd (es ! i)"
  shows "extents_wf (es[i := take_front n (es ! i)])"
proof -
  let ?e = "es ! i"
  have ok: "extent_ok ?e" using wf i by (simp add: extents_wf_nth)
  note facts = take_front_facts[OF ok n]
  have shrink: "extents_apart (take_front n ?e) f" if "extents_apart ?e f" for f
    using that n unfolding extents_apart_def facts by (auto simp: word_le_nat_alt)
  show ?thesis
    unfolding extents_wf_nth
  proof (intro conjI allI impI)
    fix k assume "k < length (es[i := take_front n ?e])"
    then show "extent_ok (es[i := take_front n ?e] ! k)"
      using wf facts(3) by (cases "k = i") (auto simp: extents_wf_nth)
  next
    fix k j
    assume "k < length (es[i := take_front n ?e])" "j < length (es[i := take_front n ?e])" "k \<noteq> j"
    then show "extents_apart (es[i := take_front n ?e] ! k) (es[i := take_front n ?e] ! j)"
      using wf i shrink extents_apart_sym
      by (cases "k = i"; cases "j = i") (auto simp: extents_wf_nth)
  qed
qed

lemma remove_part:
  "E = F \<union> T \<Longrightarrow> F \<inter> T = {} \<Longrightarrow> U \<inter> E = {} \<Longrightarrow> U \<union> T = (U \<union> E) - F"
  by blast

lemma regions_bytes_take_front:
  assumes wf: "extents_wf es" and i: "i < length es" and n: "n \<le> snd (es ! i)"
  shows "regions_bytes (es[i := take_front n (es ! i)]) =
           regions_bytes es - byte_range (fst (es ! i)) n"
proof -
  let ?e = "es ! i"
  let ?B = "\<lambda>e. byte_range (fst e) (snd e)"
  have ok: "extent_ok ?e" using wf i by (simp add: extents_wf_nth)
  have split: "?B ?e = byte_range (fst ?e) n \<union> ?B (take_front n ?e)"
    and sep: "byte_range (fst ?e) n \<inter> ?B (take_front n ?e) = {}"
    using n unfolding byte_range_def take_front_facts(1,2)[OF ok n]
    by (auto simp: word_le_nat_alt)
  let ?U = "regions_bytes (take i es) \<union> regions_bytes (drop (Suc i) es)"
  have upd: "regions_bytes (es[i := f]) = ?U \<union> ?B f" for f
    using i by (simp add: upd_conv_take_nth_drop Un_ac)
  have other: "?B r \<inter> ?B ?e = {}" if "r \<in> set (take i es) \<union> set (drop (Suc i) es)" for r
  proof -
    from that obtain j where "j < length es" "j \<noteq> i" "r = es ! j"
    proof
      assume "r \<in> set (take i es)"
      then obtain k where "k < i" "r = es ! k" using i by (auto simp: in_set_conv_nth)
      then show thesis using i by (intro that[of k]) auto
    next
      assume "r \<in> set (drop (Suc i) es)"
      then obtain k where "k < length es - Suc i" "r = es ! (Suc i + k)"
        by (auto simp: in_set_conv_nth)
      then show thesis by (intro that[of "Suc i + k"]) auto
    qed
    then show ?thesis
      using wf i by (auto simp: extents_wf_nth extents_apart_def intro!: byte_range_disjoint)
  qed
  have "?U \<inter> ?B ?e = {}"
    using other by (fastforce simp: regions_bytes_def)
  then have "?U \<union> ?B (take_front n ?e) = (?U \<union> ?B ?e) - byte_range (fst ?e) n"
    by (rule remove_part[OF split sep])
  moreover have "regions_bytes es = ?U \<union> ?B ?e" using upd[of ?e] by (simp only: list_update_id)
  ultimately show ?thesis by (simp only: upd)
qed

section \<open>allocate_memory is a byte allocator\<close>

lemma allocate_memory_cases:
  assumes "allocate_memory n s = (a, s')"
  obtains (fail) "a = 0" "s' = s" "\<forall>e \<in> set (free_extents s). snd e < n"
  | (take) i where "i < unat (free_blocks s)" "n \<le> snd (free_extents s ! i)"
      "a = fst (free_extents s ! i)" "free_blocks s' = free_blocks s"
      "free_extents s' = (free_extents s)[i := take_front n (free_extents s ! i)]"
      "\<forall>j<i. snd (free_extents s ! j) < n"
proof (cases "first_index (\<lambda>i. n \<le> mb_size (free_memory_blocks s i)) (unat (free_blocks s))")
  case None
  then have "\<forall>e \<in> set (free_extents s). snd e < n"
    by (auto simp: first_index_None_iff free_extents_def not_le)
  with None show thesis
    using assms by (intro fail) (auto simp: allocate_memory_def)
next
  case (Some i)
  note facts = first_index_SomeD[OF Some]
  have s': "s' = s\<lparr>free_memory_blocks := (free_memory_blocks s)
      (i := (free_memory_blocks s i)\<lparr>mb_address := mb_address (free_memory_blocks s i) + n,
         mb_size := mb_size (free_memory_blocks s i) - n\<rparr>)\<rparr>"
    and a: "a = mb_address (free_memory_blocks s i)"
    using assms Some by (auto simp: allocate_memory_def Let_def)
  have "free_extents s' = (free_extents s)[i := take_front n (free_extents s ! i)]"
    using facts(1) by (intro nth_equalityI) (auto simp: s' nth_list_update take_front_def nth_free_extents)
  with facts a s' show thesis by (intro take[of i]) (auto simp: not_le nth_free_extents)
qed

lemma allocate_first:
  assumes es: "free_extents s = (a, z) # es" and n: "n \<le> z"
  shows "fst (allocate_memory n s) = a"
    and "free_extents (snd (allocate_memory n s)) = (a + n, z - n) # es"
proof -
  obtain b t where t: "allocate_memory n s = (b, t)" by fastforce
  then have "b = a \<and> free_extents t = (a + n, z - n) # es"
  proof (cases rule: allocate_memory_cases)
    case (take i)
    have "i = 0" using take(6) es n by (metis gr0I not_less nth_Cons_0 snd_conv)
    with take es show ?thesis by (simp add: take_front_def)
  qed (use es n in \<open>auto dest: leD\<close>)
  with t show "fst (allocate_memory n s) = a"
    and "free_extents (snd (allocate_memory n s)) = (a + n, z - n) # es" by simp_all
qed

lemma allocate_second:
  assumes es: "free_extents s = (a, z) # (b, y) # es" and n: "\<not> n \<le> z" "n \<le> y"
  shows "fst (allocate_memory n s) = b"
proof -
  obtain c t where t: "allocate_memory n s = (c, t)" by fastforce
  then have "c = b"
  proof (cases rule: allocate_memory_cases)
    case (take i)
    have "i \<noteq> 0" using take(2) es n by (cases i) auto
    moreover have "\<not> 1 < i" using take(6) es n by (metis One_nat_def not_less nth_Cons_0 nth_Cons_Suc snd_conv)
    ultimately have "i = 1" by simp
    with take(3) es show ?thesis by simp
  qed (use es n in \<open>auto dest: leD\<close>)
  with t show ?thesis by simp
qed

lemma free_bytes_extents: "free_bytes s = regions_bytes (free_extents s)"
  by (simp add: free_bytes_def)

interpretation pmm_alloc: byte_allocator allocate_memory free_bytes pmm_wf
proof unfold_locales
  fix s s' :: pmm and n a
  assume wf: "pmm_wf s"
  {
    assume "allocate_memory n s = (a, s')"
    then show "pmm_wf s'"
      by (cases rule: allocate_memory_cases)
        (use wf in \<open>auto simp: pmm_wf_def extents_wf_take_front\<close>)
  }
  {
    assume "allocate_memory n s = (0, s')"
    then show "s' = s"
    proof (cases rule: allocate_memory_cases)
      case (take i)
      then have "extent_ok (free_extents s ! i)" using wf by (simp add: pmm_wf_def extents_wf_nth)
      with take(3) show ?thesis by (simp add: extent_ok_def)
    qed simp
  }
  assume alloc: "allocate_memory n s = (a, s')" and "a \<noteq> 0"
  from alloc show "byte_range a n \<subseteq> free_bytes s"
  proof (cases rule: allocate_memory_cases)
    case (take i)
    have "free_extents s ! i \<in> set (free_extents s)" using take(1) by simp
    then have "byte_range (fst (free_extents s ! i)) (snd (free_extents s ! i)) \<subseteq> free_bytes s"
      unfolding free_bytes_def by (rule byte_range_subset_regions)
    then show ?thesis using take(2,3) by (auto simp: byte_range_def word_le_nat_alt)
  qed (use \<open>a \<noteq> 0\<close> in simp)
  from alloc show "free_bytes s' = free_bytes s - byte_range a n"
  proof (cases rule: allocate_memory_cases)
    case (take i)
    then show ?thesis
      using wf regions_bytes_take_front[of "free_extents s" i n]
      by (simp add: free_bytes_def pmm_wf_def)
  qed (use \<open>a \<noteq> 0\<close> in simp)
qed

section \<open>What init_blocks builds\<close>

definition ent_free :: "mmap_ent \<Rightarrow> bool" where
  "ent_free e \<longleftrightarrow> MMapEnt_Type e = 1"

definition ent_range :: "mmap_ent \<Rightarrow> u64 \<times> u64" where
  "ent_range e = (MMapEnt_Ptr e, MMapEnt_Size e)"

definition free_extent :: "mmap_ent \<Rightarrow> u64 \<times> u64" where
  "free_extent e =
     (if MMapEnt_Ptr e = 0 then (1, MMapEnt_Size e - 1) else (MMapEnt_Ptr e, MMapEnt_Size e))"

text \<open>What the loader documents of its map: regions are not empty, end below the top of the address
  space and do not overlap. The last conjunct keeps the 16-bit counters of the kernel from
  wrapping; a map that fits the loader's page has at most 248 entries.\<close>

definition mmap_wf :: "bootboot \<Rightarrow> bool" where
  "mmap_wf bb \<longleftrightarrow>
     list_all (\<lambda>e. MMapEnt_Size e \<noteq> 0 \<and> unat (MMapEnt_Ptr e) + unat (MMapEnt_Size e) < 2 ^ 64)
       (mmap_entries bb) \<and>
     sorted_wrt (\<lambda>e f. extents_apart (ent_range e) (ent_range f)) (mmap_entries bb) \<and>
     num_mmap_entries bb < NUM_BLOCKS"

definition map_free_extents :: "bootboot \<Rightarrow> (u64 \<times> u64) list" where
  "map_free_extents bb = map free_extent (filter ent_free (mmap_entries bb))"

lemma MMapEnt_Type_less: "unat (MMapEnt_Type e) < 16"
proof -
  have "MMapEnt_Type e \<le> 0xF" unfolding MMapEnt_Type_def by (rule word_and_le1)
  then show ?thesis by (simp add: word_le_nat_alt)
qed

lemma type_u32_free [simp]: "unat (ucast (MMapEnt_Type e) :: u32) = MMAP_FREE \<longleftrightarrow> ent_free e"
proof -
  have "unat (ucast (MMapEnt_Type e) :: u32) = unat (MMapEnt_Type e)"
    using MMapEnt_Type_less[of e] by (simp add: unsigned_ucast_eq take_bit_nat_eq_self)
  then show ?thesis by (simp add: MMAP_FREE_def ent_free_def unat_eq_1_iff)
qed

lemma init_step_extents:
  assumes "unat (free_blocks s) + 1 < 2 ^ 16"
  shows "free_extents (fst (init_block_step bb i (s, c))) =
           free_extents s @ (if ent_free (bb_mmap bb i) then [free_extent (bb_mmap bb i)] else [])"
    and "unat (free_blocks (fst (init_block_step bb i (s, c)))) =
           unat (free_blocks s) + (if ent_free (bb_mmap bb i) then 1 else 0)"
proof -
  have inc: "unat (free_blocks s + 1) = Suc (unat (free_blocks s))"
    using assms by (simp add: unat_word_ariths)
  show "free_extents (fst (init_block_step bb i (s, c))) =
           free_extents s @ (if ent_free (bb_mmap bb i) then [free_extent (bb_mmap bb i)] else [])"
    by (auto simp: init_block_step_def Let_def free_extents_def inc free_extent_def)
  show "unat (free_blocks (fst (init_block_step bb i (s, c)))) =
           unat (free_blocks s) + (if ent_free (bb_mmap bb i) then 1 else 0)"
    by (auto simp: init_block_step_def Let_def inc)
qed

lemma init_fold_extents:
  assumes "unat (free_blocks s) + k < 2 ^ 16"
  shows "free_extents (fst (fold (init_block_step bb) [0..<k] (s, c))) =
           free_extents s @ map free_extent (filter ent_free (map (bb_mmap bb) [0..<k])) \<and>
         unat (free_blocks (fst (fold (init_block_step bb) [0..<k] (s, c)))) \<le>
           unat (free_blocks s) + k"
  using assms
proof (induction k)
  case 0
  then show ?case by simp
next
  case (Suc k)
  obtain t d where t: "fold (init_block_step bb) [0..<k] (s, c) = (t, d)" by fastforce
  have lt: "unat (free_blocks t) + 1 < 2 ^ 16" using Suc t by simp
  show ?case
    using Suc t init_step_extents[OF lt, of bb k d] by auto
qed

lemma init_blocks_extents:
  assumes "unat (free_blocks s) + num_mmap_entries bb < 2 ^ 16"
  shows "free_extents (init_blocks bb s) = free_extents s @ map_free_extents bb"
  using init_fold_extents[OF assms, of bb 0]
  by (simp add: init_blocks_def map_free_extents_def mmap_entries_def)

lemma free_extents_bss [simp]: "free_extents pmm_bss = []"
  by (simp add: free_extents_def pmm_bss_def)

lemma free_blocks_bss [simp]: "free_blocks pmm_bss = 0"
  by (simp add: pmm_bss_def)

lemma mmap_wf_num: "mmap_wf bb \<Longrightarrow> num_mmap_entries bb < 2 ^ 16"
  by (simp add: mmap_wf_def NUM_BLOCKS_def)

lemma boot_extents:
  "mmap_wf bb \<Longrightarrow> free_extents (init_blocks bb pmm_bss) = map_free_extents bb"
  using init_blocks_extents[of pmm_bss bb] mmap_wf_num[of bb] by simp

text \<open>A free extent lies inside its entry, and has lost at most the null address.\<close>

lemma free_extent_facts:
  assumes "MMapEnt_Size e \<noteq> 0" and "unat (MMapEnt_Ptr e) + unat (MMapEnt_Size e) < 2 ^ 64"
  shows "extent_ok (free_extent e)"
    and "unat (fst (ent_range e)) \<le> unat (fst (free_extent e))"
    and "unat (fst (free_extent e)) + unat (snd (free_extent e)) =
      unat (fst (ent_range e)) + unat (snd (ent_range e))"
proof -
  have pos: "0 < unat (MMapEnt_Size e)" using assms(1) by (simp add: unat_gt_0)
  then have "unat (MMapEnt_Size e - 1) = unat (MMapEnt_Size e) - 1"
    using assms(1) by (simp add: unat_minus_one)
  then show "extent_ok (free_extent e)"
    and "unat (fst (ent_range e)) \<le> unat (fst (free_extent e))"
    and "unat (fst (free_extent e)) + unat (snd (free_extent e)) =
      unat (fst (ent_range e)) + unat (snd (ent_range e))"
    using assms pos by (auto simp: free_extent_def extent_ok_def ent_range_def)
qed

lemma map_free_extents_wf:
  assumes wf: "mmap_wf bb"
  shows "extents_wf (map_free_extents bb)"
proof -
  let ?es = "filter ent_free (mmap_entries bb)"
  let ?R = "\<lambda>e f. extents_apart (ent_range e) (ent_range f)"
  have ok: "MMapEnt_Size e \<noteq> 0 \<and> unat (MMapEnt_Ptr e) + unat (MMapEnt_Size e) < 2 ^ 64"
    if "e \<in> set ?es" for e
    using wf that by (auto simp: mmap_wf_def list_all_iff)
  have "sorted_wrt ?R ?es" using wf by (auto simp: mmap_wf_def intro: sorted_wrt_filter)
  then have "sorted_wrt (\<lambda>e f. extents_apart (free_extent e) (free_extent f)) ?es"
  proof (rule sorted_wrt_mono_rel[rotated])
    fix e f assume e: "e \<in> set ?es" and f: "f \<in> set ?es" and "?R e f"
    then show "extents_apart (free_extent e) (free_extent f)"
      using free_extent_facts(2,3)[of e] free_extent_facts(2,3)[of f] ok[OF e] ok[OF f]
      by (auto simp: extents_apart_def)
  qed
  moreover have "list_all extent_ok (map free_extent ?es)"
    using ok free_extent_facts(1) by (auto simp: list_all_iff)
  ultimately show ?thesis
    by (simp add: extents_wf_def map_free_extents_def sorted_wrt_map)
qed

lemma boot_pmm_wf: "mmap_wf bb \<Longrightarrow> pmm_wf (init_blocks bb pmm_bss)"
  by (simp add: pmm_wf_def boot_extents map_free_extents_wf)

lemma boot_free_bytes:
  "mmap_wf bb \<Longrightarrow> free_bytes (init_blocks bb pmm_bss) = regions_bytes (map_free_extents bb)"
  by (simp add: free_bytes_def boot_extents)

text \<open>A two-region memory map for the witnesses: free memory at 1 MiB and a device above it.\<close>

definition sample_map :: "nat \<Rightarrow> mmap_ent" where
  "sample_map i =
     (if i = 0 then \<lparr>ent_ptr = 0x100000, ent_size = 0x4001\<rparr>
      else \<lparr>ent_ptr = 0xFEE00000, ent_size = 0x1003\<rparr>)"

definition sample_boot :: bootboot where
  "sample_boot = \<lparr>bb_magic = [0x42, 0x4F, 0x4F, 0x54], bb_size = 160, bb_protocol = 1, bb_fb_type = 0,
     bb_numcores = 1, bb_bspid = 0, bb_timezone = 0, bb_datetime = [], bb_initrd_ptr = 0,
     bb_initrd_size = 0, bb_fb_ptr = 0xFC000000, bb_fb_size = 0x1D4C00, bb_fb_width = 800,
     bb_fb_height = 600, bb_fb_scanline = 3200, bb_acpi_ptr = 0xE0000, bb_smbi_ptr = 0,
     bb_efi_ptr = 0, bb_mp_ptr = 0, bb_mmap = sample_map\<rparr>"

lemma sample_entries:
  "num_mmap_entries sample_boot = 2"
  "mmap_entries sample_boot = [sample_map 0, sample_map 1]"
proof -
  show "num_mmap_entries sample_boot = 2"
    by (simp add: num_mmap_entries_def sample_boot_def)
  then show "mmap_entries sample_boot = [sample_map 0, sample_map 1]"
    by (simp add: mmap_entries_def sample_boot_def upt_rec)
qed

lemma sample_mmap_wf: "mmap_wf sample_boot"
  by (simp add: mmap_wf_def sample_entries)
    (simp add: sample_map_def MMapEnt_Size_def MMapEnt_Ptr_def ent_range_def extents_apart_def NUM_BLOCKS_def)

lemma sample_free_extents: "map_free_extents sample_boot = [(0x100000, 0x4000)]"
  by (simp add: map_free_extents_def sample_entries)
    (simp add: sample_map_def ent_free_def free_extent_def MMapEnt_Type_def MMapEnt_Ptr_def MMapEnt_Size_def)

section \<open>Freeing: when it returns and what it gives back\<close>

lemma neighbour_loop_step:
  "neighbour_loop s a z i n =
     (if unat i < unat (free_blocks s)
      then neighbour_loop s a z (i + 1) (neighbour_step s a z i n) else Some n)"
  by (rule neighbour_loop.simps)

lemma neighbour_loop_returns:
  assumes "unat (free_blocks s) \<le> 255"
  shows "\<exists>n'. neighbour_loop s a z i n = Some n'"
proof (induction "256 - unat i" arbitrary: i n rule: less_induct)
  case less
  show ?case
  proof (cases "unat i < unat (free_blocks s)")
    case True
    with assms have "unat (i + 1) = unat i + 1" by (simp add: unat_word_ariths)
    moreover have "unat i < 255" using True assms by simp
    ultimately have "256 - unat (i + 1) < 256 - unat i" by simp
    from less[OF this] True show ?thesis by (subst neighbour_loop_step) simp
  qed (simp add: neighbour_loop_step[of s a z i n])
qed

lemma neighbour_loop_Some_bound:
  assumes "neighbour_loop s a z i n = Some r"
  shows "unat (free_blocks s) \<le> 255"
proof (rule neighbour_loop.raw_induct[where P = "\<lambda>s a z i n r. unat (free_blocks s) \<le> 255", OF _ assms])
  fix f s a z i n r
  assume IH: "\<And>s a z i n r. f s a z i n = Some r \<Longrightarrow> unat (free_blocks s) \<le> 255"
    and eq: "(if unat i < unat (free_blocks s)
       then f s a z (i + 1) (neighbour_step s a z i n) else Some n) = Some r"
  have "unat i < 2 ^ LENGTH(8)" by (rule unsigned_less)
  then have "unat i \<le> 255" by simp
  then show "unat (free_blocks s) \<le> 255"
    using IH eq by (cases "unat i < unat (free_blocks s)") auto
qed

text \<open>No free block touches the freed one, in the sense of the comparisons of the code.\<close>

definition no_match :: "pmm \<Rightarrow> u64 \<Rightarrow> u64 \<Rightarrow> bool" where
  "no_match s a z \<longleftrightarrow>
     list_all (\<lambda>(n_address, n_size). n_address + n_size + 1 \<noteq> a \<and> a + z + 1 \<noteq> n_address)
       (free_extents s)"

lemma neighbour_loop_no_match:
  assumes "no_match s a z" and "neighbour_loop s a z i n = Some r"
  shows "r = n"
proof (rule neighbour_loop.raw_induct
    [where P = "\<lambda>s a z i n r. no_match s a z \<longrightarrow> r = n", OF _ assms(2), THEN mp, OF _ assms(1)])
  fix f s a z i n r
  assume IH: "\<And>s a z i n r. f s a z i n = Some r \<Longrightarrow> no_match s a z \<longrightarrow> r = n"
    and eq: "(if unat i < unat (free_blocks s)
       then f s a z (i + 1) (neighbour_step s a z i n) else Some n) = Some r"
  show "no_match s a z \<longrightarrow> r = n"
  proof
    assume nm: "no_match s a z"
    show "r = n"
    proof (cases "unat i < unat (free_blocks s)")
      case True
      then have "neighbour_step s a z i n = n"
        using nm by (auto simp: no_match_def list_all_length nth_free_extents neighbour_step_def Let_def)
      with True eq IH nm show ?thesis by simp
    qed (use eq in simp)
  qed
qed

lemma free_memory_unknown:
  assumes "\<And>i. i < NUM_BLOCKS \<Longrightarrow> mb_address (used_memory_blocks s i) \<noteq> a"
  shows "free_memory a s = Some s"
proof -
  have "first_index (\<lambda>i. mb_address (used_memory_blocks s i) = a) NUM_BLOCKS = None"
    using assms by (simp add: first_index_None_iff)
  then show ?thesis by (simp add: free_memory_def find_block_def)
qed

lemma allocate_memory_used [simp]:
  "allocate_memory n s = (a, s') \<Longrightarrow> used_memory_blocks s' = used_memory_blocks s"
  by (auto simp: allocate_memory_def Let_def split: option.splits)

lemma run_allocs_used:
  "run_allocs allocate_memory ns s = (rs, s') \<Longrightarrow> used_memory_blocks s' = used_memory_blocks s"
  by (induction ns arbitrary: s rs s') (auto simp: Let_def split: prod.splits)

text \<open>The used table after booting holds the bases of the entries that are not free, and zeros.\<close>

lemma init_step_used:
  assumes "unat (used_blocks s) + 1 < 2 ^ 16"
  shows "used_memory_blocks (fst (init_block_step bb i (s, c))) k =
      (if \<not> ent_free (bb_mmap bb i) \<and> k = unat (used_blocks s)
       then (used_memory_blocks s k)\<lparr>mb_address := MMapEnt_Ptr (bb_mmap bb i),
              mb_size := MMapEnt_Size (bb_mmap bb i)\<rparr>
       else used_memory_blocks s k)"
    and "unat (used_blocks (fst (init_block_step bb i (s, c)))) \<le> unat (used_blocks s) + 1"
proof -
  have inc: "unat (used_blocks s + 1) = Suc (unat (used_blocks s))"
    using assms by (simp add: unat_word_ariths)
  show "used_memory_blocks (fst (init_block_step bb i (s, c))) k =
      (if \<not> ent_free (bb_mmap bb i) \<and> k = unat (used_blocks s)
       then (used_memory_blocks s k)\<lparr>mb_address := MMapEnt_Ptr (bb_mmap bb i),
              mb_size := MMapEnt_Size (bb_mmap bb i)\<rparr>
       else used_memory_blocks s k)"
    by (auto simp: init_block_step_def Let_def)
  show "unat (used_blocks (fst (init_block_step bb i (s, c)))) \<le> unat (used_blocks s) + 1"
    by (auto simp: init_block_step_def Let_def inc)
qed

lemma init_fold_used:
  assumes "n < 2 ^ 16"
  shows "unat (used_blocks (fst (fold (init_block_step bb) [0..<n] (pmm_bss, c)))) \<le> n \<and>
    (\<forall>k. mb_address (used_memory_blocks (fst (fold (init_block_step bb) [0..<n] (pmm_bss, c))) k) = 0
      \<or> (\<exists>i<n. \<not> ent_free (bb_mmap bb i) \<and>
          mb_address (used_memory_blocks (fst (fold (init_block_step bb) [0..<n] (pmm_bss, c))) k) =
            MMapEnt_Ptr (bb_mmap bb i)))"
  using assms
proof (induction n)
  case 0
  then show ?case by (simp add: pmm_bss_def zero_block_def)
next
  case (Suc n)
  obtain t d where t: "fold (init_block_step bb) [0..<n] (pmm_bss, c) = (t, d)" by fastforce
  have lt: "unat (used_blocks t) + 1 < 2 ^ 16" using Suc t by simp
  show ?case
    using Suc t init_step_used[OF lt, of bb n d] by (auto simp: less_Suc_eq)
qed

lemma boot_used_base:
  assumes "mmap_wf bb"
  shows "mb_address (used_memory_blocks (init_blocks bb pmm_bss) k) = 0 \<or>
    (\<exists>e \<in> set (mmap_entries bb). \<not> ent_free e \<and>
       mb_address (used_memory_blocks (init_blocks bb pmm_bss) k) = MMapEnt_Ptr e)"
  using init_fold_used[OF mmap_wf_num[OF assms], of bb 0]
  by (fastforce simp: init_blocks_def mmap_entries_def)

lemma free_and_reserved_apart:
  assumes wf: "mmap_wf bb" and e: "e \<in> set (mmap_entries bb)" "\<not> ent_free e"
    and a: "unat a \<in> regions_bytes (map_free_extents bb)"
  shows "MMapEnt_Ptr e \<noteq> a"
proof
  assume eq: "MMapEnt_Ptr e = a"
  have ok: "MMapEnt_Size x \<noteq> 0" "unat (MMapEnt_Ptr x) + unat (MMapEnt_Size x) < 2 ^ 64"
    if "x \<in> set (mmap_entries bb)" for x
    using wf that by (auto simp: mmap_wf_def list_all_iff)
  from a obtain f where f: "f \<in> set (mmap_entries bb)" "ent_free f"
    and af: "unat a \<in> byte_range (fst (free_extent f)) (snd (free_extent f))"
    by (auto simp: in_regions_bytes map_free_extents_def)
  from e f have ne: "e \<noteq> f" by blast
  have "extents_apart (ent_range e) (ent_range f)"
  proof -
    obtain i j where ij: "i < length (mmap_entries bb)" "j < length (mmap_entries bb)"
      "e = mmap_entries bb ! i" "f = mmap_entries bb ! j" "i \<noteq> j"
      using e(1) f(1) ne by (metis in_set_conv_nth)
    have sw: "sorted_wrt (\<lambda>e f. extents_apart (ent_range e) (ent_range f)) (mmap_entries bb)"
      using wf by (simp add: mmap_wf_def)
    show ?thesis
    proof (cases "i < j")
      case True
      then show ?thesis using ij sorted_wrt_nth_less[OF sw] by simp
    next
      case False
      then have "j < i" using ij(5) by simp
      then show ?thesis
        using ij sorted_wrt_nth_less[OF sw, of j i] extents_apart_sym by blast
    qed
  qed
  moreover have "0 < unat (MMapEnt_Size e)" using ok(1)[OF e(1)] by (simp add: unat_gt_0)
  ultimately show False
    using af eq free_extent_facts(2,3)[OF ok[OF f(1)]]
    by (auto simp: extents_apart_def byte_range_def ent_range_def)
qed

section \<open>Properties\<close>

lemma boot_allocations_within:
  assumes "mmap_wf bb"
    and "run_allocs allocate_memory ns (init_blocks bb pmm_bss) = (rs, s')"
  shows "regions_bytes rs \<subseteq> regions_bytes (map_free_extents bb)"
  using pmm_alloc.run_takes[OF boot_pmm_wf[OF assms(1)] assms(2)] boot_free_bytes[OF assms(1)] by auto

lemma boot_allocations_disjoint_facts:
  assumes "mmap_wf bb"
    and "run_allocs allocate_memory ns (init_blocks bb pmm_bss) = (rs, s')"
  shows "sorted_wrt disjoint_regions rs"
    and "regions_bytes rs \<subseteq> regions_bytes (map_free_extents bb)"
  using pmm_alloc.run_disjoint[OF boot_pmm_wf[OF assms(1)] assms(2)] boot_allocations_within[OF assms]
  by auto

text \<open>C1: From boot on, the allocator hands out disjoint memory. For every memory map the loader may
  pass and every sequence of requests, the regions returned by \<open>allocate_memory\<close> after
  \<open>init_blocks\<close> do not overlap one another and lie inside the free entries of the map.\<close>

theorem boot_allocations_disjoint:
  assumes "mmap_wf bb"
    and "run_allocs allocate_memory ns (init_blocks bb pmm_bss) = (rs, s')"
  shows "sorted_wrt disjoint_regions rs \<and>
    regions_bytes rs \<subseteq> regions_bytes (map_free_extents bb)"
  using boot_allocations_disjoint_facts[OF assms] by blast

theorem boot_allocations_disjoint_witness:
  "sorted_wrt disjoint_regions
     (fst (run_allocs allocate_memory [0x1000, 0x800] (init_blocks sample_boot pmm_bss))) \<and>
   length (fst (run_allocs allocate_memory [0x1000, 0x800] (init_blocks sample_boot pmm_bss))) = 2"
proof
  show "sorted_wrt disjoint_regions
     (fst (run_allocs allocate_memory [0x1000, 0x800] (init_blocks sample_boot pmm_bss)))"
    using conjunct1[OF boot_allocations_disjoint[OF sample_mmap_wf surjective_pairing]] .
  show "length (fst (run_allocs allocate_memory [0x1000, 0x800] (init_blocks sample_boot pmm_bss))) = 2"
  proof -
    let ?s = "init_blocks sample_boot pmm_bss"
    let ?t = "snd (allocate_memory 0x1000 ?s)"
    note es = boot_extents[OF sample_mmap_wf, unfolded sample_free_extents]
    have 1: "fst (allocate_memory 0x1000 ?s) = 0x100000" "free_extents ?t = [(0x101000, 0x3000)]"
      using allocate_first[OF es, where n = "0x1000"] by simp_all
    have "fst (allocate_memory 0x800 ?t) = 0x101000"
      using allocate_first[OF 1(2), where n = "0x800"] by simp
    with 1 show ?thesis by (simp add: split_beta Let_def)
  qed
qed

lemma allocate_memory_spec_facts:
  assumes "pmm_wf s" and "allocate_memory n s = (a, s')"
  shows "pmm_wf s'"
    and "(if a = 0 then s' = s \<and> list_all (\<lambda>e. snd e < n) (free_extents s)
          else byte_range a n \<subseteq> free_bytes s \<and> free_bytes s' = free_bytes s - byte_range a n)"
proof -
  show "pmm_wf s'" using assms by (rule pmm_alloc.alloc_inv)
  have "list_all (\<lambda>e. snd e < n) (free_extents s)" if "a = 0"
    using assms(2)
  proof (cases rule: allocate_memory_cases)
    case (take i)
    then have "extent_ok (free_extents s ! i)" using assms(1) by (simp add: pmm_wf_def extents_wf_nth)
    with take(3) that show ?thesis by (simp add: extent_ok_def)
  qed (simp add: list_all_iff)
  then show "(if a = 0 then s' = s \<and> list_all (\<lambda>e. snd e < n) (free_extents s)
          else byte_range a n \<subseteq> free_bytes s \<and> free_bytes s' = free_bytes s - byte_range a n)"
    using pmm_alloc.alloc_within[OF assms] pmm_alloc.alloc_takes[OF assms]
      pmm_alloc.alloc_fail[OF assms(1), of n s'] assms(2) by auto
qed

text \<open>C11: The allocation step itself. A request that is met takes its bytes from the free ones and
  nothing else; a request that is not met (null result) leaves the allocator as it was, and is
  refused only when every free block is too small.\<close>

theorem allocate_memory_spec:
  assumes "pmm_wf s" and "allocate_memory n s = (a, s')"
  shows "pmm_wf s' \<and>
    ((if a = 0 then s' = s \<and> list_all (\<lambda>e. snd e < n) (free_extents s)
          else byte_range a n \<subseteq> free_bytes s \<and> free_bytes s' = free_bytes s - byte_range a n))"
  using allocate_memory_spec_facts[OF assms] by blast

theorem allocate_memory_spec_witness:
  "pmm_wf (snd (allocate_memory 0x1000 (init_blocks sample_boot pmm_bss)))"
  by (rule conjunct1[OF allocate_memory_spec[OF boot_pmm_wf[OF sample_mmap_wf] surjective_pairing]])

text \<open>Freeing allocated memory does nothing. \<open>allocate_memory\<close> never records a block in the used
  table, which after boot holds only the reserved entries of the map, so for every block allocated
  in any run, \<open>free_memory\<close> returns and leaves the allocator unchanged: no memory ever returns to
  the free list.\<close>

theorem boot_free_is_noop:
  assumes "mmap_wf bb"
    and "run_allocs allocate_memory ns (init_blocks bb pmm_bss) = (rs, s')"
    and "(a, n) \<in> set rs" and "n \<noteq> 0"
  shows "free_memory a s' = Some s'"
proof (rule free_memory_unknown)
  fix i assume "i < NUM_BLOCKS"
  have "0 < unat n" using assms(4) by (simp add: unat_gt_0)
  then have "unat a \<in> byte_range a n" by (simp add: byte_range_def)
  moreover have "byte_range a n \<subseteq> regions_bytes (map_free_extents bb)"
    using boot_allocations_within[OF assms(1,2)] byte_range_subset_regions[OF assms(3)] by auto
  ultimately have a: "unat a \<in> regions_bytes (map_free_extents bb)" by blast
  have "a \<noteq> 0"
  proof
    assume "a = 0"
    with a have "\<not> list_all extent_ok (map_free_extents bb)"
      by (force simp: in_regions_bytes byte_range_def list_all_iff extent_ok_def unat_eq_zero)
    with map_free_extents_wf[OF assms(1)] show False by (simp add: extents_wf_def)
  qed
  with boot_used_base[OF assms(1), of i] free_and_reserved_apart[OF assms(1) _ _ a]
  show "mb_address (used_memory_blocks s' i) \<noteq> a"
    unfolding run_allocs_used[OF assms(2)] by metis
qed

theorem boot_free_is_noop_witness:
  "let (rs, s') = run_allocs allocate_memory [0x1000] (init_blocks sample_boot pmm_bss)
   in free_memory (fst (hd rs)) s' = Some s'"
proof -
  have rs: "fst (run_allocs allocate_memory [0x1000] (init_blocks sample_boot pmm_bss)) =
      [(0x100000, 0x1000)]"
    using allocate_first[OF boot_extents[OF sample_mmap_wf, unfolded sample_free_extents], where n = "0x1000"]
    by (simp add: split_beta Let_def)
  show ?thesis
    using boot_free_is_noop[OF sample_mmap_wf surjective_pairing, where a = "0x100000" and n = "0x1000" and ns = "[0x1000]"] rs
    by (simp add: split_beta)
qed

lemma second_init_duplicates_facts:
  assumes "mmap_wf bb"
  shows "free_extents (init_blocks bb (init_blocks bb pmm_bss)) =
           map_free_extents bb @ map_free_extents bb"
    and "map_free_extents bb = [(a, n)] \<Longrightarrow> n \<noteq> 0 \<Longrightarrow>
      fst (run_allocs allocate_memory [n, n] (init_blocks bb (init_blocks bb pmm_bss))) =
        [(a, n), (a, n)]"
proof -
  let ?s = "init_blocks bb (init_blocks bb pmm_bss)"
  have num: "num_mmap_entries bb < NUM_BLOCKS" using assms by (simp add: mmap_wf_def)
  have "unat (free_blocks (init_blocks bb pmm_bss)) \<le> num_mmap_entries bb"
    using init_fold_extents[of pmm_bss "num_mmap_entries bb" bb 0] mmap_wf_num[OF assms]
    by (simp add: init_blocks_def)
  with num have "unat (free_blocks (init_blocks bb pmm_bss)) + num_mmap_entries bb < 2 ^ 16"
    by (simp add: NUM_BLOCKS_def)
  then show es: "free_extents ?s = map_free_extents bb @ map_free_extents bb"
    by (simp add: init_blocks_extents boot_extents[OF assms])
  assume one: "map_free_extents bb = [(a, n)]" and n: "n \<noteq> 0"
  with es have e1: "free_extents ?s = (a, n) # [(a, n)]" by simp
  have a: "a \<noteq> 0"
    using map_free_extents_wf[OF assms] one by (simp add: extents_wf_def extent_ok_def)
  note first = allocate_first[OF e1 order_refl]
  have "fst (allocate_memory n (snd (allocate_memory n ?s))) = a"
    using n first(2) by (intro allocate_second[of _ "a + n" "n - n" a n "[]"]) (auto simp: word_le_nat_alt unat_eq_zero)
  with first(1) a show "fst (run_allocs allocate_memory [n, n] ?s) = [(a, n), (a, n)]"
    by (simp add: split_beta Let_def)
qed

text \<open>\<open>init_blocks\<close> appends; it does not start over. The kernel's entry point runs on every core
  and \<open>print_blocks\<close> calls it again: after a second call every free region is listed twice, and
  on a map with one free region two requests of its size both succeed with the same address.\<close>

theorem second_init_duplicates:
  assumes "mmap_wf bb"
  shows "free_extents (init_blocks bb (init_blocks bb pmm_bss)) =
      map_free_extents bb @ map_free_extents bb \<and>
    (\<forall>a n. map_free_extents bb = [(a, n)] \<longrightarrow> n \<noteq> 0 \<longrightarrow>
      fst (run_allocs allocate_memory [n, n] (init_blocks bb (init_blocks bb pmm_bss))) =
        [(a, n), (a, n)])"
  using second_init_duplicates_facts[OF assms] by blast

theorem second_init_duplicates_witness:
  "fst (run_allocs allocate_memory [0x4000, 0x4000]
     (init_blocks sample_boot (init_blocks sample_boot pmm_bss))) =
     [(0x100000, 0x4000), (0x100000, 0x4000)]"
  using second_init_duplicates[OF sample_mmap_wf] sample_free_extents by simp

text \<open>C36: When \<open>free_memory\<close> returns. The neighbour search counts in eight bits, so a call that
  reaches it comes back exactly when at most 255 blocks are listed; with more it never ends.\<close>

theorem free_memory_returns_iff:
  "(\<exists>s'. free_memory a s = Some s') \<longleftrightarrow>
     find_block a (used_memory_blocks s) = 0 \<or> unat (free_blocks s) \<le> 255"
proof (cases "find_block a (used_memory_blocks s) = 0")
  case False
  let ?r = "neighbour_loop s a (find_block a (used_memory_blocks s)) 0 no_neighbours"
  have "(\<exists>s'. free_memory a s = Some s') \<longleftrightarrow> ?r \<noteq> None"
    using False by (cases ?r) (auto simp: free_memory_def Let_def)
  also have "\<dots> \<longleftrightarrow> unat (free_blocks s) \<le> 255"
    using neighbour_loop_returns neighbour_loop_Some_bound by fastforce
  finally show ?thesis using False by simp
qed (simp add: free_memory_def)

text \<open>A freed block that touches no free block is lost. The code writes it to slot
  \<open>free_blocks + 1\<close> and then counts one block more, so the slot that becomes live is the stale one
  before it: the bytes of a block taken off the used list do not become free.\<close>

theorem free_memory_loses_block:
  assumes "find_block a (used_memory_blocks s) = z" and "z \<noteq> 0" and "no_match s a z"
    and "unat (free_blocks s) \<le> 255" and "free_memory_blocks s (unat (free_blocks s)) = zero_block"
  shows "\<exists>s'. free_memory a s = Some s' \<and> free_extents s' = free_extents s @ [(0, 0)] \<and>
    free_bytes s' = free_bytes s \<and>
    used_memory_blocks s' = remove_block a (used_memory_blocks s)"
proof -
  obtain n where n: "neighbour_loop s a z 0 no_neighbours = Some n"
    using neighbour_loop_returns[OF assms(4)] by blast
  then have "n = no_neighbours" by (rule neighbour_loop_no_match[OF assms(3)])
  with n have loop: "neighbour_loop s a z 0 no_neighbours = Some no_neighbours" by simp
  let ?k = "unat (free_blocks s) + 1"
  let ?s = "s\<lparr>free_memory_blocks := (free_memory_blocks s)
      (?k := (free_memory_blocks s ?k)\<lparr>mb_address := a, mb_size := z\<rparr>),
      free_blocks := free_blocks s + 1,
      used_memory_blocks := remove_block a (used_memory_blocks s)\<rparr>"
  have "free_memory a s = Some ?s"
    using assms(1,2) loop by (simp add: free_memory_def Let_def no_neighbours_def)
  moreover have "free_extents ?s = free_extents s @ [(0, 0)]"
  proof -
    have "unat (free_blocks s + 1) = Suc (unat (free_blocks s))"
      using assms(4) by (simp add: unat_word_ariths)
    then show ?thesis using assms(5) by (simp add: free_extents_def zero_block_def)
  qed
  ultimately show ?thesis
    by (intro exI[of _ ?s]) (simp add: free_bytes_def)
qed

text \<open>A state with one free block at 16 MiB and one used block elsewhere.\<close>

definition sample_pmm :: pmm where
  "sample_pmm = pmm_bss\<lparr>free_blocks := 1, used_blocks := 1,
     free_memory_blocks := (\<lambda>_. zero_block)
       (0 := \<lparr>mb_address = 0x1000000, mb_size = 0x8000, mb_next_block = 0\<rparr>),
     used_memory_blocks := (\<lambda>_. zero_block)
       (0 := \<lparr>mb_address = 0x2000000, mb_size = 0x1000, mb_next_block = 0\<rparr>)\<rparr>"

lemma sample_find_block: "find_block 0x2000000 (used_memory_blocks sample_pmm) = 0x1000"
proof -
  have "first_index (\<lambda>i. mb_address (used_memory_blocks sample_pmm i) = 0x2000000) NUM_BLOCKS = Some 0"
    by (simp add: first_index_Some_iff sample_pmm_def NUM_BLOCKS_def)
  then show ?thesis by (simp add: find_block_def sample_pmm_def)
qed

theorem free_memory_loses_block_witness:
  "\<exists>s'. free_memory 0x2000000 sample_pmm = Some s' \<and> free_bytes s' = free_bytes sample_pmm"
  using free_memory_loses_block[OF sample_find_block]
  by (fastforce simp: sample_pmm_def no_match_def free_extents_def pmm_bss_def)

lemma allocate_memory_bound:
  assumes "pmm_wf s" and "allocate_memory n s = (a, s')" and "a \<noteq> 0"
  shows "unat a + unat n < 2 ^ 64"
  using assms(2)
proof (cases rule: allocate_memory_cases)
  case (take i)
  then have "extent_ok (free_extents s ! i)" using assms(1) by (simp add: pmm_wf_def extents_wf_nth)
  with take(2,3) show ?thesis by (simp add: extent_ok_def word_le_nat_alt)
qed (use assms(3) in simp)

lemma aligned_place:
  fixes original al sz :: u64
  assumes "8 \<le> unat al" and "unat sz + unat al + 7 < 2 ^ 64"
    and "unat original + unat (sz + al - 1 + 8) < 2 ^ 64"
  defines "p \<equiv> (original + al - 1 + 8) AND NOT (al - 1)"
  shows "unat original + 8 \<le> unat p" and "unat p + unat sz \<le> unat original + unat (sz + al - 1 + 8)"
proof -
  have "sz + al - 1 + 8 = sz + al + 7" by simp
  then have n: "unat (sz + al - 1 + 8) = unat sz + unat al + 7"
    using assms(2) by (simp add: unat_word_ariths)
  have "original + al - 1 + 8 = original + al + 7" by simp
  then have x: "unat (original + al - 1 + 8) = unat original + unat al + 7"
    using assms(3) n by (simp add: unat_word_ariths)
  have "al \<noteq> 0" using assms(1) by auto
  then have m: "unat (al - 1) = unat al - 1" by (rule unat_minus_one)
  note rd = round_down_bounds[of "original + al - 1 + 8" "al - 1", folded p_def]
  show "unat original + 8 \<le> unat p" using rd(2) x m assms(1) by simp
  show "unat p + unat sz \<le> unat original + unat (sz + al - 1 + 8)" using rd(1) x n by simp
qed

lemma aligned_alloc_correct_facts:
  assumes wf: "pmm_wf s"
    and fits: "unat sz + unat (max 8 alignment) + 7 < 2 ^ 64"
    and call: "aligned_alloc alignment sz (s, m) = (p, s', m')" and "p \<noteq> 0"
  shows "p AND (max 8 alignment - 1) = 0" and "pmm_wf s'"
    and "byte_range (p - 8) 8 \<union> byte_range p sz \<subseteq> free_bytes s"
    and "(byte_range (p - 8) 8 \<union> byte_range p sz) \<inter> free_bytes s' = {}"
    and "fst (allocate_memory (sz + max 8 alignment - 1 + 8) s) = load64 m' (p - 8)"
proof -
  define al where "al = max 8 alignment"
  have al: "(if alignment < 8 then 8 else alignment) = al"
    by (auto simp: al_def max_def not_less)
  obtain a t where a: "allocate_memory (sz + al - 1 + 8) s = (a, t)" by fastforce
  let ?p = "(a + al - 1 + 8) AND NOT (al - 1)"
  have ne: "a \<noteq> 0" "p = ?p" "s' = t" "m' = store64 m (p - 8) a"
    using call a \<open>p \<noteq> 0\<close> unfolding aligned_alloc_def Let_def al
    by (auto split: if_splits)
  have "8 \<le> unat al"
  proof -
    have "8 \<le> al" by (simp add: al_def)
    then show ?thesis by (simp add: word_le_nat_alt)
  qed
  note place = aligned_place[OF this fits[folded al_def] allocate_memory_bound[OF wf a ne(1)], folded ne(2)]
  have "8 \<le> p" using place(1) by (simp add: word_le_nat_alt)
  then have p8: "unat (p - 8) = unat p - 8" by (simp add: unat_sub)
  have sub: "byte_range (p - 8) 8 \<union> byte_range p sz \<subseteq> byte_range a (sz + al - 1 + 8)"
    using place p8 by (auto simp: byte_range_def)
  show "p AND (max 8 alignment - 1) = 0"
    unfolding ne(2) al_def[symmetric] by (simp add: and.assoc)
  show "pmm_wf s'" using pmm_alloc.alloc_inv[OF wf a] ne(3) by simp
  show "byte_range (p - 8) 8 \<union> byte_range p sz \<subseteq> free_bytes s"
    using sub pmm_alloc.alloc_within[OF wf a ne(1)] by blast
  show "(byte_range (p - 8) 8 \<union> byte_range p sz) \<inter> free_bytes s' = {}"
    using sub pmm_alloc.alloc_takes[OF wf a ne(1)] ne(3) by blast
  show "fst (allocate_memory (sz + max 8 alignment - 1 + 8) s) = load64 m' (p - 8)"
    using a ne(4) by (simp add: load64_store64_same al_def)
qed

text \<open>An aligned allocation is aligned and stays inside what was allocated for it. The pointer is a
  multiple of the (power-of-two) alignment, the block and the hidden pointer before it were free
  and are no longer, and the hidden pointer reads back as the address \<open>aligned_free\<close> must release.\<close>

theorem aligned_alloc_correct:
  assumes "pmm_wf s"
    and "unat sz + unat (max 8 alignment) + 7 < 2 ^ 64"
    and "aligned_alloc alignment sz (s, m) = (p, s', m')" and "p \<noteq> 0"
  shows "p AND (max 8 alignment - 1) = 0 \<and>
    pmm_wf s' \<and>
    byte_range (p - 8) 8 \<union> byte_range p sz \<subseteq> free_bytes s \<and>
    (byte_range (p - 8) 8 \<union> byte_range p sz) \<inter> free_bytes s' = {} \<and>
    fst (allocate_memory (sz + max 8 alignment - 1 + 8) s) = load64 m' (p - 8)"
  using aligned_alloc_correct_facts[OF assms] by blast

text \<open>Total memory is free memory plus used memory, for every memory map, also where the sums wrap.\<close>

theorem memory_usage_adds_up:
  "let (t, f, u) = calculate_memory_usage bb in t = f + u"
proof -
  have "case fold usage_step es acc of (t, f, u) \<Rightarrow> t = f + u"
    if "case acc of (t, f, u) \<Rightarrow> t = f + u" for es acc
    using that
  proof (induction es arbitrary: acc)
    case (Cons e es)
    have "case usage_step e acc of (t, f, u) \<Rightarrow> t = f + u"
      using Cons.prems by (cases acc) (simp add: usage_step_def Let_def)
    then show ?case using Cons.IH by simp
  qed simp
  then show ?thesis by (simp add: calculate_memory_usage_def)
qed

theorem aligned_alloc_correct_witness:
  "fst (aligned_alloc 0x1000 0x1000 (sample_pmm, \<lambda>_. 0)) = 0x1001000 \<and>
   fst (aligned_alloc 0x1000 0x1000 (sample_pmm, \<lambda>_. 0)) AND (max 8 0x1000 - 1) = 0"
proof -
  have fmb: "free_extents sample_pmm = [(0x1000000, 0x8000)]"
    by (simp add: free_extents_def sample_pmm_def)
  have alloc: "fst (allocate_memory 0x2007 sample_pmm) = 0x1000000"
    by (rule allocate_first(1)[OF fmb]) simp
  have p: "fst (aligned_alloc 0x1000 0x1000 (sample_pmm, \<lambda>_. 0)) = 0x1001000"
    using alloc by (simp add: aligned_alloc_def split_beta)
  have wf: "pmm_wf sample_pmm" by (simp add: pmm_wf_def fmb extents_wf_def extent_ok_def)
  obtain p s' m' where c: "aligned_alloc 0x1000 0x1000 (sample_pmm, \<lambda>_. 0) = (p, s', m')"
    using prod_cases3 by blast
  show ?thesis using aligned_alloc_correct[OF wf _ c] p c by simp
qed

end
