(* ===== verification/Page_Alloc_Spec.thy ===== *)
theory Page_Alloc_Spec
  imports Kernel_Prelude
begin

text \<open>
  The contract of an allocator of single pages with a release operation: the free pages are a set of
  addresses, an allocation removes one of them and fails only when there is none, a release puts
  a managed page back.
\<close>

fun alloc_pages :: "('s \<Rightarrow> u64 \<times> 's) \<Rightarrow> nat \<Rightarrow> 's \<Rightarrow> u64 list \<times> 's" where
  "alloc_pages alloc 0 s = ([], s)"
| "alloc_pages alloc (Suc k) s =
     (let (a, s1) = alloc s; (as, s2) = alloc_pages alloc k s1
      in (if a = 0 then as else a # as, s2))"

locale page_allocator =
  fixes alloc :: "'s \<Rightarrow> u64 \<times> 's"
    and release :: "u64 \<Rightarrow> 's \<Rightarrow> bool \<times> 's"
    and free_set :: "'s \<Rightarrow> u64 set"
    and managed :: "'s \<Rightarrow> u64 set"
    and inv :: "'s \<Rightarrow> bool"
  assumes alloc_page_inv: "inv s \<Longrightarrow> alloc s = (a, s') \<Longrightarrow> inv s' \<and> managed s' = managed s"
    and alloc_page_ok: "inv s \<Longrightarrow> alloc s = (a, s') \<Longrightarrow> a \<noteq> 0 \<Longrightarrow>
      a \<in> free_set s \<and> free_set s' = free_set s - {a}"
    and alloc_page_fail: "inv s \<Longrightarrow> alloc s = (0, s') \<Longrightarrow> free_set s = {} \<and> s' = s"
    and release_ok: "inv s \<Longrightarrow> a \<in> managed s \<Longrightarrow> release a s = (r, s') \<Longrightarrow>
      r \<and> inv s' \<and> managed s' = managed s \<and> free_set s' = insert a (free_set s)"
    and free_managed: "inv s \<Longrightarrow> free_set s \<subseteq> managed s"
begin

lemma release_alloc:
  assumes "inv s" and "alloc s = (a, s1)" and "a \<noteq> 0" and "release a s1 = (r, s2)"
  shows "r \<and> free_set s2 = free_set s"
proof -
  have a: "a \<in> free_set s" "free_set s1 = free_set s - {a}" using alloc_page_ok[OF assms(1-3)] by auto
  moreover have "a \<in> managed s1" "inv s1"
    using a(1) free_managed[OF assms(1)] alloc_page_inv[OF assms(1,2)] by auto
  ultimately show ?thesis using release_ok[of s1 a r s2] assms(4) by auto
qed

lemma alloc_pages_distinct:
  "inv s \<Longrightarrow> alloc_pages alloc k s = (as, s') \<Longrightarrow>
   inv s' \<and> distinct as \<and> set as \<subseteq> free_set s \<and> free_set s' = free_set s - set as"
proof (induction k arbitrary: s as s')
  case (Suc k)
  obtain a s1 where a: "alloc s = (a, s1)" by fastforce
  obtain bs s2 where b: "alloc_pages alloc k s1 = (bs, s2)" by fastforce
  have IH: "inv s2 \<and> distinct bs \<and> set bs \<subseteq> free_set s1 \<and> free_set s2 = free_set s1 - set bs"
    using Suc.IH[OF conjunct1[OF alloc_page_inv[OF Suc.prems(1) a]] b] .
  have eqs: "as = (if a = 0 then bs else a # bs)" "s' = s2" using Suc.prems(2) a b by auto
  show ?case
  proof (cases "a = 0")
    case True
    with alloc_page_fail[OF Suc.prems(1)] a have "s1 = s" by simp
    with IH eqs True show ?thesis by simp
  next
    case False
    with IH eqs alloc_page_ok[OF Suc.prems(1) a] show ?thesis by auto
  qed
qed simp

text \<open>An allocator that keeps its contract gives out every free page before it refuses.\<close>

lemma alloc_pages_complete:
  "inv s \<Longrightarrow> finite (free_set s) \<Longrightarrow> card (free_set s) \<le> k \<Longrightarrow> alloc_pages alloc k s = (as, s') \<Longrightarrow>
   set as = free_set s"
proof (induction k arbitrary: s as s')
  case 0
  then show ?case by simp
next
  case (Suc k)
  obtain a s1 where a: "alloc s = (a, s1)" by fastforce
  obtain bs s2 where b: "alloc_pages alloc k s1 = (bs, s2)" by fastforce
  have eqs: "as = (if a = 0 then bs else a # bs)" using Suc.prems(4) a b by auto
  have inv1: "inv s1" using alloc_page_inv[OF Suc.prems(1) a] by simp
  show ?case
  proof (cases "a = 0")
    case True
    with alloc_page_fail[OF Suc.prems(1)] a have "free_set s = {}" "s1 = s" by auto
    with alloc_pages_distinct[OF inv1 b] eqs True show ?thesis by simp
  next
    case False
    note ok = alloc_page_ok[OF Suc.prems(1) a False]
    have "card (free_set s1) \<le> k" "finite (free_set s1)"
      using ok Suc.prems(2,3) by (auto simp: card_Diff_singleton)
    from Suc.IH[OF inv1 this(2,1) b] ok eqs False show ?thesis by auto
  qed
qed

end

end
