(* ===== verification/Phys.thy ===== *)
theory Phys
  imports Pmm Page_Alloc_Spec "HOL-Library.Signed_Division"
begin

text \<open>
  The bitmap page allocator, \<^verbatim>\<open>src/kernel/source/memory/phys.c\<close>. Each free region of the memory map
  gets a bitmap, one bit per page (set = free), stored in the region's own first bytes; a manager
  entry records where the bitmap and the pages are. The bitmaps live in the machine's memory, so
  an allocation is a load and a store of one 64-bit word of it.
\<close>

section \<open>State\<close>

definition MAX_FREE_BLOCKS :: nat where
  "MAX_FREE_BLOCKS = 32"

record bitmap_manager =
  bm_bitmap :: u64
  bm_base_address :: u64
  bm_size :: u64
  bm_num_pages :: u64

record phys =
  free_block_count :: u64
  phys_mblocks :: "nat \<Rightarrow> bitmap_manager"

definition zero_manager :: bitmap_manager where
  "zero_manager = \<lparr>bm_bitmap = 0, bm_base_address = 0, bm_size = 0, bm_num_pages = 0\<rparr>"

definition phys_bss :: phys where
  "phys_bss = \<lparr>free_block_count = 0, phys_mblocks = (\<lambda>_. zero_manager)\<rparr>"

section \<open>Bits of a bitmap\<close>

text \<open>\<open>bitmap[p / BITS_PER_WORD]\<close> and \<open>1ULL << (p % BITS_PER_WORD)\<close>.\<close>

definition word_addr :: "u64 \<Rightarrow> nat \<Rightarrow> u64" where
  "word_addr bitmap p = bitmap + of_nat (8 * (p div 64))"

definition page_mask :: "nat \<Rightarrow> u64" where
  "page_mask p = push_bit (p mod 64) 1"

definition page_free :: "memory \<Rightarrow> u64 \<Rightarrow> nat \<Rightarrow> bool" where
  "page_free m bitmap p \<longleftrightarrow> load64 m (word_addr bitmap p) AND page_mask p \<noteq> 0"

definition clear_page :: "u64 \<Rightarrow> nat \<Rightarrow> memory \<Rightarrow> memory" where
  "clear_page bitmap p m =
     store64 m (word_addr bitmap p) (load64 m (word_addr bitmap p) AND NOT (page_mask p))"

definition set_page :: "u64 \<Rightarrow> nat \<Rightarrow> memory \<Rightarrow> memory" where
  "set_page bitmap p m =
     store64 m (word_addr bitmap p) (load64 m (word_addr bitmap p) OR page_mask p)"

section \<open>Setup\<close>

definition setup_block :: "u64 \<Rightarrow> u64 \<Rightarrow> phys \<times> memory \<Rightarrow> phys \<times> memory" where
  "setup_block base_addr sz sm =
     (let (s, m) = sm;
          total_pages = sz div PAGE_SIZE;
          total_bitmaps = (total_pages + 63) div 64;
          b = (phys_mblocks s (unat (free_block_count s)))
                \<lparr>bm_bitmap := base_addr, bm_num_pages := total_pages,
                 bm_base_address := base_addr + total_bitmaps * 8\<rparr>;
          m = fold (\<lambda>j m. store64 m (base_addr + of_nat (8 * j)) 0xFFFFFFFFFFFFFFFF)
                [0..<unat total_bitmaps] m;
          bitmap_pages = (total_bitmaps * 8 + PAGE_SIZE - 1) div PAGE_SIZE;
          m = fold (clear_page base_addr) [0..<unat bitmap_pages] m
      in (s\<lparr>phys_mblocks := (phys_mblocks s)(unat (free_block_count s) := b),
           free_block_count := free_block_count s + 1\<rparr>, m))"

definition setup_step :: "mmap_ent \<Rightarrow> phys \<times> memory \<Rightarrow> phys \<times> memory" where
  "setup_step e sm =
     (let base_addr = MMapEnt_Ptr e;
          sz = MMapEnt_Size e;
          type = (ucast (MMapEnt_Type e) :: u32)
      in if unat type = MMAP_FREE then setup_block base_addr sz sm else sm)"

definition setup_physical_memory_management ::
  "bootboot \<Rightarrow> phys \<times> memory \<times> io_world \<Rightarrow> phys \<times> memory \<times> io_world" where
  "setup_physical_memory_management bb smw =
     (let (s, m, w) = smw;
          (s, m) = fold setup_step (mmap_entries bb) (s, m)
      in (s, m, log_call LOG_LEVEL_DEBUG ''Physical Memory Initialized'' [] w))"

section \<open>Single pages\<close>

text \<open>The search returns the index as a 32-bit \<^verbatim>\<open>int\<close>, with -1 for "none".\<close>

definition to_int :: "nat \<Rightarrow> int" where
  "to_int i = sint (of_nat i :: u32)"

definition find_first_free_page :: "memory \<Rightarrow> bitmap_manager \<Rightarrow> int" where
  "find_first_free_page m b =
     (case first_index (page_free m (bm_bitmap b)) (unat (bm_num_pages b)) of
        Some i \<Rightarrow> to_int i
      | None \<Rightarrow> - 1)"

text \<open>A signed index: division and remainder truncate.\<close>

definition int_word_addr :: "u64 \<Rightarrow> int \<Rightarrow> u64" where
  "int_word_addr bitmap i = bitmap + of_int (8 * (i sdiv 64))"

definition int_mask :: "int \<Rightarrow> u64" where
  "int_mask i = push_bit (nat (i smod 64)) 1"

definition bitmap_allocate_page :: "phys \<times> memory \<Rightarrow> u64 \<times> phys \<times> memory" where
  "bitmap_allocate_page sm =
     (let (s, m) = sm in
      case first_index (\<lambda>i. find_first_free_page m (phys_mblocks s i) \<noteq> - 1)
             (unat (free_block_count s)) of
        None \<Rightarrow> (0, s, m)
      | Some i \<Rightarrow>
          let b = phys_mblocks s i;
              free_page_index = find_first_free_page m b;
              a = int_word_addr (bm_bitmap b) free_page_index;
              m = store64 m a (load64 m a AND NOT (int_mask free_page_index))
          in (bm_base_address b + of_int free_page_index * PAGE_SIZE, s, m))"

definition in_block :: "bitmap_manager \<Rightarrow> u64 \<Rightarrow> bool" where
  "in_block b page_address \<longleftrightarrow>
     bm_base_address b \<le> page_address \<and>
     page_address < bm_base_address b + bm_num_pages b * PAGE_SIZE"

definition bitmap_free_page :: "u64 \<Rightarrow> phys \<times> memory \<Rightarrow> bool \<times> phys \<times> memory" where
  "bitmap_free_page page_address sm =
     (let (s, m) = sm in
      case first_index (\<lambda>i. in_block (phys_mblocks s i) page_address) (unat (free_block_count s)) of
        None \<Rightarrow> (False, s, m)
      | Some i \<Rightarrow>
          let b = phys_mblocks s i;
              page_index = (page_address - bm_base_address b) div PAGE_SIZE
          in (True, s, set_page (bm_bitmap b) (unat page_index) m))"

section \<open>Contiguous pages\<close>

fun contiguous_from :: "memory \<Rightarrow> u64 \<Rightarrow> u64 \<Rightarrow> nat \<Rightarrow> u64 \<Rightarrow> nat \<Rightarrow> int" where
  "contiguous_from m bitmap num_pages i contiguous_count 0 = - 1"
| "contiguous_from m bitmap num_pages i contiguous_count (Suc k) =
     (if page_free m bitmap i then
        if contiguous_count + 1 = num_pages
        then sint (ucast (of_nat i - num_pages + 1) :: u32)
        else contiguous_from m bitmap num_pages (Suc i) (contiguous_count + 1) k
      else contiguous_from m bitmap num_pages (Suc i) 0 k)"

definition find_contiguous_free_pages :: "memory \<Rightarrow> bitmap_manager \<Rightarrow> u64 \<Rightarrow> int" where
  "find_contiguous_free_pages m b num_pages =
     contiguous_from m (bm_bitmap b) num_pages 0 0 (unat (bm_num_pages b))"

definition bitmap_allocate_pages :: "u64 \<Rightarrow> phys \<times> memory \<Rightarrow> u64 \<times> phys \<times> memory" where
  "bitmap_allocate_pages num_pages sm =
     (let (s, m) = sm in
      case first_index (\<lambda>i. find_contiguous_free_pages m (phys_mblocks s i) num_pages \<noteq> - 1)
             (unat (free_block_count s)) of
        None \<Rightarrow> (0, s, m)
      | Some i \<Rightarrow>
          let b = phys_mblocks s i;
              start_page = find_contiguous_free_pages m b num_pages;
              m = fold (\<lambda>j. clear_page (bm_bitmap b) (unat (of_int start_page + of_nat j :: u64)))
                    [0..<unat num_pages] m
          in (bm_base_address b + of_int start_page * PAGE_SIZE, s, m))"

definition bitmap_free_pages :: "u64 \<Rightarrow> u64 \<Rightarrow> phys \<times> memory \<Rightarrow> bool \<times> phys \<times> memory" where
  "bitmap_free_pages page_address num_pages sm =
     (let (s, m) = sm in
      case first_index
             (\<lambda>i. let b = phys_mblocks s i in in_block b page_address \<and>
                  (page_address - bm_base_address b) div PAGE_SIZE + num_pages \<le> bm_num_pages b)
             (unat (free_block_count s)) of
        None \<Rightarrow> (False, s, m)
      | Some i \<Rightarrow>
          let b = phys_mblocks s i;
              start_page_index = (page_address - bm_base_address b) div PAGE_SIZE
          in (True, s, fold (\<lambda>j. set_page (bm_bitmap b) (unat (start_page_index + of_nat j)))
                [0..<unat num_pages] m))"

section \<open>The listing\<close>

text \<open>\<open>enum color Yellow\<close> is the colour of the words; only the first two entries list their bitmaps.\<close>

definition print_bitmaps :: "memory \<Rightarrow> bitmap_manager \<Rightarrow> io_world \<Rightarrow> io_world" where
  "print_bitmaps m b =
     fold (\<lambda>j. print_call ''\<newline>Bitmap [%p]'' 0xFFFF55 [VLong (load64 m (bm_bitmap b + of_nat (8 * j)))])
       [0..<unat ((bm_num_pages b + 63) div 64)]"

definition print_physical_memory :: "phys \<Rightarrow> memory \<Rightarrow> io_world \<Rightarrow> io_world" where
  "print_physical_memory s m =
     fold (\<lambda>i w.
         let w = print_call ''\<newline>Entry [%d]: Address [%p]'' 0xd0d1d2
                   [VInt (of_nat i), VLong (bm_base_address (phys_mblocks s i))] w
         in if i = 0 \<or> i = 1 then print_bitmaps m (phys_mblocks s i) w else w)
       [0..<unat (free_block_count s)]"

section \<open>One bit at a time\<close>

lemma page_free_bit: "page_free m bm p \<longleftrightarrow> bit (load64 m (word_addr bm p)) (p mod 64)"
  by (simp add: page_free_def page_mask_def bit_iff_and_push_bit_not_eq_0)

lemma bit_page_mask: "bit (page_mask p) k \<longleftrightarrow> k = p mod 64"
  by (auto simp: page_mask_def bit_simps)

lemma word_addr_apart:
  assumes "p div 64 \<noteq> q div 64" and "p < 2 ^ 60" and "q < 2 ^ 60"
  shows "apart (word_addr bm p) 8 (word_addr bm q) 8"
proof -
  have bound: "8 * (x div 64) + 8 \<le> 2 ^ 64" if "x < 2 ^ 60" for x :: nat using that by simp
  have less: "apart (word_addr bm x) 8 (word_addr bm y) 8"
    if "x div 64 < y div 64" "y < 2 ^ 60" for x y
    unfolding word_addr_def using that bound[of y] by (intro apart_offsets) auto
  from assms show ?thesis
    using less[of p q] less[of q p] apart_sym by (metis linorder_neqE_nat)
qed

lemma page_free_clear:
  assumes "p < 2 ^ 60" and "q < 2 ^ 60"
  shows "page_free (clear_page bm p m) bm q \<longleftrightarrow> page_free m bm q \<and> q \<noteq> p"
proof (cases "p div 64 = q div 64")
  case True
  then have eq: "word_addr bm q = word_addr bm p" by (simp add: word_addr_def)
  have "q mod 64 = p mod 64 \<longleftrightarrow> q = p" using True by (metis div_mod_decomp)
  then show ?thesis
    by (auto simp: page_free_bit clear_page_def eq load64_store64_same bit_simps bit_page_mask)
next
  case False
  then have "q \<noteq> p" by auto
  with False assms show ?thesis
    by (simp add: page_free_bit clear_page_def load64_store64_apart word_addr_apart)
qed

lemma page_free_set:
  assumes "p < 2 ^ 60" and "q < 2 ^ 60"
  shows "page_free (set_page bm p m) bm q \<longleftrightarrow> page_free m bm q \<or> q = p"
proof (cases "p div 64 = q div 64")
  case True
  then have eq: "word_addr bm q = word_addr bm p" by (simp add: word_addr_def)
  have "q mod 64 = p mod 64 \<longleftrightarrow> q = p" using True by (metis div_mod_decomp)
  then show ?thesis
    by (auto simp: page_free_bit set_page_def eq load64_store64_same bit_simps bit_page_mask)
next
  case False
  then have "q \<noteq> p" by auto
  with False assms show ?thesis
    by (simp add: page_free_bit set_page_def load64_store64_apart word_addr_apart)
qed

text \<open>A bitmap of \<open>n\<close> pages, in bytes; bitmaps that are apart do not influence each other.\<close>

definition bitmap_len :: "u64 \<Rightarrow> nat" where
  "bitmap_len n = 8 * ((unat n + 63) div 64)"

lemma word_addr_other:
  assumes "apart bm (bitmap_len n) bm' (bitmap_len n')" and "p < unat n" and "q < unat n'"
  shows "apart (word_addr bm p) 8 (word_addr bm' q) 8"
proof -
  have "8 * (x div 64) + 8 \<le> bitmap_len k" if "x < unat k" for x k
  proof -
    have "(x + 64) div 64 \<le> (unat k + 63) div 64" using that by (intro div_le_mono) simp
    moreover have "(x + 64) div 64 = x div 64 + 1" by simp
    ultimately show ?thesis unfolding bitmap_len_def by linarith
  qed
  with assms show ?thesis unfolding word_addr_def by (intro apart_sub) auto
qed

lemma page_free_other:
  assumes "apart bm (bitmap_len n) bm' (bitmap_len n')" and "p < unat n" and "q < unat n'"
  shows "page_free (clear_page bm p m) bm' q \<longleftrightarrow> page_free m bm' q"
    and "page_free (set_page bm p m) bm' q \<longleftrightarrow> page_free m bm' q"
  using word_addr_other[OF assms]
  by (simp_all add: page_free_bit clear_page_def set_page_def load64_store64_apart)

section \<open>Well-formed managers\<close>

text \<open>\<open>phys_wf\<close>: each block has fewer than \<open>2 ^ 31\<close> pages (the search returns an \<^verbatim>\<open>int\<close>), does not
  start at the null address or wrap; bitmaps are apart, and so are the page ranges.\<close>

definition managers :: "phys \<Rightarrow> bitmap_manager list" where
  "managers s = map (phys_mblocks s) [0..<unat (free_block_count s)]"

definition manager_ok :: "bitmap_manager \<Rightarrow> bool" where
  "manager_ok b \<longleftrightarrow> unat (bm_num_pages b) < 2 ^ 31 \<and> bm_base_address b \<noteq> 0 \<and>
     unat (bm_base_address b) + unat (bm_num_pages b) * 4096 < 2 ^ 64"

definition managers_apart :: "bitmap_manager \<Rightarrow> bitmap_manager \<Rightarrow> bool" where
  "managers_apart b c \<longleftrightarrow>
     apart (bm_bitmap b) (bitmap_len (bm_num_pages b)) (bm_bitmap c) (bitmap_len (bm_num_pages c)) \<and>
     (unat (bm_base_address b) + unat (bm_num_pages b) * 4096 \<le> unat (bm_base_address c) \<or>
      unat (bm_base_address c) + unat (bm_num_pages c) * 4096 \<le> unat (bm_base_address b))"

definition phys_wf :: "phys \<times> memory \<Rightarrow> bool" where
  "phys_wf sm \<longleftrightarrow> list_all manager_ok (managers (fst sm)) \<and>
     sorted_wrt managers_apart (managers (fst sm))"

definition page_addr :: "bitmap_manager \<Rightarrow> nat \<Rightarrow> u64" where
  "page_addr b p = bm_base_address b + of_nat p * PAGE_SIZE"

definition free_page_set :: "phys \<times> memory \<Rightarrow> u64 set" where
  "free_page_set sm =
     {page_addr b p | b p. b \<in> set (managers (fst sm)) \<and> p < unat (bm_num_pages b) \<and>
        page_free (snd sm) (bm_bitmap b) p}"

definition managed_pages :: "phys \<times> memory \<Rightarrow> u64 set" where
  "managed_pages sm =
     {page_addr b p | b p. b \<in> set (managers (fst sm)) \<and> p < unat (bm_num_pages b)}"

lemma managers_apart_sym: "managers_apart b c \<longleftrightarrow> managers_apart c b"
  by (auto simp: managers_apart_def apart_sym)

lemma set_managers: "set (managers s) = phys_mblocks s ` {..<unat (free_block_count s)}"
  by (auto simp: managers_def)

lemma phys_wf_nth:
  "phys_wf (s, m) \<longleftrightarrow> (\<forall>i<unat (free_block_count s). manager_ok (phys_mblocks s i)) \<and>
     (\<forall>i<unat (free_block_count s). \<forall>j<unat (free_block_count s). i \<noteq> j \<longrightarrow>
        managers_apart (phys_mblocks s i) (phys_mblocks s j))"
  by (auto simp: phys_wf_def managers_def list_all_length sorted_wrt_iff_nth_less)
    (metis managers_apart_sym linorder_neqE_nat)

lemma phys_wf_mem: "phys_wf (s, m) \<longleftrightarrow> phys_wf (s, m')"
  by (simp add: phys_wf_def)

lemma unat_page_addr:
  assumes "manager_ok b" and "p < unat (bm_num_pages b)"
  shows "unat (page_addr b p) = unat (bm_base_address b) + p * 4096"
    and "page_addr b p \<noteq> 0"
proof -
  have lt: "unat (bm_base_address b) + p * 4096 < 2 ^ 64"
    using assms by (auto simp: manager_ok_def)
  have "page_addr b p = of_nat (unat (bm_base_address b) + p * 4096)"
    by (simp add: page_addr_def PAGE_SIZE_def)
  moreover have "unat (of_nat (unat (bm_base_address b) + p * 4096) :: u64) =
      unat (bm_base_address b) + p * 4096"
    using lt by (rule unat_of_nat_less)
  ultimately show "unat (page_addr b p) = unat (bm_base_address b) + p * 4096" by simp
  moreover have "0 < unat (bm_base_address b)" using assms(1) by (simp add: manager_ok_def unat_gt_0)
  ultimately show "page_addr b p \<noteq> 0" by auto
qed

lemma page_addr_inj:
  assumes wf: "phys_wf (s, m)"
    and i: "i < unat (free_block_count s)" "p < unat (bm_num_pages (phys_mblocks s i))"
    and j: "j < unat (free_block_count s)" "q < unat (bm_num_pages (phys_mblocks s j))"
    and eq: "page_addr (phys_mblocks s i) p = page_addr (phys_mblocks s j) q"
  shows "i = j \<and> p = q"
proof -
  have ok: "manager_ok (phys_mblocks s i)" "manager_ok (phys_mblocks s j)"
    using wf i(1) j(1) by (auto simp: phys_wf_nth)
  have addr: "unat (bm_base_address (phys_mblocks s i)) + p * 4096 =
      unat (bm_base_address (phys_mblocks s j)) + q * 4096"
    using eq unat_page_addr(1)[OF ok(1) i(2)] unat_page_addr(1)[OF ok(2) j(2)] by simp
  have "i = j"
  proof (rule ccontr)
    assume "i \<noteq> j"
    then have "managers_apart (phys_mblocks s i) (phys_mblocks s j)"
      using wf i(1) j(1) by (auto simp: phys_wf_nth)
    then show False using addr i(2) j(2) by (auto simp: managers_apart_def)
  qed
  with addr show ?thesis by simp
qed

lemma in_block_page_addr:
  assumes wf: "phys_wf (s, m)"
    and i: "i < unat (free_block_count s)" "p < unat (bm_num_pages (phys_mblocks s i))"
    and j: "j < unat (free_block_count s)"
  shows "in_block (phys_mblocks s j) (page_addr (phys_mblocks s i) p) \<longleftrightarrow> j = i"
proof -
  have ok: "manager_ok (phys_mblocks s k)" if "k < unat (free_block_count s)" for k
    using wf that by (auto simp: phys_wf_nth)
  have top: "unat (bm_base_address b + bm_num_pages b * PAGE_SIZE) =
      unat (bm_base_address b) + unat (bm_num_pages b) * 4096" if "manager_ok b" for b
    using that by (simp add: manager_ok_def PAGE_SIZE_def unat_word_ariths)
  have addr: "unat (page_addr (phys_mblocks s i) p) = unat (bm_base_address (phys_mblocks s i)) + p * 4096"
    by (rule unat_page_addr(1)[OF ok[OF i(1)] i(2)])
  have iff: "in_block (phys_mblocks s k) (page_addr (phys_mblocks s i) p) \<longleftrightarrow>
      unat (bm_base_address (phys_mblocks s k)) \<le> unat (bm_base_address (phys_mblocks s i)) + p * 4096 \<and>
      unat (bm_base_address (phys_mblocks s i)) + p * 4096 <
        unat (bm_base_address (phys_mblocks s k)) + unat (bm_num_pages (phys_mblocks s k)) * 4096"
    if "k < unat (free_block_count s)" for k
    unfolding in_block_def word_le_nat_alt word_less_nat_alt top[OF ok[OF that]] addr by simp
  show ?thesis
  proof (cases "j = i")
    case True
    then show ?thesis using iff[OF i(1)] i(2) by simp
  next
    case False
    then have "managers_apart (phys_mblocks s i) (phys_mblocks s j)"
      using wf i(1) j by (auto simp: phys_wf_nth)
    then show ?thesis using iff[OF j] i(2) False by (auto simp: managers_apart_def)
  qed
qed

lemma page_index_of_addr:
  assumes "manager_ok b" and "p < unat (bm_num_pages b)"
  shows "unat ((page_addr b p - bm_base_address b) div PAGE_SIZE) = p"
proof -
  have "page_addr b p - bm_base_address b = of_nat (p * 4096)"
    by (simp add: page_addr_def PAGE_SIZE_def)
  moreover have "unat (of_nat (p * 4096) :: u64) = p * 4096"
    using assms by (intro unat_of_nat_less) (auto simp: manager_ok_def)
  ultimately have "unat (page_addr b p - bm_base_address b) = p * 4096" by (simp only:)
  then show ?thesis by (simp add: unat_div_distrib PAGE_SIZE_def)
qed

section \<open>The searches and what they return\<close>

lemma to_int_less: "i < 2 ^ 31 \<Longrightarrow> to_int i = int i"
  unfolding to_int_def by (subst signed_of_nat) (simp add: signed_take_bit_int_eq_self)

lemma int_sdiv_64 [simp]: "int p sdiv 64 = int (p div 64)"
  by (cases "p = 0") (simp_all add: signed_divide_int_def zdiv_int)

lemma int_smod_64 [simp]: "int p smod 64 = int (p mod 64)"
  by (cases "p = 0") (simp_all add: signed_modulo_int_def zmod_int)

lemma int_word_addr_nat [simp]: "int_word_addr bm (int p) = word_addr bm p"
  by (simp add: int_word_addr_def word_addr_def)

lemma int_mask_nat [simp]: "int_mask (int p) = page_mask p"
  by (simp add: int_mask_def page_mask_def)

lemma find_first_free_page_cases:
  assumes "unat (bm_num_pages b) < 2 ^ 31"
  obtains (none) "find_first_free_page m b = - 1" "\<And>q. q < unat (bm_num_pages b) \<Longrightarrow> \<not> page_free m (bm_bitmap b) q"
  | (some) p where "find_first_free_page m b = int p" "p < unat (bm_num_pages b)"
      "page_free m (bm_bitmap b) p" "\<And>q. q < p \<Longrightarrow> \<not> page_free m (bm_bitmap b) q"
proof (cases "first_index (page_free m (bm_bitmap b)) (unat (bm_num_pages b))")
  case None
  then have "find_first_free_page m b = - 1" by (simp add: find_first_free_page_def)
  moreover have "\<not> page_free m (bm_bitmap b) q" if "q < unat (bm_num_pages b)" for q
    using None that by (simp add: first_index_None_iff)
  ultimately show thesis by (rule none)
next
  case (Some p)
  note facts = first_index_SomeD[OF Some]
  have "find_first_free_page m b = int p"
    using Some facts(1) assms to_int_less[of p] by (simp add: find_first_free_page_def)
  with facts show thesis by (intro some) auto
qed

text \<open>The allocation, as the code runs it: the first free page of the first block that has one.\<close>

lemma bitmap_allocate_page_cases:
  assumes wf: "phys_wf (s, m)"
  obtains (fail) "bitmap_allocate_page (s, m) = (0, s, m)" "free_page_set (s, m) = {}"
  | (take) i p where "i < unat (free_block_count s)" "p < unat (bm_num_pages (phys_mblocks s i))"
      "page_free m (bm_bitmap (phys_mblocks s i)) p"
      "bitmap_allocate_page (s, m) =
         (page_addr (phys_mblocks s i) p, s, clear_page (bm_bitmap (phys_mblocks s i)) p m)"
      "\<And>q. q < p \<Longrightarrow> \<not> page_free m (bm_bitmap (phys_mblocks s i)) q"
proof -
  have ok: "unat (bm_num_pages (phys_mblocks s i)) < 2 ^ 31" if "i < unat (free_block_count s)" for i
    using wf that by (auto simp: phys_wf_nth manager_ok_def)
  let ?P = "\<lambda>i. find_first_free_page m (phys_mblocks s i) \<noteq> - 1"
  show thesis
  proof (cases "first_index ?P (unat (free_block_count s))")
    case None
    then have all: "find_first_free_page m (phys_mblocks s i) = - 1"
      if "i < unat (free_block_count s)" for i using that by (simp add: first_index_None_iff)
    have "\<not> page_free m (bm_bitmap (phys_mblocks s i)) q"
      if "i < unat (free_block_count s)" "q < unat (bm_num_pages (phys_mblocks s i))" for i q
      using find_first_free_page_cases[OF ok[OF that(1)], of m] all[OF that(1)] that(2) by fastforce
    then have "free_page_set (s, m) = {}"
      by (auto simp: free_page_set_def set_managers)
    then show thesis using None by (intro fail) (simp_all add: bitmap_allocate_page_def)
  next
    case (Some i)
    note facts = first_index_SomeD[OF Some]
    from facts(2) obtain p where p: "find_first_free_page m (phys_mblocks s i) = int p"
      "p < unat (bm_num_pages (phys_mblocks s i))" "page_free m (bm_bitmap (phys_mblocks s i)) p"
      "\<And>q. q < p \<Longrightarrow> \<not> page_free m (bm_bitmap (phys_mblocks s i)) q"
      using find_first_free_page_cases[OF ok[OF facts(1)], of m] by metis
    have "bitmap_allocate_page (s, m) =
         (page_addr (phys_mblocks s i) p, s, clear_page (bm_bitmap (phys_mblocks s i)) p m)"
      using Some p(1) by (simp add: bitmap_allocate_page_def Let_def page_addr_def clear_page_def)
    with facts(1) p show thesis by (intro take) auto
  qed
qed

lemma bitmap_free_page_managed:
  assumes wf: "phys_wf (s, m)"
    and i: "i < unat (free_block_count s)" "p < unat (bm_num_pages (phys_mblocks s i))"
  shows "bitmap_free_page (page_addr (phys_mblocks s i) p) (s, m) =
           (True, s, set_page (bm_bitmap (phys_mblocks s i)) p m)"
proof -
  have "first_index (\<lambda>j. in_block (phys_mblocks s j) (page_addr (phys_mblocks s i) p))
      (unat (free_block_count s)) = Some i"
    using i in_block_page_addr[OF wf i] by (auto simp: first_index_Some_iff)
  moreover have "manager_ok (phys_mblocks s i)" using wf i(1) by (simp add: phys_wf_nth)
  ultimately show ?thesis
    using page_index_of_addr[OF _ i(2)] by (simp add: bitmap_free_page_def Let_def)
qed

text \<open>Changing one bit changes one page of the free set.\<close>

lemma page_free_update:
  assumes wf: "phys_wf (s, m)"
    and i: "i < unat (free_block_count s)" "p < unat (bm_num_pages (phys_mblocks s i))"
    and j: "j < unat (free_block_count s)" "q < unat (bm_num_pages (phys_mblocks s j))"
  shows "page_free (clear_page (bm_bitmap (phys_mblocks s i)) p m) (bm_bitmap (phys_mblocks s j)) q \<longleftrightarrow>
           page_free m (bm_bitmap (phys_mblocks s j)) q \<and> (j, q) \<noteq> (i, p)"
    and "page_free (set_page (bm_bitmap (phys_mblocks s i)) p m) (bm_bitmap (phys_mblocks s j)) q \<longleftrightarrow>
           page_free m (bm_bitmap (phys_mblocks s j)) q \<or> (j, q) = (i, p)"
proof -
  have ok: "unat (bm_num_pages (phys_mblocks s k)) < 2 ^ 31" if "k < unat (free_block_count s)" for k
    using wf that by (auto simp: phys_wf_nth manager_ok_def)
  have b: "p < 2 ^ 60" "q < 2 ^ 60" using ok[OF i(1)] ok[OF j(1)] i(2) j(2) by simp_all
  have ap: "apart (bm_bitmap (phys_mblocks s i)) (bitmap_len (bm_num_pages (phys_mblocks s i)))
      (bm_bitmap (phys_mblocks s j)) (bitmap_len (bm_num_pages (phys_mblocks s j)))" if "j \<noteq> i"
    using wf i(1) j(1) that by (auto simp: phys_wf_nth managers_apart_def)
  show "page_free (clear_page (bm_bitmap (phys_mblocks s i)) p m) (bm_bitmap (phys_mblocks s j)) q \<longleftrightarrow>
           page_free m (bm_bitmap (phys_mblocks s j)) q \<and> (j, q) \<noteq> (i, p)"
    using page_free_clear[OF b] page_free_other(1)[OF ap i(2) j(2)] by (cases "j = i") auto
  show "page_free (set_page (bm_bitmap (phys_mblocks s i)) p m) (bm_bitmap (phys_mblocks s j)) q \<longleftrightarrow>
           page_free m (bm_bitmap (phys_mblocks s j)) q \<or> (j, q) = (i, p)"
    using page_free_set[OF b] page_free_other(2)[OF ap i(2) j(2)] by (cases "j = i") auto
qed

lemma free_page_set_nth:
  "free_page_set (s, m) = {page_addr (phys_mblocks s i) p | i p. i < unat (free_block_count s) \<and>
     p < unat (bm_num_pages (phys_mblocks s i)) \<and> page_free m (bm_bitmap (phys_mblocks s i)) p}"
  by (auto simp: free_page_set_def set_managers)

lemma mem_free_page_set:
  assumes wf: "phys_wf (s, m)"
    and i: "i < unat (free_block_count s)" "p < unat (bm_num_pages (phys_mblocks s i))"
  shows "page_addr (phys_mblocks s i) p \<in> free_page_set (s, m') \<longleftrightarrow>
           page_free m' (bm_bitmap (phys_mblocks s i)) p"
  unfolding free_page_set_nth using page_addr_inj[OF wf i] i by blast

text \<open>Two memories that differ in one page bit have free sets that differ in that page.\<close>

lemma free_page_set_differ:
  assumes wf: "phys_wf (s, m)"
    and i: "i < unat (free_block_count s)" "p < unat (bm_num_pages (phys_mblocks s i))"
    and same: "\<And>j q. j < unat (free_block_count s) \<Longrightarrow> q < unat (bm_num_pages (phys_mblocks s j)) \<Longrightarrow>
      (j, q) \<noteq> (i, p) \<Longrightarrow>
      page_free m' (bm_bitmap (phys_mblocks s j)) q \<longleftrightarrow> page_free m (bm_bitmap (phys_mblocks s j)) q"
  shows "free_page_set (s, m') - {page_addr (phys_mblocks s i) p} =
           free_page_set (s, m) - {page_addr (phys_mblocks s i) p}"
proof -
  have "free_page_set (s, m1) - {page_addr (phys_mblocks s i) p} \<subseteq> free_page_set (s, m2)"
    if "m1 = m \<and> m2 = m' \<or> m1 = m' \<and> m2 = m" for m1 m2
  proof
    fix a assume a: "a \<in> free_page_set (s, m1) - {page_addr (phys_mblocks s i) p}"
    then obtain j q where j: "j < unat (free_block_count s)"
      "q < unat (bm_num_pages (phys_mblocks s j))" and eq: "a = page_addr (phys_mblocks s j) q"
      and free: "page_free m1 (bm_bitmap (phys_mblocks s j)) q"
      by (auto simp: free_page_set_nth)
    have "(j, q) \<noteq> (i, p)" using a eq by auto
    from same[OF j this] free that have "page_free m2 (bm_bitmap (phys_mblocks s j)) q" by auto
    then show "a \<in> free_page_set (s, m2)" using mem_free_page_set[OF wf j] eq by simp
  qed
  then show ?thesis by blast
qed

lemma free_page_set_clear:
  assumes wf: "phys_wf (s, m)"
    and i: "i < unat (free_block_count s)" "p < unat (bm_num_pages (phys_mblocks s i))"
  shows "free_page_set (s, clear_page (bm_bitmap (phys_mblocks s i)) p m) =
           free_page_set (s, m) - {page_addr (phys_mblocks s i) p}"
proof -
  have "page_addr (phys_mblocks s i) p \<notin>
      free_page_set (s, clear_page (bm_bitmap (phys_mblocks s i)) p m)"
    using page_free_update(1)[OF wf i i] by (simp add: mem_free_page_set[OF wf i])
  then show ?thesis
    using free_page_set_differ[OF wf i, of "clear_page (bm_bitmap (phys_mblocks s i)) p m"]
      page_free_update(1)[OF wf i] by auto
qed

lemma free_page_set_set:
  assumes wf: "phys_wf (s, m)"
    and i: "i < unat (free_block_count s)" "p < unat (bm_num_pages (phys_mblocks s i))"
  shows "free_page_set (s, set_page (bm_bitmap (phys_mblocks s i)) p m) =
           insert (page_addr (phys_mblocks s i) p) (free_page_set (s, m))"
proof -
  have "page_addr (phys_mblocks s i) p \<in>
      free_page_set (s, set_page (bm_bitmap (phys_mblocks s i)) p m)"
    using page_free_update(2)[OF wf i i] by (simp add: mem_free_page_set[OF wf i])
  then show ?thesis
    using free_page_set_differ[OF wf i, of "set_page (bm_bitmap (phys_mblocks s i)) p m"]
      page_free_update(2)[OF wf i] by auto
qed

interpretation phys_pages: page_allocator
  bitmap_allocate_page bitmap_free_page free_page_set managed_pages phys_wf
proof unfold_locales
  fix sm sm' :: "phys \<times> memory" and a r
  obtain s m where sm: "sm = (s, m)" by fastforce
  assume wf0: "phys_wf sm"
  then have wf: "phys_wf (s, m)" by (simp add: sm)
  show "free_page_set sm \<subseteq> managed_pages sm" by (auto simp: free_page_set_def managed_pages_def)
  {
    assume "bitmap_allocate_page sm = (a, sm')"
    then have eq: "bitmap_allocate_page (s, m) = (a, sm')" by (simp add: sm)
    show "phys_wf sm' \<and> managed_pages sm' = managed_pages sm"
      using wf
    proof (cases rule: bitmap_allocate_page_cases)
      case (take i p)
      then show ?thesis using eq wf by (auto simp: phys_wf_def managed_pages_def sm)
    qed (use eq wf sm in simp)
    show "a \<in> free_page_set sm \<and> free_page_set sm' = free_page_set sm - {a}" if "a \<noteq> 0"
      using wf
    proof (cases rule: bitmap_allocate_page_cases)
      case (take i p)
      with eq free_page_set_clear[OF wf take(1,2)] show ?thesis
        by (auto simp: sm free_page_set_nth)
    qed (use eq that in simp)
  }
  {
    assume "bitmap_allocate_page sm = (0, sm')"
    then have eq: "bitmap_allocate_page (s, m) = (0, sm')" by (simp add: sm)
    show "free_page_set sm = {} \<and> sm' = sm"
      using wf
    proof (cases rule: bitmap_allocate_page_cases)
      case (take i p)
      have "manager_ok (phys_mblocks s i)" using wf take(1) by (simp add: phys_wf_nth)
      with unat_page_addr(2)[OF this take(2)] eq take(4) show ?thesis by simp
    qed (use eq sm in simp)
  }
  {
    assume "a \<in> managed_pages sm" and rel: "bitmap_free_page a sm = (r, sm')"
    then obtain i p where i: "i < unat (free_block_count s)"
      "p < unat (bm_num_pages (phys_mblocks s i))" and a: "a = page_addr (phys_mblocks s i) p"
      by (auto simp: managed_pages_def set_managers sm)
    have "r" and sm': "sm' = (s, set_page (bm_bitmap (phys_mblocks s i)) p m)"
      using rel bitmap_free_page_managed[OF wf i] by (simp_all add: sm a)
    then show "r \<and> phys_wf sm' \<and> managed_pages sm' = managed_pages sm \<and>
        free_page_set sm' = insert a (free_page_set sm)"
      using wf free_page_set_set[OF wf i] by (simp add: sm a phys_wf_def managed_pages_def)
  }
qed

section \<open>Runs of pages\<close>

definition run_free :: "memory \<Rightarrow> u64 \<Rightarrow> nat \<Rightarrow> nat \<Rightarrow> bool" where
  "run_free m bm st n \<longleftrightarrow> (\<forall>j<n. page_free m bm (st + j))"

lemma ucast_of_nat_32: "(ucast (of_nat n :: u64) :: u32) = of_nat n"
  by transfer (simp add: take_bit_of_nat)

lemma eq_of_nat_of_unat: "unat (x::u64) = k \<Longrightarrow> x = of_nat k"
  by auto

lemma run_free_Suc: "run_free m bm st (Suc n) \<longleftrightarrow> run_free m bm st n \<and> page_free m bm (st + n)"
  by (auto simp: run_free_def less_Suc_eq)

abbreviation search_spec :: "memory \<Rightarrow> u64 \<Rightarrow> u64 \<Rightarrow> nat \<Rightarrow> nat \<Rightarrow> int \<Rightarrow> bool" where
  "search_spec m bm n lo hi r \<equiv>
     r = - 1 \<and> (\<forall>st. lo \<le> st \<longrightarrow> st + unat n \<le> hi \<longrightarrow> \<not> run_free m bm st (unat n)) \<or>
     (\<exists>st. r = int st \<and> st + unat n \<le> hi \<and> run_free m bm st (unat n))"

text \<open>Counting one more free page: the run is complete, or the count stays below what is asked for.\<close>

lemma count_reached:
  assumes "Suc c = unat n" and "c \<le> i" and "i < 2 ^ 31"
  shows "(of_nat c :: u64) + 1 = n" and "sint (ucast (of_nat i - n + 1 :: u64) :: u32) = int (i - c)"
proof -
  show n: "of_nat c + 1 = n" using eq_of_nat_of_unat[OF assms(1)[symmetric]] by (simp add: add.commute)
  have "of_nat i - (of_nat c + 1) + 1 = (of_nat (i - c) :: u64)" using assms(2) by (simp add: of_nat_diff)
  moreover have "sint (ucast (of_nat (i - c) :: u64) :: u32) = int (i - c)"
    using assms(3) to_int_less[of "i - c"] by (simp add: to_int_def ucast_of_nat_32)
  ultimately show "sint (ucast (of_nat i - n + 1 :: u64) :: u32) = int (i - c)" by (simp flip: n)
qed

lemma count_below_wanted:
  assumes "c < unat (n :: u64)" and "Suc c \<noteq> unat n"
  shows "of_nat c + 1 \<noteq> n"
proof
  assume "of_nat c + 1 = n"
  then have "unat n = unat (of_nat (Suc c) :: u64)" by (simp add: add.commute)
  also have "\<dots> = Suc c" using assms(1) unsigned_less[of n, where 'a = nat] by (intro unat_of_nat_less) simp
  finally show False using assms(2) by simp
qed

lemma contiguous_from_spec:
  assumes "c < unat n" and "c \<le> i" and "run_free m bm (i - c) c" and "i + k < 2 ^ 31"
  shows "search_spec m bm n (i - c) (i + k) (contiguous_from m bm n i (of_nat c) k)"
  using assms
proof (induction k arbitrary: i c)
  case 0
  have "\<not> run_free m bm st (unat n)" if "i - c \<le> st" "st + unat n \<le> i" for st
    using that 0(1,2) by linarith
  then show ?case by simp
next
  case (Suc k)
  show ?case
  proof (cases "page_free m bm i")
    case False
    have "contiguous_from m bm n i (of_nat c) (Suc k) = contiguous_from m bm n (Suc i) (of_nat 0) k"
      using False by simp
    moreover have "\<not> run_free m bm st (unat n)" if "i - c \<le> st" "st \<le> i" for st
    proof -
      have "i - st < unat n" using that Suc.prems(1) by linarith
      then show ?thesis using False that(2) by (auto simp: run_free_def intro!: exI[of _ "i - st"])
    qed
    moreover have "search_spec m bm n (Suc i - 0) (Suc i + k) (contiguous_from m bm n (Suc i) (of_nat 0) k)"
      using Suc.prems by (intro Suc.IH) (auto simp: run_free_def)
    ultimately show ?thesis by (metis add_Suc_shift diff_zero not_less_eq_eq)
  next
    case True
    have ext: "run_free m bm (i - c) (Suc c)" using Suc.prems(2,3) True by (simp add: run_free_Suc)
    show ?thesis
    proof (cases "Suc c = unat n")
      case full: True
      have "i < 2 ^ 31" using Suc.prems(4) by simp
      note reached = count_reached[OF full Suc.prems(2) this]
      have "contiguous_from m bm n i (of_nat c) (Suc k) = int (i - c)" using True reached by simp
      moreover have "i - c + unat n \<le> i + Suc k" using full Suc.prems(2) by simp
      moreover have "run_free m bm (i - c) (unat n)" using ext full by simp
      ultimately show ?thesis by blast
    next
      case more: False
      have "of_nat c + 1 \<noteq> n" by (rule count_below_wanted[OF Suc.prems(1) more])
      then have "contiguous_from m bm n i (of_nat c) (Suc k) =
          contiguous_from m bm n (Suc i) (of_nat (Suc c)) k"
        using True by (simp add: add.commute)
      moreover have "search_spec m bm n (Suc i - Suc c) (Suc i + k) (contiguous_from m bm n (Suc i) (of_nat (Suc c)) k)"
        using Suc.prems more ext by (intro Suc.IH) auto
      ultimately show ?thesis by (simp del: of_nat_Suc)
    qed
  qed
qed

lemma find_contiguous_cases:
  assumes "unat (bm_num_pages b) < 2 ^ 31" and "0 < unat n"
  obtains (none) "find_contiguous_free_pages m b n = - 1"
      "\<And>st. st + unat n \<le> unat (bm_num_pages b) \<Longrightarrow> \<not> run_free m (bm_bitmap b) st (unat n)"
  | (some) st where "find_contiguous_free_pages m b n = int st"
      "st + unat n \<le> unat (bm_num_pages b)" "run_free m (bm_bitmap b) st (unat n)"
  using contiguous_from_spec[of 0 n 0 m "bm_bitmap b" "unat (bm_num_pages b)"] assms
  by (auto simp: find_contiguous_free_pages_def run_free_def)

text \<open>Clearing or setting a run of bits, one page at a time.\<close>

definition run_addrs :: "bitmap_manager \<Rightarrow> nat \<Rightarrow> nat \<Rightarrow> u64 set" where
  "run_addrs b st n = (\<lambda>j. page_addr b (st + j)) ` {..<n}"

lemma run_addrs_Suc: "run_addrs b st (Suc n) = insert (page_addr b (st + n)) (run_addrs b st n)"
  by (auto simp: run_addrs_def lessThan_Suc)

lemma free_page_set_clear_run:
  assumes wf: "phys_wf (s, m)" and i: "i < unat (free_block_count s)"
    and n: "st + n \<le> unat (bm_num_pages (phys_mblocks s i))"
  shows "free_page_set (s, fold (\<lambda>j. clear_page (bm_bitmap (phys_mblocks s i)) (st + j)) [0..<n] m) =
           free_page_set (s, m) - run_addrs (phys_mblocks s i) st n"
  using n
proof (induction n)
  case (Suc n)
  let ?m = "fold (\<lambda>j. clear_page (bm_bitmap (phys_mblocks s i)) (st + j)) [0..<n] m"
  have "phys_wf (s, ?m)" using wf phys_wf_mem by blast
  from free_page_set_clear[OF this i, of "st + n"] Suc show ?case
    by (auto simp: run_addrs_Suc)
qed (simp add: run_addrs_def)

lemma free_page_set_set_run:
  assumes wf: "phys_wf (s, m)" and i: "i < unat (free_block_count s)"
    and n: "st + n \<le> unat (bm_num_pages (phys_mblocks s i))"
  shows "free_page_set (s, fold (\<lambda>j. set_page (bm_bitmap (phys_mblocks s i)) (st + j)) [0..<n] m) =
           free_page_set (s, m) \<union> run_addrs (phys_mblocks s i) st n"
  using n
proof (induction n)
  case (Suc n)
  let ?m = "fold (\<lambda>j. set_page (bm_bitmap (phys_mblocks s i)) (st + j)) [0..<n] m"
  have "phys_wf (s, ?m)" using wf phys_wf_mem by blast
  from free_page_set_set[OF this i, of "st + n"] Suc show ?case
    by (auto simp: run_addrs_Suc)
qed (simp add: run_addrs_def)

lemma fold_pages_cong:
  assumes "st + n < 2 ^ 64"
  shows "fold (\<lambda>j. f (unat (of_nat st + of_nat j :: u64))) [0..<n] m = fold (\<lambda>j. f (st + j)) [0..<n] m"
proof (rule fold_cong)
  fix j assume "j \<in> set [0..<n]"
  then have "unat (of_nat (st + j) :: u64) = st + j" using assms by (intro unat_of_nat_less) simp
  then show "f (unat (of_nat st + of_nat j :: u64)) = f (st + j)" by simp
qed auto

lemma bitmap_allocate_pages_cases:
  assumes wf: "phys_wf (s, m)" and n: "0 < unat n"
  obtains (fail) "bitmap_allocate_pages n (s, m) = (0, s, m)"
      "\<And>i st. i < unat (free_block_count s) \<Longrightarrow> st + unat n \<le> unat (bm_num_pages (phys_mblocks s i)) \<Longrightarrow>
         \<not> run_free m (bm_bitmap (phys_mblocks s i)) st (unat n)"
  | (take) i st where "i < unat (free_block_count s)"
      "st + unat n \<le> unat (bm_num_pages (phys_mblocks s i))"
      "run_free m (bm_bitmap (phys_mblocks s i)) st (unat n)"
      "bitmap_allocate_pages n (s, m) = (page_addr (phys_mblocks s i) st, s,
         fold (\<lambda>j. clear_page (bm_bitmap (phys_mblocks s i)) (st + j)) [0..<unat n] m)"
proof -
  have ok: "unat (bm_num_pages (phys_mblocks s i)) < 2 ^ 31" if "i < unat (free_block_count s)" for i
    using wf that by (auto simp: phys_wf_nth manager_ok_def)
  let ?P = "\<lambda>i. find_contiguous_free_pages m (phys_mblocks s i) n \<noteq> - 1"
  show thesis
  proof (cases "first_index ?P (unat (free_block_count s))")
    case None
    have "\<not> run_free m (bm_bitmap (phys_mblocks s i)) st (unat n)"
      if i: "i < unat (free_block_count s)" and st: "st + unat n \<le> unat (bm_num_pages (phys_mblocks s i))" for i st
      using ok[OF i] n
    proof (cases rule: find_contiguous_cases[where m = m])
      case none
      then show ?thesis using st by blast
    next
      case (some st')
      then show ?thesis using None i by (simp add: first_index_None_iff)
    qed
    then show thesis using None by (intro fail) (simp_all add: bitmap_allocate_pages_def)
  next
    case (Some i)
    note facts = first_index_SomeD[OF Some]
    show thesis
      using ok[OF facts(1)] n
    proof (cases rule: find_contiguous_cases[where m = m])
      case none
      then show thesis using facts(2) by simp
    next
      case (some st)
      have "st + unat n < 2 ^ 64" using some(2) ok[OF facts(1)] by simp
      note cong = fold_pages_cong[OF this, of "clear_page (bm_bitmap (phys_mblocks s i))"]
      have "bitmap_allocate_pages n (s, m) = (page_addr (phys_mblocks s i) st, s,
         fold (\<lambda>j. clear_page (bm_bitmap (phys_mblocks s i)) (st + j)) [0..<unat n] m)"
        using Some some(1) cong by (simp add: bitmap_allocate_pages_def Let_def page_addr_def)
      with facts(1) some show thesis by (intro take) auto
    qed
  qed
qed

lemma bitmap_free_pages_run:
  assumes wf: "phys_wf (s, m)" and i: "i < unat (free_block_count s)" and n: "0 < unat n"
    and st: "st + unat n \<le> unat (bm_num_pages (phys_mblocks s i))"
  shows "bitmap_free_pages (page_addr (phys_mblocks s i) st) n (s, m) =
           (True, s, fold (\<lambda>j. set_page (bm_bitmap (phys_mblocks s i)) (st + j)) [0..<unat n] m)"
proof -
  let ?b = "phys_mblocks s i"
  have p: "st < unat (bm_num_pages ?b)" using n st by simp
  have ok: "manager_ok ?b" using wf i by (simp add: phys_wf_nth)
  have idx: "(page_addr ?b st - bm_base_address ?b) div PAGE_SIZE = of_nat st"
    using page_index_of_addr[OF ok p] by (rule eq_of_nat_of_unat)
  have lt: "st + unat n < 2 ^ 64" using st ok by (simp add: manager_ok_def)
  have "unat (of_nat st + n) = st + unat n"
    using lt unat_of_nat_less[of "st + unat n"] by simp
  then have le: "of_nat st + n \<le> bm_num_pages ?b" using st by (simp add: word_le_nat_alt)
  have "first_index (\<lambda>j. in_block (phys_mblocks s j) (page_addr ?b st) \<and>
      (page_addr ?b st - bm_base_address (phys_mblocks s j)) div PAGE_SIZE + n \<le> bm_num_pages (phys_mblocks s j))
      (unat (free_block_count s)) = Some i"
    using i in_block_page_addr[OF wf i p] le by (auto simp: first_index_Some_iff idx)
  then show ?thesis using fold_pages_cong[OF lt] by (simp add: bitmap_free_pages_def Let_def idx)
qed

section \<open>What setup leaves behind\<close>

lemma setup_ones:
  assumes "8 * n \<le> 2 ^ 63" and "j < n"
  shows "load64 (fold (\<lambda>j m. store64 m (base_addr + of_nat (8 * j)) 0xFFFFFFFFFFFFFFFF) [0..<n] m)
           (base_addr + of_nat (8 * j)) = 0xFFFFFFFFFFFFFFFF"
  using assms
proof (induction n)
  case (Suc n)
  have "apart (base_addr + of_nat (8 * n)) 8 (base_addr + of_nat (8 * j)) 8" if "j < n"
    unfolding apart_sym[of "base_addr + of_nat (8 * n)"] using that Suc.prems(1) by (intro apart_offsets) auto
  with Suc show ?case
    by (cases "j = n") (simp_all add: load64_store64_same load64_store64_apart del: of_nat_mult)
qed simp

lemma page_free_clear_run:
  assumes "n \<le> 2 ^ 60" and "q < 2 ^ 60"
  shows "page_free (fold (clear_page bm) [0..<n] m) bm q \<longleftrightarrow> page_free m bm q \<and> n \<le> q"
  using assms by (induction n) (auto simp: page_free_clear)

lemma setup_block_pages:
  assumes small: "unat sz < 2 ^ 43" and blk: "setup_block base_addr sz (s, m) = (s', m')"
    and p: "p < unat (sz div PAGE_SIZE)"
  shows "page_free m' base_addr p \<longleftrightarrow> (8 * ((unat (sz div PAGE_SIZE) + 63) div 64) + 4095) div 4096 \<le> p"
proof -
  let ?pages = "sz div PAGE_SIZE"
  let ?words = "(?pages + 63) div 64"
  have pages: "unat ?pages < 2 ^ 31" using small by (simp add: PAGE_SIZE_def unat_div_distrib)
  have "unat (?pages + 63) = unat ?pages + 63" using pages by (simp add: unat_word_ariths)
  then have words: "unat ?words = (unat ?pages + 63) div 64" by (simp add: unat_div_distrib)
  have wlt: "unat ?words < 2 ^ 26" using pages words by simp
  then have "unat (?words * 8 + 4096 - 1) = 8 * unat ?words + 4095"
    by (simp add: unat_word_ariths)
  then have bp: "unat ((?words * 8 + PAGE_SIZE - 1) div PAGE_SIZE) = (8 * unat ?words + 4095) div 4096"
    by (simp add: PAGE_SIZE_def unat_div_distrib)
  define ones where "ones = fold (\<lambda>j m. store64 m (base_addr + of_nat (8 * j)) 0xFFFFFFFFFFFFFFFF)
      [0..<unat ?words] m"
  have m': "m' = fold (clear_page base_addr) [0..<(8 * unat ?words + 4095) div 4096] ones"
    using blk bp by (simp add: setup_block_def Let_def ones_def)
  have "p div 64 < unat ?words" using p words by simp
  then have "load64 ones (word_addr base_addr p) = 0xFFFFFFFFFFFFFFFF"
    unfolding ones_def word_addr_def using wlt by (intro setup_ones) auto
  moreover have "bit (0xFFFFFFFFFFFFFFFF :: u64) (p mod 64)"
  proof -
    have "(0xFFFFFFFFFFFFFFFF :: u64) = - 1" by simp
    then show ?thesis by (simp only: bit_minus_1_iff) (simp add: possible_bit_word)
  qed
  ultimately have "page_free ones base_addr p" by (simp add: page_free_bit)
  moreover have "p < 2 ^ 60" "(8 * unat ?words + 4095) div 4096 \<le> 2 ^ 60"
    using p pages wlt by simp_all
  ultimately show ?thesis by (simp add: m' page_free_clear_run words)
qed

definition sample_phys :: "phys \<times> memory" where
  "sample_phys = setup_block 0x100000 0x4000 (phys_bss, \<lambda>_. 0)"

lemma sample_phys_eq:
  "setup_block 0x100000 0x4000 (phys_bss, \<lambda>_. 0) = (fst sample_phys, snd sample_phys)"
  by (simp add: sample_phys_def)

lemma sample_managers:
  "free_block_count (fst sample_phys) = 1"
  "managers (fst sample_phys) =
     [\<lparr>bm_bitmap = 0x100000, bm_base_address = 0x100008, bm_size = 0, bm_num_pages = 4\<rparr>]"
  by (simp_all add: sample_phys_def setup_block_def Let_def managers_def phys_bss_def
      zero_manager_def PAGE_SIZE_def)

lemma sample_phys_wf: "phys_wf sample_phys"
  by (simp add: phys_wf_def sample_managers manager_ok_def)

lemma sample_page_free: "p < 4 \<Longrightarrow> page_free (snd sample_phys) 0x100000 p \<longleftrightarrow> 1 \<le> p"
  using setup_block_pages[OF _ sample_phys_eq, of p]
  by (simp add: sample_phys_def PAGE_SIZE_def)

lemma free_page_set_single:
  "managers (fst sm) = [b] \<Longrightarrow> free_page_set sm =
     page_addr b ` {p. p < unat (bm_num_pages b) \<and> page_free (snd sm) (bm_bitmap b) p}"
  by (auto simp: free_page_set_def)

lemma sample_free_pages: "free_page_set sample_phys = {0x101008, 0x102008, 0x103008}"
proof -
  have "p < 4 \<and> page_free (snd sample_phys) 0x100000 p \<longleftrightarrow> p = 1 \<or> p = 2 \<or> p = 3" for p
    using sample_page_free[of p] by auto
  then have "{p. p < 4 \<and> page_free (snd sample_phys) 0x100000 p} = {1, 2, 3}" by blast
  then show ?thesis
    using free_page_set_single[OF sample_managers(2)] by (simp add: page_addr_def PAGE_SIZE_def)
qed

section \<open>Properties\<close>

lemma bitmap_pages_distinct_facts:
  assumes "phys_wf sm" and "alloc_pages bitmap_allocate_page k sm = (as, sm')"
  shows "distinct as" and "set as \<subseteq> free_page_set sm"
    and "free_page_set sm' = free_page_set sm - set as"
    and "finite (free_page_set sm) \<Longrightarrow> card (free_page_set sm) \<le> k \<Longrightarrow> set as = free_page_set sm"
  using phys_pages.alloc_pages_distinct[OF assms] phys_pages.alloc_pages_complete[OF assms(1) _ _ assms(2)]
  by auto

text \<open>C12: The page allocator hands out every free page exactly once. Any number of calls of
  \<open>bitmap_allocate_page\<close> returns pairwise different pages, all of them free before, and takes exactly
  these from the free set; when the number of calls is large enough, every free page is returned
  before the first null.\<close>

theorem bitmap_pages_distinct:
  assumes "phys_wf sm" and "alloc_pages bitmap_allocate_page k sm = (as, sm')"
  shows "distinct as \<and> set as \<subseteq> free_page_set sm \<and>
    free_page_set sm' = free_page_set sm - set as \<and>
    (finite (free_page_set sm) \<and> card (free_page_set sm) \<le> k \<longrightarrow> set as = free_page_set sm)"
  using bitmap_pages_distinct_facts[OF assms] by blast

theorem bitmap_pages_distinct_witness:
  "set (fst (alloc_pages bitmap_allocate_page 3 sample_phys)) = {0x101008, 0x102008, 0x103008}"
  using bitmap_pages_distinct[OF sample_phys_wf surjective_pairing, of 3]
  by (simp add: sample_free_pages)

text \<open>C35: A run of pages. \<open>bitmap_allocate_pages n\<close> either returns the first of \<open>n\<close> consecutive pages that
  were all free and marks exactly these as used, after which \<open>bitmap_free_pages\<close> accepts the address
  and restores the free set; or it returns null, changes nothing, and no block holds a run of \<open>n\<close>
  free pages.\<close>

theorem bitmap_run_roundtrip:
  assumes "phys_wf sm" and "n \<noteq> 0" and "bitmap_allocate_pages n sm = (a, sm')"
  shows "if a = 0
    then sm' = sm \<and> (\<forall>b \<in> set (managers (fst sm)). \<forall>st. st + unat n \<le> unat (bm_num_pages b) \<longrightarrow>
           \<not> run_free (snd sm) (bm_bitmap b) st (unat n))
    else (let run = (\<lambda>j. a + of_nat j * PAGE_SIZE) ` {..<unat n} in
           run \<subseteq> free_page_set sm \<and> free_page_set sm' = free_page_set sm - run \<and>
           fst (bitmap_free_pages a n sm') \<and>
           free_page_set (snd (bitmap_free_pages a n sm')) = free_page_set sm)"
proof -
  obtain s m where sm: "sm = (s, m)" by fastforce
  have wf: "phys_wf (s, m)" and n: "0 < unat n" using assms(1,2) by (simp_all add: sm unat_gt_0)
  from wf n show ?thesis
  proof (cases rule: bitmap_allocate_pages_cases)
    case fail
    then show ?thesis using assms(3) by (auto simp: sm set_managers)
  next
    case (take i st)
    let ?b = "phys_mblocks s i"
    have ok: "manager_ok ?b" using wf take(1) by (simp add: phys_wf_nth)
    have eq: "a = page_addr ?b st" "sm' = (s, fold (\<lambda>j. clear_page (bm_bitmap ?b) (st + j)) [0..<unat n] m)"
      using assms(3) take(4) by (simp_all add: sm)
    have "a \<noteq> 0" using unat_page_addr(2)[OF ok, of st] take(2) n eq by simp
    have run: "(\<lambda>j. a + of_nat j * PAGE_SIZE) ` {..<unat n} = run_addrs ?b st (unat n)"
      by (simp add: run_addrs_def eq page_addr_def distrib_right add.assoc)
    have sub: "run_addrs ?b st (unat n) \<subseteq> free_page_set sm"
      using take(1-3) mem_free_page_set[OF wf take(1)] by (auto simp: run_addrs_def run_free_def sm)
    note clear = free_page_set_clear_run[OF wf take(1,2)]
    have wf': "phys_wf sm'" using wf phys_wf_mem eq(2) by blast
    note free = bitmap_free_pages_run[OF wf'[unfolded eq(2)] take(1) n take(2)]
      free_page_set_set_run[OF wf'[unfolded eq(2)] take(1,2)]
    have regain: "free_page_set sm - run_addrs ?b st (unat n) \<union> run_addrs ?b st (unat n) = free_page_set sm"
      using sub by blast
    have "bitmap_free_pages a n sm' = (True, snd (bitmap_free_pages a n sm'))"
      "free_page_set (snd (bitmap_free_pages a n sm')) = free_page_set sm"
      using free clear regain by (simp_all add: eq sm)
    then have "fst (bitmap_free_pages a n sm')" by (metis fst_conv)
    with \<open>a \<noteq> 0\<close> sub clear show ?thesis
      using \<open>free_page_set (snd (bitmap_free_pages a n sm')) = free_page_set sm\<close>
      by (simp add: run Let_def) (simp add: eq sm)
  qed
qed

theorem bitmap_run_roundtrip_witness:
  "let (a, sm') = bitmap_allocate_pages 3 sample_phys in
   a \<noteq> 0 \<and> fst (bitmap_free_pages a 3 sm') \<and>
   free_page_set (snd (bitmap_free_pages a 3 sm')) = {0x101008, 0x102008, 0x103008}"
proof -
  have "run_free (snd sample_phys) 0x100000 1 3"
    using sample_page_free by (simp add: run_free_def)
  then have "\<not> (\<forall>b \<in> set (managers (fst sample_phys)). \<forall>st. st + unat (3 :: u64) \<le> unat (bm_num_pages b) \<longrightarrow>
      \<not> run_free (snd sample_phys) (bm_bitmap b) st (unat (3 :: u64)))"
    by (auto simp: sample_managers intro!: exI[of _ "1 :: nat"])
  then show ?thesis
    using bitmap_run_roundtrip[OF sample_phys_wf _ surjective_pairing, of 3]
    by (auto simp: split_beta Let_def sample_free_pages split: if_splits)
qed

lemma setup_block_spec_facts:
  assumes "unat sz < 2 ^ 43" and "setup_block base_addr sz (s, m) = (s', m')"
  shows "free_block_count s' = free_block_count s + 1"
    and "let b = phys_mblocks s' (unat (free_block_count s)); words = (sz div PAGE_SIZE + 63) div 64 in
      bm_bitmap b = base_addr \<and> bm_num_pages b = sz div PAGE_SIZE \<and>
      bm_base_address b = base_addr + words * 8 \<and>
      (\<forall>p<unat (bm_num_pages b). page_free m' (bm_bitmap b) p \<longleftrightarrow>
         (8 * ((unat (bm_num_pages b) + 63) div 64) + 4095) div 4096 \<le> p)"
  using setup_block_pages[OF assms] assms(2) by (auto simp: setup_block_def Let_def)

text \<open>Setting up a region (of less than 8 TiB) marks exactly the pages the bitmap was counted to
  occupy as used, every other page of the region as free.\<close>

theorem setup_block_spec:
  assumes "unat sz < 2 ^ 43" and "setup_block base_addr sz (s, m) = (s', m')"
  shows "free_block_count s' = free_block_count s + 1 \<and>
    (let b = phys_mblocks s' (unat (free_block_count s)); words = (sz div PAGE_SIZE + 63) div 64 in
      bm_bitmap b = base_addr \<and> bm_num_pages b = sz div PAGE_SIZE \<and>
      bm_base_address b = base_addr + words * 8 \<and>
      (\<forall>p<unat (bm_num_pages b). page_free m' (bm_bitmap b) p \<longleftrightarrow>
         (8 * ((unat (bm_num_pages b) + 63) div 64) + 4095) div 4096 \<le> p))"
  using setup_block_spec_facts[OF assms] by blast

theorem setup_block_spec_witness:
  "free_block_count (fst sample_phys) = free_block_count phys_bss + 1"
  using setup_block_spec[OF _ sample_phys_eq]
  by (simp add: sample_phys_def)

text \<open>The pages of a region do not fit in it. Setup counts the pages of the whole region but places
  the first of them after the bitmap, so the last page, which it marks free, ends past the region:
  the allocator can hand out memory that the memory map did not declare free.\<close>

theorem setup_last_page_outside:
  assumes "unat sz < 2 ^ 43" and "4096 dvd unat sz" and "2 * 4096 \<le> unat sz"
    and "unat base_addr + 2 * unat sz < 2 ^ 64"
    and "setup_block base_addr sz (s, m) = (s', m')"
  shows "let b = phys_mblocks s' (unat (free_block_count s)); p = unat (bm_num_pages b) - 1 in
    page_free m' (bm_bitmap b) p \<and> unat base_addr + unat sz < unat (page_addr b p) + 4096"
proof -
  let ?n = "unat (sz div PAGE_SIZE)"
  let ?words = "(sz div PAGE_SIZE + 63) div 64"
  have nsz: "?n * 4096 = unat sz" using assms(2) by (simp add: PAGE_SIZE_def unat_div_distrib)
  then have n: "2 \<le> ?n" "?n < 2 ^ 31" using assms(1,3) by auto
  have "unat (sz div PAGE_SIZE + 63) = ?n + 63" using n(2) by (simp add: unat_word_ariths)
  then have words: "unat ?words = (?n + 63) div 64" by (simp add: unat_div_distrib)
  have w: "1 \<le> unat ?words" "unat ?words \<le> ?n" using n(1) unfolding words by linarith+
  have "unat (base_addr + ?words * 8 + of_nat (?n - 1) * 4096) =
      unat base_addr + 8 * unat ?words + (?n - 1) * 4096"
  proof -
    have "base_addr + ?words * 8 + of_nat (?n - 1) * 4096 =
        of_nat (unat base_addr + 8 * unat ?words + (?n - 1) * 4096)" by simp
    moreover have "unat base_addr + 8 * unat ?words + (?n - 1) * 4096 < 2 ^ 64"
      using assms(4) nsz w n by linarith
    ultimately show ?thesis using unat_of_nat_less by metis
  qed
  moreover have "page_free m' base_addr (?n - 1)"
    using setup_block_pages[OF assms(1,5), of "?n - 1"] n by simp
  moreover have "(?n - 1) * 4096 + 4096 = unat sz" using nsz n by simp
  ultimately show ?thesis
    using assms(5) w by (auto simp: setup_block_def Let_def page_addr_def PAGE_SIZE_def)
qed

theorem setup_last_page_outside_witness:
  "page_free (snd sample_phys) 0x100000 3 \<and> 0x100000 + 0x4000 < (0x103008 :: nat) + 4096"
  using setup_last_page_outside[OF _ _ _ _ sample_phys_eq]
  by (simp add: sample_phys_def setup_block_def Let_def page_addr_def PAGE_SIZE_def phys_bss_def zero_manager_def)

end
