(* ===== verification/Libc_String.thy ===== *)
theory Libc_String
  imports Kernel_Prelude "HOL-Library.Sublist"
begin

text \<open>
  The kernel's string library, \<^verbatim>\<open>src/libc/string.c\<close>, over byte memory: pointers are 64-bit addresses,
  every routine reads and writes the memory in the order of the C loops. A scan for a terminating
  zero ends only if there is one, so these routines return an \<open>option\<close>. A C string in memory is
  related to its list of characters by \<open>cstring\<close>; the lemmas give each routine its meaning on lists.
\<close>

section \<open>Scanning\<close>

partial_function (option) strlen_loop :: "memory \<Rightarrow> u64 \<Rightarrow> u64 \<Rightarrow> u64 option" where
  "strlen_loop m str len = (if m str = 0 then Some len else strlen_loop m (str + 1) (len + 1))"

definition strlen :: "memory \<Rightarrow> u64 \<Rightarrow> u64 option" where
  "strlen m str = strlen_loop m str 0"

text \<open>\<open>strstr\<close>: the inner loop returns where \<open>n\<close> stopped.\<close>

partial_function (option) match_loop :: "memory \<Rightarrow> u64 \<Rightarrow> u64 \<Rightarrow> u64 option" where
  "match_loop m h n =
     (if m h \<noteq> 0 \<and> m n \<noteq> 0 \<and> m h = m n then match_loop m (h + 1) (n + 1) else Some n)"

partial_function (option) strstr_loop :: "memory \<Rightarrow> u64 \<Rightarrow> u64 \<Rightarrow> u64 option" where
  "strstr_loop m haystack needle =
     (if m haystack = 0 then Some 0
      else do {
        n \<leftarrow> match_loop m haystack needle;
        if m n = 0 then Some haystack else strstr_loop m (haystack + 1) needle
      })"

definition strstr :: "memory \<Rightarrow> u64 \<Rightarrow> u64 \<Rightarrow> u64 option" where
  "strstr m haystack needle =
     (if m needle = 0 then Some haystack else strstr_loop m haystack needle)"

partial_function (option) strcmp :: "memory \<Rightarrow> u64 \<Rightarrow> u64 \<Rightarrow> int option" where
  "strcmp m str_1 str_2 =
     (if m str_1 \<noteq> 0 \<and> m str_1 = m str_2 then strcmp m (str_1 + 1) (str_2 + 1)
      else Some (uint (m str_1) - uint (m str_2)))"

fun strncmp :: "memory \<Rightarrow> u64 \<Rightarrow> u64 \<Rightarrow> nat \<Rightarrow> int" where
  "strncmp m s1 s2 0 = 0"
| "strncmp m s1 s2 (Suc n) =
     (let u1 = m s1; u2 = m s2
      in if u1 \<noteq> u2 then uint u1 - uint u2
         else if u1 = 0 then 0 else strncmp m (s1 + 1) (s2 + 1) n)"

definition memcmp :: "memory \<Rightarrow> u64 \<Rightarrow> u64 \<Rightarrow> u64 \<Rightarrow> int" where
  "memcmp m s1 s2 n =
     (case first_index (\<lambda>i. m (s1 + of_nat i) \<noteq> m (s2 + of_nat i)) (unat n) of
        Some i \<Rightarrow> if m (s1 + of_nat i) < m (s2 + of_nat i) then - 1 else 1
      | None \<Rightarrow> 0)"

section \<open>Copying\<close>

partial_function (option) copy_loop :: "u64 \<Rightarrow> u64 \<Rightarrow> memory \<Rightarrow> memory option" where
  "copy_loop d src m =
     (let v = m src; m = m(d := v) in if v = 0 then Some m else copy_loop (d + 1) (src + 1) m)"

definition strcpy :: "u64 \<Rightarrow> u64 \<Rightarrow> memory \<Rightarrow> memory option" where
  "strcpy dest src m = copy_loop dest src m"

partial_function (option) end_loop :: "memory \<Rightarrow> u64 \<Rightarrow> u64 option" where
  "end_loop m d = (if m d = 0 then Some d else end_loop m (d + 1))"

definition strcat :: "u64 \<Rightarrow> u64 \<Rightarrow> memory \<Rightarrow> memory option" where
  "strcat dest src m = do { d \<leftarrow> end_loop m dest; copy_loop d src m }"

definition copy_byte :: "u64 \<Rightarrow> u64 \<Rightarrow> nat \<Rightarrow> memory \<Rightarrow> memory" where
  "copy_byte dest src i m = m(dest + of_nat i := m (src + of_nat i))"

definition memcpy :: "u64 \<Rightarrow> u64 \<Rightarrow> u64 \<Rightarrow> memory \<Rightarrow> memory" where
  "memcpy dest src n m = fold (copy_byte dest src) [0..<unat n] m"

definition memset :: "u64 \<Rightarrow> u32 \<Rightarrow> u64 \<Rightarrow> memory \<Rightarrow> memory" where
  "memset s c n m = fold (\<lambda>i m. m(s + of_nat i := ucast c)) [0..<unat n] m"

definition memmove :: "u64 \<Rightarrow> u64 \<Rightarrow> u64 \<Rightarrow> memory \<Rightarrow> memory" where
  "memmove dest src n m =
     (if dest < src then fold (copy_byte dest src) [0..<unat n] m
      else if src < dest then fold (copy_byte dest src) (rev [0..<unat n]) m
      else m)"

text \<open>\<open>strncpy\<close>: the length is kept in an \<^verbatim>\<open>int\<close> and compared with \<open>n\<close> as an unsigned number; the loops
  over \<^verbatim>\<open>int\<close> counters do nothing for a negative bound. The last loop writes before it tests.\<close>

partial_function (option) bounded_copy :: "u64 \<Rightarrow> u64 \<Rightarrow> u64 \<Rightarrow> u64 \<Rightarrow> memory \<Rightarrow> memory option" where
  "bounded_copy d s2 i n m =
     (let v = m s2; m = m(d := v)
      in if v \<noteq> 0 \<and> i < n then bounded_copy (d + 1) (s2 + 1) (i + 1) n m else Some m)"

definition strncpy :: "u64 \<Rightarrow> u64 \<Rightarrow> u64 \<Rightarrow> memory \<Rightarrow> memory option" where
  "strncpy s1 s2 n m = do {
     len \<leftarrow> strlen m s2;
     let length_of_source = (ucast len :: u32);
     if (scast length_of_source :: u64) < n then
       let remaining_chars = (ucast (n - scast length_of_source) :: u32);
           copied = nat (sint length_of_source);
           m = fold (copy_byte s1 s2) [0..<copied] m
       in Some (fold (\<lambda>k m. m(s1 + of_nat copied + of_nat k := 0)) [0..<nat (sint remaining_chars)] m)
     else bounded_copy s1 s2 0 n m
   }"

section \<open>Strings in memory\<close>

definition cstring :: "memory \<Rightarrow> u64 \<Rightarrow> u8 list \<Rightarrow> bool" where
  "cstring m a s \<longleftrightarrow> (\<forall>i<length s. m (a + of_nat i) = s ! i) \<and> m (a + of_nat (length s)) = 0 \<and>
     0 \<notin> set s \<and> length s < 2 ^ 63"

lemma cstring_at:
  assumes "cstring m a s" and "i \<le> length s"
  shows "m (a + of_nat i) = 0 \<longleftrightarrow> i = length s"
    and "i < length s \<Longrightarrow> m (a + of_nat i) = s ! i"
  using assms by (auto simp: cstring_def in_set_conv_nth le_less)

lemma cstring_drop:
  assumes "cstring m a s" and "i \<le> length s"
  shows "cstring m (a + of_nat i) (drop i s)"
  using assms by (auto simp: cstring_def add.assoc simp flip: of_nat_add dest: in_set_dropD)

lemma cstring_Cons:
  "cstring m a (c # s) \<longleftrightarrow> m a = c \<and> c \<noteq> 0 \<and> cstring m (a + 1) s \<and> length s + 1 < 2 ^ 63"
proof -
  have "(\<forall>i<Suc (length s). m (a + of_nat i) = (c # s) ! i) \<longleftrightarrow>
      m a = c \<and> (\<forall>i<length s. m (a + 1 + of_nat i) = s ! i)"
    by (simp only: All_less_Suc2) (simp add: add.assoc)
  then show ?thesis by (auto simp: cstring_def add.assoc)
qed

lemma cstring_Nil [simp]: "cstring m a [] \<longleftrightarrow> m a = 0"
  by (simp add: cstring_def)

lemma strlen_loop_cstring: "cstring m a s \<Longrightarrow> strlen_loop m a len = Some (len + of_nat (length s))"
  by (induction s arbitrary: a len) (simp_all add: strlen_loop.simps cstring_Cons add.assoc)

lemma strlen_cstring: "cstring m a s \<Longrightarrow> strlen m a = Some (of_nat (length s))"
  by (simp add: strlen_def strlen_loop_cstring)

section \<open>Comparing\<close>

text \<open>The comparison the routines compute: difference of the first unequal bytes, the terminators
  included.\<close>

fun compare_bytes :: "u8 list \<Rightarrow> u8 list \<Rightarrow> int" where
  "compare_bytes [] [] = 0"
| "compare_bytes [] (b # bs) = - uint b"
| "compare_bytes (a # as) [] = uint a"
| "compare_bytes (a # as) (b # bs) = (if a = b then compare_bytes as bs else uint a - uint b)"

lemma strcmp_cstring:
  "cstring m a s \<Longrightarrow> cstring m b t \<Longrightarrow> strcmp m a b = Some (compare_bytes s t)"
  by (induction s t arbitrary: a b rule: compare_bytes.induct)
    (simp_all add: strcmp.simps cstring_Cons)

lemma compare_bytes_0: "0 \<notin> set s \<Longrightarrow> 0 \<notin> set t \<Longrightarrow> compare_bytes s t = 0 \<longleftrightarrow> s = t"
  by (induction s t rule: compare_bytes.induct) (auto simp: word_uint_eq_iff)

lemma strncmp_cstring:
  "cstring m a s \<Longrightarrow> cstring m b t \<Longrightarrow> strncmp m a b n = compare_bytes (take n s) (take n t)"
proof (induction n arbitrary: a b s t)
  case (Suc n)
  then show ?case
    by (cases s; cases t) (auto simp: cstring_Cons Let_def)
qed simp

section \<open>Searching\<close>

lemma match_loop_cstring:
  "cstring m h s \<Longrightarrow> cstring m n t \<Longrightarrow>
   \<exists>k. match_loop m h n = Some (n + of_nat k) \<and> k \<le> length t \<and> (k = length t \<longleftrightarrow> prefix t s)"
proof (induction s t arbitrary: h n rule: compare_bytes.induct)
  case (4 c s d t)
  show ?case
  proof (cases "c = d")
    case True
    have "\<exists>k. match_loop m (h + 1) (n + 1) = Some (n + 1 + of_nat k) \<and> k \<le> length t \<and>
        (k = length t \<longleftrightarrow> prefix t s)"
      using 4 True by (intro 4(1)) (auto simp: cstring_Cons)
    then obtain k where "match_loop m (h + 1) (n + 1) = Some (n + 1 + of_nat k)" "k \<le> length t"
      "k = length t \<longleftrightarrow> prefix t s" by blast
    with 4(2,3) True show ?thesis
      by (intro exI[of _ "Suc k"]) (auto simp: match_loop.simps[of m h n] cstring_Cons add.assoc)
  next
    case False
    with 4(2,3) show ?thesis
      by (intro exI[of _ 0]) (auto simp: match_loop.simps[of m h n] cstring_Cons)
  qed
qed (auto simp: match_loop.simps cstring_Cons intro!: exI[of _ 0])

definition occurs_at :: "u8 list \<Rightarrow> u8 list \<Rightarrow> nat \<Rightarrow> bool" where
  "occurs_at t s i \<longleftrightarrow> i + length t \<le> length s \<and> take (length t) (drop i s) = t"

lemma occurs_at_prefix: "i \<le> length s \<Longrightarrow> occurs_at t s i \<longleftrightarrow> prefix t (drop i s)"
proof -
  assume i: "i \<le> length s"
  have "prefix t (drop i s) \<longleftrightarrow> length t \<le> length (drop i s) \<and> take (length t) (drop i s) = t"
    by (metis append_take_drop_id prefixI prefix_length_le take_is_prefix prefix_def append_eq_conv_conj)
  with i show ?thesis by (auto simp: occurs_at_def)
qed

lemma first_index_shift:
  "first_index P (Suc n) =
     (if P 0 then Some 0 else map_option Suc (first_index (\<lambda>i. P (Suc i)) n))"
proof (cases "first_index (\<lambda>i. P (Suc i)) n")
  case None
  then have "\<not> P (Suc i)" if "i < n" for i using that by (simp add: first_index_None_iff)
  then have "first_index P (Suc n) = None" if "\<not> P 0"
    using that by (simp add: first_index_None_iff All_less_Suc2)
  moreover have "first_index P (Suc n) = Some 0" if "P 0"
    using that by (simp add: first_index_Some_iff)
  ultimately show ?thesis using None by simp
next
  case (Some i)
  note facts = first_index_SomeD[OF Some]
  show ?thesis
  proof (cases "P 0")
    case False
    then have "first_index P (Suc n) = Some (Suc i)"
      using facts by (auto simp: first_index_Some_iff less_Suc_eq_0_disj)
    then show ?thesis using False Some by simp
  qed (simp add: first_index_Some_iff)
qed

lemma strstr_loop_cstring:
  assumes t: "cstring m n t" "t \<noteq> []"
  shows "cstring m h s \<Longrightarrow> strstr_loop m h n =
    Some (case first_index (\<lambda>i. prefix t (drop i s)) (length s) of Some i \<Rightarrow> h + of_nat i | None \<Rightarrow> 0)"
proof (induction s arbitrary: h)
  case Nil
  then show ?case by (simp add: strstr_loop.simps first_index_def)
next
  case (Cons c s)
  obtain k where k: "match_loop m h n = Some (n + of_nat k)" "k \<le> length t"
    "k = length t \<longleftrightarrow> prefix t (c # s)"
    using match_loop_cstring[OF Cons.prems t(1)] by blast
  have stop: "m (n + of_nat k) = 0 \<longleftrightarrow> prefix t (c # s)" using cstring_at(1)[OF t(1) k(2)] k(3) by simp
  have nz: "m h \<noteq> 0" using Cons.prems by (simp add: cstring_Cons)
  show ?case
  proof (cases "prefix t (c # s)")
    case True
    then have "first_index (\<lambda>i. prefix t (drop i (c # s))) (length (c # s)) = Some 0"
      by (simp add: first_index_Some_iff)
    then show ?thesis using True nz k(1) stop by (simp add: strstr_loop.simps[of m h n])
  next
    case False
    have "first_index (\<lambda>i. prefix t (drop i (c # s))) (length (c # s)) =
        map_option Suc (first_index (\<lambda>i. prefix t (drop i s)) (length s))"
      using False by (simp add: first_index_shift)
    moreover have "strstr_loop m (h + 1) n = Some (case first_index (\<lambda>i. prefix t (drop i s)) (length s) of
        Some i \<Rightarrow> h + 1 + of_nat i | None \<Rightarrow> 0)"
      using Cons.prems by (intro Cons.IH) (simp add: cstring_Cons)
    ultimately show ?thesis using False nz k(1) stop
      by (simp add: strstr_loop.simps[of m h n] split: option.splits)
  qed
qed

section \<open>Block copies\<close>

lemma sub_add_of_nat: "x = a + of_nat (unat (x - a))" for x a :: u64
  by simp

lemma copy_forward:
  assumes "k \<le> 2 ^ 64" and "\<And>i j. j < i \<Longrightarrow> i < k \<Longrightarrow> dest + of_nat j \<noteq> src + of_nat i"
  shows "fold (copy_byte dest src) [0..<k] m x =
    (if unat (x - dest) < k then m (src + (x - dest)) else m x)"
  using assms
proof (induction k arbitrary: x)
  case (Suc k)
  let ?mk = "fold (copy_byte dest src) [0..<k] m"
  have IH: "?mk x = (if unat (x - dest) < k then m (src + (x - dest)) else m x)" for x
    using Suc.prems by (intro Suc.IH) auto
  have "\<not> unat (src + of_nat k - dest) < k"
  proof
    assume "unat (src + of_nat k - dest) < k"
    then show False
      using Suc.prems(2)[of "unat (src + of_nat k - dest)" k] by simp
  qed
  then have read: "?mk (src + of_nat k) = m (src + of_nat k)" using IH by simp
  have k: "unat (of_nat k :: u64) = k" using Suc.prems(1) by (intro unat_of_nat_less) simp
  have "x = dest + of_nat k \<longleftrightarrow> unat (x - dest) = k"
    using k by (metis add_diff_cancel_left' sub_add_of_nat)
  then show ?case using IH[of x] read by (auto simp: copy_byte_def[of dest src k] less_Suc_eq)
qed simp

lemma copy_backward:
  assumes "n \<le> 2 ^ 64" and "k \<le> n"
    and "\<And>i j. i < j \<Longrightarrow> j < n \<Longrightarrow> dest + of_nat j \<noteq> src + of_nat i"
  shows "fold (copy_byte dest src) (rev [k..<n]) m x =
    (if k \<le> unat (x - dest) \<and> unat (x - dest) < n then m (src + (x - dest)) else m x)"
  using assms(2)
proof (induction k arbitrary: x rule: inc_induct)
  case (step k)
  let ?mk = "fold (copy_byte dest src) (rev [Suc k..<n]) m"
  have "\<not> (Suc k \<le> unat (src + of_nat k - dest) \<and> unat (src + of_nat k - dest) < n)"
  proof
    assume "Suc k \<le> unat (src + of_nat k - dest) \<and> unat (src + of_nat k - dest) < n"
    then show False
      using assms(3)[of k "unat (src + of_nat k - dest)"] by simp
  qed
  then have read: "?mk (src + of_nat k) = m (src + of_nat k)" using step.IH[of "src + of_nat k"] by auto
  have k: "unat (of_nat k :: u64) = k" using assms(1) step.hyps by (intro unat_of_nat_less) simp
  have "x = dest + of_nat k \<longleftrightarrow> unat (x - dest) = k"
    using k by (metis add_diff_cancel_left' sub_add_of_nat)
  moreover have "rev [k..<n] = rev [Suc k..<n] @ [k]" using step.hyps by (simp add: upt_rec)
  ultimately show ?case using step.IH[of x] step.hyps read
    by (auto simp: copy_byte_def[of dest src k])
qed auto

definition copied :: "u64 \<Rightarrow> u64 \<Rightarrow> nat \<Rightarrow> memory \<Rightarrow> memory" where
  "copied dest src n m = (\<lambda>x. if unat (x - dest) < n then m (src + (x - dest)) else m x)"

lemma memcpy_copied:
  assumes "apart dest (unat n) src (unat n)"
  shows "memcpy dest src n m = copied dest src (unat n) m"
proof -
  have "dest + of_nat j \<noteq> src + of_nat i" if "j < i" "i < unat n" for i j
    using assms that apart_neq[of dest "unat n" src "unat n" j i] by simp
  then show ?thesis
    unfolding memcpy_def copied_def using unsigned_less[of n, where 'a = nat]
    by (intro ext copy_forward) auto
qed

lemma fill_zero:
  fixes a x :: u64
  assumes "k \<le> 2 ^ 64"
  shows "fold (\<lambda>i m. m(a + of_nat i := v)) [0..<k] m x = (if unat (x - a) < k then v else m x)"
  using assms
proof (induction k)
  case (Suc k)
  have k: "unat (of_nat k :: u64) = k" using Suc.prems by (intro unat_of_nat_less) simp
  have "x = a + of_nat k \<longleftrightarrow> unat (x - a) = k"
    using k by (metis add_diff_cancel_left' sub_add_of_nat)
  with Suc show ?case by (auto simp: less_Suc_eq)
qed simp

lemma memset_at: "memset a c n m x = (if unat (x - a) < unat n then ucast c else m x)"
  unfolding memset_def using unsigned_less[of n, where 'a = nat] by (intro fill_zero) simp

text \<open>The copy loop of \<open>strncpy\<close> for a source at least as long as the bound: one byte too many.\<close>

lemma bounded_copy_bytes:
  assumes str: "cstring m s2 t" and n: "unat n \<le> length t"
    and ap: "apart d (unat n + 1) s2 (length t + 1)"
  shows "i \<le> unat n \<Longrightarrow> bounded_copy (d + of_nat i) (s2 + of_nat i) (of_nat i) n (copied d s2 i m) =
    Some (copied d s2 (unat n + 1) m)"
proof (induction i rule: inc_induct)
  case base
  have "(copied d s2 (unat n) m)(d + n := copied d s2 (unat n) m (s2 + n)) = copied d s2 (unat n + 1) m"
  proof
    fix x
    have lt: "unat n < 2 ^ 63" using str n by (simp add: cstring_def)
    have "x = d + n \<longleftrightarrow> unat (x - d) = unat n"
      unfolding word_unat_eq_iff[symmetric] by (simp add: diff_eq_eq add.commute)
    moreover have "\<not> unat (s2 + n - d) < unat n"
    proof
      assume "unat (s2 + n - d) < unat n"
      then show False using apart_neq[OF ap, of "unat (s2 + n - d)" "unat n"] n by simp
    qed
    ultimately show "((copied d s2 (unat n) m)(d + n := copied d s2 (unat n) m (s2 + n))) x =
        copied d s2 (unat n + 1) m x"
      by (auto simp: copied_def)
  qed
  then show ?case by (simp add: bounded_copy.simps[of _ _ n] Let_def)
next
  case (step i)
  have i: "unat (of_nat i :: u64) = i"
    using step.hyps str n by (intro unat_of_nat_less) (simp add: cstring_def)
  then have less: "(of_nat i :: u64) < n" using step.hyps by (simp add: word_less_nat_alt)
  have notin: "\<not> unat (s2 + of_nat i - d) < i"
  proof
    assume "unat (s2 + of_nat i - d) < i"
    then show False
      using apart_neq[OF ap, of "unat (s2 + of_nat i - d)" i] step.hyps n by simp
  qed
  then have v: "copied d s2 i m (s2 + of_nat i) = m (s2 + of_nat i)" by (simp add: copied_def)
  have nz: "m (s2 + of_nat i) \<noteq> 0" using cstring_at(1)[OF str, of i] step.hyps n by simp
  have "(copied d s2 i m)(d + of_nat i := m (s2 + of_nat i)) = copied d s2 (Suc i) m"
  proof
    fix x
    have "x = d + of_nat i \<longleftrightarrow> unat (x - d) = i" using i by (metis add_diff_cancel_left' sub_add_of_nat)
    then show "((copied d s2 i m)(d + of_nat i := m (s2 + of_nat i))) x = copied d s2 (Suc i) m x"
      by (auto simp: copied_def less_Suc_eq)
  qed
  with step.IH v nz less show ?case
    by (simp add: bounded_copy.simps[of _ _ "of_nat i"] Let_def ac_simps)
qed

section \<open>Properties\<close>

text \<open>C25: \<open>memmove\<close> is correct for overlapping blocks. As long as neither block wraps around the address
  space, every destination byte gets the value its source byte had before the call, and no other
  byte of memory changes.\<close>

theorem memmove_correct:
  assumes "unat dest + unat n \<le> 2 ^ 64" and "unat src + unat n \<le> 2 ^ 64"
  shows "memmove dest src n m x =
    (if unat (x - dest) < unat n then m (src + (x - dest)) else m x)"
proof -
  have eq: "of_nat (unat a + i) = a + of_nat i" for a :: u64 and i by simp
  have off: "unat (a + of_nat i) = unat a + i" if "unat a + unat n \<le> 2 ^ 64" "i < unat n" for a :: u64 and i
    using that by (subst eq[symmetric]) (intro unat_of_nat_less, simp)
  consider "dest < src" | "src < dest" | "dest = src" by fastforce
  then show ?thesis
  proof cases
    case 1
    have "dest + of_nat j \<noteq> src + of_nat i" if "j < i" "i < unat n" for i j
    proof -
      have "unat (dest + of_nat j) < unat (src + of_nat i)"
        using off[OF assms(1), of j] off[OF assms(2), of i] that 1 by (simp add: word_less_nat_alt)
      then show ?thesis by auto
    qed
    then show ?thesis
      using 1 unsigned_less[of n, where 'a = nat] copy_forward[of "unat n" dest src m x]
      by (simp add: memmove_def)
  next
    case 2
    have "dest + of_nat j \<noteq> src + of_nat i" if "i < j" "j < unat n" for i j
    proof -
      have "unat (src + of_nat i) < unat (dest + of_nat j)"
        using off[OF assms(1), of j] off[OF assms(2), of i] that 2 by (simp add: word_less_nat_alt)
      then show ?thesis by auto
    qed
    then show ?thesis
      using 2 less_not_sym[OF 2] unsigned_less[of n, where 'a = nat] copy_backward[of "unat n" 0 dest src m x]
      by (simp add: memmove_def)
  qed (simp add: memmove_def)
qed

definition sample_text :: memory where
  "sample_text = (\<lambda>_. 0)(0x1000 := 104, 0x1001 := 117, 0x1002 := 107, 0x1003 := 97, 0x2000 := 107)"

lemma sample_strings: "cstring sample_text 0x1000 [104, 117, 107, 97]" "cstring sample_text 0x2000 [107]"
  by (simp_all add: cstring_Cons sample_text_def)

theorem memmove_correct_witness:
  "memmove 0x1001 0x1000 3 sample_text 0x1003 = 107"
  using memmove_correct[of "0x1001" 3 "0x1000" sample_text "0x1003"] by (simp add: sample_text_def)

text \<open>C37: \<open>strstr\<close> finds the first occurrence: for two strings in memory it returns the address of the
  first place of the haystack where the needle occurs, null when there is none, and the haystack
  itself for the empty needle; it always returns.\<close>

theorem strstr_first_occurrence:
  assumes "cstring m haystack s" and "cstring m needle t"
  shows "strstr m haystack needle = Some
    (case first_index (occurs_at t s) (Suc (length s)) of Some i \<Rightarrow> haystack + of_nat i | None \<Rightarrow> 0)"
proof (cases "t = []")
  case True
  then have "first_index (occurs_at t s) (Suc (length s)) = Some 0"
    by (simp add: first_index_Some_iff occurs_at_def)
  then show ?thesis using True assms(2) by (simp add: strstr_def)
next
  case False
  then have ne: "m needle \<noteq> 0" using assms(2) by (cases t) (auto simp: cstring_Cons)
  have "first_index (occurs_at t s) (length s) = first_index (\<lambda>i. prefix t (drop i s)) (length s)"
  proof (cases "first_index (\<lambda>i. prefix t (drop i s)) (length s)")
    case None
    then have "first_index (occurs_at t s) (length s) = None"
      by (simp add: first_index_None_iff occurs_at_prefix)
    with None show ?thesis by simp
  next
    case (Some i)
    have "first_index (occurs_at t s) (length s) = Some i"
      using first_index_SomeD[OF Some] by (auto simp: first_index_Some_iff occurs_at_prefix)
    then show ?thesis using Some by simp
  qed
  moreover have "\<not> occurs_at t s (length s)" using False by (simp add: occurs_at_def)
  ultimately have "first_index (occurs_at t s) (Suc (length s)) =
      first_index (\<lambda>i. prefix t (drop i s)) (length s)"
    by (simp add: first_index_Suc split: option.splits)
  then show ?thesis
    using strstr_loop_cstring[OF assms(2) False assms(1)] ne by (simp add: strstr_def)
qed

theorem strstr_first_occurrence_witness:
  "strstr sample_text 0x1000 0x2000 = Some 0x1002"
proof -
  let ?P = "occurs_at [107] [104, 117, 107, 97]"
  have "?P 2" "\<not> ?P 0" "\<not> ?P 1" by (simp_all add: occurs_at_def)
  then have "first_index ?P (Suc (length [104, 117, 107, 97 :: u8])) = Some 2" by (auto simp: first_index_Some_iff less_2_cases_iff)
  then show ?thesis unfolding strstr_first_occurrence[OF sample_strings] by simp
qed

text \<open>The comparison routines decide equality of strings. \<open>strcmp\<close> returns for every two strings; its
  result is zero exactly for equal strings and changes its sign when the strings are exchanged;
  \<open>strncmp\<close> is zero exactly when the first \<open>k\<close> characters agree.\<close>

theorem string_comparison:
  assumes "cstring m a s" and "cstring m b t"
  shows "\<exists>r. strcmp m a b = Some r \<and> (r = 0 \<longleftrightarrow> s = t) \<and> strcmp m b a = Some (- r) \<and>
    (strncmp m a b k = 0 \<longleftrightarrow> take k s = take k t)"
proof -
  have nz: "0 \<notin> set s" "0 \<notin> set t" using assms by (simp_all add: cstring_def)
  then have nzt: "0 \<notin> set (take k s)" "0 \<notin> set (take k t)" by (auto dest: in_set_takeD)
  have "compare_bytes t s = - compare_bytes s t" by (induction s t rule: compare_bytes.induct) auto
  then show ?thesis
    using strcmp_cstring[OF assms] strcmp_cstring[OF assms(2,1)] strncmp_cstring[OF assms, of k]
      compare_bytes_0[OF nz] compare_bytes_0[OF nzt] by simp
qed

theorem string_comparison_witness:
  "\<exists>r. strcmp sample_text 0x1000 0x2000 = Some r \<and> r \<noteq> 0 \<and> strcmp sample_text 0x2000 0x1000 = Some (- r)"
  using string_comparison[OF sample_strings] by auto

lemma length_words:
  assumes "k < 2 ^ 31"
  shows "unat (of_nat k :: u64) = k" and "(ucast (of_nat k :: u64) :: u32) = of_nat k"
    and "sint (of_nat k :: u32) = int k" and "(scast (of_nat k :: u32) :: u64) = of_nat k"
proof -
  show "unat (of_nat k :: u64) = k" using assms by (intro unat_of_nat_less) simp
  show "(ucast (of_nat k :: u64) :: u32) = of_nat k" by transfer (simp add: take_bit_of_nat)
  show sint: "sint (of_nat k :: u32) = int k"
    using assms by (subst signed_of_nat) (simp add: signed_take_bit_int_eq_self)
  show "(scast (of_nat k :: u32) :: u64) = of_nat k" using sint by (metis of_int_of_nat_eq scast_eq)
qed

lemma strncpy_src:
  assumes "cstring m s t" and "unat d \<le> length t"
  shows "m (s + d) = (t @ [0]) ! unat d"
  using cstring_at[OF assms(1,2)] assms by (auto simp: nth_append cstring_def)

text \<open>A short source is copied and the rest of the \<open>n\<close> bytes is cleared.\<close>

lemma strncpy_pads:
  assumes str: "cstring m s2 t" and sh: "length t < unat n" and n31: "unat n < 2 ^ 31"
    and ap: "apart s1 (unat n + 1) s2 (length t + 1)"
  shows "\<exists>m'. strncpy s1 s2 n m = Some m' \<and>
    (\<forall>x. m' x = (if unat (x - s1) < length t then t ! unat (x - s1) else if unat (x - s1) < unat n then 0 else m x))"
proof -
  have l31: "length t < 2 ^ 31" using sh n31 by simp
  note len = length_words[OF l31]
  have lt: "(of_nat (length t) :: u64) < n" using sh by (simp add: word_less_nat_alt len(1))
  have "n - of_nat (length t) = of_nat (unat n - length t)" using sh by (simp add: of_nat_diff)
  then have rem: "sint (ucast (n - of_nat (length t)) :: u32) = int (unat n - length t)"
    using length_words(2,3)[of "unat n - length t"] n31 by simp
  let ?m1 = "fold (copy_byte s1 s2) [0..<length t] m"
  have neq: "s1 + of_nat j \<noteq> s2 + of_nat i" if "j < i" "i < length t" for i j
    using apart_neq[OF ap, of j i] that sh by simp
  have m1: "?m1 x = (if unat (x - s1) < length t then m (s2 + (x - s1)) else m x)" for x
    using l31 by (intro copy_forward neq) auto
  let ?m2 = "fold (\<lambda>k m. m(s1 + of_nat (length t) + of_nat k := 0)) [0..<unat n - length t] ?m1"
  have m2: "?m2 x = (if unat (x - (s1 + of_nat (length t))) < unat n - length t then 0 else ?m1 x)" for x
    using n31 by (intro fill_zero) simp
  have "strncpy s1 s2 n m = Some ?m2"
    using lt rem by (simp add: strncpy_def strlen_cstring[OF str] Let_def len(2-4))
  moreover have "unat (x - (s1 + of_nat (length t))) < unat n - length t \<longleftrightarrow>
      length t \<le> unat (x - s1) \<and> unat (x - s1) < unat n" for x
  proof (cases "length t \<le> unat (x - s1)")
    case le: True
    then have "unat (x - s1 - of_nat (length t)) = unat (x - s1) - length t"
      using unat_sub[of "of_nat (length t)" "x - s1"] len(1) by (simp add: word_le_nat_alt)
    then show ?thesis using le sh by (auto simp: diff_diff_eq[symmetric])
  next
    case False
    have "unat (x - s1 - of_nat (length t)) = 2 ^ 64 + unat (x - s1) - length t"
      using False len(1) unat_sub_if_size[of "x - s1" "of_nat (length t)"] by (simp add: word_size)
    then show ?thesis using False l31 n31 by (simp add: diff_diff_eq[symmetric])
  qed
  ultimately show ?thesis using sh m1 m2 strncpy_src[OF str] by (intro exI[of _ ?m2]) (auto simp: nth_append)
qed

text \<open>A long source is cut after \<open>n + 1\<close> bytes.\<close>

lemma strncpy_cuts:
  assumes str: "cstring m s2 t" and l31: "length t < 2 ^ 31" and n: "unat n \<le> length t"
    and ap: "apart s1 (unat n + 1) s2 (length t + 1)"
  shows "\<exists>m'. strncpy s1 s2 n m = Some m' \<and>
    (\<forall>x. m' x = (if unat (x - s1) \<le> unat n then (t @ [0]) ! unat (x - s1) else m x))"
proof -
  note len = length_words[OF l31]
  have "\<not> (of_nat (length t) :: u64) < n" using n by (simp add: word_less_nat_alt len(1))
  moreover have "copied s1 s2 0 m = m" by (simp add: copied_def)
  then have "bounded_copy s1 s2 0 n m = Some (copied s1 s2 (unat n + 1) m)"
    using bounded_copy_bytes[OF str n ap, of 0] by simp
  ultimately have "strncpy s1 s2 n m = Some (copied s1 s2 (unat n + 1) m)"
    by (simp add: strncpy_def strlen_cstring[OF str] Let_def len(2,4))
  then show ?thesis using strncpy_src[OF str] n by (auto simp: copied_def less_Suc_eq_le)
qed

lemma strncpy_facts:
  assumes "cstring m s2 t" and "length t < 2 ^ 31" and "unat n < 2 ^ 31"
    and "apart s1 (unat n + 1) s2 (length t + 1)"
  shows "\<exists>m'. strncpy s1 s2 n m = Some m' \<and>
    (\<forall>x. m' x = (if length t < unat n
                 then if unat (x - s1) < length t then t ! unat (x - s1)
                      else if unat (x - s1) < unat n then 0 else m x
                 else if unat (x - s1) \<le> unat n then (t @ [0]) ! unat (x - s1) else m x))"
  using strncpy_pads[OF assms(1) _ assms(3,4)] strncpy_cuts[OF assms(1,2) _ assms(4)]
  by (cases "length t < unat n") simp_all

text \<open>What \<open>strncpy\<close> writes. A source shorter than the bound fills exactly \<open>n\<close> bytes, padded with
  zeros. A source of at least \<open>n\<close> characters makes it write \<open>n + 1\<close> bytes, one past the destination
  buffer of \<open>n\<close> bytes, without a terminator inside the buffer.\<close>

theorem strncpy_writes:
  assumes "cstring m s2 t" and "length t < 2 ^ 31" and "unat n < 2 ^ 31"
    and "apart s1 (unat n + 1) s2 (length t + 1)"
  shows "\<exists>m'. strncpy s1 s2 n m = Some m' \<and>
    (\<forall>x. m' x = (if length t < unat n
                 then if unat (x - s1) < length t then t ! unat (x - s1)
                      else if unat (x - s1) < unat n then 0 else m x
                 else if unat (x - s1) \<le> unat n then (t @ [0]) ! unat (x - s1) else m x))"
  by (rule strncpy_facts[OF assms])

theorem strncpy_writes_witness:
  "\<exists>m'. strncpy 0x3000 0x1000 2 sample_text = Some m' \<and> m' 0x3002 = 107"
proof -
  have ap: "apart 0x3000 (unat (2 :: u64) + 1) 0x1000 (length [104, 117, 107, 97 :: u8] + 1)"
    by (simp add: apart_def)
  obtain m' where "strncpy 0x3000 0x1000 2 sample_text = Some m'"
    and at: "\<forall>x. m' x = (if unat (x - 0x3000) \<le> 2
      then ([104, 117, 107, 97] @ [0]) ! unat (x - 0x3000) else sample_text x)"
    using strncpy_writes[OF sample_strings(1) _ _ ap] by auto
  moreover have "m' 0x3002 = 107" using at[THEN spec, of "0x3002"] by simp
  ultimately show ?thesis by blast
qed

end
