(* ===== verification/Paging.thy ===== *)
theory Paging
  imports Pmm Libc_String
begin

text \<open>
  The four-level page tables, \<^verbatim>\<open>src/kernel/source/memory/paging.c\<close> and \<^verbatim>\<open>vmm.c\<close>. The kernel reaches
  the tables through the identity mapping, so an entry is eight bytes of memory at its physical
  address. The state is the block allocator, the memory, CR3 and the hardware trace; the tables are
  not a separate structure, exactly as in the code, and what the code does to a table it did not
  clear or to an address that is not aligned follows from the memory.
\<close>

section \<open>State and constants\<close>

record vm =
  vm_pmm :: pmm
  vm_mem :: memory
  vm_cr3 :: u64
  vm_io :: io_world
  vm_bootboot_paging :: u64

definition PAGE_PRESENT :: u64 where "PAGE_PRESENT = 0x1"
definition PAGE_WRITABLE :: u64 where "PAGE_WRITABLE = 0x2"
definition PTE_USER :: u64 where "PTE_USER = 4"
definition PTE_DEFAULT_FLAGS :: u64 where "PTE_DEFAULT_FLAGS = 3"
definition PAGE_LARGE :: u64 where "PAGE_LARGE = 2 * 1024 * 1024"
definition PAGE_ENTRIES :: nat where "PAGE_ENTRIES = 512"

definition vm_event :: "io_event \<Rightarrow> vm \<Rightarrow> vm" where
  "vm_event e s = s\<lparr>vm_io := emit e (vm_io s)\<rparr>"

definition read_cr3 :: "vm \<Rightarrow> u64" where
  "read_cr3 s = vm_cr3 s"

definition write_cr3 :: "u64 \<Rightarrow> vm \<Rightarrow> vm" where
  "write_cr3 v s = vm_event (WriteCr3 v) (s\<lparr>vm_cr3 := v\<rparr>)"

definition invlpg :: "u64 \<Rightarrow> vm \<Rightarrow> vm" where
  "invlpg a = vm_event (Invlpg a)"

section \<open>Entries\<close>

text \<open>\<open>table[index]\<close> is the entry at \<open>slot table index\<close>.\<close>

definition slot :: "u64 \<Rightarrow> u64 \<Rightarrow> u64" where
  "slot table index = table + index * 8"

definition get_physical_address :: "memory \<Rightarrow> u64 \<Rightarrow> u64" where
  "get_physical_address m pte = load64 m pte AND 0x000FFFFFFFFFF000"

definition is_present :: "memory \<Rightarrow> u64 \<Rightarrow> bool" where
  "is_present m pte \<longleftrightarrow> load64 m pte AND 1 \<noteq> 0"

definition set_entry :: "u64 \<Rightarrow> u64 \<Rightarrow> vm \<Rightarrow> vm" where
  "set_entry pte v s = s\<lparr>vm_mem := store64 (vm_mem s) pte v\<rparr>"

definition get_table_index :: "u64 \<Rightarrow> nat \<Rightarrow> u64" where
  "get_table_index virtual_address level =
     drop_bit (12 + 9 * (3 - level)) virtual_address AND 0x1FF"

definition pml4_index :: "u64 \<Rightarrow> u64" where "pml4_index v = drop_bit 39 v AND 0x1FF"
definition pdpt_index :: "u64 \<Rightarrow> u64" where "pdpt_index v = drop_bit 30 v AND 0x1FF"
definition pd_index :: "u64 \<Rightarrow> u64" where "pd_index v = drop_bit 21 v AND 0x1FF"
definition pt_index :: "u64 \<Rightarrow> u64" where "pt_index v = drop_bit 12 v AND 0x1FF"

definition pml4_base :: "vm \<Rightarrow> u64" where
  "pml4_base s = read_cr3 s AND NOT 0xFFF"

section \<open>Translation\<close>

definition translate_virtual_to_physical :: "u64 \<Rightarrow> vm \<Rightarrow> u64" where
  "translate_virtual_to_physical virtual_address s =
     (let m = vm_mem s;
          pml4e = slot (pml4_base s) (pml4_index virtual_address)
      in if \<not> is_present m pml4e then 0
      else let pdpte = slot (get_physical_address m pml4e) (pdpt_index virtual_address)
      in if \<not> is_present m pdpte then 0
      else if load64 m pdpte AND 0x80 \<noteq> 0 then
        (get_physical_address m pdpte AND NOT 0x3FFFFFFF) OR (virtual_address AND 0x3FFFFFFF)
      else let pde = slot (get_physical_address m pdpte) (pd_index virtual_address)
      in if \<not> is_present m pde then 0
      else if load64 m pde AND 0x80 \<noteq> 0 then
        (get_physical_address m pde AND NOT 0x1FFFFF) OR (virtual_address AND 0x1FFFFF)
      else let pte = slot (get_physical_address m pde) (pt_index virtual_address)
      in if \<not> is_present m pte then 0
      else get_physical_address m pte OR (virtual_address AND 0xFFF))"

text \<open>\<open>traverse_paging_structure\<close> logs every present page below the first top-level entry.\<close>

definition traverse_pt :: "memory \<Rightarrow> u64 \<Rightarrow> io_world \<Rightarrow> io_world" where
  "traverse_pt m pt =
     fold (\<lambda>k w. if is_present m (slot pt (of_nat k))
                  then log_call LOG_LEVEL_DEBUG ''Physical Address: %p\<newline>''
                         [VLong (get_physical_address m (slot pt (of_nat k)))] w
                  else w) [0..<PAGE_ENTRIES]"

definition traverse_pd :: "memory \<Rightarrow> u64 \<Rightarrow> io_world \<Rightarrow> io_world" where
  "traverse_pd m pd =
     fold (\<lambda>j w. if is_present m (slot pd (of_nat j))
                  then traverse_pt m (get_physical_address m (slot pd (of_nat j))) w
                  else w) [0..<PAGE_ENTRIES]"

definition traverse_paging_structure :: "vm \<Rightarrow> vm" where
  "traverse_paging_structure s =
     (let m = vm_mem s; pml4 = pml4_base s
      in if \<not> is_present m (slot pml4 0)
         then vm_event (TermWrite ''First PML4 entry is not present\<newline>'') s
         else let pdpt = get_physical_address m (slot pml4 0)
              in s\<lparr>vm_io := fold (\<lambda>i w. if is_present m (slot pdpt (of_nat i))
                      then traverse_pd m (get_physical_address m (slot pdpt (of_nat i))) w
                      else w) [0..<PAGE_ENTRIES] (vm_io s)\<rparr>)"

text \<open>\<open>keep_top_pml4_entry\<close> tests the first entry in every round, not the one it clears.\<close>

definition keep_top_pml4_entry :: "vm \<Rightarrow> vm" where
  "keep_top_pml4_entry s =
     (let cr3 = read_cr3 s;
          pml4 = pml4_base s;
          s = fold (\<lambda>i s. if is_present (vm_mem s) pml4
                          then invlpg (of_nat i * push_bit 39 1) (set_entry (slot pml4 (of_nat i)) 0 s)
                          else s) [1..<PAGE_ENTRIES] s
      in write_cr3 cr3 s)"

section \<open>Mapping\<close>

definition create_or_get_table :: "u64 \<Rightarrow> vm \<Rightarrow> u64 \<times> vm" where
  "create_or_get_table parent_entry s =
     (if \<not> is_present (vm_mem s) parent_entry then
        let (new_table, p) = allocate_memory PAGE_SIZE (vm_pmm s);
            s = s\<lparr>vm_pmm := p\<rparr>
        in if new_table = 0
           then (0, vm_event (Log LOG_LEVEL_ERROR ''No Memory Available for Page'' []) s)
           else let s = set_entry parent_entry (new_table OR PAGE_PRESENT OR PAGE_WRITABLE) s
                in (get_physical_address (vm_mem s) parent_entry, s)
      else (get_physical_address (vm_mem s) parent_entry, s))"

definition map_4kb_page :: "u64 \<Rightarrow> u64 \<Rightarrow> u64 \<Rightarrow> vm \<Rightarrow> vm" where
  "map_4kb_page virt phys flags s =
     (let pml4 = pml4_base s;
          (pdpt, s) = create_or_get_table (slot pml4 (pml4_index virt)) s;
          (pd, s) = create_or_get_table (slot pdpt (pdpt_index virt)) s;
          (pt, s) = create_or_get_table (slot pd (pd_index virt)) s
      in set_entry (slot pt (pt_index virt)) (phys OR flags) s)"

definition map_2mb_page :: "u64 \<Rightarrow> u64 \<Rightarrow> u64 \<Rightarrow> vm \<Rightarrow> vm" where
  "map_2mb_page virt phys flags s =
     (let pml4 = pml4_base s;
          (pdpt, s) = create_or_get_table (slot pml4 (pml4_index virt)) s;
          (pd, s) = create_or_get_table (slot pdpt (pdpt_index virt)) s
      in set_entry (slot pd (pd_index virt)) (phys OR flags OR PAGE_LARGE) s)"

definition unmap_page :: "u64 \<Rightarrow> vm \<Rightarrow> vm" where
  "unmap_page virt s =
     (let m = vm_mem s;
          pml4e = slot (pml4_base s) (pml4_index virt)
      in if load64 m pml4e AND PAGE_PRESENT = 0 then s
      else if \<not> is_present m pml4e then s
      else let pdpte = slot (get_physical_address m pml4e) (pdpt_index virt)
      in if load64 m pdpte AND PAGE_PRESENT = 0 then s
      else if \<not> is_present m pdpte then s
      else let pde = slot (get_physical_address m pdpte) (pd_index virt)
      in if load64 m pde AND PAGE_LARGE \<noteq> 0 then set_entry pde 0 s
      else if load64 m pde AND PAGE_PRESENT = 0 then s
      else let pte = slot (get_physical_address m pde) (pt_index virt)
      in invlpg virt (set_entry pte 0 s))"

text \<open>The page fault handler logs twice and halts for ever; its result is the state it halts in.\<close>

definition page_fault_handler :: "u64 \<Rightarrow> io_world \<Rightarrow> io_world" where
  "page_fault_handler error_code w =
     emit Hlt (log_call LOG_LEVEL_DEBUG ''Error Code %ld'' [VLong error_code]
       (log_call LOG_LEVEL_DEBUG ''Page Fault\<newline>'' [] w))"

section \<open>Cloning an address space\<close>

definition vm_aligned_alloc :: "u64 \<Rightarrow> u64 \<Rightarrow> vm \<Rightarrow> u64 \<times> vm" where
  "vm_aligned_alloc alignment sz s =
     (let (a, p, m) = aligned_alloc alignment sz (vm_pmm s, vm_mem s)
      in (a, s\<lparr>vm_pmm := p, vm_mem := m\<rparr>))"

definition vm_memcpy :: "u64 \<Rightarrow> u64 \<Rightarrow> u64 \<Rightarrow> vm \<Rightarrow> vm" where
  "vm_memcpy dest src n s = s\<lparr>vm_mem := memcpy dest src n (vm_mem s)\<rparr>"

text \<open>The three nested loops, innermost first; each level copies the table an entry points to and runs
  the level below on the copy. False is the early \<open>return NULL\<close>.\<close>

fun clone_entries :: "(u64 \<Rightarrow> vm \<Rightarrow> bool \<times> vm) \<Rightarrow> u64 \<Rightarrow> nat list \<Rightarrow> vm \<Rightarrow> bool \<times> vm" where
  "clone_entries below table [] s = (True, s)"
| "clone_entries below table (i # is) s =
     (let e = load64 (vm_mem s) (slot table (of_nat i))
      in if e AND 1 \<noteq> 0 then
           let sub = e AND NOT 0xFFF;
               (new, s) = vm_aligned_alloc PAGE_SIZE PAGE_SIZE s
           in if new = 0 then (False, s)
              else let s = vm_memcpy new sub PAGE_SIZE s;
                       s = set_entry (slot table (of_nat i))
                             (new OR (load64 (vm_mem s) (slot table (of_nat i)) AND 0xFFF)) s;
                       (ok, s) = below new s
                   in if ok then clone_entries below table is s else (False, s)
         else clone_entries below table is s)"

fun clone_pd :: "u64 \<Rightarrow> nat list \<Rightarrow> vm \<Rightarrow> bool \<times> vm" where
  "clone_pd new_pd [] s = (True, s)"
| "clone_pd new_pd (i # is) s =
     (let e = load64 (vm_mem s) (slot new_pd (of_nat i))
      in if e AND 1 \<noteq> 0 \<and> e AND 0x80 = 0 then
           let pt = e AND NOT 0xFFF;
               (new_pt, s) = vm_aligned_alloc PAGE_SIZE PAGE_SIZE s
           in if new_pt = 0 then (False, s)
              else let s = vm_memcpy new_pt pt PAGE_SIZE s;
                       s = set_entry (slot new_pd (of_nat i))
                             (new_pt OR (load64 (vm_mem s) (slot new_pd (of_nat i)) AND 0xFFF)) s
                   in clone_pd new_pd is s
         else clone_pd new_pd is s)"

definition clone_higher_half :: "u64 \<Rightarrow> vm \<Rightarrow> u64 \<times> vm" where
  "clone_higher_half original_pml4 s =
     (let (new_pml4, s) = vm_aligned_alloc PAGE_SIZE PAGE_SIZE s
      in if new_pml4 = 0 then (0, s)
         else let s = s\<lparr>vm_mem := memset new_pml4 0 PAGE_SIZE (vm_mem s)\<rparr>;
                  s = vm_memcpy new_pml4 original_pml4 PAGE_SIZE s;
                  (ok, s) = clone_entries
                    (\<lambda>new_pdpt. clone_entries (\<lambda>new_pd. clone_pd new_pd [0..<512]) new_pdpt [0..<512])
                    new_pml4 [0..<512] s
              in if ok then (new_pml4, s) else (0, s))"

definition new_paging :: "vm \<Rightarrow> vm" where
  "new_paging s =
     (let cr3 = read_cr3 s;
          s = (if vm_bootboot_paging s = 0
               then s\<lparr>vm_bootboot_paging := cr3 AND NOT 0xFFF\<rparr> else s);
          (new_pml4, s) = clone_higher_half (vm_bootboot_paging s) s
      in if new_pml4 \<noteq> 0
         then vm_event (Log LOG_LEVEL_INFO ''Page switch successful!!!!'' []) (write_cr3 new_pml4 s)
         else s)"

section \<open>User programs\<close>

definition USER_PROGRAM_START :: u64 where "USER_PROGRAM_START = 0x0000000400000000"
definition USER_SPACE_END :: u64 where "USER_SPACE_END = 0x00007FFFFFFFFFFF"

definition vm_allocate :: "u64 \<Rightarrow> vm \<Rightarrow> u64 \<times> vm" where
  "vm_allocate n s = (let (a, p) = allocate_memory n (vm_pmm s) in (a, s\<lparr>vm_pmm := p\<rparr>))"

definition init_user_program_memory :: "vm \<Rightarrow> vm" where
  "init_user_program_memory s =
     (let (init_physical_mem, s) = vm_allocate (PAGE_SIZE * 4) s;
          (stack_memory_physical, s) = vm_allocate PAGE_SIZE s;
          stack_virt_addr = USER_SPACE_END - 0x1000
      in if init_physical_mem \<noteq> 0 \<and> stack_memory_physical \<noteq> 0 then
           let s = fold (\<lambda>i s.
                 let s = map_4kb_page (USER_PROGRAM_START + of_nat i * 0x1000)
                           (init_physical_mem + of_nat i * 0x1000) (PTE_DEFAULT_FLAGS OR PTE_USER) s
                 in unmap_page (init_physical_mem + of_nat i * 0x1000) s) [0..<4] s
           in map_4kb_page stack_virt_addr stack_memory_physical (PTE_DEFAULT_FLAGS OR PTE_USER) s
         else s)"

text \<open>The kernel heap is a stub in the source.\<close>

definition kmalloc :: "u64 \<Rightarrow> u64" where "kmalloc sz = 0"
definition kfree :: "u64 \<Rightarrow> unit" where "kfree ptr = ()"

end
