(* ===== verification/Address_Space_Spec.thy ===== *)
theory Address_Space_Spec
  imports Kernel_Prelude
begin

text \<open>
  The contract of an address space, as the code that maps device registers and process memory relies on
  it: mapping a page changes the translation of that page only and consumes at most three tables,
  unmapping a page makes it translate to nothing. That any sequence of such calls leaves the latest
  translation of every page is proved once here.
\<close>

datatype page_op = Map_Page (op_virt: u64) (op_frame: u64) (op_flags: u64) | Unmap_Page (op_virt: u64)

fun run_page_ops :: "(u64 \<Rightarrow> u64 \<Rightarrow> u64 \<Rightarrow> 's \<Rightarrow> 's) \<Rightarrow> (u64 \<Rightarrow> 's \<Rightarrow> 's) \<Rightarrow> page_op list \<Rightarrow> 's \<Rightarrow> 's" where
  "run_page_ops mp un [] s = s"
| "run_page_ops mp un (Map_Page v f fl # ops) s = run_page_ops mp un ops (mp v f fl s)"
| "run_page_ops mp un (Unmap_Page v # ops) s = run_page_ops mp un ops (un v s)"

text \<open>A run is legal when every frame and its flags are, and every page unmapped is a small one then.\<close>

fun legal_run :: "(u64 \<Rightarrow> u64 \<Rightarrow> u64 \<Rightarrow> 's \<Rightarrow> 's) \<Rightarrow> (u64 \<Rightarrow> 's \<Rightarrow> 's) \<Rightarrow> (u64 \<Rightarrow> u64 \<Rightarrow> bool) \<Rightarrow> (u64 \<Rightarrow> 's \<Rightarrow> bool) \<Rightarrow>
    page_op list \<Rightarrow> 's \<Rightarrow> bool" where
  "legal_run mp un legal small [] s = True"
| "legal_run mp un legal small (Map_Page v f fl # ops) s = (legal f fl \<and> legal_run mp un legal small ops (mp v f fl s))"
| "legal_run mp un legal small (Unmap_Page v # ops) s = (small v s \<and> legal_run mp un legal small ops (un v s))"

text \<open>What a page translates to after the calls, given what it translated to before.\<close>

fun latest :: "(u64 \<Rightarrow> u64 \<Rightarrow> bool) \<Rightarrow> u64 \<Rightarrow> page_op list \<Rightarrow> u64 \<Rightarrow> u64" where
  "latest same w [] a = a"
| "latest same w (Map_Page v f fl # ops) a = latest same w ops (if same v w then f OR (w AND 0xFFF) else a)"
| "latest same w (Unmap_Page v # ops) a = latest same w ops (if same v w then 0 else a)"

locale address_space =
  fixes translate :: "u64 \<Rightarrow> 's \<Rightarrow> u64"
    and mp :: "u64 \<Rightarrow> u64 \<Rightarrow> u64 \<Rightarrow> 's \<Rightarrow> 's"
    and un :: "u64 \<Rightarrow> 's \<Rightarrow> 's"
    and same :: "u64 \<Rightarrow> u64 \<Rightarrow> bool"
    and legal :: "u64 \<Rightarrow> u64 \<Rightarrow> bool"
    and small :: "u64 \<Rightarrow> 's \<Rightarrow> bool"
    and usable :: "nat \<Rightarrow> 's \<Rightarrow> bool"
  assumes map_usable: "usable (n + 3) s \<Longrightarrow> legal f fl \<Longrightarrow> usable n (mp v f fl s)"
    and map_translates: "usable (n + 3) s \<Longrightarrow> legal f fl \<Longrightarrow>
      translate w (mp v f fl s) = (if same v w then f OR (w AND 0xFFF) else translate w s)"
    and unmap_usable: "usable n s \<Longrightarrow> small v s \<Longrightarrow> usable n (un v s)"
    and unmap_translates: "usable n s \<Longrightarrow> small v s \<Longrightarrow>
      translate w (un v s) = (if same v w then 0 else translate w s)"
    and usable_mono: "usable m s \<Longrightarrow> n \<le> m \<Longrightarrow> usable n s"
begin

lemma run_latest:
  "usable (3 * length ops) s \<Longrightarrow> legal_run mp un legal small ops s \<Longrightarrow>
   usable 0 (run_page_ops mp un ops s) \<and>
   translate w (run_page_ops mp un ops s) = latest same w ops (translate w s)"
proof (induction ops arbitrary: s)
  case (Cons x ops)
  show ?case
  proof (cases x)
    case (Map_Page v f fl)
    have u: "usable (3 * length ops + 3) s" and l: "legal f fl"
      using Cons.prems Map_Page by (simp_all add: add.commute)
    show ?thesis
      using Cons.IH[OF map_usable[OF u l]] Cons.prems(2) by (simp add: Map_Page map_translates[OF u l])
  next
    case (Unmap_Page v)
    have u: "usable (3 * length ops) s" and l: "small v s"
      using Cons.prems(2) usable_mono[OF Cons.prems(1)] by (simp_all add: Unmap_Page)
    show ?thesis
      using Cons.IH[OF unmap_usable[OF u l]] Cons.prems(2) by (simp add: Unmap_Page unmap_translates[OF u l])
  qed
qed simp

end

end
