(* ===== verification/Paging_Map.thy ===== *)
theory Paging_Map
  imports Paging Address_Space_Spec
begin

text \<open>
  Page tables as a map from pages to frames. \<open>space_ok\<close> is the invariant of an address space: tables
  of four levels, on pages of their own outside the free memory, entries of the upper levels leading
  one level down, no table reached twice. Under it the walk of the code is a partial function from
  pages to frames (\<open>page_map\<close>); \<open>map_4kb_page\<close> refines the update of that function at one page,
  and \<open>unmap_page\<close> the deletion.
\<close>

section \<open>Bits of entries and addresses\<close>

definition frame_mask :: u64 where
  "frame_mask = 0x000FFFFFFFFFF000"

definition page_aligned :: "u64 \<Rightarrow> bool" where
  "page_aligned a \<longleftrightarrow> a AND frame_mask = a"

definition idx :: "nat \<Rightarrow> u64 \<Rightarrow> u64" where
  "idx k v = drop_bit (12 + 9 * k) v AND 0x1FF"

lemma idx_levels:
  "pml4_index v = idx 3 v" "pdpt_index v = idx 2 v" "pd_index v = idx 1 v" "pt_index v = idx 0 v"
  by (simp_all add: pml4_index_def pdpt_index_def pd_index_def pt_index_def idx_def)

lemma frame_mask_bits: "frame_mask = mask 52 AND NOT (mask 12)"
  by (simp add: frame_mask_def mask_eq_exp_minus_1)

lemma page_aligned_bits:
  "page_aligned a \<longleftrightarrow> take_bit 52 a = a \<and> take_bit 12 a = 0"
proof
  assume "page_aligned a"
  then have a: "a = a AND (mask 52 AND NOT (mask 12))" by (simp add: page_aligned_def frame_mask_bits)
  have "take_bit 52 (a AND (mask 52 AND NOT (mask 12))) = a AND (mask 52 AND NOT (mask 12))"
    by (rule bit_word_eqI) (auto simp: bit_simps)
  moreover have "take_bit 12 (a AND (mask 52 AND NOT (mask 12))) = 0"
    by (rule bit_word_eqI) (auto simp: bit_simps)
  ultimately show "take_bit 52 a = a \<and> take_bit 12 a = 0" using a by metis
next
  assume a: "take_bit 52 a = a \<and> take_bit 12 a = 0"
  have "bit (a AND frame_mask) n = bit a n" for n
  proof -
    have "bit a n \<Longrightarrow> n < 52" using a by (metis bit_take_bit_iff)
    moreover have "\<not> (n < 12 \<and> bit a n)" using a by (metis bit_0_eq bit_take_bit_iff bot_apply bot_bool_def)
    ultimately show ?thesis by (auto simp: frame_mask_bits bit_simps dest: bit_imp_le_length)
  qed
  then show "page_aligned a" unfolding page_aligned_def by (intro bit_eqI)
qed

lemma page_aligned_iff: "page_aligned a \<longleftrightarrow> unat a mod 4096 = 0 \<and> unat a < 2 ^ 52"
proof -
  have "take_bit 52 a = a \<longleftrightarrow> unat a < 2 ^ 52"
    by (metis take_bit_nat_eq_self_iff unsigned_take_bit_eq word_unat_eq_iff)
  moreover have "take_bit 12 a = 0 \<longleftrightarrow> unat a mod 4096 = 0"
    by (simp add: word_unat_eq_iff take_bit_eq_mod unat_mod_distrib)
  ultimately show ?thesis by (auto simp: page_aligned_bits)
qed

lemma page_aligned_mask [simp]: "page_aligned (x AND frame_mask)"
  by (simp add: page_aligned_def and.assoc)

lemma get_physical_address_mask: "get_physical_address m a = load64 m a AND frame_mask"
  by (simp add: get_physical_address_def frame_mask_def)

lemma new_entry_bits:
  assumes "page_aligned t"
  shows "(t OR PAGE_PRESENT OR PAGE_WRITABLE) AND frame_mask = t"
    and "(t OR PAGE_PRESENT OR PAGE_WRITABLE) AND 1 \<noteq> 0"
    and "(t OR PAGE_PRESENT OR PAGE_WRITABLE) AND 0x80 = 0"
proof -
  show "(t OR PAGE_PRESENT OR PAGE_WRITABLE) AND frame_mask = t"
    using assms by (simp add: page_aligned_def bit.conj_disj_distrib2 PAGE_PRESENT_def
        PAGE_WRITABLE_def frame_mask_def)
  have "t AND 0x80 = (t AND frame_mask) AND 0x80" using assms by (simp add: page_aligned_def)
  then have "t AND 0x80 = 0" by (simp add: and.assoc frame_mask_def)
  then show "(t OR PAGE_PRESENT OR PAGE_WRITABLE) AND 0x80 = 0"
    by (simp add: bit.conj_disj_distrib2 PAGE_PRESENT_def PAGE_WRITABLE_def)
  have "t AND 1 = (t AND frame_mask) AND 1" using assms by (simp only: page_aligned_def)
  then have "t AND 1 = 0" by (simp add: and.assoc frame_mask_def)
  then show "(t OR PAGE_PRESENT OR PAGE_WRITABLE) AND 1 \<noteq> 0"
    by (simp add: bit.conj_disj_distrib2 PAGE_PRESENT_def PAGE_WRITABLE_def)
qed

lemma idx_less: "unat (idx k v) < 512"
proof -
  have "idx k v = take_bit 9 (drop_bit (12 + 9 * k) v)"
    by (simp add: idx_def take_bit_eq_mask mask_eq_exp_minus_1)
  then show ?thesis by (simp add: take_bit_eq_mod unat_mod_distrib)
qed

lemma unat_slot:
  assumes "page_aligned t" and "unat i < 512"
  shows "unat (slot t i) = unat t + 8 * unat i"
proof -
  have t: "unat t < 2 ^ 52" using assms(1) by (simp add: page_aligned_iff)
  have "slot t i = of_nat (unat t + 8 * unat i)" by (simp add: slot_def mult.commute)
  then show ?thesis using t assms(2) unat_of_nat_less[of "unat t + 8 * unat i"] by simp
qed

lemma page_offset_unique:
  fixes a b i j :: nat
  assumes "a mod 4096 = 0" "b mod 4096 = 0" "i < 512" "j < 512" "a + 8 * i = b + 8 * j"
  shows "a = b \<and> i = j"
proof -
  obtain p q where a: "a = 4096 * p" and b: "b = 4096 * q" using assms(1,2) by (auto elim!: dvdE)
  have "p = (4096 * p + 8 * i) div 4096" "q = (4096 * q + 8 * j) div 4096" using assms(3,4) by simp_all
  then have "p = q" using assms(5) a b by metis
  then show ?thesis using assms(5) a b by simp
qed

lemma slot_inj:
  assumes "page_aligned t" "page_aligned t'" "unat i < 512" "unat i' < 512"
  shows "slot t i = slot t' i' \<longleftrightarrow> t = t' \<and> i = i'"
proof
  assume "slot t i = slot t' i'"
  then have eq: "unat t + 8 * unat i = unat t' + 8 * unat i'" using assms by (metis unat_slot)
  have "unat t mod 4096 = 0" "unat t' mod 4096 = 0" using assms by (simp_all add: page_aligned_iff)
  from page_offset_unique[OF this assms(3,4) eq] have "unat t = unat t' \<and> unat i = unat i'" .
  then show "t = t' \<and> i = i'" by (simp add: word_unat_eq_iff)
qed auto

lemma slot_aligned8: "page_aligned t \<Longrightarrow> unat i < 512 \<Longrightarrow> aligned8 (slot t i)"
  using dvd_trans[of 8 4096 "unat t"] by (simp add: aligned8_def unat_slot page_aligned_iff mod_eq_0_iff_dvd)

section \<open>The walk, level by level\<close>

text \<open>\<open>walk m k t v\<close>: from table \<open>t\<close> of level \<open>k\<close> (3 is the top) to the last-level entry of \<open>v\<close>.\<close>

fun walk :: "memory \<Rightarrow> nat \<Rightarrow> u64 \<Rightarrow> u64 \<Rightarrow> u64 option" where
  "walk m 0 t v = Some (slot t (idx 0 v))"
| "walk m (Suc k) t v =
     (let e = slot t (idx (Suc k) v)
      in if is_present m e then walk m k (get_physical_address m e) v else None)"

definition frame_at :: "memory \<Rightarrow> u64 option \<Rightarrow> u64 option" where
  "frame_at m p =
     (case p of None \<Rightarrow> None | Some a \<Rightarrow> if is_present m a then Some (get_physical_address m a) else None)"

definition page_map :: "vm \<Rightarrow> u64 \<Rightarrow> u64 option" where
  "page_map s v = frame_at (vm_mem s) (walk (vm_mem s) 3 (pml4_base s) v)"

definition same_page :: "u64 \<Rightarrow> u64 \<Rightarrow> bool" where
  "same_page v w \<longleftrightarrow> (\<forall>k\<le>3. idx k v = idx k w)"

fun ensure :: "nat \<Rightarrow> u64 \<Rightarrow> u64 \<Rightarrow> vm \<Rightarrow> u64 \<times> vm" where
  "ensure 0 t v s = (t, s)"
| "ensure (Suc k) t v s =
     (let (t, s) = create_or_get_table (slot t (idx (Suc k) v)) s in ensure k t v s)"

lemma map_4kb_ensure:
  "map_4kb_page virt phys flags s =
     (let (pt, s) = ensure 3 (pml4_base s) virt s in set_entry (slot pt (idx 0 virt)) (phys OR flags) s)"
  by (simp add: map_4kb_page_def idx_levels numeral_3_eq_3 numeral_2_eq_2 split_beta Let_def)

section \<open>The invariant\<close>

type_synonym tables = "nat \<Rightarrow> u64 set"

definition page_bytes :: "u64 \<Rightarrow> nat set" where
  "page_bytes t = {unat t ..< unat t + 4096}"

definition entries_ok :: "tables \<Rightarrow> memory \<Rightarrow> bool" where
  "entries_ok T m \<longleftrightarrow>
     (\<forall>k<3. \<forall>t\<in>T (Suc k). \<forall>i. unat i < 512 \<longrightarrow> is_present m (slot t i) \<longrightarrow>
        get_physical_address m (slot t i) \<in> T k \<and> load64 m (slot t i) AND 0x80 = 0)"

definition parents_unique :: "tables \<Rightarrow> memory \<Rightarrow> bool" where
  "parents_unique T m \<longleftrightarrow>
     (\<forall>k<3. \<forall>t\<in>T (Suc k). \<forall>t'\<in>T (Suc k). \<forall>i i'. unat i < 512 \<longrightarrow> unat i' < 512 \<longrightarrow>
        is_present m (slot t i) \<longrightarrow> is_present m (slot t' i') \<longrightarrow>
        get_physical_address m (slot t i) = get_physical_address m (slot t' i') \<longrightarrow> t = t' \<and> i = i')"

definition tables_apart :: "tables \<Rightarrow> pmm \<Rightarrow> bool" where
  "tables_apart T p \<longleftrightarrow>
     (\<forall>k\<le>3. \<forall>t\<in>T k. page_aligned t \<and> page_bytes t \<inter> free_bytes p = {}) \<and>
     (\<forall>k\<le>3. \<forall>l\<le>3. k \<noteq> l \<longrightarrow> T k \<inter> T l = {})"

definition free_pages_ok :: "pmm \<Rightarrow> memory \<Rightarrow> bool" where
  "free_pages_ok p m \<longleftrightarrow> pmm_wf p \<and>
     (\<forall>e\<in>set (free_extents p). unat (fst e) mod 4096 = 0 \<and> unat (fst e) + unat (snd e) \<le> 2 ^ 52) \<and>
     (\<forall>x. unat x \<in> free_bytes p \<longrightarrow> m x = 0)"

definition space_ok :: "tables \<Rightarrow> vm \<Rightarrow> bool" where
  "space_ok T s \<longleftrightarrow> pml4_base s \<in> T 3 \<and> tables_apart T (vm_pmm s) \<and>
     entries_ok T (vm_mem s) \<and> parents_unique T (vm_mem s) \<and> free_pages_ok (vm_pmm s) (vm_mem s)"

definition room :: "nat \<Rightarrow> pmm \<Rightarrow> bool" where
  "room n p \<longleftrightarrow> (\<exists>e\<in>set (free_extents p). n * 4096 \<le> unat (snd e))"

section \<open>Taking a page\<close>

text \<open>A request of whole pages, from free memory that is page aligned.\<close>

lemma take_pages:
  assumes ok: "free_pages_ok p m" and r: "room (c + n) p" and sz: "unat sz = c * 4096" "0 < c"
    and call: "allocate_memory sz p = (t, p')"
  shows "t \<noteq> 0" and "page_aligned t" and "unat t + unat sz \<le> 2 ^ 52" and "byte_range t sz \<subseteq> free_bytes p"
    and "free_bytes p' = free_bytes p - byte_range t sz" and "free_pages_ok p' m" and "room n p'"
proof -
  have wf: "pmm_wf p" using ok by (simp add: free_pages_ok_def)
  from call have "t \<noteq> 0 \<and> page_aligned t \<and> unat t + unat sz \<le> 2 ^ 52 \<and> room n p' \<and>
      (\<forall>e\<in>set (free_extents p'). unat (fst e) mod 4096 = 0 \<and> unat (fst e) + unat (snd e) \<le> 2 ^ 52)"
  proof (cases rule: allocate_memory_cases)
    case fail
    obtain e where "e \<in> set (free_extents p)" "(c + n) * 4096 \<le> unat (snd e)" using r by (auto simp: room_def)
    moreover have "snd e < sz" using fail(3) calculation(1) by blast
    ultimately show ?thesis using sz by (simp add: word_less_nat_alt add_mult_distrib)
  next
    case (take i)
    let ?e = "free_extents p ! i"
    have mem: "?e \<in> set (free_extents p)" using take(1) by simp
    then have e: "extent_ok ?e" "unat (fst ?e) mod 4096 = 0" "unat (fst ?e) + unat (snd ?e) \<le> 2 ^ 52"
      using ok by (auto simp: free_pages_ok_def pmm_wf_def extents_wf_def list_all_iff)
    note facts = take_front_facts[OF e(1) take(2)]
    have size: "c * 4096 \<le> unat (snd ?e)" using take(2) by (simp add: sz word_le_nat_alt)
    have "page_aligned t" using e(2,3) size take(3) sz(2) by (cases c) (simp_all add: page_aligned_iff)
    moreover have "t \<noteq> 0" "unat t + unat sz \<le> 2 ^ 52" using e(1,3) size take(3) by (simp_all add: extent_ok_def sz)
    moreover have "room n p'"
    proof -
      obtain j where j: "j < unat (free_blocks p)" "(c + n) * 4096 \<le> unat (snd (free_extents p ! j))"
        using r by (auto simp: room_def in_set_conv_nth)
      have "n * 4096 \<le> unat (snd (free_extents p' ! j))"
      proof (cases "j = i")
        case True
        then show ?thesis using j take(1,5) facts(2) by (simp add: sz add_mult_distrib)
      next
        case False
        then show ?thesis using j take(5) by (simp add: add_mult_distrib)
      qed
      moreover have "free_extents p' ! j \<in> set (free_extents p')" using j(1) take(4) by simp
      ultimately show ?thesis by (auto simp: room_def)
    qed
    moreover have "unat (fst f) mod 4096 = 0 \<and> unat (fst f) + unat (snd f) \<le> 2 ^ 52"
      if "f \<in> set (free_extents p')" for f
    proof -
      have "f = take_front sz ?e \<or> f \<in> set (free_extents p)"
        using that take(5) set_update_subset_insert[of "free_extents p" i] by fastforce
      then show ?thesis
      proof
        assume "f = take_front sz ?e"
        then show ?thesis using facts e(2,3) size by (simp add: sz mod_eq_0_iff_dvd)
      qed (use ok in \<open>auto simp: free_pages_ok_def\<close>)
    qed
    ultimately show ?thesis by blast
  qed
  then have nz: "t \<noteq> 0" and al: "page_aligned t" and le: "unat t + unat sz \<le> 2 ^ 52" and r': "room n p'"
    and ext: "\<forall>e\<in>set (free_extents p'). unat (fst e) mod 4096 = 0 \<and> unat (fst e) + unat (snd e) \<le> 2 ^ 52"
    by simp_all
  show "t \<noteq> 0" "page_aligned t" "unat t + unat sz \<le> 2 ^ 52" "room n p'" by (fact nz al le r')+
  show sub: "byte_range t sz \<subseteq> free_bytes p" using pmm_alloc.alloc_within[OF wf call nz] .
  show minus: "free_bytes p' = free_bytes p - byte_range t sz" using pmm_alloc.alloc_takes[OF wf call nz] .
  show "free_pages_ok p' m"
    using ok ext minus pmm_alloc.alloc_inv[OF wf call] by (simp add: free_pages_ok_def)
qed

lemma take_page:
  assumes "free_pages_ok p m" and "room (Suc n) p" and "allocate_memory PAGE_SIZE p = (t, p')"
  shows "t \<noteq> 0" and "page_aligned t" and "page_bytes t \<subseteq> free_bytes p"
    and "free_bytes p' = free_bytes p - page_bytes t" and "free_pages_ok p' m" and "room n p'"
proof -
  have "byte_range t PAGE_SIZE = page_bytes t" by (simp add: byte_range_def page_bytes_def PAGE_SIZE_def)
  then show "t \<noteq> 0" "page_aligned t" "page_bytes t \<subseteq> free_bytes p" "free_bytes p' = free_bytes p - page_bytes t"
    "free_pages_ok p' m" "room n p'"
    using take_pages[of p m 1 n PAGE_SIZE t p'] assms by (simp_all add: PAGE_SIZE_def)
qed

section \<open>Writing one entry\<close>

lemma load_slot:
  assumes "page_aligned t" "page_aligned t0" "unat i < 512" "unat i0 < 512"
  shows "load64 (store64 m (slot t i) e) (slot t0 i0) =
    (if t0 = t \<and> i0 = i then e else load64 m (slot t0 i0))"
  using assms slot_inj[of t t0 i i0] by (auto simp: load64_store64_aligned slot_aligned8)

lemma store_slot_byte:
  assumes "page_aligned t" "unat i < 512" "unat x \<notin> page_bytes t"
  shows "store64 m (slot t i) e x = m x"
proof -
  have "\<not> unat (x - slot t i) < 8"
  proof
    assume lt: "unat (x - slot t i) < 8"
    have t: "unat t < 2 ^ 52" using assms(1) by (simp add: page_aligned_iff)
    have "unat (slot t i + (x - slot t i)) = unat (slot t i) + unat (x - slot t i)"
      using t assms(2) lt by (simp only: unat_slot[OF assms(1,2)] unat_word_ariths(1)) simp
    then have "unat x = unat t + 8 * unat i + unat (x - slot t i)"
      using unat_slot[OF assms(1,2)] by simp
    then show False using assms(2,3) lt by (simp add: page_bytes_def)
  qed
  then show ?thesis by (simp add: store64_def write_bytes_at)
qed

lemma load_zero_page:
  assumes "page_aligned t" "unat i < 512" "\<And>x. unat x \<in> page_bytes t \<Longrightarrow> m x = 0"
  shows "load64 m (slot t i) = 0"
proof -
  have t: "unat t < 2 ^ 52" using assms(1) by (simp add: page_aligned_iff)
  have "m (slot t i + of_nat j) = 0" if "j < 8" for j
  proof (rule assms(3))
    have "unat (slot t i + of_nat j) = unat t + 8 * unat i + j"
    proof -
      have "slot t i + of_nat j = of_nat (unat t + 8 * unat i + j)" by (simp add: slot_def mult.commute)
      then show ?thesis using t assms(2) that unat_of_nat_less[of "unat t + 8 * unat i + j"] by simp
    qed
    then show "unat (slot t i + of_nat j) \<in> page_bytes t" using assms(2) that by (simp add: page_bytes_def)
  qed
  then have bytes: "read_bytes m (slot t i) 8 = replicate 8 0" by (intro nth_equalityI) auto
  show ?thesis by (rule bit_word_eqI) (simp add: load64_def bytes bit_word_of_bytes)
qed

text \<open>The entries a walk reads.\<close>

fun visits :: "memory \<Rightarrow> nat \<Rightarrow> u64 \<Rightarrow> u64 \<Rightarrow> u64 \<Rightarrow> bool" where
  "visits m 0 t v a \<longleftrightarrow> slot t (idx 0 v) = a"
| "visits m (Suc k) t v a \<longleftrightarrow>
     (let e = slot t (idx (Suc k) v)
      in e = a \<or> is_present m e \<and> visits m k (get_physical_address m e) v a)"

lemma tables_aligned: "tables_apart T p \<Longrightarrow> k \<le> 3 \<Longrightarrow> t \<in> T k \<Longrightarrow> page_aligned t"
  by (auto simp: tables_apart_def)

lemma tables_level: "tables_apart T p \<Longrightarrow> k \<le> 3 \<Longrightarrow> l \<le> 3 \<Longrightarrow> t \<in> T k \<Longrightarrow> t \<in> T l \<Longrightarrow> k = l"
  unfolding tables_apart_def by (metis IntI empty_iff)

lemma entries_okD:
  assumes "entries_ok T m" "k < 3" "t \<in> T (Suc k)" "is_present m (slot t (idx (Suc k) v))"
  shows "get_physical_address m (slot t (idx (Suc k) v)) \<in> T k"
    and "load64 m (slot t (idx (Suc k) v)) AND 0x80 = 0"
  using assms idx_less[of "Suc k" v] by (auto simp: entries_ok_def)

text \<open>One write, seen through the walk: at the last level, or of an absent entry at any level, it
  decides the pages whose walk reads the entry, and no other page.\<close>

lemma frame_after_write:
  assumes ap: "tables_apart T p" and en: "entries_ok T m"
    and t: "j \<le> 3" "t \<in> T j" "unat i < 512" and e: "j = 0 \<or> e AND 1 = 0"
  defines "m' \<equiv> store64 m (slot t i) e"
  shows "k \<le> 3 \<Longrightarrow> t0 \<in> T k \<Longrightarrow> frame_at m' (walk m' k t0 w) =
    (if visits m k t0 w (slot t i) then (if e AND 1 \<noteq> 0 then Some (e AND frame_mask) else None)
     else frame_at m (walk m k t0 w))"
proof (induction k arbitrary: t0)
  case 0
  have "load64 m' (slot t0 (idx 0 w)) =
      (if slot t0 (idx 0 w) = slot t i then e else load64 m (slot t0 (idx 0 w)))"
    unfolding m'_def
    using load_slot[OF tables_aligned[OF ap t(1,2)] tables_aligned[OF ap 0] t(3) idx_less]
      slot_inj[OF tables_aligned[OF ap 0] tables_aligned[OF ap t(1,2)] idx_less t(3)] by simp
  then show ?case
    by (cases "slot t0 (idx 0 w) = slot t i") (simp_all add: frame_at_def is_present_def get_physical_address_mask)
next
  case (Suc k)
  let ?e = "slot t0 (idx (Suc k) w)"
  have ld: "load64 m' ?e = (if ?e = slot t i then e else load64 m ?e)"
    unfolding m'_def
    using load_slot[OF tables_aligned[OF ap t(1,2)] tables_aligned[OF ap Suc.prems] t(3) idx_less]
      slot_inj[OF tables_aligned[OF ap Suc.prems] tables_aligned[OF ap t(1,2)] idx_less t(3)] by simp
  show ?case
  proof (cases "?e = slot t i")
    case True
    have "t0 = t"
      using True slot_inj[OF tables_aligned[OF ap Suc.prems] tables_aligned[OF ap t(1,2)] idx_less t(3)] by simp
    then have "j = Suc k" using tables_level[OF ap t(1) Suc.prems(1) t(2)] Suc.prems(2) by simp
    then have "e AND 1 = 0" using e by simp
    with True ld show ?thesis by (simp add: frame_at_def is_present_def Let_def)
  next
    case False
    with ld have same: "is_present m' ?e = is_present m ?e"
      "get_physical_address m' ?e = get_physical_address m ?e"
      by (simp_all add: is_present_def get_physical_address_mask)
    show ?thesis
    proof (cases "is_present m ?e")
      case True
      have "get_physical_address m ?e \<in> T k" using entries_okD(1)[OF en _ Suc.prems(2) True] Suc.prems(1) by simp
      from Suc.IH[OF _ this] Suc.prems(1) True False same show ?thesis by (simp add: Let_def)
    qed (use False same in \<open>simp add: Let_def frame_at_def\<close>)
  qed
qed

lemma visits_level:
  assumes ap: "tables_apart T p" and en: "entries_ok T m" and t: "j \<le> 3" "t \<in> T j" "unat i < 512"
  shows "visits m l t' u (slot t i) \<Longrightarrow> t' \<in> T l \<Longrightarrow> l \<le> 3 \<Longrightarrow> j \<le> l"
proof (induction l arbitrary: t')
  case 0
  then have "t' = t"
    using slot_inj[OF tables_aligned[OF ap 0(3,2)] tables_aligned[OF ap t(1,2)] idx_less t(3)] by simp
  then show ?case using tables_level[OF ap t(1) 0(3) t(2)] 0(2) by simp
next
  case (Suc l)
  show ?case
  proof (cases "slot t' (idx (Suc l) u) = slot t i")
    case True
    then have "t' = t"
      using slot_inj[OF tables_aligned[OF ap Suc.prems(3,2)] tables_aligned[OF ap t(1,2)] idx_less t(3)] by simp
    then show ?thesis using tables_level[OF ap t(1) Suc.prems(3) t(2)] Suc.prems(2) by simp
  next
    case False
    then have pr: "is_present m (slot t' (idx (Suc l) u))"
      "visits m l (get_physical_address m (slot t' (idx (Suc l) u))) u (slot t i)"
      using Suc.prems(1) by (auto simp: Let_def)
    have "j \<le> l" using Suc.IH[OF pr(2) entries_okD(1)[OF en _ Suc.prems(2) pr(1)]] Suc.prems(3) by simp
    then show ?thesis by simp
  qed
qed

text \<open>In a tree, walks that read the same entry agree on the indices down to its level.\<close>

lemma visits_same_path:
  assumes ap: "tables_apart T p" and en: "entries_ok T m" and un: "parents_unique T m"
    and t: "j \<le> 3" "t \<in> T j" "unat i < 512"
  shows "k \<le> 3 \<Longrightarrow> t0 \<in> T k \<Longrightarrow> t1 \<in> T k \<Longrightarrow> visits m k t0 v (slot t i) \<Longrightarrow> visits m k t1 w (slot t i) \<Longrightarrow>
    t0 = t1 \<and> (\<forall>l. j \<le> l \<longrightarrow> l \<le> k \<longrightarrow> idx l v = idx l w)"
proof (induction k arbitrary: t0 t1)
  case 0
  then show ?case
    using slot_inj[OF tables_aligned[OF ap 0(1,2)] tables_aligned[OF ap 0(1,3)] idx_less idx_less, of 0 v 0 w] by auto
next
  case (Suc k)
  let ?e0 = "slot t0 (idx (Suc k) v)" and ?e1 = "slot t1 (idx (Suc k) w)"
  note a0 = tables_aligned[OF ap Suc.prems(1,2)] and a1 = tables_aligned[OF ap Suc.prems(1,3)]
  note at = tables_aligned[OF ap t(1,2)]
  have level: "j = Suc k" if "slot t' (idx (Suc k) u) = slot t i" "t' \<in> T (Suc k)" for t' u
    using slot_inj[OF tables_aligned[OF ap Suc.prems(1) that(2)] at idx_less t(3)] that
      tables_level[OF ap t(1) Suc.prems(1) t(2)] by simp
  show ?case
  proof (cases "j = Suc k")
    case True
    have eq: "slot t' (idx (Suc k) u) = slot t i"
      if "visits m (Suc k) t' u (slot t i)" "t' \<in> T (Suc k)" for t' u
    proof (rule ccontr)
      assume ne: "slot t' (idx (Suc k) u) \<noteq> slot t i"
      then have pr: "is_present m (slot t' (idx (Suc k) u))"
        "visits m k (get_physical_address m (slot t' (idx (Suc k) u))) u (slot t i)"
        using that(1) by (auto simp: Let_def)
      have "j \<le> k" using visits_level[OF ap en t pr(2) entries_okD(1)[OF en _ that(2) pr(1)]] Suc.prems(1) by simp
      with True show False by simp
    qed
    have "slot t0 (idx (Suc k) v) = slot t1 (idx (Suc k) w)"
      using eq[OF Suc.prems(4,2)] eq[OF Suc.prems(5,3)] by simp
    with slot_inj[OF a0 a1 idx_less idx_less] True show ?thesis by (auto simp: le_Suc_eq)
  next
    case False
    then have pr: "is_present m ?e0" "visits m k (get_physical_address m ?e0) v (slot t i)"
      "is_present m ?e1" "visits m k (get_physical_address m ?e1) w (slot t i)"
      using Suc.prems(4,5) level[OF _ Suc.prems(2)] level[OF _ Suc.prems(3)] by (auto simp: Let_def)
    have k: "k < 3" using Suc.prems(1) by simp
    have IH: "get_physical_address m ?e0 = get_physical_address m ?e1 \<and>
        (\<forall>l. j \<le> l \<longrightarrow> l \<le> k \<longrightarrow> idx l v = idx l w)"
      using Suc.IH[OF _ entries_okD(1)[OF en k Suc.prems(2) pr(1)]
          entries_okD(1)[OF en k Suc.prems(3) pr(3)] pr(2,4)] Suc.prems(1) by simp
    then have "t0 = t1 \<and> idx (Suc k) v = idx (Suc k) w"
      using un k Suc.prems(2,3) pr(1,3) idx_less unfolding parents_unique_def by metis
    with IH show ?thesis by (auto simp: le_Suc_eq)
  qed
qed

lemma visits_agree:
  assumes ap: "tables_apart T p" and en: "entries_ok T m" and t: "j \<le> 3" "t \<in> T j" "unat i < 512"
  shows "visits m k t0 v (slot t i) \<Longrightarrow> \<forall>l. j \<le> l \<longrightarrow> l \<le> k \<longrightarrow> idx l v = idx l w \<Longrightarrow>
    k \<le> 3 \<Longrightarrow> t0 \<in> T k \<Longrightarrow> visits m k t0 w (slot t i)"
proof (induction k arbitrary: t0)
  case 0
  then show ?case using visits_level[OF ap en t 0(1)] by simp
next
  case (Suc k)
  have idx: "idx (Suc k) v = idx (Suc k) w"
    using Suc.prems(2) visits_level[OF ap en t Suc.prems(1,4,3)] by simp
  show ?case
  proof (cases "slot t0 (idx (Suc k) v) = slot t i")
    case True
    then show ?thesis using idx by (simp add: Let_def)
  next
    case False
    then have pr: "is_present m (slot t0 (idx (Suc k) v))"
      "visits m k (get_physical_address m (slot t0 (idx (Suc k) v))) v (slot t i)"
      using Suc.prems(1) by (auto simp: Let_def)
    have mem: "get_physical_address m (slot t0 (idx (Suc k) v)) \<in> T k"
      using entries_okD(1)[OF en _ Suc.prems(4) pr(1)] Suc.prems(3) by simp
    have "visits m k (get_physical_address m (slot t0 (idx (Suc k) v))) w (slot t i)"
      using Suc.IH[OF pr(2) _ _ mem] Suc.prems(2,3) by simp
    then show ?thesis using pr(1) idx by (simp add: Let_def)
  qed
qed

section \<open>Creating a table\<close>

text \<open>\<open>grows\<close>: the tables stay, what was present stays, and no page changes its frame.\<close>

definition grows :: "tables \<Rightarrow> vm \<Rightarrow> tables \<Rightarrow> vm \<Rightarrow> bool" where
  "grows T s T' s' \<longleftrightarrow> space_ok T' s' \<and> (\<forall>j. T j \<subseteq> T' j) \<and> vm_cr3 s' = vm_cr3 s \<and>
     (\<forall>w. page_map s' w = page_map s w) \<and>
     (\<forall>j\<le>3. \<forall>t\<in>T j. \<forall>i. unat i < 512 \<longrightarrow> is_present (vm_mem s) (slot t i) \<longrightarrow>
        load64 (vm_mem s') (slot t i) = load64 (vm_mem s) (slot t i))"

lemma grows_refl: "space_ok T s \<Longrightarrow> grows T s T s"
  by (simp add: grows_def)

lemma grows_load:
  "grows T s T' s' \<Longrightarrow> j \<le> 3 \<Longrightarrow> t \<in> T j \<Longrightarrow> unat i < 512 \<Longrightarrow> is_present (vm_mem s) (slot t i) \<Longrightarrow>
   load64 (vm_mem s') (slot t i) = load64 (vm_mem s) (slot t i)"
  by (simp add: grows_def)

lemma grows_trans:
  assumes "grows T s T1 s1" and "grows T1 s1 T2 s2"
  shows "grows T s T2 s2"
  unfolding grows_def
proof (intro conjI allI ballI impI)
  fix j t i assume *: "j \<le> 3" "t \<in> T j" "unat (i::u64) < 512" "is_present (vm_mem s) (slot t i)"
  then have 1: "load64 (vm_mem s1) (slot t i) = load64 (vm_mem s) (slot t i)" "t \<in> T1 j"
    using assms(1) by (auto simp: grows_def)
  then have "is_present (vm_mem s1) (slot t i)" using *(4) by (simp add: is_present_def)
  then have "load64 (vm_mem s2) (slot t i) = load64 (vm_mem s1) (slot t i)"
    using assms(2) * 1(2) by (simp add: grows_def)
  with 1 show "load64 (vm_mem s2) (slot t i) = load64 (vm_mem s) (slot t i)" by simp
qed (use assms in \<open>auto simp: grows_def\<close>)

lemma walk_zero_table:
  assumes "\<And>i. unat i < 512 \<Longrightarrow> \<not> is_present m (slot t i)"
  shows "frame_at m (walk m k t w) = None"
  using assms[OF idx_less] by (cases k) (simp_all add: frame_at_def Let_def)

text \<open>A free page about to become the table that the absent entry \<open>i\<close> of \<open>t\<close>, one level up, leads to.\<close>

definition fresh_table :: "tables \<Rightarrow> vm \<Rightarrow> nat \<Rightarrow> u64 \<Rightarrow> u64 \<Rightarrow> u64 \<Rightarrow> pmm \<Rightarrow> bool" where
  "fresh_table T s k t i new p' \<longleftrightarrow> space_ok T s \<and> k < 3 \<and> t \<in> T (Suc k) \<and> unat i < 512 \<and>
     \<not> is_present (vm_mem s) (slot t i) \<and> page_aligned new \<and> page_bytes new \<subseteq> free_bytes (vm_pmm s) \<and>
     free_bytes p' = free_bytes (vm_pmm s) - page_bytes new \<and> free_pages_ok p' (vm_mem s)"

abbreviation new_entry :: "u64 \<Rightarrow> u64" where "new_entry new \<equiv> new OR PAGE_PRESENT OR PAGE_WRITABLE"

abbreviation linked :: "vm \<Rightarrow> u64 \<Rightarrow> u64 \<Rightarrow> u64 \<Rightarrow> memory" where
  "linked s t i new \<equiv> store64 (vm_mem s) (slot t i) (new_entry new)"

abbreviation add_table :: "tables \<Rightarrow> nat \<Rightarrow> u64 \<Rightarrow> tables" where "add_table T k new \<equiv> T(k := insert new (T k))"

lemma fresh_tableD:
  assumes "fresh_table T s k t i new p'"
  shows "tables_apart T (vm_pmm s)" and "entries_ok T (vm_mem s)" and "parents_unique T (vm_mem s)"
    and "free_pages_ok (vm_pmm s) (vm_mem s)" and "pml4_base s \<in> T 3" and "Suc k \<le> 3" and "k < 3" and "t \<in> T (Suc k)"
    and "unat i < 512" and "\<not> is_present (vm_mem s) (slot t i)" and "page_aligned new"
    and "page_bytes new \<subseteq> free_bytes (vm_pmm s)" and "free_bytes p' = free_bytes (vm_pmm s) - page_bytes new"
    and "free_pages_ok p' (vm_mem s)" and "page_aligned t"
proof -
  show ap: "tables_apart T (vm_pmm s)" and k: "Suc k \<le> 3" and t: "t \<in> T (Suc k)"
    using assms by (simp_all add: fresh_table_def space_ok_def)
  show "page_aligned t" by (rule tables_aligned[OF ap k t])
qed (use assms in \<open>simp_all add: fresh_table_def space_ok_def\<close>)

lemma fresh_notin:
  assumes f: "fresh_table T s k t i new p'" and "j \<le> 3"
  shows "new \<notin> T j"
proof
  assume "new \<in> T j"
  then have "page_bytes new \<inter> free_bytes (vm_pmm s) = {}" using fresh_tableD(1)[OF f] assms(2) by (auto simp: tables_apart_def)
  moreover have "unat new \<in> page_bytes new" by (simp add: page_bytes_def)
  ultimately show False using fresh_tableD(12)[OF f] by blast
qed

lemma fresh_other:
  assumes f: "fresh_table T s k t i new p'"
  shows "t \<noteq> new"
  using fresh_notin[OF f fresh_tableD(6)[OF f]] fresh_tableD(8)[OF f] by auto

lemma add_table_cases: "t0 \<in> add_table T k new j \<Longrightarrow> t0 \<in> T j \<or> (j = k \<and> t0 = new)"
  by (auto split: if_splits)

lemma add_table_aligned:
  assumes f: "fresh_table T s k t i new p'" and "t0 \<in> add_table T k new j" and "j \<le> 3"
  shows "page_aligned t0"
  using add_table_cases[OF assms(2)] tables_aligned[OF fresh_tableD(1)[OF f] assms(3)] fresh_tableD(11)[OF f] by auto

lemma linked_load:
  assumes f: "fresh_table T s k t i new p'" and "t0 \<in> add_table T k new j" and "j \<le> 3" and "unat i0 < 512"
  shows "load64 (linked s t i new) (slot t0 i0) = (if t0 = t \<and> i0 = i then new_entry new else load64 (vm_mem s) (slot t0 i0))"
  by (rule load_slot[OF fresh_tableD(15)[OF f] add_table_aligned[OF assms(1-3)] fresh_tableD(9)[OF f] assms(4)])

lemma linked_zero:
  assumes f: "fresh_table T s k t i new p'" and "unat i0 < 512"
  shows "load64 (linked s t i new) (slot new i0) = 0"
proof -
  have "load64 (vm_mem s) (slot new i0) = 0"
    using fresh_tableD(4,11,12)[OF f] assms(2) by (intro load_zero_page) (auto simp: free_pages_ok_def)
  then show ?thesis
    using load_slot[OF fresh_tableD(15,11,9)[OF f] assms(2)] fresh_other[OF f] by simp
qed

lemma linked_present:
  assumes f: "fresh_table T s k t i new p'"
    and "j < 3" and "t0 \<in> add_table T k new (Suc j)" and "unat i0 < 512" and "is_present (linked s t i new) (slot t0 i0)"
  shows "t0 = t \<and> i0 = i \<and> j = k \<or>
    t0 \<in> T (Suc j) \<and> (t0, i0) \<noteq> (t, i) \<and> is_present (vm_mem s) (slot t0 i0) \<and>
    load64 (linked s t i new) (slot t0 i0) = load64 (vm_mem s) (slot t0 i0)"
proof (cases "t0 = t \<and> i0 = i")
  case True
  then show ?thesis
    using add_table_cases[OF assms(3)] fresh_other[OF f] tables_level[OF fresh_tableD(1)[OF f] _ fresh_tableD(6)[OF f] _ fresh_tableD(8)[OF f], of "Suc j"]
      assms(2) by auto
next
  case False
  have "t0 \<noteq> new" using linked_zero[OF f assms(4)] assms(5) by (auto simp: is_present_def)
  then show ?thesis using False linked_load[OF f assms(3) _ assms(4)] assms(2,5) add_table_cases[OF assms(3)]
    by (auto simp: is_present_def)
qed

lemma linked_apart:
  assumes f: "fresh_table T s k t i new p'"
  shows "tables_apart (add_table T k new) p'"
  unfolding tables_apart_def
proof (intro conjI allI ballI impI)
  fix j t0 assume "j \<le> 3" "t0 \<in> add_table T k new j"
  then show "page_aligned t0" "page_bytes t0 \<inter> free_bytes p' = {}"
    using add_table_aligned[OF f] add_table_cases[of t0 T k new j] fresh_tableD(1,13)[OF f] unfolding tables_apart_def by blast+
next
  fix j l :: nat assume "j \<le> 3" "l \<le> 3" "j \<noteq> l"
  then show "add_table T k new j \<inter> add_table T k new l = {}"
    using fresh_tableD(1)[OF f] fresh_notin[OF f] by (auto simp: tables_apart_def)
qed

lemma linked_entries:
  assumes f: "fresh_table T s k t i new p'"
  shows "entries_ok (add_table T k new) (linked s t i new)"
  unfolding entries_ok_def
proof (intro allI ballI impI)
  let ?m = "linked s t i new"
  fix j t0 i0 assume *: "j < 3" "t0 \<in> add_table T k new (Suc j)" "unat (i0 :: u64) < 512" "is_present ?m (slot t0 i0)"
  from linked_present[OF f *] show "get_physical_address ?m (slot t0 i0) \<in> add_table T k new j \<and> load64 ?m (slot t0 i0) AND 0x80 = 0"
  proof
    assume "t0 = t \<and> i0 = i \<and> j = k"
    then show ?thesis using new_entry_bits[OF fresh_tableD(11)[OF f]] by (simp add: get_physical_address_mask load64_store64_same)
  next
    assume "t0 \<in> T (Suc j) \<and> (t0, i0) \<noteq> (t, i) \<and> is_present (vm_mem s) (slot t0 i0) \<and>
      load64 ?m (slot t0 i0) = load64 (vm_mem s) (slot t0 i0)"
    then show ?thesis using fresh_tableD(2)[OF f] *(1,3) by (auto simp: entries_ok_def get_physical_address_mask)
  qed
qed

lemma linked_unique:
  assumes f: "fresh_table T s k t i new p'"
  shows "parents_unique (add_table T k new) (linked s t i new)"
  unfolding parents_unique_def
proof (intro allI ballI impI)
  let ?m = "linked s t i new"
  fix j t0 t1 i0 i1
  assume j: "j < 3" and *: "t0 \<in> add_table T k new (Suc j)" "t1 \<in> add_table T k new (Suc j)" "unat (i0 :: u64) < 512" "unat (i1 :: u64) < 512"
    "is_present ?m (slot t0 i0)" "is_present ?m (slot t1 i1)"
    "get_physical_address ?m (slot t0 i0) = get_physical_address ?m (slot t1 i1)"
  have notin: "new \<notin> T j" using fresh_notin[OF f] j by simp
  have self: "load64 ?m (slot t i) AND frame_mask = new"
    using new_entry_bits(1)[OF fresh_tableD(11)[OF f]] by (simp add: load64_store64_same)
  have old: "load64 ?m (slot t0 i0) AND frame_mask \<in> T j"
    if "t0 \<in> T (Suc j)" "unat i0 < 512" "is_present (vm_mem s) (slot t0 i0)"
      "load64 ?m (slot t0 i0) = load64 (vm_mem s) (slot t0 i0)" for t0 i0
    using fresh_tableD(2)[OF f] j that by (auto simp: entries_ok_def get_physical_address_mask)
  show "t0 = t1 \<and> i0 = i1"
    using linked_present[OF f j *(1,3,5)] linked_present[OF f j *(2,4,6)] *(7) self notin
      old[OF _ *(3), of t0] old[OF _ *(4), of t1] fresh_tableD(3)[OF f] j *(3,4)
    unfolding get_physical_address_mask parents_unique_def by metis
qed

lemma linked_free:
  assumes f: "fresh_table T s k t i new p'"
  shows "free_pages_ok p' (linked s t i new)"
  using fresh_tableD(14)[OF f] unfolding free_pages_ok_def
proof (elim conjE, intro conjI allI impI)
  fix x assume "unat (x::u64) \<in> free_bytes p'"
  then have x: "unat x \<in> free_bytes (vm_pmm s)" using fresh_tableD(13)[OF f] by simp
  have "page_bytes t \<inter> free_bytes (vm_pmm s) = {}" using fresh_tableD(1,6,8)[OF f] unfolding tables_apart_def by blast
  with x have "unat x \<notin> page_bytes t" by blast
  then show "linked s t i new x = 0"
    using store_slot_byte[OF fresh_tableD(15,9)[OF f]] x fresh_tableD(4)[OF f] by (simp add: free_pages_ok_def)
qed auto

lemma linked_frames:
  assumes f: "fresh_table T s k t i new p'"
  shows "l \<le> 3 \<Longrightarrow> t0 \<in> T l \<Longrightarrow> frame_at (linked s t i new) (walk (linked s t i new) l t0 w) = frame_at (vm_mem s) (walk (vm_mem s) l t0 w)"
proof (induction l arbitrary: t0)
  case 0
  have "t0 \<noteq> t" using tables_level[OF fresh_tableD(1)[OF f] _ fresh_tableD(6)[OF f] 0(2)] fresh_tableD(8)[OF f] by auto
  then have "load64 (linked s t i new) (slot t0 (idx 0 w)) = load64 (vm_mem s) (slot t0 (idx 0 w))"
    using load_slot[OF fresh_tableD(15)[OF f] tables_aligned[OF fresh_tableD(1)[OF f] 0] fresh_tableD(9)[OF f] idx_less] by simp
  then show ?case by (simp add: frame_at_def is_present_def get_physical_address_mask)
next
  case (Suc l)
  let ?m = "linked s t i new" and ?s = "slot t0 (idx (Suc l) w)"
  note ld = load_slot[OF fresh_tableD(15)[OF f] tables_aligned[OF fresh_tableD(1)[OF f] Suc.prems] fresh_tableD(9)[OF f] idx_less[of "Suc l" w],
    of "vm_mem s" "new_entry new"]
  show ?case
  proof (cases "t0 = t \<and> idx (Suc l) w = i")
    case True
    have "frame_at ?m (walk ?m l new w) = None"
      using linked_zero[OF f] by (intro walk_zero_table) (simp add: is_present_def)
    then show ?thesis using True new_entry_bits[OF fresh_tableD(11)[OF f]] fresh_tableD(10)[OF f]
      by (auto simp: Let_def frame_at_def get_physical_address_mask is_present_def load64_store64_same)
  next
    case False
    then have same: "is_present ?m ?s = is_present (vm_mem s) ?s" "get_physical_address ?m ?s = get_physical_address (vm_mem s) ?s"
      using ld by (auto simp: is_present_def get_physical_address_mask)
    show ?thesis
    proof (cases "is_present (vm_mem s) ?s")
      case True
      from entries_okD(1)[OF fresh_tableD(2)[OF f] _ Suc.prems(2) True] Suc.prems(1)
      have "get_physical_address (vm_mem s) ?s \<in> T l" by simp
      from Suc.IH[OF _ this] Suc.prems(1) True same show ?thesis by (simp add: Let_def)
    qed (use same in \<open>simp add: Let_def frame_at_def\<close>)
  qed
qed

lemma linked_grows:
  assumes f: "fresh_table T s k t i new p'"
  shows "grows T s (add_table T k new) (s\<lparr>vm_pmm := p', vm_mem := linked s t i new\<rparr>)"
proof -
  let ?s = "s\<lparr>vm_pmm := p', vm_mem := linked s t i new\<rparr>"
  have base: "pml4_base ?s = pml4_base s" by (simp add: pml4_base_def read_cr3_def)
  have "space_ok (add_table T k new) ?s"
    using fresh_tableD(5)[OF f] linked_apart[OF f] linked_entries[OF f] linked_unique[OF f] linked_free[OF f] base
    by (simp add: space_ok_def)
  moreover have "page_map ?s w = page_map s w" for w
    using linked_frames[OF f order.refl fresh_tableD(5)[OF f]] base by (simp add: page_map_def)
  moreover have "load64 (linked s t i new) (slot t0 i0) = load64 (vm_mem s) (slot t0 i0)"
    if "j \<le> 3" "t0 \<in> T j" "unat i0 < 512" "is_present (vm_mem s) (slot t0 i0)" for j t0 i0
  proof -
    have "t0 \<in> add_table T k new j" and ne: "\<not> (t0 = t \<and> i0 = i)" using that fresh_tableD(10)[OF f] by auto
    from linked_load[OF f this(1) that(1,3)] show ?thesis using ne by simp
  qed
  ultimately show ?thesis by (auto simp: grows_def)
qed

lemma create_fresh:
  assumes ok: "space_ok T s" and r: "room (Suc n) (vm_pmm s)"
    and k: "k < 3" and t: "t \<in> T (Suc k)" and i: "unat i < 512"
    and absent: "\<not> is_present (vm_mem s) (slot t i)"
    and call: "create_or_get_table (slot t i) s = (t', s')"
  shows "\<exists>T'. grows T s T' s' \<and> t' \<in> T' k \<and> room n (vm_pmm s') \<and>
    is_present (vm_mem s') (slot t i) \<and> get_physical_address (vm_mem s') (slot t i) = t'"
proof -
  obtain new p' where alloc: "allocate_memory PAGE_SIZE (vm_pmm s) = (new, p')" by fastforce
  have fr: "free_pages_ok (vm_pmm s) (vm_mem s)" using ok by (simp add: space_ok_def)
  note page = take_page[OF fr r alloc]
  note bits = new_entry_bits[OF page(2)]
  have s': "s' = s\<lparr>vm_pmm := p', vm_mem := linked s t i new\<rparr>" and t': "t' = new"
    using call absent alloc page(1) bits(1)
    by (auto simp: create_or_get_table_def set_entry_def get_physical_address_mask load64_store64_same)
  have "fresh_table T s k t i new p'"
    using ok k t i absent page(2-4) fr page(5) by (simp add: fresh_table_def)
  from linked_grows[OF this] show ?thesis
    using bits page(6)
    by (intro exI[of _ "add_table T k new"]) (simp add: s' t' get_physical_address_mask is_present_def load64_store64_same)
qed

lemma create_step:
  assumes ok: "space_ok T s" and r: "room (Suc n) (vm_pmm s)"
    and k: "k < 3" and t: "t \<in> T (Suc k)" and i: "unat i < 512"
    and call: "create_or_get_table (slot t i) s = (t', s')"
  shows "\<exists>T'. grows T s T' s' \<and> t' \<in> T' k \<and> room n (vm_pmm s') \<and>
    is_present (vm_mem s') (slot t i) \<and> get_physical_address (vm_mem s') (slot t i) = t'"
proof (cases "is_present (vm_mem s) (slot t i)")
  case True
  then have eq: "s' = s" "t' = get_physical_address (vm_mem s) (slot t i)"
    using call by (auto simp: create_or_get_table_def)
  have "get_physical_address (vm_mem s) (slot t i) \<in> T k"
    using ok True k t i by (simp add: space_ok_def entries_ok_def)
  moreover have "room n (vm_pmm s)" using r by (force simp: room_def)
  ultimately show ?thesis using grows_refl[OF ok] True unfolding eq by blast
qed (rule create_fresh[OF ok r k t i _ call])

lemma ensure_path:
  assumes "space_ok T s" and "room (k + n) (vm_pmm s)" and "k \<le> 3" and "t \<in> T k" and "ensure k t v s = (pt, s')"
  shows "\<exists>T'. grows T s T' s' \<and> pt \<in> T' 0 \<and> visits (vm_mem s') k t v (slot pt (idx 0 v)) \<and> room n (vm_pmm s')"
  using assms
proof (induction k arbitrary: T s t)
  case 0
  then show ?case by (auto intro: grows_refl)
next
  case (Suc k)
  obtain t1 s1 where c: "create_or_get_table (slot t (idx (Suc k) v)) s = (t1, s1)" by fastforce
  from Suc.prems(5) c have e: "ensure k t1 v s1 = (pt, s')" by simp
  from create_step[OF Suc.prems(1) Suc.prems(2)[unfolded add_Suc] _ Suc.prems(4) idx_less c] Suc.prems(3)
  obtain T1 where 1: "grows T s T1 s1" "t1 \<in> T1 k" "room (k + n) (vm_pmm s1)"
    "is_present (vm_mem s1) (slot t (idx (Suc k) v))"
    "get_physical_address (vm_mem s1) (slot t (idx (Suc k) v)) = t1" by auto
  have ok1: "space_ok T1 s1" using 1(1) by (simp add: grows_def)
  from Suc.IH[OF ok1 1(3) _ 1(2) e] Suc.prems(3)
  obtain T2 where 2: "grows T1 s1 T2 s'" "pt \<in> T2 0" "visits (vm_mem s') k t1 v (slot pt (idx 0 v))" "room n (vm_pmm s')" by auto
  have "t \<in> T1 (Suc k)" using 1(1) Suc.prems(4) by (auto simp: grows_def)
  then have "load64 (vm_mem s') (slot t (idx (Suc k) v)) = load64 (vm_mem s1) (slot t (idx (Suc k) v))"
    using grows_load[OF 2(1) Suc.prems(3) _ idx_less 1(4)] by simp
  with 1(4,5) have "is_present (vm_mem s') (slot t (idx (Suc k) v))"
    "get_physical_address (vm_mem s') (slot t (idx (Suc k) v)) = t1"
    by (simp_all add: is_present_def get_physical_address_mask)
  with 2 grows_trans[OF 1(1) 2(1)] show ?case by (auto simp: Let_def)
qed

section \<open>Translation is the map\<close>

lemma translate_page_map:
  assumes "space_ok T s"
  shows "translate_virtual_to_physical v s =
    (case page_map s v of None \<Rightarrow> 0 | Some f \<Rightarrow> f OR (v AND 0xFFF))"
proof -
  let ?m = "vm_mem s" and ?e3 = "slot (pml4_base s) (idx 3 v)"
  let ?e2 = "slot (get_physical_address ?m ?e3) (idx 2 v)"
  let ?e1 = "slot (get_physical_address ?m ?e2) (idx 1 v)"
  have en: "entries_ok T ?m" and top: "pml4_base s \<in> T 3" using assms by (simp_all add: space_ok_def)
  have 2: "get_physical_address ?m ?e3 \<in> T 2" if "is_present ?m ?e3"
    using entries_okD(1)[OF en, of 2 "pml4_base s" v] top that by (simp add: numeral_3_eq_3)
  have 1: "get_physical_address ?m ?e2 \<in> T 1" "load64 ?m ?e2 AND 0x80 = 0"
    if "is_present ?m ?e3" "is_present ?m ?e2"
    using entries_okD[OF en, of 1 "get_physical_address ?m ?e3" v] 2 that by (simp_all add: numeral_2_eq_2)
  have 0: "load64 ?m ?e1 AND 0x80 = 0"
    if "is_present ?m ?e3" "is_present ?m ?e2" "is_present ?m ?e1"
    using entries_okD(2)[OF en, of 0 "get_physical_address ?m ?e2" v] 1 that by simp
  show ?thesis
    using 1(2) 0
    by (auto simp: translate_virtual_to_physical_def page_map_def frame_at_def idx_levels Let_def
        numeral_3_eq_3 numeral_2_eq_2 split: if_splits)
qed

lemma visits_slot0:
  assumes "tables_apart T p" "entries_ok T m"
  shows "k \<le> 3 \<Longrightarrow> t \<in> T k \<Longrightarrow> t1 \<in> T 0 \<Longrightarrow> visits m k t v (slot t1 i) \<Longrightarrow> unat i < 512 \<Longrightarrow> i = idx 0 v"
proof (induction k arbitrary: t)
  case 0
  then show ?case
    using slot_inj[OF tables_aligned[OF assms(1) 0(1,2)] tables_aligned[OF assms(1) 0(1) 0(3)] idx_less 0(5), of 0 v]
    by simp
next
  case (Suc k)
  let ?e = "slot t (idx (Suc k) v)"
  have "?e \<noteq> slot t1 i"
  proof
    assume "?e = slot t1 i"
    then have "t = t1"
      using slot_inj[OF tables_aligned[OF assms(1) Suc.prems(1,2)] tables_aligned[OF assms(1) _ Suc.prems(3)] idx_less Suc.prems(5)]
      by simp
    then show False using tables_level[OF assms(1) _ Suc.prems(1) Suc.prems(3)] Suc.prems(2) by simp
  qed
  then have pr: "is_present m ?e" "visits m k (get_physical_address m ?e) v (slot t1 i)"
    using Suc.prems(4) by (auto simp: Let_def)
  have "get_physical_address m ?e \<in> T k"
    using entries_okD(1)[OF assms(2) _ Suc.prems(2) pr(1)] Suc.prems(1) by simp
  from Suc.IH[OF _ this Suc.prems(3) pr(2) Suc.prems(5)] Suc.prems(1) show ?case by simp
qed

lemma visits_iff_same:
  assumes ok: "space_ok T s" and t: "j \<le> 3" "t \<in> T j" "unat i < 512"
    and v: "visits (vm_mem s) 3 (pml4_base s) v (slot t i)"
  shows "visits (vm_mem s) 3 (pml4_base s) w (slot t i) \<longleftrightarrow> (\<forall>l. j \<le> l \<longrightarrow> l \<le> 3 \<longrightarrow> idx l v = idx l w)"
proof -
  have ap: "tables_apart T (vm_pmm s)" and en: "entries_ok T (vm_mem s)"
    and un: "parents_unique T (vm_mem s)" and top: "pml4_base s \<in> T 3"
    using ok by (simp_all add: space_ok_def)
  show ?thesis
    using visits_same_path[OF ap en un t order.refl top top v] visits_agree[OF ap en t v _ order.refl top]
    by blast
qed

text \<open>One write into a table of the space, at the last level or of an absent entry.\<close>

lemma write_entry:
  assumes ok: "space_ok T s" and t: "j \<le> 3" "t \<in> T j" "unat i < 512" and e: "j = 0 \<or> e AND 1 = 0"
  shows "space_ok T (set_entry (slot t i) e s)"
    and "page_map (set_entry (slot t i) e s) w =
      (if visits (vm_mem s) 3 (pml4_base s) w (slot t i)
       then (if e AND 1 \<noteq> 0 then Some (e AND frame_mask) else None) else page_map s w)"
proof -
  let ?m = "vm_mem s" and ?m' = "store64 (vm_mem s) (slot t i) e"
  have ap: "tables_apart T (vm_pmm s)" and en: "entries_ok T ?m" and un: "parents_unique T ?m"
    and fr: "free_pages_ok (vm_pmm s) ?m" and top: "pml4_base s \<in> T 3"
    using ok by (simp_all add: space_ok_def)
  have at: "page_aligned t" by (rule tables_aligned[OF ap t(1,2)])
  have upper: "load64 ?m' (slot t0 i0) = load64 ?m (slot t0 i0) \<or> \<not> is_present ?m' (slot t0 i0)"
    if "k < 3" "t0 \<in> T (Suc k)" "unat i0 < 512" for k t0 i0
  proof -
    have "Suc k \<le> 3" using that(1) by simp
    note ld = load_slot[OF at tables_aligned[OF ap this that(2)] t(3) that(3), of ?m e]
    have "j = Suc k" if "t0 = t" using tables_level[OF ap t(1) \<open>Suc k \<le> 3\<close> t(2)] that \<open>t0 \<in> T (Suc k)\<close> by simp
    then show ?thesis using ld e by (auto simp: is_present_def)
  qed
  have "entries_ok T ?m'"
    using en upper unfolding entries_ok_def is_present_def get_physical_address_mask by metis
  moreover have "parents_unique T ?m'"
    using un upper unfolding parents_unique_def is_present_def get_physical_address_mask by metis
  moreover have "free_pages_ok (vm_pmm s) ?m'"
  proof -
    have "?m' x = 0" if "unat x \<in> free_bytes (vm_pmm s)" for x
    proof -
      have "page_bytes t \<inter> free_bytes (vm_pmm s) = {}" using ap t unfolding tables_apart_def by blast
      with that have "unat x \<notin> page_bytes t" by blast
      then show ?thesis using store_slot_byte[OF at t(3)] fr that by (simp add: free_pages_ok_def)
    qed
    then show ?thesis using fr by (simp add: free_pages_ok_def)
  qed
  ultimately show "space_ok T (set_entry (slot t i) e s)"
    using top ap by (simp add: space_ok_def set_entry_def pml4_base_def read_cr3_def)
  show "page_map (set_entry (slot t i) e s) w =
      (if visits (vm_mem s) 3 (pml4_base s) w (slot t i)
       then (if e AND 1 \<noteq> 0 then Some (e AND frame_mask) else None) else page_map s w)"
    using frame_after_write[OF ap en t e order.refl top, of w]
    by (simp add: page_map_def set_entry_def pml4_base_def read_cr3_def)
qed

lemma space_ok_event [simp]: "space_ok T (vm_event ev s) \<longleftrightarrow> space_ok T s"
  by (simp add: space_ok_def vm_event_def pml4_base_def read_cr3_def)

lemma page_map_event [simp]: "page_map (vm_event ev s) w = page_map s w"
  by (simp add: page_map_def vm_event_def pml4_base_def read_cr3_def)

lemma page_aligned_low: "page_aligned f \<Longrightarrow> flags AND frame_mask = 0 \<Longrightarrow> (f OR flags) AND frame_mask = f"
  by (simp add: page_aligned_def bit.conj_disj_distrib2)

text \<open>The page-directory entry of an address, and what \<open>unmap_page\<close> does by it.\<close>

definition pd_entry :: "u64 \<Rightarrow> vm \<Rightarrow> u64 option" where
  "pd_entry v s =
     (let m = vm_mem s;
          e3 = slot (pml4_base s) (idx 3 v);
          e2 = slot (get_physical_address m e3) (idx 2 v)
      in if is_present m e3 \<and> is_present m e2
         then Some (slot (get_physical_address m e2) (idx 1 v)) else None)"

lemma unmap_cases:
  "unmap_page v s =
     (case pd_entry v s of None \<Rightarrow> s
      | Some a \<Rightarrow>
          if load64 (vm_mem s) a AND PAGE_LARGE \<noteq> 0 then set_entry a 0 s
          else if \<not> is_present (vm_mem s) a then s
          else invlpg v (set_entry (slot (get_physical_address (vm_mem s) a) (idx 0 v)) 0 s))"
  by (simp add: unmap_page_def pd_entry_def idx_levels is_present_def PAGE_PRESENT_def Let_def)

lemma walk_same: "\<forall>l\<le>k. idx l v = idx l w \<Longrightarrow> walk m k t v = walk m k t w"
  by (induction k arbitrary: t) (simp_all add: Let_def)

lemma page_map_same: "same_page v w \<Longrightarrow> page_map s v = page_map s w"
  using walk_same[of 3 v w] by (simp add: page_map_def same_page_def)

lemma page_map_pd:
  "page_map s v =
     (case pd_entry v s of None \<Rightarrow> None
      | Some a \<Rightarrow> if is_present (vm_mem s) a
          then frame_at (vm_mem s) (Some (slot (get_physical_address (vm_mem s) a) (idx 0 v))) else None)"
  by (simp add: page_map_def pd_entry_def numeral_3_eq_3 numeral_2_eq_2 Let_def frame_at_def)

lemma pd_entry_visits:
  assumes ok: "space_ok T s" and a: "pd_entry v s = Some a"
  shows "\<exists>t\<in>T 1. a = slot t (idx 1 v) \<and> visits (vm_mem s) 3 (pml4_base s) v a \<and>
    page_map s v = frame_at (vm_mem s) (walk (vm_mem s) 1 t v) \<and>
    (is_present (vm_mem s) a \<longrightarrow> get_physical_address (vm_mem s) a \<in> T 0 \<and>
       visits (vm_mem s) 3 (pml4_base s) v (slot (get_physical_address (vm_mem s) a) (idx 0 v)))"
proof -
  let ?m = "vm_mem s" and ?e3 = "slot (pml4_base s) (idx 3 v)"
  let ?e2 = "slot (get_physical_address ?m ?e3) (idx 2 v)"
  have en: "entries_ok T ?m" and top: "pml4_base s \<in> T 3" using ok by (simp_all add: space_ok_def)
  have pr: "is_present ?m ?e3" "is_present ?m ?e2" and aa: "a = slot (get_physical_address ?m ?e2) (idx 1 v)"
    using a by (auto simp: pd_entry_def Let_def split: if_splits)
  have 2: "get_physical_address ?m ?e3 \<in> T 2"
    using entries_okD(1)[OF en, of 2 "pml4_base s" v] top pr(1) by (simp add: numeral_3_eq_3)
  have 1: "get_physical_address ?m ?e2 \<in> T 1"
    using entries_okD(1)[OF en, of 1 "get_physical_address ?m ?e3" v] 2 pr(2) by (simp add: numeral_2_eq_2)
  have 0: "get_physical_address ?m a \<in> T 0" if "is_present ?m a"
    using entries_okD(1)[OF en, of 0 "get_physical_address ?m ?e2" v] 1 that aa by simp
  show ?thesis
    using pr 0 by (intro bexI[OF _ 1])
      (auto simp: aa page_map_def numeral_3_eq_3 numeral_2_eq_2 Let_def)
qed

section \<open>Properties\<close>

text \<open>Mapping one page: whichever of the tables on the way had to be created.\<close>

lemma map_4kb_maps:
  assumes "space_ok T s" and "room (3 + n) (vm_pmm s)"
    and "page_aligned frame" and "flags AND frame_mask = 0" and "flags AND 1 \<noteq> 0"
  shows "\<exists>T'. space_ok T' (map_4kb_page virt frame flags s) \<and> room n (vm_pmm (map_4kb_page virt frame flags s)) \<and>
    (\<forall>w. translate_virtual_to_physical w (map_4kb_page virt frame flags s) =
       (if same_page virt w then frame OR (w AND 0xFFF) else translate_virtual_to_physical w s))"
proof -
  obtain pt s1 where e: "ensure 3 (pml4_base s) virt s = (pt, s1)" by fastforce
  have "pml4_base s \<in> T 3" using assms(1) by (simp add: space_ok_def)
  from ensure_path[OF assms(1,2) order.refl this e] obtain T1 where
    g: "grows T s T1 s1" and pt: "pt \<in> T1 0"
    and vis: "visits (vm_mem s1) 3 (pml4_base s) virt (slot pt (idx 0 virt))" and rm: "room n (vm_pmm s1)" by blast
  have ok1: "space_ok T1 s1" and base: "pml4_base s1 = pml4_base s" and old: "page_map s1 = page_map s"
    using g by (auto simp: grows_def pml4_base_def read_cr3_def)
  let ?s2 = "map_4kb_page virt frame flags s"
  have s2: "?s2 = set_entry (slot pt (idx 0 virt)) (frame OR flags) s1"
    using e by (simp add: map_4kb_ensure)
  have ok2: "space_ok T1 ?s2" unfolding s2 by (rule write_entry(1)[OF ok1 _ pt idx_less]) simp_all
  have bits: "(frame OR flags) AND 1 \<noteq> 0" "(frame OR flags) AND frame_mask = frame"
    using assms(5) page_aligned_low[OF assms(3,4)] by (simp_all add: and_one_eq mod_2_eq_odd bit_or_iff flip: bit_0)
  have same: "visits (vm_mem s1) 3 (pml4_base s1) w (slot pt (idx 0 virt)) \<longleftrightarrow> same_page virt w" for w
    using visits_iff_same[OF ok1 _ pt idx_less] vis by (simp add: base same_page_def)
  have "page_map ?s2 w = (if same_page virt w then Some frame else page_map s w)" for w
    unfolding s2 using write_entry(2)[OF ok1 _ pt idx_less, where e = "frame OR flags"] same bits old by simp
  then have "translate_virtual_to_physical w ?s2 =
      (if same_page virt w then frame OR (w AND 0xFFF) else translate_virtual_to_physical w s)" for w
    by (simp add: translate_page_map[OF ok2] translate_page_map[OF assms(1)])
  moreover have "room n (vm_pmm ?s2)" using rm by (simp add: s2 set_entry_def)
  ultimately show ?thesis using ok2 by blast
qed

text \<open>Unmapping one page: a page is small as long as bit 21 of its page-directory entry is clear.\<close>

definition small_page :: "u64 \<Rightarrow> vm \<Rightarrow> bool" where
  "small_page virt s \<longleftrightarrow> (case pd_entry virt s of None \<Rightarrow> True | Some a \<Rightarrow> load64 (vm_mem s) a AND PAGE_LARGE = 0)"

lemma unmap_unmaps:
  assumes "space_ok T s"
    and "small_page virt s"
  shows "space_ok T (unmap_page virt s) \<and>
    translate_virtual_to_physical w (unmap_page virt s) =
      (if same_page virt w then 0 else translate_virtual_to_physical w s)"
proof (cases "\<exists>a. pd_entry virt s = Some a \<and> is_present (vm_mem s) a")
  case True
  then obtain a where a: "pd_entry virt s = Some a" "is_present (vm_mem s) a" by blast
  from pd_entry_visits[OF assms(1) a(1)] a(2)
  have pt: "get_physical_address (vm_mem s) a \<in> T 0"
    and vis: "visits (vm_mem s) 3 (pml4_base s) virt (slot (get_physical_address (vm_mem s) a) (idx 0 virt))"
    by auto
  let ?s1 = "set_entry (slot (get_physical_address (vm_mem s) a) (idx 0 virt)) 0 s"
  have un: "unmap_page virt s = invlpg virt ?s1" using a assms(2) by (simp add: unmap_cases small_page_def)
  have ok1: "space_ok T ?s1" by (rule write_entry(1)[OF assms(1) _ pt idx_less]) simp_all
  have "page_map ?s1 w = (if same_page virt w then None else page_map s w)" for w
    using write_entry(2)[OF assms(1) _ pt idx_less[of 0 virt], where e = 0] visits_iff_same[OF assms(1) _ pt idx_less vis]
    by (auto simp: same_page_def)
  then show ?thesis
    using ok1 by (simp add: un invlpg_def translate_page_map[OF assms(1)] translate_page_map[of T] )
next
  case False
  then have un: "unmap_page virt s = s"
    using assms(2) by (auto simp: unmap_cases small_page_def split: option.splits)
  have "page_map s virt = None" using False by (auto simp: page_map_pd split: option.splits)
  then have "page_map s w = None" if "same_page virt w" for w using page_map_same[OF that] by simp
  then show ?thesis using assms(1) by (simp add: un translate_page_map[OF assms(1)])
qed

lemma unmap_keeps_pmm: "vm_pmm (unmap_page virt s) = vm_pmm s"
  by (simp add: unmap_cases set_entry_def invlpg_def vm_event_def split: option.splits)

definition legal_frame :: "u64 \<Rightarrow> u64 \<Rightarrow> bool" where
  "legal_frame frame flags \<longleftrightarrow> page_aligned frame \<and> flags AND frame_mask = 0 \<and> flags AND 1 \<noteq> 0"

definition usable_space :: "nat \<Rightarrow> vm \<Rightarrow> bool" where
  "usable_space n s \<longleftrightarrow> (\<exists>T. space_ok T s) \<and> room n (vm_pmm s)"

interpretation pages: address_space translate_virtual_to_physical map_4kb_page unmap_page same_page
  legal_frame small_page usable_space
proof
  fix n s f fl v w
  assume u: "usable_space (n + 3) s" and l: "legal_frame f fl"
  from u obtain T where T: "space_ok T s" "room (3 + n) (vm_pmm s)"
    by (auto simp: usable_space_def add.commute)
  from map_4kb_maps[OF T] l show "usable_space n (map_4kb_page v f fl s)"
    "translate_virtual_to_physical w (map_4kb_page v f fl s) =
      (if same_page v w then f OR (w AND 0xFFF) else translate_virtual_to_physical w s)"
    by (auto simp: usable_space_def legal_frame_def)
next
  fix n s v w
  assume u: "usable_space n s" and l: "small_page v s"
  from u obtain T where T: "space_ok T s" by (auto simp: usable_space_def)
  from unmap_unmaps[OF T l] u show "usable_space n (unmap_page v s)"
    "translate_virtual_to_physical w (unmap_page v s) =
      (if same_page v w then 0 else translate_virtual_to_physical w s)"
    by (auto simp: usable_space_def unmap_keeps_pmm)
next
  fix m n s assume "usable_space m s" and "n \<le> m"
  then show "usable_space n s"
    unfolding usable_space_def room_def by (meson le_trans mult_le_mono1)
qed

text \<open>C2: The page tables refine a map from pages to frames. In a well-formed address space whose free
  memory is page aligned and zero, with room for three tables per call, after any sequence of
  \<open>map_4kb_page\<close> and \<open>unmap_page\<close> calls every address translates to the frame its page was last
  mapped to, to nothing if it was last unmapped, and as before if no call named its page; the address
  space stays well formed. (A page is only unmapped while bit 21 of its page-directory entry is clear.)\<close>

theorem address_space_refines:
  assumes "space_ok T s" and "room (3 * length ops) (vm_pmm s)"
    and "legal_run map_4kb_page unmap_page legal_frame small_page ops s"
  shows "(\<exists>T'. space_ok T' (run_page_ops map_4kb_page unmap_page ops s)) \<and>
    translate_virtual_to_physical w (run_page_ops map_4kb_page unmap_page ops s) =
      latest same_page w ops (translate_virtual_to_physical w s)"
proof -
  have "usable_space (3 * length ops) s" using assms(1,2) by (auto simp: usable_space_def)
  from pages.run_latest[OF this assms(3)] show ?thesis by (simp add: usable_space_def)
qed

text \<open>Unmapping one page can unmap 512. \<open>unmap_page\<close> tests bit 21 of the page-directory entry for a
  2 MiB page; in an entry that leads to a page table this is a bit of the table's address. When it
  is set, the call removes the whole table: every page of the same 2 MiB region stops translating.\<close>

theorem unmap_drops_region:
  assumes "space_ok T s" and "pd_entry virt s = Some a" and "load64 (vm_mem s) a AND PAGE_LARGE \<noteq> 0"
  shows "translate_virtual_to_physical w (unmap_page virt s) =
    (if idx 1 virt = idx 1 w \<and> idx 2 virt = idx 2 w \<and> idx 3 virt = idx 3 w then 0
     else translate_virtual_to_physical w s)"
proof -
  obtain t where t: "t \<in> T 1" "a = slot t (idx 1 virt)" "visits (vm_mem s) 3 (pml4_base s) virt a"
    using pd_entry_visits[OF assms(1,2)] by blast
  have un: "unmap_page virt s = set_entry (slot t (idx 1 virt)) 0 s" using assms(2,3) t(2) by (simp add: unmap_cases)
  have le3: "(\<forall>l. 1 \<le> l \<longrightarrow> l \<le> 3 \<longrightarrow> P l) \<longleftrightarrow> P 1 \<and> P 2 \<and> P (3::nat)" for P
    by (auto simp: le_Suc_eq numeral_3_eq_3 numeral_2_eq_2)
  note vis = visits_iff_same[OF assms(1) _ t(1) idx_less t(3)[unfolded t(2)], unfolded le3]
  have ok1: "space_ok T (unmap_page virt s)"
    unfolding un by (rule write_entry(1)[OF assms(1) _ t(1) idx_less]) simp_all
  have "page_map (unmap_page virt s) w =
      (if idx 1 virt = idx 1 w \<and> idx 2 virt = idx 2 w \<and> idx 3 virt = idx 3 w then None else page_map s w)"
    unfolding un using write_entry(2)[OF assms(1) _ t(1) idx_less[of 1 virt], where e = 0] vis by auto
  then show ?thesis by (simp add: translate_page_map[OF ok1] translate_page_map[OF assms(1)])
qed

text \<open>\<open>map_2mb_page\<close> does not make a 2 MiB page. It sets bit 21 instead of the page-size bit 7, so a
  later translation takes the frame for a page table: the result is read from the mapped memory
  itself.\<close>

theorem map_2mb_not_large:
  assumes "space_ok T s" and "pd_entry virt s = Some a"
    and "page_aligned frame" and "flags AND 0x81 = 1"
  shows "translate_virtual_to_physical virt (map_2mb_page virt frame flags s) =
    (let m = vm_mem (map_2mb_page virt frame flags s);
         e = slot ((frame OR flags OR PAGE_LARGE) AND frame_mask) (pt_index virt)
     in if is_present m e then get_physical_address m e OR (virt AND 0xFFF) else 0)"
proof -
  let ?m = "vm_mem s" and ?e3 = "slot (pml4_base s) (idx 3 virt)"
  let ?e2 = "slot (get_physical_address ?m ?e3) (idx 2 virt)"
  let ?v = "frame OR flags OR PAGE_LARGE"
  have ap: "tables_apart T (vm_pmm s)" and en: "entries_ok T ?m" and top: "pml4_base s \<in> T 3"
    using assms(1) by (simp_all add: space_ok_def)
  have pr: "is_present ?m ?e3" "is_present ?m ?e2" and a: "a = slot (get_physical_address ?m ?e2) (idx 1 virt)"
    using assms(2) by (auto simp: pd_entry_def Let_def split: if_splits)
  have 2: "get_physical_address ?m ?e3 \<in> T 2"
    using entries_okD(1)[OF en, of 2 "pml4_base s" virt] top pr(1) by (simp add: numeral_3_eq_3)
  have 1: "get_physical_address ?m ?e2 \<in> T 1" "load64 ?m ?e2 AND 0x80 = 0"
    using entries_okD[OF en, of 1 "get_physical_address ?m ?e3" virt] 2 pr(2) by (simp_all add: numeral_2_eq_2)
  have s2: "map_2mb_page virt frame flags s = set_entry a ?v s"
    using pr by (simp add: map_2mb_page_def create_or_get_table_def idx_levels a)
  let ?m2 = "store64 ?m a ?v"
  have a1: "page_aligned (get_physical_address ?m ?e2)" and a2: "page_aligned (get_physical_address ?m ?e3)"
    and a3: "page_aligned (pml4_base s)"
    using tables_aligned[OF ap _ top] by (simp_all add: get_physical_address_mask)
  have "get_physical_address ?m ?e2 \<noteq> get_physical_address ?m ?e3" "get_physical_address ?m ?e2 \<noteq> pml4_base s"
    using tables_level[OF ap, of 1 2] tables_level[OF ap, of 1 3] top 1(1) 2 by auto
  then have ld: "load64 ?m2 ?e3 = load64 ?m ?e3" "load64 ?m2 ?e2 = load64 ?m ?e2" "load64 ?m2 a = ?v"
    using load_slot[OF a1 a3 idx_less idx_less, of ?m 1 virt ?v 3 virt]
      load_slot[OF a1 a2 idx_less idx_less, of ?m 1 virt ?v 2 virt]
    by (auto simp: a load64_store64_same)
  have fl: "flags AND 1 = 1" "flags AND 0x80 = 0"
  proof -
    have "flags AND 1 = (flags AND 0x81) AND 1" "flags AND 0x80 = (flags AND 0x81) AND 0x80"
      by (simp_all add: and.assoc)
    then show "flags AND 1 = 1" "flags AND 0x80 = 0" by (simp_all add: assms(4))
  qed
  have "frame AND 0x80 = (frame AND frame_mask) AND 0x80" using assms(3) by (simp only: page_aligned_def)
  then have fr: "frame AND 0x80 = 0" by (simp add: and.assoc frame_mask_def)
  have v: "?v AND 1 \<noteq> 0" "?v AND 0x80 = 0"
    using fl fr by (simp_all add: bit.conj_disj_distrib2 PAGE_LARGE_def)
      (simp add: and_one_eq mod_2_eq_odd bit_or_iff flip: bit_0)?
  show ?thesis
    using pr ld v 1(2)
    by (simp add: s2 translate_virtual_to_physical_def set_entry_def idx_levels Let_def
        is_present_def get_physical_address_mask pml4_base_def read_cr3_def a)
qed

text \<open>A page table on an unaligned block lies partly outside it. \<open>create_or_get_table\<close> stores the
  address the block allocator returns, and every later use masks its low twelve bits: the table then
  starts before the allocated block.\<close>

theorem create_table_unaligned:
  assumes "\<not> is_present (vm_mem s) parent" and "allocate_memory PAGE_SIZE (vm_pmm s) = (a, p)"
    and "a \<noteq> 0" and "unat a < 2 ^ 52" and "\<not> page_aligned a"
  shows "unat (fst (create_or_get_table parent s)) < unat a \<and>
    \<not> page_bytes (fst (create_or_get_table parent s)) \<subseteq> byte_range a PAGE_SIZE"
proof -
  let ?t = "fst (create_or_get_table parent s)"
  have t: "?t = (a OR PAGE_PRESENT OR PAGE_WRITABLE) AND frame_mask"
    using assms(1-3) by (simp add: create_or_get_table_def set_entry_def get_physical_address_mask load64_store64_same)
  have "?t = a AND frame_mask"
    unfolding t by (simp add: bit.conj_disj_distrib2 PAGE_PRESENT_def PAGE_WRITABLE_def frame_mask_def)
  then have "?t \<noteq> a" "?t \<le> a" using assms(5) by (auto simp: page_aligned_def word_and_le2)
  then have lt: "unat ?t < unat a" by (simp add: word_le_nat_alt le_neq_implies_less word_unat_eq_iff)
  moreover have "unat ?t \<in> page_bytes ?t" by (simp add: page_bytes_def)
  ultimately show ?thesis by (auto simp: byte_range_def)
qed

section \<open>A sample address space\<close>

text \<open>Four tables, one page mapped: address 0 to the frame at \<open>0x5000\<close>; the free memory follows.\<close>

definition sample_entries :: memory where
  "sample_entries = store64 (store64 (store64 (store64 (\<lambda>_. 0)
     (slot 0x201000 0) 0x202003) (slot 0x202000 0) 0x203003) (slot 0x203000 0) 0x204003) (slot 0x204000 0) 0x5003"

definition sample_tables :: tables where
  "sample_tables k = {of_nat (0x204000 - 0x1000 * k)}"

definition sample_vm :: vm where
  "sample_vm = \<lparr>vm_pmm = pmm_bss\<lparr>free_blocks := 1, free_memory_blocks := (\<lambda>_. zero_block)
       (0 := \<lparr>mb_address = 0x300000, mb_size = 0x40000, mb_next_block = 0\<rparr>)\<rparr>,
     vm_mem = sample_entries, vm_cr3 = 0x201000,
     vm_io = \<lparr>answer = (\<lambda>_. 0), asked = 0, trace = []\<rparr>, vm_bootboot_paging = 0\<rparr>"

lemma sample_load:
  assumes "page_aligned t" "unat i < 512"
  shows "load64 sample_entries (slot t i) =
    (if i \<noteq> 0 then 0 else if t = 0x204000 then 0x5003 else if t = 0x203000 then 0x204003
     else if t = 0x202000 then 0x203003 else if t = 0x201000 then 0x202003 else 0)"
proof -
  have al: "page_aligned 0x201000" "page_aligned 0x202000" "page_aligned 0x203000" "page_aligned 0x204000"
    by (simp_all add: page_aligned_def frame_mask_def)
  have z: "load64 (\<lambda>_. 0) (slot t i) = 0" using assms by (intro load_zero_page) auto
  have z0: "unat (0 :: u64) < 512" by simp
  show ?thesis
    unfolding sample_entries_def
    by (simp only: load_slot[OF al(1) assms(1) z0 assms(2)] load_slot[OF al(2) assms(1) z0 assms(2)]
        load_slot[OF al(3) assms(1) z0 assms(2)] load_slot[OF al(4) assms(1) z0 assms(2)] z) auto
qed

lemma sample_tables_simps:
  "sample_tables 0 = {0x204000}" "sample_tables 1 = {0x203000}" "sample_tables (Suc 0) = {0x203000}"
  "sample_tables 2 = {0x202000}" "sample_tables (Suc (Suc 0)) = {0x202000}" "sample_tables 3 = {0x201000}"
  by (simp_all add: sample_tables_def)

lemma less_3_cases: "(k::nat) < 3 \<longleftrightarrow> k = 0 \<or> k = 1 \<or> k = 2" and le_3_cases: "(k::nat) \<le> 3 \<longleftrightarrow> k = 0 \<or> k = 1 \<or> k = 2 \<or> k = 3"
  by auto

lemma sample_free_bytes: "free_bytes (vm_pmm sample_vm) = {0x300000 ..< 0x340000}"
  "free_extents (vm_pmm sample_vm) = [(0x300000, 0x40000)]"
  by (simp_all add: free_bytes_def free_extents_def sample_vm_def byte_range_def)

lemma sample_aligned: "k \<le> 3 \<Longrightarrow> t \<in> sample_tables k \<Longrightarrow> page_aligned t"
  by (auto simp: le_3_cases sample_tables_simps page_aligned_def frame_mask_def)

lemma sample_zero: "unat x \<in> {0x300000 ..< 0x340000} \<Longrightarrow> sample_entries x = 0"
  unfolding sample_entries_def
  by (simp add: store_slot_byte page_aligned_def frame_mask_def page_bytes_def)

lemma sample_loads:
  assumes "unat i < 512"
  shows "load64 sample_entries (slot 0x201000 i) = (if i = 0 then 0x202003 else 0)"
    and "load64 sample_entries (slot 0x202000 i) = (if i = 0 then 0x203003 else 0)"
    and "load64 sample_entries (slot 0x203000 i) = (if i = 0 then 0x204003 else 0)"
    and "load64 sample_entries (slot 0x204000 i) = (if i = 0 then 0x5003 else 0)"
  using assms by (simp_all add: sample_load page_aligned_def frame_mask_def)

lemma sample_space_ok: "space_ok sample_tables sample_vm"
proof -
  have mem: "vm_mem sample_vm = sample_entries" by (simp add: sample_vm_def)
  have "pml4_base sample_vm \<in> sample_tables 3"
    by (simp add: sample_tables_simps pml4_base_def read_cr3_def sample_vm_def)
  moreover have "tables_apart sample_tables (vm_pmm sample_vm)"
    unfolding tables_apart_def sample_free_bytes
    using sample_aligned by (auto simp: le_3_cases sample_tables_simps page_bytes_def)
  moreover have "entries_ok sample_tables sample_entries"
    unfolding entries_ok_def is_present_def get_physical_address_mask
    by (auto simp: less_3_cases sample_tables_simps sample_loads frame_mask_def split: if_splits)
  moreover have "parents_unique sample_tables sample_entries"
    unfolding parents_unique_def is_present_def get_physical_address_mask
    by (auto simp: less_3_cases sample_tables_simps sample_loads frame_mask_def split: if_splits)
  moreover have "free_pages_ok (vm_pmm sample_vm) sample_entries"
    unfolding free_pages_ok_def sample_free_bytes pmm_wf_def
    using sample_zero by (simp add: extents_wf_def extent_ok_def)
  ultimately show ?thesis by (simp add: space_ok_def mem)
qed

lemma sample_pd_entry: "pd_entry 0 sample_vm = Some 0x203000"
proof -
  have al: "page_aligned 0x201000" "page_aligned 0x202000"
    by (simp_all add: page_aligned_def frame_mask_def)
  show ?thesis
    by (simp add: pd_entry_def Let_def idx_def pml4_base_def read_cr3_def sample_vm_def is_present_def
        get_physical_address_mask frame_mask_def sample_load[OF al(1)] sample_load[OF al(2)])
      (simp add: slot_def)
qed

lemma sample_small: "small_page 0x200000 sample_vm"
proof -
  have "pd_entry 0x200000 sample_vm = Some (slot 0x203000 1)"
    by (simp add: pd_entry_def Let_def idx_def pml4_base_def read_cr3_def sample_vm_def is_present_def
        get_physical_address_mask frame_mask_def sample_loads)
  moreover have "load64 (vm_mem sample_vm) (slot 0x203000 1) = 0"
    using sample_loads(3)[of 1] by (simp add: sample_vm_def)
  ultimately show ?thesis by (simp add: small_page_def)
qed

theorem address_space_refines_witness:
  "translate_virtual_to_physical 0x8000001234
     (map_4kb_page 0x8000001000 0x9000 3 (map_4kb_page 0x8000001000 0x7000 3 (unmap_page 0x200000 sample_vm))) = 0x9234"
proof -
  let ?ops = "[Unmap_Page 0x200000, Map_Page 0x8000001000 0x7000 3, Map_Page 0x8000001000 0x9000 3]"
  have room: "room (3 * length ?ops) (vm_pmm sample_vm)" by (simp add: room_def sample_free_bytes)
  have same: "same_page 0x8000001000 0x8000001234" by (simp add: same_page_def idx_def le_3_cases)
  have "legal_run map_4kb_page unmap_page legal_frame small_page ?ops sample_vm"
    by (simp add: sample_small legal_frame_def page_aligned_def frame_mask_def)
  from address_space_refines[OF sample_space_ok room this, of "0x8000001234"] same show ?thesis by simp
qed

theorem unmap_drops_region_witness: "translate_virtual_to_physical 0x5123 (unmap_page 0 sample_vm) = 0"
proof -
  have "load64 (vm_mem sample_vm) 0x203000 AND PAGE_LARGE \<noteq> 0"
    using sample_loads(3)[of 0] by (simp add: sample_vm_def slot_def PAGE_LARGE_def)
  from unmap_drops_region[OF sample_space_ok sample_pd_entry this, of "0x5123"] show ?thesis
    by (simp add: idx_def)
qed

theorem map_2mb_not_large_witness:
  "translate_virtual_to_physical 0 (map_2mb_page 0 0x400000 3 sample_vm) =
    (let m = vm_mem (map_2mb_page 0 0x400000 3 sample_vm); e = slot 0x600000 0
     in if is_present m e then get_physical_address m e else 0)"
proof -
  have "page_aligned 0x400000" by (simp add: page_aligned_def frame_mask_def)
  from map_2mb_not_large[OF sample_space_ok sample_pd_entry this, of 3] show ?thesis
    by (simp add: PAGE_LARGE_def frame_mask_def pt_index_def Let_def)
qed

theorem create_table_unaligned_witness:
  "fst (create_or_get_table 0x204008 (sample_vm\<lparr>vm_pmm := pmm_bss\<lparr>free_blocks := 1, free_memory_blocks := (\<lambda>_. zero_block)
     (0 := \<lparr>mb_address = 0x100801, mb_size = 0x10000, mb_next_block = 0\<rparr>)\<rparr>\<rparr>)) < 0x100801"
proof -
  let ?p = "pmm_bss\<lparr>free_blocks := 1, free_memory_blocks := (\<lambda>_. zero_block)
     (0 := \<lparr>mb_address = 0x100801, mb_size = 0x10000, mb_next_block = 0\<rparr>)\<rparr>"
  have es: "free_extents ?p = [(0x100801, 0x10000)]" by (simp add: free_extents_def)
  have "fst (allocate_memory PAGE_SIZE ?p) = 0x100801"
    by (rule allocate_first(1)[OF es]) (simp add: PAGE_SIZE_def)
  then obtain p where p: "allocate_memory PAGE_SIZE ?p = (0x100801, p)" by (metis prod.collapse)
  have "\<not> is_present sample_entries 0x204008"
    using sample_loads(4)[of 1] by (simp add: is_present_def slot_def)
  then show ?thesis
    using create_table_unaligned[of "sample_vm\<lparr>vm_pmm := ?p\<rparr>" "0x204008" "0x100801" p] p
    by (simp add: sample_vm_def page_aligned_def frame_mask_def word_less_nat_alt)
qed

end
