(* ===== verification/Paging_Clone.thy ===== *)
theory Paging_Clone
  imports Paging_Map
begin

text \<open>
  Cloning an address space: \<open>clone_higher_half\<close> and \<open>new_paging\<close> of \<^verbatim>\<open>memory/paging.c\<close>. The walk of the
  code through a tree of tables, large pages included, is \<open>resolve\<close>; a tree that can be cloned is
  \<open>tree_ok\<close>, the number of its tables \<open>table_count\<close>. Each level of the clone copies a table and puts
  the copies of the tables below into the copy; what a finished copy resolves depends only on
  the memory taken for it (\<open>copy_of\<close>), so that later copies cannot disturb it.
\<close>

section \<open>The walk and the trees it walks\<close>

text \<open>\<open>resolve m k t v\<close>: from table \<open>t\<close> of level \<open>k\<close> to the entry that ends the walk of \<open>v\<close>, with its level.\<close>

fun resolve :: "memory \<Rightarrow> nat \<Rightarrow> u64 \<Rightarrow> u64 \<Rightarrow> (nat \<times> u64) option" where
  "resolve m 0 t v = (let e = load64 m (slot t (idx 0 v)) in if e AND 1 = 0 then None else Some (0, e))"
| "resolve m (Suc k) t v =
     (let e = load64 m (slot t (idx (Suc k) v))
      in if e AND 1 = 0 then None
         else if Suc k < 3 \<and> e AND 0x80 \<noteq> 0 then Some (Suc k, e)
         else resolve m k (e AND frame_mask) v)"

text \<open>The bits of the address that lie inside a page that ends the walk at a level.\<close>

fun offset_mask :: "nat \<Rightarrow> u64" where
  "offset_mask k = (if k = 0 then 0xFFF else if k = 1 then 0x1FFFFF else 0x3FFFFFFF)"

lemma translate_resolve:
  "translate_virtual_to_physical v s =
     (case resolve (vm_mem s) 3 (pml4_base s) v of None \<Rightarrow> 0
      | Some (k, e) \<Rightarrow> (e AND frame_mask AND NOT (offset_mask k)) OR (v AND offset_mask k))"
proof -
  have low: "x AND frame_mask AND NOT 0xFFF = x AND frame_mask" for x :: u64
    by (simp add: frame_mask_def and.assoc)
  show ?thesis
    by (simp add: translate_virtual_to_physical_def idx_levels is_present_def get_physical_address_mask Let_def
        numeral_3_eq_3 numeral_2_eq_2 low and.assoc)
      (simp add: frame_mask_def)
qed

fun tree_ok :: "memory \<Rightarrow> nat set \<Rightarrow> nat \<Rightarrow> u64 \<Rightarrow> bool" where
  "tree_ok m F 0 t \<longleftrightarrow> page_aligned t \<and> page_bytes t \<inter> F = {}"
| "tree_ok m F (Suc k) t \<longleftrightarrow> page_aligned t \<and> page_bytes t \<inter> F = {} \<and>
     (\<forall>i<512. let e = load64 m (slot t (of_nat i)) in e AND 1 \<noteq> 0 \<longrightarrow>
        (k = 0 \<and> e AND 0x80 \<noteq> 0) \<or>
        (e AND 0x80 = 0 \<and> e AND NOT 0xFFF = e AND frame_mask \<and> tree_ok m F k (e AND frame_mask)))"

definition descends :: "nat \<Rightarrow> u64 \<Rightarrow> bool" where
  "descends k e \<longleftrightarrow> e AND 1 \<noteq> 0 \<and> \<not> (k = 0 \<and> e AND 0x80 \<noteq> 0)"

fun table_count :: "memory \<Rightarrow> nat \<Rightarrow> u64 \<Rightarrow> nat" where
  "table_count m 0 t = 1"
| "table_count m (Suc k) t =
     Suc (\<Sum>i\<leftarrow>[0..<512]. let e = load64 m (slot t (of_nat i)) in if descends k e then table_count m k (e AND frame_mask) else 0)"

lemma tree_ok_page: "tree_ok m F k t \<Longrightarrow> page_aligned t \<and> page_bytes t \<inter> F = {}"
  by (cases k) auto

section \<open>Taking an aligned page\<close>

text \<open>Room for \<open>n\<close> aligned pages: each is cut from a request for 8199 bytes.\<close>

definition aligned_room :: "nat \<Rightarrow> pmm \<Rightarrow> bool" where
  "aligned_room n p \<longleftrightarrow> (\<exists>e\<in>set (free_extents p). n * 8199 \<le> unat (snd e))"

lemma aligned_room_alloc:
  assumes wf: "pmm_wf p" and r: "aligned_room (Suc n) p" and call: "allocate_memory 8199 p = (t, p')"
  shows "t \<noteq> 0" and "aligned_room n p'"
proof -
  from call have "t \<noteq> 0 \<and> aligned_room n p'"
  proof (cases rule: allocate_memory_cases)
    case fail
    obtain e where "e \<in> set (free_extents p)" "Suc n * 8199 \<le> unat (snd e)" using r by (auto simp: aligned_room_def)
    moreover have "snd e < 8199" using fail(3) calculation(1) by blast
    ultimately show ?thesis by (simp add: word_less_nat_alt)
  next
    case (take i)
    let ?e = "free_extents p ! i"
    have e: "extent_ok ?e" using take(1) wf by (simp add: pmm_wf_def extents_wf_nth)
    note facts = take_front_facts[OF e take(2)]
    obtain j where j: "j < unat (free_blocks p)" "Suc n * 8199 \<le> unat (snd (free_extents p ! j))"
      using r by (auto simp: aligned_room_def in_set_conv_nth)
    have "n * 8199 \<le> unat (snd (free_extents p' ! j))"
      using j take(1,5) facts(2) by (cases "j = i") simp_all
    moreover have "free_extents p' ! j \<in> set (free_extents p')" using j(1) take(4) by simp
    ultimately show ?thesis using e take(3) by (auto simp: aligned_room_def extent_ok_def)
  qed
  then show "t \<noteq> 0" "aligned_room n p'" by simp_all
qed

text \<open>Pages lie below \<open>2 ^ 52\<close>, the end of the physical addresses an entry can hold.\<close>

definition heap_ok :: "pmm \<Rightarrow> bool" where
  "heap_ok p \<longleftrightarrow> pmm_wf p \<and> free_bytes p \<subseteq> {..<2 ^ 52}"

lemma take_aligned_page:
  assumes ok: "heap_ok (vm_pmm s)" and r: "aligned_room (Suc n) (vm_pmm s)"
    and call: "vm_aligned_alloc PAGE_SIZE PAGE_SIZE s = (t, s')"
  shows "t \<noteq> 0" and "page_aligned t" and "page_bytes t \<subseteq> free_bytes (vm_pmm s)"
    and "page_bytes t \<inter> free_bytes (vm_pmm s') = {}" and "free_bytes (vm_pmm s') \<subseteq> free_bytes (vm_pmm s)"
    and "heap_ok (vm_pmm s')" and "aligned_room n (vm_pmm s')"
    and "unat x \<notin> free_bytes (vm_pmm s) \<Longrightarrow> vm_mem s' x = vm_mem s x"
    and "\<exists>p m. s' = s\<lparr>vm_pmm := p, vm_mem := m\<rparr>"
proof -
  have wf: "pmm_wf (vm_pmm s)" using ok by (simp add: heap_ok_def)
  obtain o1 p where o: "allocate_memory 8199 (vm_pmm s) = (o1, p)" by fastforce
  note al = aligned_room_alloc[OF wf r o]
  have size: "PAGE_SIZE + max 8 PAGE_SIZE - 1 + 8 = 8199" by (simp add: PAGE_SIZE_def max_def)
  let ?t = "(o1 + PAGE_SIZE - 1 + 8) AND NOT (PAGE_SIZE - 1)"
  have res: "t = ?t" "s' = s\<lparr>vm_pmm := p, vm_mem := store64 (vm_mem s) (?t - 8) o1\<rparr>"
    using call o al(1) by (auto simp: vm_aligned_alloc_def aligned_alloc_def PAGE_SIZE_def Let_def)
  have "unat o1 + 8 \<le> unat ?t"
    by (rule aligned_place(1)[where sz = PAGE_SIZE])
      (use allocate_memory_bound[OF wf o al(1)] in \<open>simp_all add: PAGE_SIZE_def\<close>)
  then have t8: "8 \<le> unat t" using res(1) by simp
  then show nz: "t \<noteq> 0" using res(1) by auto
  have "aligned_alloc PAGE_SIZE PAGE_SIZE (vm_pmm s, vm_mem s) = (t, p, store64 (vm_mem s) (t - 8) o1)"
    using o al(1) by (simp add: aligned_alloc_def PAGE_SIZE_def res(1) Let_def)
  note facts = aligned_alloc_correct_facts[OF wf _ this nz]
  have pg: "byte_range t PAGE_SIZE = page_bytes t" by (simp add: byte_range_def page_bytes_def PAGE_SIZE_def)
  have lim: "unat PAGE_SIZE + unat (max 8 PAGE_SIZE) + 7 < 2 ^ 64" by (simp add: PAGE_SIZE_def max_def)
  note facts = facts[OF lim, unfolded pg]
  show sub: "page_bytes t \<subseteq> free_bytes (vm_pmm s)" using facts(3) by simp
  show "page_bytes t \<inter> free_bytes (vm_pmm s') = {}" using facts(4) by (auto simp: res(2))
  show mono: "free_bytes (vm_pmm s') \<subseteq> free_bytes (vm_pmm s)"
    using pmm_alloc.alloc_free_mono[OF wf o] by (simp add: res(2))
  show "heap_ok (vm_pmm s')" using facts(2) mono ok by (auto simp: heap_ok_def res(2))
  show "aligned_room n (vm_pmm s')" using al(2) by (simp add: res(2))
  have "unat t \<in> page_bytes t" by (simp add: page_bytes_def)
  then have "unat t < 2 ^ 52" using sub ok by (auto simp: heap_ok_def)
  moreover have "take_bit 12 t = 0" using facts(1) by (simp add: PAGE_SIZE_def max_def take_bit_eq_mask mask_eq_exp_minus_1)
  then have "unat t mod 4096 = 0" by (simp add: word_unat_eq_iff take_bit_eq_mod unat_mod_distrib)
  ultimately show "page_aligned t" by (simp add: page_aligned_iff)
  show "\<exists>p m. s' = s\<lparr>vm_pmm := p, vm_mem := m\<rparr>" using res(2) by blast
  assume x: "unat x \<notin> free_bytes (vm_pmm s)"
  have "byte_range (t - 8) 8 \<subseteq> free_bytes (vm_pmm s)" using facts(3) by simp
  moreover have "unat (x - (t - 8)) < 8 \<Longrightarrow> unat x \<in> byte_range (t - 8) 8"
  proof -
    assume k: "unat (x - (t - 8)) < 8"
    have "unat (t - 8) + 8 \<le> 2 ^ 64" using t8 unat64_less[of t] by (simp add: unat_sub word_le_nat_alt)
    moreover have "unat (a + b) = unat a + unat b" if "unat a + 8 \<le> 2 ^ 64" "unat b < 8" for a b :: u64
      using that by (simp add: unat_word_ariths)
    ultimately have "unat ((t - 8) + (x - (t - 8))) = unat (t - 8) + unat (x - (t - 8))" using k by blast
    with k show ?thesis by (simp add: byte_range_def)
  qed
  ultimately have "\<not> unat (x - (t - 8)) < 8" using x by blast
  then show "vm_mem s' x = vm_mem s x" by (simp add: res store64_def write_bytes_at)
qed

section \<open>Entries of a page\<close>

lemma slot_byte:
  assumes "page_aligned t" and "unat i < 512" and "j < 8"
  shows "unat (slot t i + of_nat j) = unat t + 8 * unat i + j"
proof -
  have t: "unat t < 2 ^ 52" using assms(1) by (simp add: page_aligned_iff)
  have "slot t i + of_nat j = of_nat (unat t + 8 * unat i + j)" by (simp add: slot_def mult.commute)
  then show ?thesis using t assms unat_of_nat_less[of "unat t + 8 * unat i + j"] by simp
qed

lemma load_page_agree:
  assumes "page_aligned t" and "unat i < 512" and "\<And>x. unat x \<in> page_bytes t \<Longrightarrow> m' x = m x"
  shows "load64 m' (slot t i) = load64 m (slot t i)"
proof -
  have "m' (slot t i + of_nat j) = m (slot t i + of_nat j)" if "j < 8" for j
    by (rule assms(3)) (use that assms(2) in \<open>simp add: slot_byte[OF assms(1,2)] page_bytes_def\<close>)
  then have "read_bytes m' (slot t i) 8 = read_bytes m (slot t i) 8" by (intro nth_equalityI) auto
  then show ?thesis by (simp add: load64_def)
qed

lemma outside_page:
  assumes "page_aligned t" and "unat x \<notin> page_bytes t"
  shows "\<not> unat (x - t) < 4096"
proof
  assume k: "unat (x - t) < 4096"
  have t: "unat t < 2 ^ 52" using assms(1) by (simp add: page_aligned_iff)
  have "unat (t + (x - t)) = unat t + unat (x - t)"
    using t k by (simp only: unat_word_ariths(1)) simp
  with k assms(2) show False by (simp add: page_bytes_def)
qed

lemma copy_page:
  assumes al: "page_aligned new" "page_aligned t" and dis: "page_bytes new \<inter> page_bytes t = {}"
  shows "unat i < 512 \<Longrightarrow> load64 (memcpy new t PAGE_SIZE m) (slot new i) = load64 m (slot t i)"
    and "unat x \<notin> page_bytes new \<Longrightarrow> memcpy new t PAGE_SIZE m x = m x"
proof -
  have lim: "unat new + 4096 \<le> 2 ^ 64" "unat t + 4096 \<le> 2 ^ 64" using al by (simp_all add: page_aligned_iff)
  have "unat new + 4096 \<le> unat t \<or> unat t + 4096 \<le> unat new"
    using dis by (auto simp: page_bytes_def disjoint_iff not_le)
  then have "apart new 4096 t 4096"
    using lim apart_linear[of new 4096 t 4096] apart_linear[of t 4096 new 4096] by (auto simp: apart_sym)
  then have cp: "memcpy new t PAGE_SIZE m = copied new t 4096 m"
    using memcpy_copied[of new PAGE_SIZE t m] by (simp add: PAGE_SIZE_def)
  show "unat i < 512 \<Longrightarrow> load64 (memcpy new t PAGE_SIZE m) (slot new i) = load64 m (slot t i)"
  proof -
    assume i: "unat i < 512"
    have "copied new t 4096 m (slot new i + of_nat j) = m (slot t i + of_nat j)" if j: "j < 8" for j
    proof -
      have "unat (i * 8 + of_nat j) = 8 * unat i + j" using i j unat_of_nat_less[of j] by (simp add: unat_word_ariths)
      then show ?thesis using i j by (simp add: copied_def slot_def add.assoc)
    qed
    then have "read_bytes (copied new t 4096 m) (slot new i) 8 = read_bytes m (slot t i) 8"
      by (intro nth_equalityI) auto
    then show ?thesis by (simp add: cp load64_def)
  qed
  show "unat x \<notin> page_bytes new \<Longrightarrow> memcpy new t PAGE_SIZE m x = m x"
    using outside_page[OF al(1)] by (simp add: cp copied_def)
qed

section \<open>Copies\<close>

definition agrees :: "nat set \<Rightarrow> memory \<Rightarrow> memory \<Rightarrow> bool" where
  "agrees R m' m \<longleftrightarrow> (\<forall>x. unat x \<in> R \<longrightarrow> m' x = m x)"

definition copy_of :: "memory \<Rightarrow> nat \<Rightarrow> u64 \<Rightarrow> memory \<Rightarrow> u64 \<Rightarrow> nat set \<Rightarrow> bool" where
  "copy_of m0 k t m new R \<longleftrightarrow> (\<forall>m'. agrees R m' m \<longrightarrow> (\<forall>v. resolve m' k new v = resolve m0 k t v))"

lemma agrees_trans: "agrees R m2 m1 \<Longrightarrow> agrees R m1 m \<Longrightarrow> agrees R m2 m"
  by (simp add: agrees_def)

lemma agrees_mono: "agrees R m' m \<Longrightarrow> Q \<subseteq> R \<Longrightarrow> agrees Q m' m"
  by (auto simp: agrees_def)

lemma copy_of_later: "copy_of m0 k t m new R \<Longrightarrow> agrees R m' m \<Longrightarrow> R \<subseteq> R' \<Longrightarrow> copy_of m0 k t m' new R'"
  unfolding copy_of_def by (meson agrees_mono agrees_trans)

definition entry_copied :: "memory \<Rightarrow> nat \<Rightarrow> u64 \<Rightarrow> memory \<Rightarrow> u64 \<Rightarrow> nat set \<Rightarrow> bool" where
  "entry_copied m0 k e m e' R \<longleftrightarrow>
     (if descends k e then e' AND 1 \<noteq> 0 \<and> e' AND 0x80 = 0 \<and> copy_of m0 k (e AND frame_mask) m (e' AND frame_mask) R
      else e' = e)"

lemma entry_copied_later: "entry_copied m0 k e m e' R \<Longrightarrow> agrees R m' m \<Longrightarrow> R \<subseteq> R' \<Longrightarrow> entry_copied m0 k e m' e' R'"
  by (auto simp: entry_copied_def intro: copy_of_later)

text \<open>A table whose entries are all copied is a copy.\<close>

lemma entries_copied_table:
  assumes al: "page_aligned new" and ok: "tree_ok m0 F (Suc k) t" and k: "k < 3"
    and es: "\<And>i. i < 512 \<Longrightarrow> entry_copied m0 k (load64 m0 (slot t (of_nat i))) m (load64 m (slot new (of_nat i))) R"
  shows "copy_of m0 (Suc k) t m new (page_bytes new \<union> R)"
  unfolding copy_of_def
proof (intro allI impI)
  fix m' v assume ag: "agrees (page_bytes new \<union> R) m' m"
  let ?i = "idx (Suc k) v"
  let ?e = "load64 m0 (slot t ?i)" and ?e' = "load64 m (slot new ?i)"
  have same: "load64 m' (slot new ?i) = ?e'"
    using ag by (intro load_page_agree[OF al idx_less]) (simp add: agrees_def)
  have c: "entry_copied m0 k ?e m ?e' R" using es[of "unat ?i"] idx_less by simp
  show "resolve m' (Suc k) new v = resolve m0 (Suc k) t v"
  proof (cases "descends k ?e")
    case True
    then have "?e AND 1 \<noteq> 0" "?e AND 0x80 = 0"
      using ok idx_less[of "Suc k" v] by (auto simp: descends_def Let_def dest!: spec[of _ "unat ?i"])
    moreover have "resolve m' k (?e' AND frame_mask) v = resolve m0 k (?e AND frame_mask) v"
      using c True ag agrees_mono[OF ag, of R] by (auto simp: entry_copied_def copy_of_def)
    ultimately show ?thesis using c True same by (simp add: entry_copied_def)
  next
    case False
    then have "?e' = ?e" using c by (simp add: entry_copied_def)
    then show ?thesis using False same k by (auto simp: descends_def Let_def)
  qed
qed

section \<open>The loops\<close>

text \<open>The loops of the three levels are one loop, with the entries it leaves alone as an argument.\<close>

fun clone_loop :: "(u64 \<Rightarrow> bool) \<Rightarrow> (u64 \<Rightarrow> vm \<Rightarrow> bool \<times> vm) \<Rightarrow> u64 \<Rightarrow> nat list \<Rightarrow> vm \<Rightarrow> bool \<times> vm" where
  "clone_loop leave below table [] s = (True, s)"
| "clone_loop leave below table (i # is) s =
     (let e = load64 (vm_mem s) (slot table (of_nat i))
      in if e AND 1 \<noteq> 0 \<and> \<not> leave e then
           let (new, s) = vm_aligned_alloc PAGE_SIZE PAGE_SIZE s
           in if new = 0 then (False, s)
              else let s = vm_memcpy new (e AND NOT 0xFFF) PAGE_SIZE s;
                       s = set_entry (slot table (of_nat i))
                             (new OR (load64 (vm_mem s) (slot table (of_nat i)) AND 0xFFF)) s;
                       (ok, s) = below new s
                   in if ok then clone_loop leave below table is s else (False, s)
         else clone_loop leave below table is s)"

lemma clone_entries_loop: "clone_entries below table is s = clone_loop (\<lambda>_. False) below table is s"
  by (induction "is" arbitrary: s) (simp_all add: Let_def split: prod.splits)

lemma clone_pd_loop: "clone_pd table is s = clone_loop (\<lambda>e. e AND 0x80 \<noteq> 0) (\<lambda>_ s. (True, s)) table is s"
  by (induction "is" arbitrary: s) (simp_all add: Let_def split: prod.splits)

abbreviation free :: "vm \<Rightarrow> nat set" where
  "free s \<equiv> free_bytes (vm_pmm s)"

text \<open>What a piece of the clone may do: write to its table and to memory that is free, and take of the latter.\<close>

definition evolves :: "nat set \<Rightarrow> vm \<Rightarrow> vm \<Rightarrow> bool" where
  "evolves W s s' \<longleftrightarrow> heap_ok (vm_pmm s') \<and> free s' \<subseteq> free s \<and>
     (\<forall>x. unat x \<notin> W \<union> free s \<longrightarrow> vm_mem s' x = vm_mem s x) \<and> (\<exists>p m. s' = s\<lparr>vm_pmm := p, vm_mem := m\<rparr>)"

lemma evolves_refl: "heap_ok (vm_pmm s) \<Longrightarrow> evolves W s s"
  by (simp add: evolves_def) (metis vm.surjective vm.update_convs(1,2))

lemma evolves_trans:
  assumes "evolves W s s1" and "evolves W1 s1 s2" and "W1 \<subseteq> W \<union> free s"
  shows "evolves W s s2"
  using assms unfolding evolves_def by (auto; blast)

definition fills :: "memory \<Rightarrow> nat set \<Rightarrow> nat \<Rightarrow> (u64 \<Rightarrow> vm \<Rightarrow> bool \<times> vm) \<Rightarrow> bool" where
  "fills m0 F k below \<longleftrightarrow>
     (\<forall>t new s n. tree_ok m0 F k t \<and> page_aligned new \<and> page_bytes new \<subseteq> F - free s \<and> free s \<subseteq> F \<and>
        heap_ok (vm_pmm s) \<and> aligned_room (table_count m0 k t - 1 + n) (vm_pmm s) \<and> agrees (- F) (vm_mem s) m0 \<and>
        (\<forall>i<512. load64 (vm_mem s) (slot new (of_nat i)) = load64 m0 (slot t (of_nat i))) \<longrightarrow>
        (\<exists>s'. below new s = (True, s') \<and> evolves (page_bytes new) s s' \<and> aligned_room n (vm_pmm s') \<and>
           copy_of m0 k t (vm_mem s') new (page_bytes new \<union> (free s - free s'))))"

lemma fills_leaf: "fills m0 F 0 (\<lambda>_ s. (True, s))"
  unfolding fills_def
proof (intro allI impI exI conjI)
  fix t new s n
  assume a: "tree_ok m0 F 0 t \<and> page_aligned new \<and> page_bytes new \<subseteq> F - free s \<and> free s \<subseteq> F \<and>
        heap_ok (vm_pmm s) \<and> aligned_room (table_count m0 0 t - 1 + n) (vm_pmm s) \<and> agrees (- F) (vm_mem s) m0 \<and>
        (\<forall>i<512. load64 (vm_mem s) (slot new (of_nat i)) = load64 m0 (slot t (of_nat i)))"
  then show "evolves (page_bytes new) s s" by (simp add: evolves_refl)
  show "aligned_room n (vm_pmm s)" using a by simp
  have "load64 m' (slot new (idx 0 v)) = load64 m0 (slot t (idx 0 v))" if "agrees (page_bytes new) m' (vm_mem s)" for m' v
  proof -
    have "load64 m' (slot new (idx 0 v)) = load64 (vm_mem s) (slot new (idx 0 v))"
      using a that by (intro load_page_agree[OF _ idx_less]) (simp_all add: agrees_def)
    then show ?thesis using a idx_less[of 0 v] by (auto dest!: spec[of _ "unat (idx 0 v)"])
  qed
  then show "copy_of m0 0 t (vm_mem s) new (page_bytes new \<union> (free s - free s))"
    by (simp add: copy_of_def)
qed simp

section \<open>One entry\<close>

lemma new_entry:
  assumes "page_aligned t"
  shows "(t OR (e AND 0xFFF)) AND frame_mask = t" and "(t OR (e AND 0xFFF)) AND 1 = e AND 1"
    and "(t OR (e AND 0xFFF)) AND 0x80 = e AND 0x80"
proof -
  have t: "t = t AND frame_mask" using assms by (simp add: page_aligned_def)
  show "(t OR (e AND 0xFFF)) AND frame_mask = t"
    using t by (simp add: bit.conj_disj_distrib2 and.assoc) (simp add: frame_mask_def)
  have "t AND 1 = 0" "t AND 0x80 = 0" by (subst t, simp add: and.assoc frame_mask_def)+
  then show "(t OR (e AND 0xFFF)) AND 1 = e AND 1" "(t OR (e AND 0xFFF)) AND 0x80 = e AND 0x80"
    by (simp_all add: bit.conj_disj_distrib2 and.assoc)
qed

definition step_entry :: "(u64 \<Rightarrow> vm \<Rightarrow> bool \<times> vm) \<Rightarrow> u64 \<Rightarrow> u64 \<Rightarrow> vm \<Rightarrow> u64 \<times> vm" where
  "step_entry below a e s =
     (let (new, s) = vm_aligned_alloc PAGE_SIZE PAGE_SIZE s;
          s = vm_memcpy new (e AND NOT 0xFFF) PAGE_SIZE s
      in (new, set_entry a (new OR (load64 (vm_mem s) a AND 0xFFF)) s))"

text \<open>What the step leaves before the loop of the level below: the page taken, a copy in it, the entry that leads to it.\<close>

lemma evolves_agrees: "evolves W s s' \<Longrightarrow> R \<inter> (W \<union> free s) = {} \<Longrightarrow> agrees R (vm_mem s') (vm_mem s)"
  unfolding evolves_def agrees_def by blast

lemma evolves_slot:
  "evolves W s s' \<Longrightarrow> page_aligned t \<Longrightarrow> page_bytes t \<inter> (W \<union> free s) = {} \<Longrightarrow> j < 512 \<Longrightarrow>
   load64 (vm_mem s') (slot t (of_nat j)) = load64 (vm_mem s) (slot t (of_nat j))"
  using evolves_agrees[of W s s' "page_bytes t"] by (intro load_page_agree) (auto simp: agrees_def unat_of_nat)

lemma step_entry_links:
  assumes q: "page_aligned (e AND frame_mask)" "page_bytes (e AND frame_mask) \<inter> (page_bytes table \<union> free s) = {}"
    and sub: "e AND NOT 0xFFF = e AND frame_mask"
    and tab: "page_aligned table" "page_bytes table \<inter> free s = {}" and i: "i < 512"
    and cur: "load64 (vm_mem s) (slot table (of_nat i)) = e" and hp: "heap_ok (vm_pmm s)"
    and r: "aligned_room (Suc n) (vm_pmm s)" and call: "step_entry below (slot table (of_nat i)) e s = (new, s1)"
  shows "new \<noteq> 0" and "page_aligned new" and "page_bytes new \<subseteq> free s - free s1" and "aligned_room n (vm_pmm s1)"
    and "evolves (page_bytes table) s s1"
    and "j < 512 \<Longrightarrow> load64 (vm_mem s1) (slot new (of_nat j)) = load64 (vm_mem s) (slot (e AND frame_mask) (of_nat j))"
    and "j < 512 \<Longrightarrow> load64 (vm_mem s1) (slot table (of_nat j)) =
      (if j = i then new OR (e AND 0xFFF) else load64 (vm_mem s) (slot table (of_nat j)))"
proof -
  let ?q = "e AND frame_mask" and ?a = "slot table (of_nat i)"
  have i': "unat (of_nat i :: u64) < 512" using i by (simp add: unat_of_nat)
  obtain sa where a: "vm_aligned_alloc PAGE_SIZE PAGE_SIZE s = (new, sa)"
    using call by (auto simp: step_entry_def Let_def split: prod.splits)
  note pg = take_aligned_page[OF hp r a]
  let ?sb = "vm_memcpy new ?q PAGE_SIZE sa"
  have dis: "page_bytes new \<inter> page_bytes ?q = {}" "page_bytes new \<inter> page_bytes table = {}"
    using pg(3) q(2) tab(2) by auto
  note cp = copy_page[OF pg(2) q(1) dis(1)]
  have outb: "vm_mem ?sb x = vm_mem s x" if "unat x \<notin> free s" for x
    using that pg(3) pg(8)[OF that] cp(2)[of x "vm_mem sa"] by (auto simp: vm_memcpy_def)
  have tabs: "load64 (vm_mem ?sb) (slot table (of_nat j)) = load64 (vm_mem s) (slot table (of_nat j))" if "j < 512" for j
    using tab(2) that by (intro load_page_agree[OF tab(1)] outb) (auto simp: unat_of_nat)
  have s1: "s1 = set_entry ?a (new OR (e AND 0xFFF)) ?sb"
    using call a sub tabs[OF i] cur by (simp add: step_entry_def Let_def)
  have pm1: "vm_pmm s1 = vm_pmm sa" by (simp add: s1 set_entry_def vm_memcpy_def)
  show "new \<noteq> 0" "page_aligned new" "page_bytes new \<subseteq> free s - free s1" "aligned_room n (vm_pmm s1)"
    using pg(1-4,7) by (auto simp: pm1)
  have "vm_mem s1 x = vm_mem s x" if "unat x \<notin> page_bytes table \<union> free s" for x
    using outb[of x] store_slot_byte[OF tab(1) i'] that by (simp add: s1 set_entry_def)
  moreover have "\<exists>p m. s1 = s\<lparr>vm_pmm := p, vm_mem := m\<rparr>"
    using pg(9) by (force simp: s1 set_entry_def vm_memcpy_def)
  ultimately show "evolves (page_bytes table) s s1" using pg(5,6) by (simp add: evolves_def pm1)
  assume j: "j < 512"
  then have j': "unat (of_nat j :: u64) < 512" by (simp add: unat_of_nat)
  have "load64 (vm_mem s1) (slot new (of_nat j)) = load64 (vm_mem ?sb) (slot new (of_nat j))"
    using dis(2) store_slot_byte[OF tab(1) i'] by (intro load_page_agree[OF pg(2) j']) (auto simp: s1 set_entry_def)
  also have "\<dots> = load64 (vm_mem sa) (slot ?q (of_nat j))" using cp(1)[OF j'] by (simp add: vm_memcpy_def)
  also have "\<dots> = load64 (vm_mem s) (slot ?q (of_nat j))" using q(2) by (intro load_page_agree[OF q(1) j'] pg(8)) auto
  finally show "load64 (vm_mem s1) (slot new (of_nat j)) = load64 (vm_mem s) (slot ?q (of_nat j))" .
  have "(of_nat j :: u64) = of_nat i \<longleftrightarrow> j = i" using j i by (auto simp: unat_of_nat word_unat_eq_iff)
  then show "load64 (vm_mem s1) (slot table (of_nat j)) =
      (if j = i then new OR (e AND 0xFFF) else load64 (vm_mem s) (slot table (of_nat j)))"
    using tabs[OF j] load_slot[OF tab(1,1) i' j'] by (simp add: s1 set_entry_def)
qed

text \<open>The copy of one table below and the entry that leads to it.\<close>

lemma step_entry_fills:
  assumes fl: "fills m0 F k below" and t: "tree_ok m0 F k (e AND frame_mask)" and sub: "e AND NOT 0xFFF = e AND frame_mask"
    and e: "e AND 1 \<noteq> 0" "e AND 0x80 = 0" and d: "descends k e"
    and tab: "page_aligned table" "page_bytes table \<subseteq> F - free s" and i: "i < 512"
    and cur: "load64 (vm_mem s) (slot table (of_nat i)) = e"
    and st: "free s \<subseteq> F" "heap_ok (vm_pmm s)" "agrees (- F) (vm_mem s) m0"
    and r: "aligned_room (table_count m0 k (e AND frame_mask) + n) (vm_pmm s)"
    and call: "step_entry below (slot table (of_nat i)) e s = (new, s1)"
  shows "new \<noteq> 0 \<and> (\<exists>s'. below new s1 = (True, s') \<and> evolves (page_bytes table) s s' \<and> aligned_room n (vm_pmm s') \<and>
      (\<forall>j<512. j \<noteq> i \<longrightarrow> load64 (vm_mem s') (slot table (of_nat j)) = load64 (vm_mem s) (slot table (of_nat j))) \<and>
      entry_copied m0 k e (vm_mem s') (load64 (vm_mem s') (slot table (of_nat i))) (free s - free s'))"
proof -
  let ?q = "e AND frame_mask" and ?c = "table_count m0 k (e AND frame_mask) - 1 + n"
  have q: "page_aligned ?q" "page_bytes ?q \<inter> F = {}" using tree_ok_page[OF t] by auto
  have "table_count m0 k ?q = Suc (table_count m0 k ?q - 1)" by (cases k) auto
  then have r': "aligned_room (Suc ?c) (vm_pmm s)" using r by (metis add_Suc)
  have apart: "page_bytes ?q \<inter> (page_bytes table \<union> free s) = {}" "page_bytes table \<inter> free s = {}"
    using q(2) tab(2) st(1) by auto
  note new = step_entry_links[OF q(1) apart(1) sub tab(1) apart(2) i cur st(2) r' call]
  have fr1: "free s1 \<subseteq> free s" "heap_ok (vm_pmm s1)" using new(5) by (simp_all add: evolves_def)
  have ag1: "agrees (- F) (vm_mem s1) m0"
    using agrees_trans[OF evolves_agrees[OF new(5)] st(3)] tab(2) st(1) by auto
  have "load64 (vm_mem s) (slot ?q (of_nat j)) = load64 m0 (slot ?q (of_nat j))" if "j < 512" for j
    using st(3) q that by (intro load_page_agree) (auto simp: agrees_def unat_of_nat)
  with new(6) have loads: "\<forall>j<512. load64 (vm_mem s1) (slot new (of_nat j)) = load64 m0 (slot ?q (of_nat j))" by simp
  have pre: "page_bytes new \<subseteq> F - free s1" "free s1 \<subseteq> F" using new(3) fr1 st(1) by auto
  obtain s' where s': "below new s1 = (True, s')" "evolves (page_bytes new) s1 s'" "aligned_room n (vm_pmm s')"
      "copy_of m0 k ?q (vm_mem s') new (page_bytes new \<union> (free s1 - free s'))"
    using fl[unfolded fills_def, rule_format, of ?q new s1 n] t new(2,4) pre fr1(2) ag1 loads by metis
  have fr: "free s' \<subseteq> free s1" using s'(2) by (simp add: evolves_def)
  have keep: "load64 (vm_mem s') (slot table (of_nat j)) = load64 (vm_mem s1) (slot table (of_nat j))" if "j < 512" for j
    using tab(2) new(3) fr1(1) apart(2) that by (intro evolves_slot[OF s'(2) tab(1)]) auto
  have "evolves (page_bytes table) s s'" using new(3) by (intro evolves_trans[OF new(5) s'(2)]) auto
  moreover have "copy_of m0 k ?q (vm_mem s') new (free s - free s')"
    by (rule copy_of_later[OF s'(4)]) (use new(3) fr1(1) fr in \<open>auto simp: agrees_def\<close>)
  then have "entry_copied m0 k e (vm_mem s') (load64 (vm_mem s') (slot table (of_nat i))) (free s - free s')"
    using d e new_entry[OF new(2), of e] keep[OF i] new(7)[OF i] by (simp add: entry_copied_def)
  ultimately show ?thesis using new(1,7) keep s'(1,3) by auto
qed

section \<open>The levels\<close>

lemma clone_loop_step:
  "load64 (vm_mem s) (slot table (of_nat i)) = e \<Longrightarrow> e AND 1 \<noteq> 0 \<Longrightarrow> \<not> leave e \<Longrightarrow>
   step_entry below (slot table (of_nat i)) e s = (new, s1) \<Longrightarrow> new \<noteq> 0 \<Longrightarrow> below new s1 = (True, s2) \<Longrightarrow>
   clone_loop leave below table (i # js) s = clone_loop leave below table js s2"
  by (auto simp: step_entry_def Let_def split: prod.splits)

definition count_below :: "memory \<Rightarrow> nat \<Rightarrow> u64 \<Rightarrow> nat" where
  "count_below m k e = (if descends k e then table_count m k (e AND frame_mask) else 0)"

lemma table_count_Suc: "table_count m (Suc k) t = Suc (\<Sum>i\<leftarrow>[0..<512]. count_below m k (load64 m (slot t (of_nat i))))"
  by (simp add: count_below_def Let_def)

lemma table_count_pos: "0 < table_count m k t"
  by (cases k) simp_all

abbreviation rest_count :: "memory \<Rightarrow> nat \<Rightarrow> u64 \<Rightarrow> nat list \<Rightarrow> nat" where
  "rest_count m k t is \<equiv> (\<Sum>i\<leftarrow>is. count_below m k (load64 m (slot t (of_nat i))))"

text \<open>One round of the loop: the entry is copied or left alone, and the loop goes on with the rest.\<close>

lemma clone_loop_entry:
  assumes fl: "fills m0 F k below" and ok: "tree_ok m0 F (Suc k) t"
    and leave: "\<And>e. e AND 1 \<noteq> 0 \<Longrightarrow> \<not> leave e \<longleftrightarrow> descends k e"
    and tab: "page_aligned table" and i: "i < 512"
    and st: "page_bytes table \<subseteq> F - free s" "free s \<subseteq> F" "heap_ok (vm_pmm s)" "agrees (- F) (vm_mem s) m0"
    and r: "aligned_room (rest_count m0 k t (i # js) + n) (vm_pmm s)"
    and cur: "load64 (vm_mem s) (slot table (of_nat i)) = load64 m0 (slot t (of_nat i))"
  shows "\<exists>s1. clone_loop leave below table (i # js) s = clone_loop leave below table js s1 \<and>
      evolves (page_bytes table) s s1 \<and> aligned_room (rest_count m0 k t js + n) (vm_pmm s1) \<and>
      (\<forall>j<512. j \<noteq> i \<longrightarrow> load64 (vm_mem s1) (slot table (of_nat j)) = load64 (vm_mem s) (slot table (of_nat j))) \<and>
      entry_copied m0 k (load64 m0 (slot t (of_nat i))) (vm_mem s1) (load64 (vm_mem s1) (slot table (of_nat i))) (free s - free s1)"
proof (cases "descends k (load64 m0 (slot t (of_nat i)))")
  let ?e = "load64 m0 (slot t (of_nat i))"
  case True
  then have p: "?e AND 1 \<noteq> 0" "\<not> leave ?e" using leave by (auto simp: descends_def)
  have t: "?e AND 0x80 = 0" "?e AND NOT 0xFFF = ?e AND frame_mask" "tree_ok m0 F k (?e AND frame_mask)"
    using ok True i by (auto simp: descends_def Let_def)
  obtain new s1 where c: "step_entry below (slot table (of_nat i)) ?e s = (new, s1)" by fastforce
  have r': "aligned_room (table_count m0 k (?e AND frame_mask) + (rest_count m0 k t js + n)) (vm_pmm s)"
    using r True by (simp add: count_below_def add.assoc)
  from step_entry_fills[OF fl t(3,2) p(1) t(1) True tab st(1) i cur st(2-4) r' c]
  show ?thesis using clone_loop_step[where js = js and leave = leave, OF cur p c] by blast
next
  let ?e = "load64 m0 (slot t (of_nat i))"
  case False
  then have "clone_loop leave below table (i # js) s = clone_loop leave below table js s"
    using leave[of ?e] by (auto simp: cur Let_def)
  then show ?thesis
    using False st(3) r cur evolves_refl[OF st(3)] by (intro exI[of _ s]) (simp add: entry_copied_def count_below_def)
qed

lemma clone_loop_fills:
  assumes fl: "fills m0 F k below" and ok: "tree_ok m0 F (Suc k) t"
    and leave: "\<And>e. e AND 1 \<noteq> 0 \<Longrightarrow> \<not> leave e \<longleftrightarrow> descends k e"
    and tab: "page_aligned table" and d: "distinct is" "set is \<subseteq> {..<512}"
    and st: "page_bytes table \<subseteq> F - free s" "free s \<subseteq> F" "heap_ok (vm_pmm s)" "agrees (- F) (vm_mem s) m0"
    and r: "aligned_room (rest_count m0 k t is + n) (vm_pmm s)"
    and cur: "\<And>i. i \<in> set is \<Longrightarrow> load64 (vm_mem s) (slot table (of_nat i)) = load64 m0 (slot t (of_nat i))"
  shows "\<exists>s'. clone_loop leave below table is s = (True, s') \<and> evolves (page_bytes table) s s' \<and> aligned_room n (vm_pmm s') \<and>
      (\<forall>i<512. i \<notin> set is \<longrightarrow> load64 (vm_mem s') (slot table (of_nat i)) = load64 (vm_mem s) (slot table (of_nat i))) \<and>
      (\<forall>i\<in>set is. entry_copied m0 k (load64 m0 (slot t (of_nat i))) (vm_mem s')
          (load64 (vm_mem s') (slot table (of_nat i))) (free s - free s'))"
  using d st r cur
proof (induction "is" arbitrary: s)
  case Nil
  then show ?case using evolves_refl[OF Nil.prems(5)] by (intro exI[of _ s]) simp
next
  case (Cons i js)
  let ?e = "load64 m0 (slot t (of_nat i))"
  have i: "i < 512" and e: "load64 (vm_mem s) (slot table (of_nat i)) = ?e" and ij: "i \<notin> set js" using Cons.prems by auto
  from clone_loop_entry[OF fl ok leave tab i Cons.prems(3-7) e]
  obtain s1 where 1: "clone_loop leave below table (i # js) s = clone_loop leave below table js s1"
    and ev: "evolves (page_bytes table) s s1" and r1: "aligned_room (rest_count m0 k t js + n) (vm_pmm s1)"
    and others: "\<forall>j<512. j \<noteq> i \<longrightarrow> load64 (vm_mem s1) (slot table (of_nat j)) = load64 (vm_mem s) (slot table (of_nat j))"
    and fin: "entry_copied m0 k ?e (vm_mem s1) (load64 (vm_mem s1) (slot table (of_nat i))) (free s - free s1)" by blast
  have fr: "free s1 \<subseteq> free s" "heap_ok (vm_pmm s1)" using ev by (simp_all add: evolves_def)
  have ag: "agrees (- F) (vm_mem s1) m0"
    using agrees_trans[OF evolves_agrees[OF ev] Cons.prems(6)] Cons.prems(3,4) by auto
  have same: "load64 (vm_mem s1) (slot table (of_nat j)) = load64 m0 (slot t (of_nat j))" if "j \<in> set js" for j
  proof -
    have "j < 512" "j \<noteq> i" using Cons.prems(2) ij that by auto
    then show ?thesis using others Cons.prems(8)[of j] that by simp
  qed
  have "distinct js" "set js \<subseteq> {..<512}" "page_bytes table \<subseteq> F - free s1" "free s1 \<subseteq> F"
    using Cons.prems(1-4) fr(1) by auto
  from Cons.IH[OF this fr(2) ag r1 same]
  obtain s' where 2: "clone_loop leave below table js s1 = (True, s')" "evolves (page_bytes table) s1 s'"
      "aligned_room n (vm_pmm s')"
    and keep: "\<forall>i<512. i \<notin> set js \<longrightarrow> load64 (vm_mem s') (slot table (of_nat i)) = load64 (vm_mem s1) (slot table (of_nat i))"
    and rest: "\<forall>i\<in>set js. entry_copied m0 k (load64 m0 (slot t (of_nat i))) (vm_mem s')
          (load64 (vm_mem s') (slot table (of_nat i))) (free s1 - free s')" by blast
  have fr2: "free s' \<subseteq> free s1" using 2(2) by (simp add: evolves_def)
  have ag2: "agrees (free s - free s1) (vm_mem s') (vm_mem s1)"
    by (rule evolves_agrees[OF 2(2)]) (use Cons.prems(3) in auto)
  have "free s - free s1 \<subseteq> free s - free s'" using fr2 by auto
  note entry_copied_later[OF fin ag2 this]
  then have ei: "entry_copied m0 k ?e (vm_mem s') (load64 (vm_mem s') (slot table (of_nat i))) (free s - free s')"
    using keep i ij by simp
  have ejs: "entry_copied m0 k (load64 m0 (slot t (of_nat j))) (vm_mem s')
      (load64 (vm_mem s') (slot table (of_nat j))) (free s - free s')" if "j \<in> set js" for j
    by (rule entry_copied_later[OF bspec[OF rest that]]) (use fr in \<open>auto simp: agrees_def\<close>)
  have "evolves (page_bytes table) s s'" by (rule evolves_trans[OF ev 2(2)]) simp
  with 1 2(1,3) ei ejs keep others show ?case by (intro exI[of _ s']) auto
qed

lemma fills_level:
  assumes fl: "fills m0 F k below" and k: "k < 3" and leave: "\<And>e. e AND 1 \<noteq> 0 \<Longrightarrow> \<not> leave e \<longleftrightarrow> descends k e"
  shows "fills m0 F (Suc k) (\<lambda>new. clone_loop leave below new [0..<512])"
  unfolding fills_def
proof (intro allI impI, elim conjE)
  fix t new s n
  assume ok: "tree_ok m0 F (Suc k) t" and new: "page_aligned new" "page_bytes new \<subseteq> F - free s"
    and st: "free s \<subseteq> F" "heap_ok (vm_pmm s)" "agrees (- F) (vm_mem s) m0"
    and r: "aligned_room (table_count m0 (Suc k) t - 1 + n) (vm_pmm s)"
    and cur: "\<forall>i<512. load64 (vm_mem s) (slot new (of_nat i)) = load64 m0 (slot t (of_nat i))"
  have r': "aligned_room ((\<Sum>i\<leftarrow>[0..<512]. count_below m0 k (load64 m0 (slot t (of_nat i)))) + n) (vm_pmm s)"
    using r by (simp only: table_count_Suc diff_Suc_1)
  have below: "set [0..<512] \<subseteq> {..<512 :: nat}" by auto
  obtain s' where s': "clone_loop leave below new [0..<512] s = (True, s')" "evolves (page_bytes new) s s'" "aligned_room n (vm_pmm s')"
      "\<forall>i\<in>set [0..<512]. entry_copied m0 k (load64 m0 (slot t (of_nat i))) (vm_mem s')
          (load64 (vm_mem s') (slot new (of_nat i))) (free s - free s')"
    using clone_loop_fills[OF fl ok leave new(1) distinct_upt below new(2) st r'] cur by auto
  have "copy_of m0 (Suc k) t (vm_mem s') new (page_bytes new \<union> (free s - free s'))"
    using s'(4) by (intro entries_copied_table[OF new(1) ok k]) simp
  with s' show "\<exists>s'. clone_loop leave below new [0..<512] s = (True, s') \<and> evolves (page_bytes new) s s' \<and>
      aligned_room n (vm_pmm s') \<and> copy_of m0 (Suc k) t (vm_mem s') new (page_bytes new \<union> (free s - free s'))" by blast
qed

lemma clone_levels_fill:
  "fills m0 F 3 (\<lambda>new. clone_entries (\<lambda>new_pdpt. clone_entries (\<lambda>new_pd. clone_pd new_pd [0..<512]) new_pdpt [0..<512])
     new [0..<512])"
proof -
  have 1: "fills m0 F 1 (\<lambda>new_pd. clone_pd new_pd [0..<512])"
    unfolding clone_pd_loop One_nat_def by (rule fills_level[OF fills_leaf]) (simp_all add: descends_def)
  have 2: "fills m0 F 2 (\<lambda>new_pdpt. clone_entries (\<lambda>new_pd. clone_pd new_pd [0..<512]) new_pdpt [0..<512])"
    unfolding clone_entries_loop Suc_1[symmetric] by (rule fills_level[OF 1]) (simp_all add: descends_def)
  have "Suc 2 = (3 :: nat)" by simp
  moreover have "fills m0 F (Suc 2) (\<lambda>new. clone_entries
      (\<lambda>new_pdpt. clone_entries (\<lambda>new_pd. clone_pd new_pd [0..<512]) new_pdpt [0..<512]) new [0..<512])"
    unfolding clone_entries_loop[where below = "\<lambda>new_pdpt. clone_entries (\<lambda>new_pd. clone_pd new_pd [0..<512]) new_pdpt [0..<512]"]
    by (rule fills_level[OF 2]) (simp_all add: descends_def)
  ultimately show ?thesis by (simp only:)
qed

lemma clone_higher_half_copies:
  assumes t: "tree_ok (vm_mem s) (free s) 3 root" and h: "heap_ok (vm_pmm s)"
    and r: "aligned_room (table_count (vm_mem s) 3 root + n) (vm_pmm s)"
  shows "\<exists>new s'. clone_higher_half root s = (new, s') \<and> new \<noteq> 0 \<and> page_aligned new \<and>
    page_bytes new \<subseteq> free s - free s' \<and> evolves {} s s' \<and> aligned_room n (vm_pmm s') \<and>
    copy_of (vm_mem s) 3 root (vm_mem s') new (free s - free s')"
proof -
  let ?c = "table_count (vm_mem s) 3 root"
  have "?c = Suc (?c - 1)" using table_count_pos[of "vm_mem s" 3 root] by simp
  then have r': "aligned_room (Suc (?c - 1 + n)) (vm_pmm s)" using r by (metis add_Suc)
  obtain new sa where a: "vm_aligned_alloc PAGE_SIZE PAGE_SIZE s = (new, sa)" by fastforce
  note pg = take_aligned_page[OF h r' a]
  let ?sb = "sa\<lparr>vm_mem := memset new 0 PAGE_SIZE (vm_mem sa)\<rparr>"
  let ?sc = "vm_memcpy new root PAGE_SIZE ?sb"
  have q: "page_aligned root" "page_bytes root \<inter> free s = {}" using tree_ok_page[OF t] by auto
  have dis: "page_bytes new \<inter> page_bytes root = {}" using pg(3) q(2) by auto
  note cp = copy_page[OF pg(2) q(1) dis]
  have outb: "vm_mem ?sb x = vm_mem s x" if "unat x \<notin> free s" for x
    using that pg(3) pg(8)[OF that] outside_page[OF pg(2), of x] by (auto simp: memset_at PAGE_SIZE_def)
  have outc: "vm_mem ?sc x = vm_mem s x" if "unat x \<notin> free s" for x
    using that pg(3) outb[OF that] cp(2)[of x "vm_mem ?sb"] by (auto simp: vm_memcpy_def)
  have cur: "load64 (vm_mem ?sc) (slot new (of_nat j)) = load64 (vm_mem s) (slot root (of_nat j))" if j: "j < 512" for j
  proof -
    have j': "unat (of_nat j :: u64) < 512" using j by (simp add: unat_of_nat)
    have "load64 (vm_mem ?sc) (slot new (of_nat j)) = load64 (vm_mem ?sb) (slot root (of_nat j))"
      using cp(1)[OF j'] by (simp add: vm_memcpy_def)
    also have "\<dots> = load64 (vm_mem s) (slot root (of_nat j))"
      using q(2) by (intro load_page_agree[OF q(1) j'] outb) auto
    finally show ?thesis .
  qed
  let ?run = "\<lambda>new. clone_entries (\<lambda>new_pdpt. clone_entries (\<lambda>new_pd. clone_pd new_pd [0..<512]) new_pdpt [0..<512]) new [0..<512]"
  have pm: "vm_pmm ?sc = vm_pmm sa" by (simp add: vm_memcpy_def)
  have pre: "page_bytes new \<subseteq> free s - free ?sc" "free ?sc \<subseteq> free s" using pg(3,4,5) by (auto simp: pm)
  have ag: "agrees (- free s) (vm_mem ?sc) (vm_mem s)" using outc by (simp add: agrees_def)
  obtain s' where s': "?run new ?sc = (True, s')" "evolves (page_bytes new) ?sc s'" "aligned_room n (vm_pmm s')"
      "copy_of (vm_mem s) 3 root (vm_mem s') new (page_bytes new \<union> (free ?sc - free s'))"
    using clone_levels_fill[of "vm_mem s" "free s", unfolded fills_def, rule_format, of root new ?sc n] t pg(2,6,7) pre ag cur pm
    by metis
  have fr: "free s' \<subseteq> free ?sc" using s'(2) by (simp add: evolves_def)
  have R: "page_bytes new \<union> (free ?sc - free s') \<subseteq> free s - free s'" using pre fr by auto
  have "copy_of (vm_mem s) 3 root (vm_mem s') new (free s - free s')"
    using copy_of_later[OF s'(4) _ R] by (simp add: agrees_def)
  moreover have "clone_higher_half root s = (new, s')"
    using a s'(1) pg(1) by (simp add: clone_higher_half_def Let_def)
  moreover have "evolves {} s ?sc"
    using outc pg(5,6,9) by (force simp: evolves_def vm_memcpy_def)
  then have "evolves {} s s'" by (rule evolves_trans[OF _ s'(2)]) (use pg(3) in simp)
  ultimately show ?thesis using pg(1,2) s'(3) R by blast
qed

section \<open>Properties\<close>

lemma page_aligned_low_mask:
  assumes "page_aligned t"
  shows "t AND NOT 0xFFF = t"
proof -
  have t: "t AND frame_mask = t" using assms by (simp add: page_aligned_def)
  have "(t AND frame_mask) AND NOT 0xFFF = t AND frame_mask" by (simp add: and.assoc frame_mask_def)
  then show ?thesis by (simp only: t)
qed

text \<open>C3: A new address space. With a tree of tables without 1 GiB pages at the root recorded at the first
  call, in memory that is not free, and enough free memory for one aligned page per table, \<open>new_paging\<close> loads a root on a
  page that was free; every address, mapped or not, translates as under the
  recorded root, whatever is later written outside of the memory the call took: the new space
  shares no table with the old one. All memory that was not free is unchanged.\<close>

theorem new_paging_clones:
  assumes root: "root = (if vm_bootboot_paging s = 0 then pml4_base s else vm_bootboot_paging s)"
    and t: "tree_ok (vm_mem s) (free_bytes (vm_pmm s)) 3 root" and h: "heap_ok (vm_pmm s)"
    and r: "aligned_room (table_count (vm_mem s) 3 root) (vm_pmm s)"
  shows "let s' = new_paging s; taken = free_bytes (vm_pmm s) - free_bytes (vm_pmm s') in
    page_bytes (pml4_base s') \<subseteq> taken \<and> vm_bootboot_paging s' = root \<and>
    (\<forall>m v. agrees taken m (vm_mem s') \<longrightarrow>
       translate_virtual_to_physical v (s'\<lparr>vm_mem := m\<rparr>) = translate_virtual_to_physical v (s\<lparr>vm_cr3 := root\<rparr>)) \<and>
    agrees (- free_bytes (vm_pmm s)) (vm_mem s') (vm_mem s)"
proof -
  let ?s0 = "s\<lparr>vm_bootboot_paging := root\<rparr>"
  have "tree_ok (vm_mem ?s0) (free ?s0) 3 root" "heap_ok (vm_pmm ?s0)" "aligned_room (table_count (vm_mem ?s0) 3 root + 0) (vm_pmm ?s0)"
    using t h r by simp_all
  from clone_higher_half_copies[OF this] obtain new s1 where
    c: "clone_higher_half root ?s0 = (new, s1)" "new \<noteq> 0" "page_aligned new" "page_bytes new \<subseteq> free ?s0 - free s1"
      "evolves {} ?s0 s1" "copy_of (vm_mem s) 3 root (vm_mem s1) new (free ?s0 - free s1)" by auto
  have first: "(if vm_bootboot_paging s = 0 then s\<lparr>vm_bootboot_paging := read_cr3 s AND NOT 0xFFF\<rparr> else s) = ?s0"
    using root by (auto simp: pml4_base_def)
  have np: "new_paging s = vm_event (Log LOG_LEVEL_INFO ''Page switch successful!!!!'' []) (write_cr3 new s1)"
    unfolding new_paging_def Let_def first using c(1,2) by simp
  have base: "pml4_base (new_paging s) = new" "vm_pmm (new_paging s) = vm_pmm s1" "vm_mem (new_paging s) = vm_mem s1"
    using page_aligned_low_mask[OF c(3)] by (simp_all add: np vm_event_def write_cr3_def pml4_base_def read_cr3_def)
  have "translate_virtual_to_physical v ((new_paging s)\<lparr>vm_mem := m\<rparr>) = translate_virtual_to_physical v (s\<lparr>vm_cr3 := root\<rparr>)"
    if "agrees (free s - free s1) m (vm_mem s1)" for m v
  proof -
    have "resolve m 3 new v = resolve (vm_mem s) 3 root v" using c(6) that by (simp add: copy_of_def)
    moreover have "pml4_base ((new_paging s)\<lparr>vm_mem := m\<rparr>) = new"
      using base(1) by (simp add: pml4_base_def read_cr3_def)
    moreover have "pml4_base (s\<lparr>vm_cr3 := root\<rparr>) = root"
      using page_aligned_low_mask[of root] tree_ok_page[OF t] by (simp add: pml4_base_def read_cr3_def)
    ultimately show ?thesis by (simp add: translate_resolve)
  qed
  moreover have "vm_bootboot_paging (new_paging s) = root"
    using c(5) by (auto simp: np evolves_def vm_event_def write_cr3_def)
  moreover have "agrees (- free s) (vm_mem s1) (vm_mem s)" using c(5) by (simp add: evolves_def agrees_def)
  ultimately show ?thesis using c(4) by (simp add: Let_def base)
qed

text \<open>The sample address space: four tables.\<close>

lemma sum_first: "(\<And>i. 0 < i \<Longrightarrow> i < n \<Longrightarrow> f i = 0) \<Longrightarrow> 0 < n \<Longrightarrow> (\<Sum>i\<leftarrow>[0..<n]. f i) = (f 0 :: nat)"
  by (simp add: upt_conv_Cons sum_list_0)

lemma tree_one_entry:
  assumes "page_aligned t" and "page_bytes t \<inter> F = {}" and "tree_ok m F k (e AND frame_mask)"
    and l: "\<And>i. i < 512 \<Longrightarrow> load64 m (slot t (of_nat i)) = (if i = 0 then e else 0)"
    and e: "e AND 1 \<noteq> 0" "e AND 0x80 = 0" "e AND NOT 0xFFF = e AND frame_mask"
  shows "tree_ok m F (Suc k) t" and "table_count m (Suc k) t = Suc (table_count m k (e AND frame_mask))"
proof -
  show "tree_ok m F (Suc k) t" using assms by (simp add: Let_def)
  have "(\<Sum>i\<leftarrow>[0..<512]. count_below m k (load64 m (slot t (of_nat i)))) = count_below m k (load64 m (slot t (of_nat 0)))"
    by (rule sum_first) (simp_all only: l, simp_all add: count_below_def descends_def)
  then show "table_count m (Suc k) t = Suc (table_count m k (e AND frame_mask))"
    using l[of 0] e by (simp only: table_count_Suc) (simp add: count_below_def descends_def)
qed

lemma sample_entry:
  assumes "i < 512"
  shows "load64 sample_entries (slot 0x201000 (of_nat i)) = (if i = 0 then 0x202003 else 0)"
    and "load64 sample_entries (slot 0x202000 (of_nat i)) = (if i = 0 then 0x203003 else 0)"
    and "load64 sample_entries (slot 0x203000 (of_nat i)) = (if i = 0 then 0x204003 else 0)"
proof -
  have u: "unat (of_nat i :: u64) = i" using assms by (intro unat_of_nat_less) simp
  have lt: "unat (of_nat i :: u64) < 512" unfolding u by (fact assms)
  have iz: "(of_nat i :: u64) = 0 \<longleftrightarrow> i = 0" unfolding word_unat_eq_iff u by simp
  show "load64 sample_entries (slot 0x201000 (of_nat i)) = (if i = 0 then 0x202003 else 0)"
    by (simp only: sample_loads(1)[OF lt] iz)
  show "load64 sample_entries (slot 0x202000 (of_nat i)) = (if i = 0 then 0x203003 else 0)"
    by (simp only: sample_loads(2)[OF lt] iz)
  show "load64 sample_entries (slot 0x203000 (of_nat i)) = (if i = 0 then 0x204003 else 0)"
    by (simp only: sample_loads(3)[OF lt] iz)
qed

lemma sample_frames:
  "page_aligned 0x201000" "page_aligned 0x202000" "page_aligned 0x203000" "page_aligned 0x204000"
  "0x202003 AND frame_mask = 0x202000" "0x203003 AND frame_mask = 0x203000" "0x204003 AND frame_mask = 0x204000"
  by (simp_all add: page_aligned_def frame_mask_def)

lemma sample_tree:
  "tree_ok sample_entries {0x300000..<0x340000} 3 0x201000" "table_count sample_entries 3 0x201000 = 4"
proof -
  let ?ok = "tree_ok sample_entries {0x300000..<0x340000}"
  have 0: "?ok 0 (0x204003 AND frame_mask)" by (simp add: sample_frames page_bytes_def)
  have dis: "page_bytes 0x203000 \<inter> {0x300000..<0x340000} = {}" "page_bytes 0x202000 \<inter> {0x300000..<0x340000} = {}"
    "page_bytes 0x201000 \<inter> {0x300000..<0x340000} = {}" by (simp_all add: page_bytes_def)
  note t1 = tree_one_entry[OF sample_frames(3) dis(1) 0 sample_entry(3)]
  have 1: "?ok (Suc 0) (0x203003 AND frame_mask)" "table_count sample_entries (Suc 0) 0x203000 = 2"
    using t1 by (simp_all only: sample_frames) simp_all
  note t2 = tree_one_entry[OF sample_frames(2) dis(2) 1(1) sample_entry(2)]
  have 2: "?ok (Suc (Suc 0)) (0x202003 AND frame_mask)" "table_count sample_entries (Suc (Suc 0)) 0x202000 = 3"
    using t2 1(2) by (simp_all only: sample_frames) simp_all
  note t3 = tree_one_entry[OF sample_frames(1) dis(3) 2(1) sample_entry(1)]
  show "?ok 3 0x201000" "table_count sample_entries 3 0x201000 = 4"
    using t3 2(2) by (simp_all only: sample_frames numeral_3_eq_3) simp_all
qed

theorem new_paging_clones_witness:
  "page_bytes (pml4_base (new_paging sample_vm)) \<subseteq> {0x300000..<0x340000} \<and>
   translate_virtual_to_physical 0x123 (new_paging sample_vm) = 0x5123"
proof -
  have root: "0x201000 = (if vm_bootboot_paging sample_vm = 0 then pml4_base sample_vm else vm_bootboot_paging sample_vm)"
    by (simp add: sample_vm_def pml4_base_def read_cr3_def)
  have mem: "vm_mem sample_vm = sample_entries" by (simp add: sample_vm_def)
  have t: "tree_ok (vm_mem sample_vm) (free_bytes (vm_pmm sample_vm)) 3 0x201000"
    unfolding mem sample_free_bytes by (rule sample_tree)
  have h: "heap_ok (vm_pmm sample_vm)"
    unfolding heap_ok_def sample_free_bytes pmm_wf_def by (auto simp: extents_wf_def extent_ok_def)
  have r: "aligned_room (table_count (vm_mem sample_vm) 3 0x201000) (vm_pmm sample_vm)"
    by (simp add: mem sample_tree aligned_room_def sample_free_bytes del: table_count.simps)
  have "translate_virtual_to_physical 0x123 (sample_vm\<lparr>vm_cr3 := 0x201000\<rparr>) = 0x5123"
    by (simp add: translate_resolve mem pml4_base_def read_cr3_def idx_def Let_def sample_loads[of 0] numeral_3_eq_3 frame_mask_def)
  with new_paging_clones[OF root t h r] show ?thesis
    by (auto simp: Let_def sample_free_bytes agrees_def)
qed

end
