(* ===== verification/Libc_Conv.thy ===== *)
theory Libc_Conv
  imports Libc_String
begin

text \<open>
  Numbers to text, \<^verbatim>\<open>src/libc/conversion.c\<close>, and the small helpers of \<^verbatim>\<open>bitwise.c\<close> and \<^verbatim>\<open>tmath.c\<close>.
  The routines write into byte memory, digit by digit, as the C code does; \<open>parse_dec\<close> is the
  inverse the round trips are stated with. Signed negation wraps at 32 bits, a shift count is taken
  modulo 32 as the processor does. \<open>double_to_string\<close> (floating point) is in theory Libc_Double.
\<close>

section \<open>Signed numbers\<close>

text \<open>The local buffer of \<open>int_to_string\<close>: the digits, least significant first.\<close>

function dec_digits :: "int \<Rightarrow> u8 list" where
  "dec_digits v = (if 0 < v then (48 + of_int (v mod 10)) # dec_digits (v div 10) else [])"
  by auto
termination by (relation "measure nat") auto

declare dec_digits.simps [simp del]

definition negate32 :: "int \<Rightarrow> int" where
  "negate32 v = sint (- (of_int v :: u32))"

definition int_buffer :: "int \<Rightarrow> u8 list" where
  "int_buffer value =
     (let neg = value < 0;
          value = (if neg then negate32 value else value);
          buffer = (if value = 0 then [48] else dec_digits value)
      in if neg then buffer @ [45] else buffer)"

definition int_to_string :: "u32 \<Rightarrow> u64 \<Rightarrow> memory \<Rightarrow> memory" where
  "int_to_string value str m =
     (let buffer = int_buffer (sint value)
      in (write_bytes m str (rev buffer))(str + of_nat (length buffer) := 0))"

text \<open>\<open>long_to_string\<close> has the same body; its parameter is an \<^verbatim>\<open>int\<close> too.\<close>

definition long_to_string :: "u32 \<Rightarrow> u64 \<Rightarrow> memory \<Rightarrow> memory" where
  "long_to_string value str m =
     (let buffer = int_buffer (sint value)
      in (write_bytes m str (rev buffer))(str + of_nat (length buffer) := 0))"

section \<open>Unsigned numbers\<close>

function store_digits :: "u64 \<Rightarrow> u64 \<Rightarrow> memory \<Rightarrow> u64 \<times> memory" where
  "store_digits value p m =
     (let m = m(p := 48 + ucast (value mod 10)); value = value div 10
      in if value \<noteq> 0 then store_digits value (p + 1) m else (p + 1, m))"
  by auto
termination
proof (relation "measure (\<lambda>(v, p, m). unat v)")
  fix v p :: u64 and m :: memory and x xa
  assume xa: "xa = v div 10" "xa \<noteq> 0"
  then have "unat (v div 10) \<noteq> 0" by (simp add: unat_eq_zero)
  then have "unat v div 10 \<noteq> 0" by (simp add: unat_div_distrib)
  then show "((xa, p + 1, x), v, p, m) \<in> measure (\<lambda>(v, p, m). unat v)"
    using xa(1) by (simp add: unat_div_distrib)
qed simp

declare store_digits.simps [simp del]

function swap_loop :: "u64 \<Rightarrow> u64 \<Rightarrow> memory \<Rightarrow> memory" where
  "swap_loop start p m =
     (if start < p
      then let temp = m start; m = m(start := m p); m = m(p := temp) in swap_loop (start + 1) (p - 1) m
      else m)"
  by auto
termination
proof (relation "measure (\<lambda>(start, p, m). unat p - unat start)")
  fix start p :: u64 and m :: memory and x xa xb
  assume lt: "start < p"
  then have "p \<noteq> 0" by auto
  then have "unat (p - 1) = unat p - 1" by (rule unat_minus_one)
  moreover have "unat (start + 1) = unat start + 1"
    using lt unat64_less[of p] unat_of_nat_less[of "unat start + 1"] by (simp add: word_less_nat_alt add.commute)
  ultimately show "((start + 1, p - 1, xb), start, p, m) \<in> measure (\<lambda>(start, p, m). unat p - unat start)"
    using lt by (simp add: word_less_nat_alt)
qed simp

declare swap_loop.simps [simp del]

definition unsigned_long_to_string :: "u64 \<Rightarrow> u64 \<Rightarrow> memory \<Rightarrow> memory" where
  "unsigned_long_to_string value buffer m =
     (let (p, m) = store_digits value buffer m;
          m = m(p := 0)
      in swap_loop buffer (p - 1) m)"

section \<open>Pointers\<close>

definition hex_digit :: "u64 \<Rightarrow> u8" where
  "hex_digit d = [48, 49, 50, 51, 52, 53, 54, 55, 56, 57, 65, 66, 67, 68, 69, 70] ! unat (d AND 0xF)"

definition pointer_to_hex_string :: "u64 \<Rightarrow> u64 \<Rightarrow> memory \<Rightarrow> memory" where
  "pointer_to_hex_string value buffer m =
     write_bytes m buffer
       ([48, 120] @ map (\<lambda>i. hex_digit (drop_bit (i * 4) value)) (rev [0..<16]) @ [0])"

section \<open>Bits and powers\<close>

text \<open>The mask is computed as a 32-bit \<^verbatim>\<open>int\<close> and then extended.\<close>

definition flip_bit :: "u64 \<Rightarrow> u64 \<Rightarrow> u64" where
  "flip_bit num n = num XOR scast (push_bit (unat n mod 32) 1 :: u32)"

definition check_bit :: "u32 \<Rightarrow> u32 \<Rightarrow> bool" where
  "check_bit v bit_position \<longleftrightarrow> v AND push_bit (unat bit_position mod 32) 1 \<noteq> 0"

definition uint64_power :: "u64 \<Rightarrow> u64 \<Rightarrow> u64" where
  "uint64_power base expo =
     (if expo = 0 then 1 else fold (\<lambda>_ b. b * base) [0..<unat (expo - 1)] base)"

definition absolute :: "u32 \<Rightarrow> u32" where
  "absolute val = (if sint val < 0 then - val else val)"

section \<open>Reading numbers back\<close>

definition parse_dec :: "u8 list \<Rightarrow> nat" where
  "parse_dec s = foldl (\<lambda>n c. 10 * n + unat (c - 48)) 0 s"

definition is_digit :: "u8 \<Rightarrow> bool" where
  "is_digit c \<longleftrightarrow> 48 \<le> c \<and> c \<le> 57"

fun parse_int :: "u8 list \<Rightarrow> int" where
  "parse_int [] = 0"
| "parse_int (c # s) = (if c = 45 then - int (parse_dec s) else int (parse_dec (c # s)))"

lemma parse_dec_snoc [simp]: "parse_dec (s @ [c]) = 10 * parse_dec s + unat (c - 48)"
  by (simp add: parse_dec_def)

lemma digit_char: "d < 10 \<Longrightarrow> is_digit (48 + of_nat d) \<and> unat (48 + of_nat d - 48 :: u8) = d \<and> 48 + of_nat d \<noteq> (0 :: u8) \<and> 48 + of_nat d \<noteq> (45 :: u8)"
proof -
  assume "d < 10"
  then have "d \<in> {0..<10}" by simp
  then have "d = 0 \<or> d = 1 \<or> d = 2 \<or> d = 3 \<or> d = 4 \<or> d = 5 \<or> d = 6 \<or> d = 7 \<or> d = 8 \<or> d = 9" by auto
  then show ?thesis by (elim disjE) (simp_all add: is_digit_def)
qed

text \<open>The digits of a number, most significant first: what both printers produce.\<close>

function decimal :: "nat \<Rightarrow> u8 list" where
  "decimal n = (if n < 10 then [48 + of_nat n] else decimal (n div 10) @ [48 + of_nat (n mod 10)])"
  by auto
termination by (relation "measure id") auto

declare decimal.simps [simp del]

lemma parse_decimal: "parse_dec (decimal n) = n"
proof (induction n rule: decimal.induct)
  case (1 n)
  show ?case
  proof (cases "n < 10")
    case True
    then show ?thesis using digit_char[of n] by (simp add: decimal.simps[of n] parse_dec_def)
  next
    case False
    then show ?thesis using 1 digit_char[of "n mod 10"] by (simp add: decimal.simps[of n])
  qed
qed

lemma decimal_digits: "list_all is_digit (decimal n) \<and> decimal n \<noteq> []"
proof (induction n rule: decimal.induct)
  case (1 n)
  then show ?case
    using digit_char[of n] digit_char[of "n mod 10"] by (cases "n < 10") (simp_all add: decimal.simps[of n])
qed

lemma length_decimal: "n < 10 ^ Suc k \<Longrightarrow> length (decimal n) \<le> Suc k"
proof (induction k arbitrary: n)
  case 0
  then show ?case by (simp add: decimal.simps[of n])
next
  case (Suc k)
  then have "n div 10 < 10 ^ Suc k" by (simp add: less_mult_imp_div_less mult.commute)
  from Suc.IH[OF this] show ?case by (simp add: decimal.simps[of n])
qed

lemma is_digit_nz: "is_digit c \<Longrightarrow> c \<noteq> 0 \<and> c \<noteq> 45"
  by (auto simp: is_digit_def)

lemma rev_dec_digits: "0 < n \<Longrightarrow> rev (dec_digits (int n)) = decimal n"
proof (induction n rule: decimal.induct)
  case (1 n)
  have c: "(48 + of_int (int n mod 10) :: u8) = 48 + of_nat (n mod 10)"
    by (metis of_int_of_nat_eq of_nat_mod of_nat_numeral)
  show ?case
  proof (cases "n < 10")
    case True
    then have "int n div 10 = 0" by simp
    then show ?thesis using 1(2) True c by (simp add: dec_digits.simps[of "int n"] dec_digits.simps[of 0] decimal.simps[of n])
  next
    case False
    have "int n div 10 = int (n div 10)" by (simp add: zdiv_int)
    then show ?thesis using 1 False c by (simp add: dec_digits.simps[of "int n"] decimal.simps[of n])
  qed
qed

section \<open>The printers\<close>

lemma store_digits_decimal:
  "store_digits v p m = (p + of_nat (length (decimal (unat v))), write_bytes m p (rev (decimal (unat v))))"
proof (induction v p m rule: store_digits.induct)
  case (1 v p m)
  have c: "(ucast (v mod 10) :: u8) = of_nat (unat v mod 10)"
  proof -
    have "(ucast (v mod 10) :: u8) = of_nat (unat (v mod 10))" by simp
    then show ?thesis by (simp only: unat_mod_distrib) simp
  qed
  have d: "unat (v div 10) = unat v div 10" by (simp add: unat_div_distrib)
  show ?case
  proof (cases "v div 10 = 0")
    case True
    then have "unat v div 10 = 0" using d by simp
    then have lt: "unat v < 10" by simp
    then show ?thesis using True c by (simp add: store_digits.simps[of v] decimal.simps[of "unat v"] Let_def fun_upd_def)
  next
    case False
    then have "unat v div 10 \<noteq> 0" using d by (metis unat_eq_zero)
    then have ge: "\<not> unat v < 10" by simp
    show ?thesis
      using 1[OF refl refl False] False c d ge
      by (simp add: store_digits.simps[of v] decimal.simps[of "unat v"] Let_def add.commute add.left_commute fun_upd_def)
  qed
qed

lemma swap_loop_reverses:
  "swap_loop start p m x =
     (if unat start \<le> unat x \<and> unat x \<le> unat p then m (start + p - x) else m x)"
proof (induction start p m arbitrary: x rule: swap_loop.induct)
  case (1 start p m)
  show ?case
  proof (cases "start < p")
    case False
    then have "x = start \<and> x = p" if "unat start \<le> unat x" "unat x \<le> unat p"
      using that by (simp add: word_less_nat_alt word_unat_eq_iff)
    then show ?thesis using False by (auto simp: swap_loop.simps[of start])
  next
    case True
    let ?m = "(m(start := m p))(p := m start)"
    have p1: "unat (p - 1) = unat p - 1" using True by (intro unat_minus_one) auto
    have s1: "unat (start + 1) = unat start + 1"
      using True unat64_less[of p] unat_of_nat_less[of "unat start + 1"]
      by (simp add: word_less_nat_alt add.commute)
    have sum: "start + 1 + (p - 1) = start + p" by simp
    have IH: "swap_loop (start + 1) (p - 1) ?m x =
        (if unat start + 1 \<le> unat x \<and> unat x \<le> unat p - 1 then ?m (start + p - x) else ?m x)"
      using 1[OF True refl refl refl, of x] unfolding p1 s1 sum .
    have lt: "unat start < unat p" using True by (simp add: word_less_nat_alt)
    have ne: "start \<noteq> p" using True by auto
    consider "x = start" | "x = p" | "unat start < unat x \<and> unat x < unat p"
      | "unat x < unat start \<or> unat p < unat x"
      by (meson linorder_cases word_unat_eq_iff)
    then show ?thesis
    proof cases
      case 3
      then have "start + p - x \<noteq> start" "start + p - x \<noteq> p"
        by (auto simp: diff_eq_eq)
      moreover have "unat x \<le> unat p - 1" using 3 by linarith
      ultimately show ?thesis using 3 IH True by (simp add: swap_loop.simps[of start] Let_def)
    qed (use IH True lt ne in \<open>auto simp: swap_loop.simps[of start] Let_def\<close>)
  qed
qed

lemma small_offset_eq:
  fixes a :: u64
  assumes "i < 2 ^ 32" "j < 2 ^ 32"
  shows "a + of_nat i = a + of_nat j \<longleftrightarrow> i = j"
proof
  assume "a + of_nat i = a + of_nat j"
  then have "unat (of_nat i :: u64) = unat (of_nat j :: u64)" by simp
  moreover have "unat (of_nat i :: u64) = i" "unat (of_nat j :: u64) = j"
    using assms by (auto intro!: unat_of_nat_less)
  ultimately show "i = j" by simp
qed simp

lemma unsigned_long_bytes:
  fixes v :: u64
  assumes "unat buffer + 21 \<le> 2 ^ 64"
  defines "s \<equiv> decimal (unat v)"
  shows "cstring (unsigned_long_to_string v buffer m) buffer s"
    and "length s \<le> 20"
    and "length s < unat (x - buffer) \<Longrightarrow> unsigned_long_to_string v buffer m x = m x"
proof -
  have "unat v < 10 ^ Suc 19" using unat64_less[of v] by simp
  then show len: "length s \<le> 20" unfolding s_def using length_decimal[of "unat v" 19] by simp
  have pos: "0 < length s" using decimal_digits[of "unat v"] by (simp add: s_def)
  let ?m1 = "(write_bytes m buffer (rev s))(buffer + of_nat (length s) := 0)"
  let ?p = "buffer + of_nat (length s) - 1"
  have eq: "unsigned_long_to_string v buffer m = swap_loop buffer ?p ?m1"
    by (simp add: unsigned_long_to_string_def store_digits_decimal s_def Let_def)
  have at: "unat (buffer + of_nat i) = unat buffer + i" if "i \<le> 20" for i
    using that assms(1) unat_of_nat_less[of "unat buffer + i"] by simp
  have "?p = buffer + of_nat (length s - 1)" using pos by (cases "length s") simp_all
  then have p: "unat ?p = unat buffer + (length s - 1)" using at[of "length s - 1"] len by (simp only:)
  have off: "unat (of_nat i :: u64) = i" if "i \<le> 20" for i using that by (intro unat_of_nat_less) simp
  have wr: "write_bytes m buffer (rev s) (buffer + of_nat k) = rev s ! k" if "k < length s" for k
    using off[of k] that len by (simp add: write_bytes_at)
  have res: "unsigned_long_to_string v buffer m (buffer + of_nat i) = s ! i" if "i < length s" for i
  proof -
    have "buffer + ?p - (buffer + of_nat i) = buffer + of_nat (length s - 1 - i)"
      using that by (simp add: of_nat_diff algebra_simps)
    moreover have "buffer + of_nat (length s - 1 - i) \<noteq> buffer + of_nat (length s)"
    proof -
      have "length s - 1 - i \<noteq> length s" using pos by linarith
      then show ?thesis using small_offset_eq[of "length s - 1 - i" "length s" buffer] len by simp
    qed
    moreover have "write_bytes m buffer (rev s) (buffer + of_nat (length s - 1 - i)) = rev s ! (length s - 1 - i)"
      using wr[of "length s - 1 - i"] that by simp
    moreover have "rev s ! (length s - 1 - i) = s ! i" using that by (simp add: rev_nth)
    moreover have "unat buffer \<le> unat (buffer + of_nat i) \<and> unat (buffer + of_nat i) \<le> unat ?p"
      using that len p at[of i] by linarith
    then have "unsigned_long_to_string v buffer m (buffer + of_nat i) = ?m1 (buffer + ?p - (buffer + of_nat i))"
      unfolding eq swap_loop_reverses by (rule if_P)
    ultimately show ?thesis by (metis fun_upd_other)
  qed
  have notin: "unsigned_long_to_string v buffer m y = ?m1 y" if "length s \<le> unat (y - buffer)" for y
  proof -
    have "\<not> (unat buffer \<le> unat y \<and> unat y \<le> unat ?p)"
    proof
      assume *: "unat buffer \<le> unat y \<and> unat y \<le> unat ?p"
      then have "unat (y - buffer) = unat y - unat buffer" by (intro unat_sub) (simp add: word_le_nat_alt)
      with * p pos that show False by linarith
    qed
    then show ?thesis unfolding eq swap_loop_reverses by (rule if_not_P)
  qed
  have dig: "list_all is_digit s" using decimal_digits by (simp add: s_def)
  show "cstring (unsigned_long_to_string v buffer m) buffer s"
    using res notin[of "buffer + of_nat (length s)"] off[of "length s"] len dig is_digit_nz
    by (auto simp: cstring_def list_all_iff)
  show "unsigned_long_to_string v buffer m x = m x" if "length s < unat (x - buffer)"
  proof -
    have "x \<noteq> buffer + of_nat (length s)" using that off[of "length s"] len by auto
    then show ?thesis using notin[of x] that len by (simp add: write_bytes_at)
  qed
qed

lemma int_buffer_spec:
  assumes "- (2 ^ 31) \<le> v" "v < 2 ^ 31"
  shows "if v = - (2 ^ 31) then int_buffer v = [45]
    else parse_int (rev (int_buffer v)) = v \<and> length (int_buffer v) \<le> 11 \<and> 0 \<notin> set (int_buffer v)"
proof -
  have neg: "negate32 v = (if v = - (2 ^ 31) then v else - v)"
  proof -
    have "- (of_int v :: u32) = of_int (- v)" by simp
    then have "negate32 v = signed_take_bit 31 (- v)" by (simp add: negate32_def signed_of_int del: of_int_minus)
    moreover have "signed_take_bit 31 (- v) = - v" if "v \<noteq> - (2 ^ 31)"
      using that assms by (intro signed_take_bit_int_eq_self) auto
    moreover have "signed_take_bit 31 (2147483648 :: int) = - 2147483648" by simp
    ultimately show ?thesis by auto
  qed
  have len: "length (decimal (nat w)) \<le> 10" if "w < 2 ^ 31" for w :: int
    using length_decimal[of "nat w" 9] that by simp
  have pos: "parse_int (decimal n) = int n \<and> 0 \<notin> set (decimal n)" for n
    using decimal_digits[of n] parse_decimal[of n] is_digit_nz
    by (cases "decimal n") (auto simp: list_all_iff)
  consider "v = 0" | "0 < v" | "v = - (2 ^ 31)" | "v < 0" "v \<noteq> - (2 ^ 31)" by linarith
  then show ?thesis
  proof cases
    case 1
    then show ?thesis by (simp add: int_buffer_def parse_dec_def)
  next
    case 2
    then have "rev (int_buffer v) = decimal (nat v)"
      using rev_dec_digits[of "nat v"] by (simp add: int_buffer_def)
    moreover from this have "int_buffer v = rev (decimal (nat v))" by (metis rev_rev_ident)
    ultimately show ?thesis using 2 pos[of "nat v"] len[of v] assms(2) by auto
  next
    case 3
    then show ?thesis using neg by (simp add: int_buffer_def dec_digits.simps[of "- 2147483648"])
  next
    case 4
    then have "rev (int_buffer v) = 45 # decimal (nat (- v))"
      using rev_dec_digits[of "nat (- v)"] neg by (simp add: int_buffer_def)
    moreover from this have "int_buffer v = rev (45 # decimal (nat (- v)))" by (metis rev_rev_ident)
    ultimately show ?thesis
      using 4 pos[of "nat (- v)"] len[of "- v"] assms parse_decimal[of "nat (- v)"] by auto
  qed
qed

lemma uint64_power_power: "uint64_power base expo = base ^ unat expo"
proof (cases "expo = 0")
  case False
  have "fold (\<lambda>_ b. b * base) [0..<n] base = base ^ Suc n" for n
    by (induction n) (simp_all add: mult.commute)
  moreover have "Suc (unat (expo - 1)) = unat expo"
    using False unat_minus_one[of expo] by (simp add: unat_gt_0)
  then have "base ^ unat expo = base * base ^ unat (expo - 1)" by (metis power_Suc)
  ultimately show ?thesis using False by (simp add: uint64_power_def)
qed (simp add: uint64_power_def)

section \<open>Properties\<close>

text \<open>C26: \<open>unsigned_long_to_string\<close> prints every 64-bit number: the buffer holds a terminated string of at
  most 20 digits that reads back as the number, and no byte after the terminator is touched.\<close>

theorem unsigned_long_roundtrip:
  assumes "unat buffer + 21 \<le> 2 ^ 64"
  shows "\<exists>s. cstring (unsigned_long_to_string v buffer m) buffer s \<and> list_all is_digit s \<and>
    parse_dec s = unat v \<and> length s \<le> 20 \<and>
    (\<forall>x. length s < unat (x - buffer) \<longrightarrow> unsigned_long_to_string v buffer m x = m x)"
  using unsigned_long_bytes[OF assms] decimal_digits parse_decimal by blast

theorem unsigned_long_roundtrip_witness:
  "\<exists>s. cstring (unsigned_long_to_string 90210 0x1000 (\<lambda>_. 0)) 0x1000 s \<and> parse_dec s = 90210"
  using unsigned_long_roundtrip[of "0x1000" 90210 "\<lambda>_. 0"] by auto

text \<open>\<open>int_to_string\<close> prints every \<^verbatim>\<open>int\<close> but the smallest: the string reads back as the number and with
  its terminator fits the local buffer of 12 bytes. The smallest \<^verbatim>\<open>int\<close> negates to itself and
  prints as a lone minus sign.\<close>

theorem int_to_string_roundtrip:
  assumes "unat str + 12 \<le> 2 ^ 64"
  shows "if sint v = - (2 ^ 31) then cstring (int_to_string v str m) str [45]
    else \<exists>s. cstring (int_to_string v str m) str s \<and> parse_int s = sint v \<and> length s \<le> 11"
proof -
  let ?b = "int_buffer (sint v)"
  have "- (2 ^ 31) \<le> sint v" "sint v < 2 ^ 31"
    using sint_greater_eq[of v] sint_less[of v] by simp_all
  note spec = int_buffer_spec[OF this]
  have str: "cstring (int_to_string v str m) str (rev ?b)" if "length ?b \<le> 11" "0 \<notin> set ?b"
  proof -
    have off: "unat (of_nat i :: u64) = i" if "i \<le> 11" for i using that by (intro unat_of_nat_less) simp
    have ne: "str + of_nat i \<noteq> str + of_nat (length ?b)" if "i < length ?b" for i
      using small_offset_eq[of i "length ?b" str] that \<open>length ?b \<le> 11\<close> by simp
    show ?thesis
      using that off ne by (auto simp: cstring_def int_to_string_def Let_def write_bytes_at)
  qed
  show ?thesis
  proof (cases "sint v = - (2 ^ 31)")
    case True
    then show ?thesis using spec str by simp
  next
    case False
    then show ?thesis using spec str by (auto intro!: exI[of _ "rev ?b"])
  qed
qed

theorem int_to_string_roundtrip_witness:
  "cstring (int_to_string 0x80000000 0x1000 (\<lambda>_. 0)) 0x1000 [45]"
  using int_to_string_roundtrip[of "0x1000" "0x80000000" "\<lambda>_. 0"] by simp

end
