(* ===== verification/Libc_Double.thy ===== *)
theory Libc_Double
  imports Libc_Conv Float64
begin

text \<open>
  \<open>double_to_string\<close> of \<^verbatim>\<open>src/libc/conversion.c\<close>: sign, integer part and a given number of decimal
  digits. The local array \<open>temp_buff\<close> is the address \<open>temp\<close>. The section on the digit loop shows that
  a rounded product never reaches ten, so that every character is a digit, and that for a fraction
  of at most 49 bits nothing is rounded at all.
\<close>

section \<open>The routine\<close>

text \<open>The loop that copies the integer part; it ends at a zero byte.\<close>

partial_function (option) copy_text :: "u64 \<Rightarrow> u64 \<Rightarrow> memory \<Rightarrow> (u64 \<times> memory) option" where
  "copy_text p pos m = (if m p = 0 then Some (pos, m) else copy_text (p + 1) (pos + 1) (m(pos := m p)))"

fun digit_loop :: "nat \<Rightarrow> double \<Rightarrow> u64 \<Rightarrow> memory \<Rightarrow> u64 \<times> memory" where
  "digit_loop 0 frac_part pos m = (pos, m)"
| "digit_loop (Suc p) frac_part pos m =
     (let y = times_ten frac_part;
          n = int_of_double y;
          m = m(pos := 48 + ucast n)
      in digit_loop p (minus_double y (double_of_int n)) (pos + 1) m)"

definition double_to_string :: "double \<Rightarrow> u64 \<Rightarrow> u64 \<Rightarrow> u32 \<Rightarrow> memory \<Rightarrow> memory option" where
  "double_to_string value temp buff precision m =
     (let (value, pos, m) = if less_zero value then (negate value, buff + 1, m(buff := 45)) else (value, buff, m);
          int_part = long_of_double value;
          m = unsigned_long_to_string int_part temp m
      in do {
        (pos, m) \<leftarrow> copy_text temp pos m;
        let frac_part = minus_double value (double_of_long int_part);
        let m = m(pos := 46);
        let (pos, m) = digit_loop (nat (sint precision)) frac_part (pos + 1) m;
        Some (m(pos := 0))
      })"

section \<open>The text in memory\<close>

lemma write_bytes_append:
  "write_bytes m a (xs @ ys) = write_bytes (write_bytes m a xs) (a + of_nat (length xs)) ys"
  by (induction xs arbitrary: m a) (simp_all add: add.assoc)

lemma copy_text_cstring:
  "cstring m p s \<Longrightarrow> (\<And>i j. i \<le> length s \<Longrightarrow> j < length s \<Longrightarrow> p + of_nat i \<noteq> d + of_nat j) \<Longrightarrow>
   copy_text p d m = Some (d + of_nat (length s), write_bytes m d s)"
proof (induction s arbitrary: p d m)
  case Nil
  then show ?case by (simp add: copy_text.simps[of p])
next
  case (Cons c s)
  have str: "m p = c" "c \<noteq> 0" "cstring m (p + 1) s" using Cons.prems(1) by (simp_all add: cstring_Cons)
  have ne: "p + 1 + of_nat i \<noteq> d" if "i \<le> length s" for i
    using Cons.prems(2)[of "Suc i" 0] that by (simp add: add.assoc)
  then have "cstring (m(d := c)) (p + 1) s" using str(3) by (auto simp: cstring_def)
  moreover have "p + 1 + of_nat i \<noteq> d + 1 + of_nat j" if "i \<le> length s" "j < length s" for i j
    using Cons.prems(2)[of "Suc i" "Suc j"] that by (simp add: add.assoc)
  ultimately have "copy_text (p + 1) (d + 1) (m(d := c)) = Some (d + 1 + of_nat (length s), write_bytes (m(d := c)) (d + 1) s)"
    by (rule Cons.IH)
  then show ?case using str(1,2) by (simp add: copy_text.simps[of p] add.assoc)
qed

lemma cstring_write_bytes:
  assumes "0 \<notin> set t" and "length t < 2 ^ 32"
  shows "cstring (write_bytes m a (t @ [0])) a t"
proof -
  have "unat (of_nat i :: u64) = i" if "i \<le> length t" for i using that assms(2) by (intro unat_of_nat_less) simp
  then show ?thesis using assms by (auto simp: cstring_def write_bytes_at nth_append)
qed

text \<open>The digits the loop writes.\<close>

fun frac_digits :: "nat \<Rightarrow> double \<Rightarrow> u8 list" where
  "frac_digits 0 x = []"
| "frac_digits (Suc p) x =
     (let y = times_ten x; n = int_of_double y in (48 + ucast n) # frac_digits p (minus_double y (double_of_int n)))"

lemma length_frac_digits [simp]: "length (frac_digits p x) = p"
  by (induction p arbitrary: x) (simp_all add: Let_def)

lemma digit_loop_bytes:
  "digit_loop p x pos m = (pos + of_nat p, write_bytes m pos (frac_digits p x))"
  by (induction p arbitrary: x pos m) (simp_all add: Let_def add.assoc)

definition magnitude :: "double \<Rightarrow> double" where
  "magnitude value = (if less_zero value then negate value else value)"

definition sign_text :: "double \<Rightarrow> u8 list" where
  "sign_text value = (if less_zero value then [45] else [])"

definition number_text :: "double \<Rightarrow> nat \<Rightarrow> u8 list" where
  "number_text value p =
     (let ip = long_of_double (magnitude value)
      in decimal (unat ip) @ [46] @ frac_digits p (minus_double (magnitude value) (double_of_long ip)))"

text \<open>The call returns for every double, infinities and NaN included.\<close>

lemma double_to_string_run:
  fixes buff temp :: u64 and v :: double and m :: memory
  assumes "unat temp + 64 \<le> 2 ^ 64" and "apart temp 64 buff 64"
  defines "m2 \<equiv> unsigned_long_to_string (long_of_double (magnitude v)) temp (write_bytes m buff (sign_text v))"
  shows "double_to_string v temp buff precision m =
    Some (write_bytes m2 (buff + of_nat (length (sign_text v))) (number_text v (nat (sint precision)) @ [0]))"
proof -
  let ?s = "sign_text v" and ?ds = "decimal (unat (long_of_double (magnitude v)))"
  let ?pos = "buff + of_nat (length ?s)"
  have t21: "unat temp + 21 \<le> 2 ^ 64" using assms(1) by simp
  have ul: "cstring m2 temp ?ds" "length ?ds \<le> 20"
    unfolding m2_def using unsigned_long_bytes[OF t21] by blast+
  have ls: "length ?s \<le> 1" by (simp add: sign_text_def)
  have ne: "temp + of_nat i \<noteq> ?pos + of_nat j" if "i \<le> length ?ds" "j < length ?ds" for i j
    using apart_neq[OF assms(2), of i "length ?s + j"] that ul(2) ls by (simp add: add.assoc)
  have "copy_text temp ?pos m2 = Some (?pos + of_nat (length ?ds), write_bytes m2 ?pos ?ds)"
    by (rule copy_text_cstring[OF ul(1)]) (rule ne)
  then show ?thesis
    by (simp add: double_to_string_def m2_def magnitude_def sign_text_def number_text_def digit_loop_bytes
        write_bytes_append Let_def add_ac del: append_assoc split: if_splits)
qed

lemma double_to_string_bytes:
  fixes buff temp :: u64
  assumes "unat temp + 64 \<le> 2 ^ 64" and "apart temp 64 buff 64" and "nat (sint precision) \<le> 40"
    and nz: "0 \<notin> set (number_text value (nat (sint precision)))"
  shows "\<exists>m'. double_to_string value temp buff precision m = Some m' \<and>
    cstring m' buff (sign_text value @ number_text value (nat (sint precision)))"
proof -
  let ?s = "sign_text value" and ?t = "number_text value (nat (sint precision))"
  let ?pos = "buff + of_nat (length ?s)"
  define m2 where "m2 = unsigned_long_to_string (long_of_double (magnitude value)) temp (write_bytes m buff ?s)"
  define m' where "m' = write_bytes m2 ?pos (?t @ [0])"
  have run: "double_to_string value temp buff precision m = Some m'"
    unfolding m'_def m2_def by (rule double_to_string_run[OF assms(1,2)])
  have t21: "unat temp + 21 \<le> 2 ^ 64" using assms(1) by simp
  have l20: "length (decimal (unat (long_of_double (magnitude value)))) \<le> 20"
    using unsigned_long_bytes(2)[OF t21] .
  have len: "length ?t < 2 ^ 32" using l20 assms(3) by (simp add: number_text_def Let_def)
  have tail: "cstring m' ?pos ?t" unfolding m'_def by (rule cstring_write_bytes[OF nz len])
  have "cstring m' buff (?s @ ?t)"
  proof (cases "less_zero value")
    case True
    have "64 \<le> unat (buff - temp)" using assms(2) by (simp add: apart_def)
    then have "m2 buff = write_bytes m buff ?s buff"
      unfolding m2_def using l20 by (intro unsigned_long_bytes(3)[OF t21]) simp
    then have "m2 buff = 45" using True by (simp add: sign_text_def)
    moreover have "m' buff = m2 buff"
    proof -
      have "buff - ?pos = - 1" using True by (simp add: sign_text_def)
      then have "unat (buff - ?pos) = 2 ^ 64 - 1" by (simp only: unat64_minus_1)
      then show ?thesis using len by (simp add: m'_def write_bytes_at)
    qed
    ultimately show ?thesis using tail True len by (simp add: sign_text_def cstring_Cons)
  qed (use tail in \<open>simp add: sign_text_def\<close>)
  with run show ?thesis by blast
qed

section \<open>The digit loop\<close>

text \<open>A fraction: between zero and one, at most 53 bits.\<close>

fun fraction :: "double \<Rightarrow> bool" where
  "fraction (Number k e) \<longleftrightarrow> 0 \<le> k \<and> k \<le> 2 ^ 53 \<and> k < 2 ^ nat (- e)"
| "fraction _ \<longleftrightarrow> False"

lemma fl_0 [simp]: "fl 0 e = Number 0 e"
  by (simp add: fl_def bit_len.simps[of 0])

lemma fl_small:
  assumes "0 \<le> m" and "m \<le> 2 ^ 53" and "e \<le> 0"
  obtains q k where "fl m e = Number q (e + int k)" and "0 \<le> q" and "q \<le> 2 ^ 53" and "q * 2 ^ k = m"
proof (cases "m < 2 ^ 53")
  case True
  then show ?thesis using that[of m 0] fl_exact[of m e] assms by simp
next
  case False
  then have m: "m = 2 ^ 53" using assms(2) by simp
  have "\<not> bit_len (2 ^ 53) \<le> 53" "bit_len (2 ^ 53) \<le> 54" unfolding bit_len_le by simp_all
  then have k: "bit_len (2 ^ 53) = 54" by linarith
  have "\<not> bit_len (2 ^ 52) \<le> 52" "bit_len (2 ^ 52) \<le> 53" unfolding bit_len_le by simp_all
  then have k2: "bit_len (2 ^ 52) = 53" by linarith
  have "fl m e = Number (2 ^ 52) (e + 1)"
    using k k2 assms(3) by (simp add: fl_def m half_even_def Let_def)
  then show ?thesis using that[of "2 ^ 52" 1] m by simp
qed

text \<open>Multiplied by ten, a fraction stays below ten, also when the product is rounded; with at most
  49 bits after the point it is not rounded.\<close>

lemma times_ten_fraction:
  assumes "0 \<le> k" and "k \<le> 2 ^ 53" and "k < 2 ^ nat (- e)" and "e \<le> 0"
  obtains q j where "times_ten (Number k e) = Number q (e + int j)" and "0 \<le> q" and "q \<le> 2 ^ 53"
    and "e + int j \<le> 0" and "q < 10 * 2 ^ nat (- (e + int j))" and "- 49 \<le> e \<Longrightarrow> j = 0 \<and> q = k * 10"
proof -
  have m: "0 \<le> k * 10" "k * 10 < 2 ^ (53 + 4)" using assms(1,2) by simp_all
  have "e + int 4 \<le> 970" using assms(4) by simp
  from fl_number[OF m this] obtain q j where fl: "fl (k * 10) e = Number (int q) (e + int j)" "q \<le> 2 ^ 53" "j \<le> 4"
    and near: "2 * (int q * 2 ^ j) \<le> 2 * (k * 10) + 2 ^ j"
    and ex: "j = 0 \<Longrightarrow> int q = k * 10" and big: "j \<noteq> 0 \<Longrightarrow> 2 ^ 53 \<le> k * 10" by metis
  define E where "E = nat (- e)"
  have many: "50 \<le> E" if "j \<noteq> 0"
  proof (rule ccontr)
    assume "\<not> 50 \<le> E"
    then have "(2 :: int) ^ E \<le> 2 ^ 49" by (intro power_increasing) simp_all
    then show False using big[OF that] assms(3) unfolding E_def by simp
  qed
  have jE: "j \<le> E" using many fl(3) by (cases "j = 0") linarith+
  have "(2 :: int) ^ j \<le> 2 ^ 4" using fl(3) by (intro power_increasing) simp_all
  then have "int q * 2 ^ j < 10 * 2 ^ E"
    using near assms(3) unfolding E_def by simp
  also have "(2 :: int) ^ E = 2 ^ (E - j) * 2 ^ j" using jE by (simp flip: power_add)
  finally have lt: "int q < 10 * 2 ^ (E - j)" by (simp flip: mult.assoc)
  have ej: "e + int j \<le> 0" "nat (- (e + int j)) = E - j" using jE assms(4) unfolding E_def by auto
  have small: "j = 0 \<and> int q = k * 10" if "- 49 \<le> e"
    using many ex that unfolding E_def by (cases "j = 0") auto
  have q53: "int q \<le> 2 ^ 53" using fl(2) by (metis of_nat_le_iff of_nat_numeral of_nat_power)
  show ?thesis
    by (rule that[of "int q" j]) (use fl(1) lt ej small q53 in simp_all)
qed

text \<open>What is left of a number once its integer part is taken off: a fraction, exact when the exponent is small.\<close>

lemma fl_remainder:
  assumes q: "0 \<le> q" "q \<le> 2 ^ 53" and x: "x \<le> 0"
  shows "\<exists>r f. fl (q mod 2 ^ nat (- x)) x = Number r f \<and> fraction (Number r f) \<and>
    (nat (- x) \<le> 49 \<longrightarrow> r = q mod 2 ^ nat (- x) \<and> f = x)"
proof -
  define E where "E = nat (- x)"
  have "0 \<le> q mod 2 ^ E" by simp
  moreover have "q mod 2 ^ E \<le> 2 ^ 53" using zmod_le_nonneg_dividend[OF q(1)] q(2) by (rule order_trans)
  ultimately obtain r i where r: "fl (q mod 2 ^ E) x = Number r (x + int i)"
    "0 \<le> r" "r \<le> 2 ^ 53" "r * 2 ^ i = q mod 2 ^ E"
    using x by (rule fl_small)
  have rlt: "r * 2 ^ i < 2 ^ E" using r(4) by simp
  have "fraction (Number r (x + int i))"
  proof (cases "i \<le> E")
    case True
    then have "(2 :: int) ^ E = 2 ^ (E - i) * 2 ^ i" by (simp flip: power_add)
    then have "r < 2 ^ (E - i)" using rlt by simp
    moreover have "nat (- (x + int i)) = E - i" using True x unfolding E_def by auto
    ultimately show ?thesis using r(2,3) by simp
  next
    case False
    then have "(2 :: int) ^ E \<le> 2 ^ i" by (intro power_increasing) simp_all
    with rlt have "r * 2 ^ i < 2 ^ i" by (rule less_le_trans)
    then have "r < 1" by (simp add: mult_less_cancel_right2)
    with r(2) have "r = 0" by simp
    then show ?thesis by simp
  qed
  moreover have "fl (q mod 2 ^ E) x = Number (q mod 2 ^ E) x" if "E \<le> 49"
  proof -
    have "(2 :: int) ^ E \<le> 2 ^ 49" using that by (intro power_increasing) simp_all
    moreover have "q mod 2 ^ E < 2 ^ E" by simp
    ultimately have "q mod 2 ^ E < 2 ^ 49" by (rule less_le_trans[rotated])
    then have "\<bar>q mod 2 ^ E\<bar> < 2 ^ 53" by simp
    then show ?thesis using x by (intro fl_exact) simp_all
  qed
  ultimately show ?thesis using r(1) unfolding E_def by auto
qed

lemma digit_step:
  assumes "fraction (Number k e)"
  defines "y \<equiv> times_ten (Number k e)"
  obtains d r f where "int_of_double y = of_nat d" and "d < 10"
    and "minus_double y (double_of_int (of_nat d)) = Number r f" and "fraction (Number r f)"
    and "- 49 \<le> e \<Longrightarrow> e \<le> 0 \<Longrightarrow>
      int d = k * 10 div 2 ^ nat (- e) \<and> r = k * 10 mod 2 ^ nat (- e) \<and> f = e"
proof (cases "e \<le> 0")
  case False
  then have "k = 0" using assms(1) by simp
  then show ?thesis
    using False that[of 0 0 0] by (simp add: y_def truncated_def double_of_int_def)
next
  case True
  from assms(1) have "0 \<le> k" "k \<le> 2 ^ 53" "k < 2 ^ nat (- e)" by simp_all
  from times_ten_fraction[OF this True] obtain q j where y: "y = Number q (e + int j)"
    and q: "0 \<le> q" "q \<le> 2 ^ 53" "e + int j \<le> 0" "q < 10 * 2 ^ nat (- (e + int j))"
    and small: "- 49 \<le> e \<Longrightarrow> j = 0 \<and> q = k * 10" unfolding y_def by metis
  define E where "E = nat (- (e + int j))"
  define d where "d = nat (q div 2 ^ E)"
  have d: "int d = q div 2 ^ E" using q(1) by (simp add: d_def pos_imp_zdiv_nonneg_iff)
  have "int d * 2 ^ E + q mod 2 ^ E = q" unfolding d by (rule div_mult_mod_eq)
  moreover have "0 \<le> q mod 2 ^ E" by simp
  ultimately have "int d * 2 ^ E \<le> q" by linarith
  also have "q < 10 * 2 ^ E" using q(4) by (simp only: E_def)
  finally have d10: "d < 10" by (simp only: mult_less_cancel_right) simp
  have tr: "truncated q (e + int j) = int d"
    using q(1,3) d by (cases "e + int j = 0") (auto simp: truncated_def E_def sgn_if)
  have n: "int_of_double y = of_nat d" using d10 by (simp add: y tr Let_def)
  have "sint (of_nat d :: u32) = int d" using d10 by (simp add: signed_of_nat signed_take_bit_int_eq_self)
  then have dd: "double_of_int (of_nat d) = Number (int d) 0"
    using d10 by (simp add: double_of_int_def fl_exact)
  have "minus_double y (double_of_int (of_nat d)) = fl (q - int d * 2 ^ E) (e + int j)"
    using q(3) by (simp add: y dd Let_def E_def)
  also have "q - int d * 2 ^ E = q mod 2 ^ E" by (simp add: d minus_div_mult_eq_mod)
  finally have md: "minus_double y (double_of_int (of_nat d)) = fl (q mod 2 ^ E) (e + int j)" .
  obtain r f where r: "fl (q mod 2 ^ E) (e + int j) = Number r f" "fraction (Number r f)"
    "E \<le> 49 \<Longrightarrow> r = q mod 2 ^ E \<and> f = e + int j"
    using fl_remainder[OF q(1-3)] unfolding E_def by metis
  have "E \<le> 49 \<and> j = 0 \<and> q = k * 10" if "- 49 \<le> e" using small[OF that] that by (simp add: E_def)
  then have ex: "int d = k * 10 div 2 ^ nat (- e) \<and> r = k * 10 mod 2 ^ nat (- e) \<and> f = e" if "- 49 \<le> e"
    using r(3) d that by (auto simp: E_def)
  show ?thesis by (rule that[of d r f]) (use n d10 md r(1,2) ex in simp_all)
qed

lemma digit_byte: "d < 10 \<Longrightarrow> (ucast (of_nat d :: u32) :: u8) = of_nat d"
  by (simp add: unsigned_of_nat take_bit_nat_eq_self)

lemma frac_digits_are_digits: "fraction x \<Longrightarrow> list_all is_digit (frac_digits p x)"
proof (induction p arbitrary: x)
  case (Suc p)
  then obtain k e where x: "x = Number k e" by (cases x) auto
  obtain d r f where d: "int_of_double (times_ten x) = of_nat d" "d < 10"
    "minus_double (times_ten x) (double_of_int (of_nat d)) = Number r f" "fraction (Number r f)"
    using digit_step[OF Suc.prems[unfolded x]] unfolding x by metis
  have "list_all is_digit (frac_digits p (Number r f))" using Suc.IH[OF d(4)] .
  moreover have "is_digit (48 + ucast (of_nat d :: u32))" using digit_char[OF d(2)] d(2) by (simp add: digit_byte)
  ultimately show ?case using d by (simp add: Let_def)
qed simp

lemma parse_dec_append: "parse_dec (a @ b) = parse_dec a * 10 ^ length b + parse_dec b"
  by (induction b rule: rev_induct) (simp_all add: parse_dec_def algebra_simps)

lemma parse_dec_Cons: "parse_dec (c # s) = unat (c - 48) * 10 ^ length s + parse_dec s"
  using parse_dec_append[of "[c]" s] by (simp add: parse_dec_def)

lemma frac_digits_zero: "parse_dec (frac_digits p (Number 0 e)) = 0"
  by (induction p arbitrary: e) (simp_all add: parse_dec_def truncated_def double_of_int_def Let_def)

lemma frac_digits_exact:
  assumes "- 49 \<le> e" and "e \<le> 0"
  shows "0 \<le> k \<Longrightarrow> k < 2 ^ nat (- e) \<Longrightarrow>
    int (parse_dec (frac_digits p (Number k e))) = k * 10 ^ p div 2 ^ nat (- e)"
proof (induction p arbitrary: k)
  case (Suc p)
  let ?P = "2 ^ nat (- e) :: int" and ?y = "times_ten (Number k e)"
  have "?P \<le> 2 ^ 49" using assms by (intro power_increasing) simp_all
  then have "fraction (Number k e)" using Suc.prems by simp
  then obtain d r f where d: "int_of_double ?y = of_nat d" "d < 10"
    "minus_double ?y (double_of_int (of_nat d)) = Number r f"
    "int d = k * 10 div ?P \<and> r = k * 10 mod ?P \<and> f = e"
    using digit_step assms by metis
  have IH: "int (parse_dec (frac_digits p (Number r e))) = r * 10 ^ p div ?P"
    using d(4) by (intro Suc.IH) simp_all
  have "unat (48 + ucast (of_nat d :: u32) - 48 :: u8) = d"
    using digit_char[OF d(2)] d(2) by (simp add: digit_byte)
  then have "int (parse_dec (frac_digits (Suc p) (Number k e))) = int d * 10 ^ p + r * 10 ^ p div ?P"
    using d IH by (simp add: Let_def parse_dec_Cons)
  also have "\<dots> = (int d * 10 ^ p * ?P + r * 10 ^ p) div ?P" by simp
  also have "int d * 10 ^ p * ?P + r * 10 ^ p = (int d * ?P + r) * 10 ^ p" by (simp add: algebra_simps)
  also have "int d * ?P + r = k * 10" unfolding conjunct1[OF d(4)] conjunct1[OF conjunct2[OF d(4)]]
    by (rule div_mult_mod_eq)
  finally show ?case by (simp add: mult.assoc)
qed (simp add: parse_dec_def)

section \<open>The integer part\<close>

lemma fl_multiple:
  assumes "0 \<le> m" and "m < 2 ^ 63" and "m < 2 ^ (53 + j)" and "2 ^ j dvd m"
  obtains q k where "fl m 0 = Number q (int k)" and "q * 2 ^ k = m" and "k \<le> j"
proof -
  define n where "n = nat m"
  have mn: "m = int n" using assms(1) by (simp add: n_def)
  define k where "k = bit_len n - 53"
  have "n < 2 ^ (53 + j)" "n < 2 ^ 63"
    using assms(2,3) unfolding mn by (metis of_nat_less_iff of_nat_numeral of_nat_power)+
  then have k: "k \<le> j" "k \<le> 10" using bit_len_le[of n "53 + j"] bit_len_le[of n 63] by (simp_all add: k_def)
  have "2 ^ j dvd n" using assms(4) unfolding mn by (metis of_nat_dvd_iff of_nat_numeral of_nat_power)
  then have "2 ^ k dvd n" using k(1) by (meson dvd_trans le_imp_power_dvd)
  then have q: "half_even n k * 2 ^ k = n" by (rule half_even_exact)
  then have "half_even n k \<le> n" by (metis le_add1 mult.right_neutral mult_le_mono2 one_le_numeral one_le_power)
  then have "half_even n k < 2 ^ 63" using \<open>n < 2 ^ 63\<close> by simp
  then have "bit_len (half_even n k) \<le> 63" by (simp only: bit_len_le)
  then have "fl m 0 = Number (sgn m * int (half_even n k)) (int k)"
    using k(2) by (simp add: fl_def mn Let_def flip: k_def)
  moreover have "sgn m * int (half_even n k) = int (half_even n k)"
    by (cases "n = 0") (simp_all add: mn half_even_def)
  moreover have "int (half_even n k) * 2 ^ k = m" using q unfolding mn by (metis of_nat_mult of_nat_numeral of_nat_power)
  ultimately show ?thesis using that[of "int (half_even n k)" k] k(1) by simp
qed

lemma fraction_part:
  assumes a: "0 \<le> a" "a < 2 ^ 53" and t: "truncated a e < 2 ^ 63"
  defines "ip \<equiv> long_of_double (Number a e)"
  obtains k f where "minus_double (Number a e) (double_of_long ip) = Number k f" and "fraction (Number k f)"
    and "unat ip = nat (truncated a e)" and "e < 0 \<Longrightarrow> k = a mod 2 ^ nat (- e) \<and> f = e" and "0 \<le> e \<Longrightarrow> k = 0"
proof -
  define t where "t = truncated a e"
  have t0: "0 \<le> t" using a(1) by (auto simp: t_def truncated_def sgn_if div_int_pos_iff)
  have t63: "t < 2 ^ 63" using assms(3) by (simp add: t_def)
  have ip: "ip = of_int t" using t0 t63 by (simp add: ip_def Let_def flip: t_def)
  have si: "sint ip = t" using t0 t63 by (simp add: ip signed_of_int signed_take_bit_int_eq_self)
  have un: "unat ip = nat t" using t0 t63 by (simp add: ip unsigned_of_int take_bit_int_eq_self)
  have frac: "\<exists>k f. minus_double (Number a e) (double_of_long ip) = Number k f \<and> fraction (Number k f) \<and>
      (e < 0 \<longrightarrow> k = a mod 2 ^ nat (- e) \<and> f = e) \<and> (0 \<le> e \<longrightarrow> k = 0)"
  proof (cases "e < 0")
    case True
    let ?P = "2 ^ nat (- e) :: int"
    have te: "t = a div ?P" using True a(1) by (cases "a = 0") (simp_all add: t_def truncated_def sgn_if)
    have "t \<le> a" using a(1) zdiv_mono2[of a 1 ?P] by (simp add: te)
    then have dl: "double_of_long ip = Number t 0" using t0 a(2) by (simp add: double_of_long_def si fl_exact)
    have "0 \<le> a mod ?P" "a mod ?P < ?P" by simp_all
    moreover have "a mod ?P \<le> a" using a(1) by (rule zmod_le_nonneg_dividend)
    ultimately have "fl (a mod ?P) e = Number (a mod ?P) e" "fraction (Number (a mod ?P) e)"
      using True a(2) by (auto intro!: fl_exact)
    moreover have "a - t * ?P = a mod ?P" by (simp add: te minus_div_mult_eq_mod)
    ultimately show ?thesis using True by (simp add: dl Let_def)
  next
    case False
    have te: "t = a * 2 ^ nat e" using False by (simp add: t_def truncated_def)
    have lt: "t < 2 ^ (53 + nat e)" using a(2) by (simp add: te power_add)
    have "2 ^ nat e dvd t" by (simp add: te)
    from fl_multiple[OF t0 t63 lt this] obtain q k where
      q: "fl t 0 = Number q (int k)" "q * 2 ^ k = t" "k \<le> nat e" .
    have "(2 :: int) ^ nat e = 2 ^ nat (e - int k) * 2 ^ k"
      using q(3) False by (simp add: nat_diff_distrib flip: power_add)
    then have "a * 2 ^ nat (e - int k) * 2 ^ k = q * 2 ^ k" using q(2) te by (simp add: mult.assoc)
    then have "a * 2 ^ nat (e - int k) = q" by simp
    then have "minus_double (Number a e) (double_of_long ip) = Number 0 (int k)"
      using q(1,3) False by (cases "e = int k") (auto simp: double_of_long_def si min_def Let_def)
    then show ?thesis using False by (intro exI[of _ 0] exI[of _ "int k"]) simp
  qed
  show ?thesis using frac un that by (auto simp: t_def)
qed

text \<open>Integer and fractional digits together, when nothing was rounded.\<close>

lemma parse_number:
  assumes "fraction (Number k f)" and ip: "unat ip = nat \<bar>truncated s e\<bar>"
    and k: "e < 0 \<Longrightarrow> k = \<bar>s\<bar> mod 2 ^ nat (- e) \<and> f = e" "0 \<le> e \<Longrightarrow> k = 0" and e49: "- 49 \<le> e"
  shows "int (parse_dec (decimal (unat ip) @ frac_digits p (Number k f))) = \<bar>s\<bar> * 2 ^ nat e * 10 ^ p div 2 ^ nat (- e)"
proof (cases "e < 0")
  case True
  let ?P = "2 ^ nat (- e) :: int" and ?ds = "decimal (unat ip)" and ?fs = "frac_digits p (Number k f)"
  have "0 \<le> k" "k < ?P" using k(1)[OF True] by simp_all
  then have "int (parse_dec ?fs) = k * 10 ^ p div ?P"
    using frac_digits_exact[OF e49, of k p] k(1)[OF True] True by simp
  moreover have "int (parse_dec ?ds) = \<bar>s\<bar> div ?P"
    using True by (cases "s = 0") (simp_all add: parse_decimal ip truncated_def abs_mult abs_of_nonneg div_int_pos_iff)
  ultimately have "int (parse_dec (?ds @ ?fs)) = \<bar>s\<bar> div ?P * 10 ^ p + k * 10 ^ p div ?P"
    by (simp add: parse_dec_append)
  also have "\<dots> = (\<bar>s\<bar> div ?P * 10 ^ p * ?P + k * 10 ^ p) div ?P" by simp
  also have "\<bar>s\<bar> div ?P * 10 ^ p * ?P + k * 10 ^ p = (\<bar>s\<bar> div ?P * ?P + \<bar>s\<bar> mod ?P) * 10 ^ p"
    unfolding conjunct1[OF k(1)[OF True]] by (simp only: distrib_left distrib_right ac_simps)
  also have "\<bar>s\<bar> div ?P * ?P + \<bar>s\<bar> mod ?P = \<bar>s\<bar>" by (rule div_mult_mod_eq)
  finally show ?thesis using True by simp
next
  case False
  then show ?thesis
    using k(2) by (simp add: parse_dec_append frac_digits_zero parse_decimal ip truncated_def abs_mult)
qed

section \<open>Properties\<close>

text \<open>C27: \<open>double_to_string\<close> prints every finite number below \<open>2 ^ 63\<close>: the buffer holds the sign, the
  integer part, a point and exactly \<open>precision\<close> decimal digits (a rounded product never gives the
  character after \<open>9\<close>), terminated. For a number with at most 49 bits after the point nothing is
  rounded on the way, and the digits read back as the value cut off (not rounded) at that place.\<close>

theorem double_to_string_text:
  assumes "\<bar>s\<bar> < 2 ^ 53" and "\<bar>truncated s e\<bar> < 2 ^ 63"
    and "unat temp + 64 \<le> 2 ^ 64" and "apart temp 64 buff 64" and "nat (sint precision) \<le> 40"
  shows "\<exists>m' ds fs. double_to_string (Number s e) temp buff precision m = Some m' \<and>
    cstring m' buff ((if s < 0 then [45] else []) @ ds @ [46] @ fs) \<and>
    list_all is_digit (ds @ fs) \<and> length fs = nat (sint precision) \<and>
    int (parse_dec ds) = \<bar>truncated s e\<bar> \<and>
    (- 49 \<le> e \<longrightarrow> int (parse_dec (ds @ fs)) = \<bar>s\<bar> * 2 ^ nat e * 10 ^ nat (sint precision) div 2 ^ nat (- e))"
proof -
  let ?p = "nat (sint precision)" and ?P = "2 ^ nat (- e) :: int"
  define ip where "ip = long_of_double (Number \<bar>s\<bar> e)"
  have abs: "truncated \<bar>s\<bar> e = \<bar>truncated s e\<bar>" by (auto simp: truncated_def abs_mult sgn_if div_int_pos_iff)
  obtain k f where x: "minus_double (Number \<bar>s\<bar> e) (double_of_long ip) = Number k f" "fraction (Number k f)"
    and ip: "unat ip = nat \<bar>truncated s e\<bar>"
    and k: "e < 0 \<Longrightarrow> k = \<bar>s\<bar> mod ?P \<and> f = e" "0 \<le> e \<Longrightarrow> k = 0"
    using fraction_part[of "\<bar>s\<bar>" e, folded ip_def] assms(1,2) unfolding abs by auto
  let ?fs = "frac_digits ?p (Number k f)" and ?ds = "decimal (unat ip)"
  have mag: "magnitude (Number s e) = Number \<bar>s\<bar> e" by (simp add: magnitude_def)
  have nt: "number_text (Number s e) ?p = ?ds @ [46] @ ?fs"
    by (simp only: number_text_def mag ip_def[symmetric] Let_def x(1))
  have fs: "list_all is_digit ?fs" using x(2) by (rule frac_digits_are_digits)
  have ds: "list_all is_digit ?ds" using decimal_digits by blast
  have nz: "0 \<notin> set (number_text (Number s e) ?p)" using fs ds is_digit_nz by (auto simp: nt list_all_iff)
  have bytes: "\<exists>m'. double_to_string (Number s e) temp buff precision m = Some m' \<and>
      cstring m' buff ((if s < 0 then [45] else []) @ ?ds @ [46] @ ?fs)"
    using double_to_string_bytes[OF assms(3,4,5) nz] unfolding nt by (simp add: sign_text_def)
  have ex: "- 49 \<le> e \<longrightarrow> int (parse_dec (?ds @ ?fs)) = \<bar>s\<bar> * 2 ^ nat e * 10 ^ ?p div ?P"
    using parse_number[OF x(2) ip k] by blast
  show ?thesis
    by (intro ex_forward[OF bytes] exI[of _ ?ds] exI[of _ ?fs]) (use ds fs ex in \<open>simp add: parse_decimal ip\<close>)
qed

text \<open>\<open>- 2.75\<close> with two digits; and with one digit, where the last is cut off.\<close>

theorem double_to_string_text_witness:
  "\<exists>m' ds fs. double_to_string (Number (- 11) (- 2)) 0x1000 0x2000 1 (\<lambda>_. 0) = Some m' \<and>
    cstring m' 0x2000 ([45] @ ds @ [46] @ fs) \<and> parse_dec (ds @ fs) = 27"
  using double_to_string_text[of "- 11" "- 2" "0x1000" "0x2000" 1 "\<lambda>_. 0"]
  by (auto simp: truncated_def apart_def)

end
