(* ===== verification/Spinlock.thy ===== *)
theory Spinlock
  imports Pmm
begin

text \<open>
  The spin lock, \<^verbatim>\<open>src/kernel/source/hardware/lock/spinlock.c\<close>, and its one user: every core runs
  \<open>physical_memory_init\<close> at boot, so \<open>init_blocks\<close> runs once per core under \<open>init_memory_lock\<close>.
  A step of the system is one atomic test-and-set, one iteration of the loop, or the release, by any
  core; the interleaving is arbitrary.
\<close>

section \<open>The lock\<close>

text \<open>\<open>atomic_flag_test_and_set\<close> and \<open>atomic_flag_clear\<close> on the flag; one round of the waiting loop
  tells whether the lock was taken.\<close>

definition test_and_set :: "bool \<Rightarrow> bool \<times> bool" where
  "test_and_set flag = (flag, True)"

definition acquire_round :: "bool \<Rightarrow> bool \<times> bool" where
  "acquire_round flag = (let (old, flag) = test_and_set flag in (\<not> old, flag))"

definition release_lock :: "bool \<Rightarrow> bool" where
  "release_lock flag = False"

text \<open>Alone, \<open>acquire_lock\<close> returns in its first round when the flag is clear and never when it is set.\<close>

partial_function (option) acquire_lock :: "bool \<Rightarrow> bool option" where
  "acquire_lock flag =
     (let (got, flag) = acquire_round flag in if got then Some flag else acquire_lock flag)"

section \<open>Cores\<close>

datatype core =
    Waiting                 \<comment> \<open>in the loop of \<open>acquire_lock\<close>\<close>
  | Filling nat u64         \<comment> \<open>before iteration \<open>i\<close>, with the local \<open>current_free_block\<close>\<close>
  | Finished

record system =
  sys_lock :: bool
  sys_pmm :: pmm
  sys_core :: "nat \<Rightarrow> core"

definition boot_system :: "pmm \<Rightarrow> system" where
  "boot_system s = \<lparr>sys_lock = False, sys_pmm = s, sys_core = (\<lambda>_. Waiting)\<rparr>"

inductive core_step :: "bootboot \<Rightarrow> nat \<Rightarrow> system \<Rightarrow> system \<Rightarrow> bool" for bb c where
  spin: "sys_core S c = Waiting \<Longrightarrow> acquire_round (sys_lock S) = (False, l) \<Longrightarrow>
    core_step bb c S (S\<lparr>sys_lock := l\<rparr>)"
| enter: "sys_core S c = Waiting \<Longrightarrow> acquire_round (sys_lock S) = (True, l) \<Longrightarrow>
    core_step bb c S (S\<lparr>sys_lock := l, sys_core := (sys_core S)(c := Filling 0 0)\<rparr>)"
| iterate: "sys_core S c = Filling i cfb \<Longrightarrow> i < num_mmap_entries bb \<Longrightarrow>
    init_block_step bb i (sys_pmm S, cfb) = (p, cfb') \<Longrightarrow>
    core_step bb c S (S\<lparr>sys_pmm := p, sys_core := (sys_core S)(c := Filling (Suc i) cfb')\<rparr>)"
| leave: "sys_core S c = Filling i cfb \<Longrightarrow> i = num_mmap_entries bb \<Longrightarrow>
    core_step bb c S (S\<lparr>sys_lock := release_lock (sys_lock S), sys_core := (sys_core S)(c := Finished)\<rparr>)"

inductive_cases core_step_elim: "core_step bb c S S'"

inductive reachable :: "bootboot \<Rightarrow> nat \<Rightarrow> pmm \<Rightarrow> system \<Rightarrow> bool" for bb n s0 where
  start: "reachable bb n s0 (boot_system s0)"
| step: "reachable bb n s0 S \<Longrightarrow> c < n \<Longrightarrow> core_step bb c S S' \<Longrightarrow> reachable bb n s0 S'"

section \<open>Mutual exclusion and serialisation\<close>

lemma acquire_round_iff: "acquire_round flag = (got, flag') \<longleftrightarrow> got = (\<not> flag) \<and> flag'"
  by (auto simp: acquire_round_def test_and_set_def)

lemma acquire_lock_free: "acquire_lock False = Some True"
  by (simp add: acquire_lock.simps acquire_round_def test_and_set_def)

definition finished :: "system \<Rightarrow> nat \<Rightarrow> nat set" where
  "finished S n = {c. c < n \<and> sys_core S c = Finished}"

definition done_runs :: "bootboot \<Rightarrow> nat \<Rightarrow> pmm \<Rightarrow> pmm" where
  "done_runs bb k s = (init_blocks bb ^^ k) s"

definition partial_fill :: "bootboot \<Rightarrow> nat \<Rightarrow> pmm \<Rightarrow> pmm \<times> u64" where
  "partial_fill bb i s = fold (init_block_step bb) [0..<i] (s, 0)"

text \<open>The invariant: the lock is held exactly when a core is between entry and exit, only one core is,
  and the allocator is what as many complete runs as there are finished cores make of the initial
  one, plus the iterations of the run in progress.\<close>

definition lock_inv :: "bootboot \<Rightarrow> nat \<Rightarrow> pmm \<Rightarrow> system \<Rightarrow> bool" where
  "lock_inv bb n s0 S \<longleftrightarrow>
     (let base = done_runs bb (card (finished S n)) s0 in
      (\<forall>c\<ge>n. sys_core S c = Waiting) \<and>
      (if sys_lock S
       then \<exists>c i cfb. c < n \<and> sys_core S c = Filling i cfb \<and> i \<le> num_mmap_entries bb \<and>
              (sys_pmm S, cfb) = partial_fill bb i base \<and>
              (\<forall>d. d \<noteq> c \<longrightarrow> (\<forall>j x. sys_core S d \<noteq> Filling j x))
       else sys_pmm S = base \<and> (\<forall>d j x. sys_core S d \<noteq> Filling j x)))"

lemma finished_other:
  "sys_core S c \<noteq> Finished \<Longrightarrow> x \<noteq> Finished \<Longrightarrow> sys_core S' = (sys_core S)(c := x) \<Longrightarrow> finished S' n = finished S n"
  by (auto simp: finished_def)

lemma lock_inv_filling:
  assumes "lock_inv bb n s0 S" and "sys_core S c = Filling i cfb"
  shows "sys_lock S \<and> (sys_pmm S, cfb) = partial_fill bb i (done_runs bb (card (finished S n)) s0) \<and>
    (\<forall>d. d \<noteq> c \<longrightarrow> (\<forall>j x. sys_core S d \<noteq> Filling j x))"
proof -
  have lk: "sys_lock S" using assms by (auto simp: lock_inv_def Let_def split: if_splits)
  then obtain c0 i0 x0 where c0: "sys_core S c0 = Filling i0 x0"
    "(sys_pmm S, x0) = partial_fill bb i0 (done_runs bb (card (finished S n)) s0)"
    "\<forall>d. d \<noteq> c0 \<longrightarrow> (\<forall>j x. sys_core S d \<noteq> Filling j x)"
    using assms(1) by (auto simp: lock_inv_def Let_def)
  then have "c0 = c" using assms(2) by metis
  with c0 assms(2) lk show ?thesis by simp
qed

lemma lock_inv_step:
  assumes inv: "lock_inv bb n s0 S" and c: "c < n" and st: "core_step bb c S S'"
  shows "lock_inv bb n s0 S'"
  using st
proof (cases rule: core_step.cases)
  case (spin l)
  then have "sys_lock S" "l" by (auto simp: acquire_round_iff)
  then have "S' = S" using spin by simp
  then show ?thesis using inv by simp
next
  case (enter l)
  then have l: "\<not> sys_lock S" "l" by (auto simp: acquire_round_iff)
  have fin: "finished S' n = finished S n" using enter by (intro finished_other[of S c]) auto
  show ?thesis
    using inv l enter c fin by (auto simp: lock_inv_def Let_def partial_fill_def)
next
  case (iterate i cfb p cfb')
  have fin: "finished S' n = finished S n" using iterate by (intro finished_other[of S c]) auto
  have lk: "sys_lock S" using lock_inv_filling[OF inv iterate(2)] by simp
  let ?base = "done_runs bb (card (finished S n)) s0"
  have cur: "(sys_pmm S, cfb) = partial_fill bb i ?base"
    and others: "\<forall>d. d \<noteq> c \<longrightarrow> (\<forall>j x. sys_core S d \<noteq> Filling j x)"
    using lock_inv_filling[OF inv iterate(2)] by simp_all
  have "(p, cfb') = partial_fill bb (Suc i) ?base"
    using iterate(4) cur by (simp add: partial_fill_def)
  then show ?thesis
    using inv lk iterate(1,3) c fin others by (auto simp: lock_inv_def Let_def)
next
  case (leave i cfb)
  have lk: "sys_lock S" using lock_inv_filling[OF inv leave(2)] by simp
  let ?base = "done_runs bb (card (finished S n)) s0"
  have cur: "(sys_pmm S, cfb) = partial_fill bb i ?base"
    and others: "\<forall>d. d \<noteq> c \<longrightarrow> (\<forall>j x. sys_core S d \<noteq> Filling j x)"
    using lock_inv_filling[OF inv leave(2)] by simp_all
  have fin: "finished S' n = insert c (finished S n)" "c \<notin> finished S n" "finite (finished S n)"
    using leave c by (auto simp: finished_def)
  then have "sys_pmm S = done_runs bb (card (finished S' n)) s0"
    using cur leave(3) by (simp add: done_runs_def init_blocks_def partial_fill_def flip: fst_conv)
      (metis fst_conv)
  then show ?thesis
    using inv leave(1) c others by (auto simp: lock_inv_def Let_def release_lock_def)
qed

lemma reachable_inv: "reachable bb n s0 S \<Longrightarrow> lock_inv bb n s0 S"
proof (induction rule: reachable.induct)
  case start
  then show ?case by (auto simp: lock_inv_def boot_system_def finished_def done_runs_def)
qed (rule lock_inv_step)

text \<open>No deadlock: while a core has work left, some core can make a step that changes the system.\<close>

lemma progress:
  assumes inv: "lock_inv bb n s0 S" and c: "c < n" "sys_core S c \<noteq> Finished"
  shows "\<exists>d<n. \<exists>S'. core_step bb d S S' \<and> S' \<noteq> S"
proof -
  have leaves: "\<exists>S'. core_step bb d S S' \<and> S' \<noteq> S"
    if "sys_core S d = Filling i x" "i \<le> num_mmap_entries bb" for d i x
  proof (cases "i < num_mmap_entries bb")
    case True
    obtain p y where "init_block_step bb i (sys_pmm S, x) = (p, y)" by fastforce
    with core_step.iterate[OF that(1) True this]
    show ?thesis by (metis (no_types, lifting) core.inject fun_upd_same n_not_Suc_n system.select_convs(3)
          system.surjective system.update_convs(2) system.update_convs(3) that(1))
  next
    case False
    then have "i = num_mmap_entries bb" using that(2) by simp
    from core_step.leave[OF that(1) this]
    show ?thesis by (metis core.distinct(5) fun_upd_same system.select_convs(3) system.surjective
          system.update_convs(1) system.update_convs(3) that(1))
  qed
  show ?thesis
  proof (cases "sys_lock S")
    case True
    then show ?thesis using inv leaves by (auto simp: lock_inv_def Let_def)
  next
    case False
    then have w: "sys_core S c = Waiting"
      using inv c by (cases "sys_core S c") (auto simp: lock_inv_def Let_def)
    have "acquire_round (sys_lock S) = (True, True)" using False by (simp add: acquire_round_iff)
    from core_step.enter[OF w this] False c(1) show ?thesis
      by (metis system.select_convs(1) system.surjective system.update_convs(1) system.update_convs(3))
  qed
qed

text \<open>A waiting core that finds the lock free can run to the end of \<open>init_blocks\<close> undisturbed.\<close>

lemma core_runs:
  assumes r: "reachable bb n s0 S" and c: "c < n" "sys_core S c = Waiting" and free: "\<not> sys_lock S"
  shows "reachable bb n s0 (S\<lparr>sys_pmm := init_blocks bb (sys_pmm S), sys_lock := False,
    sys_core := (sys_core S)(c := Finished)\<rparr>)"
proof -
  let ?at = "\<lambda>i. S\<lparr>sys_lock := True, sys_pmm := fst (partial_fill bb i (sys_pmm S)),
    sys_core := (sys_core S)(c := Filling i (snd (partial_fill bb i (sys_pmm S))))\<rparr>"
  have "reachable bb n s0 (?at i)" if "i \<le> num_mmap_entries bb" for i
    using that
  proof (induction i)
    case 0
    have "acquire_round (sys_lock S) = (True, True)" using free by (simp add: acquire_round_iff)
    from reachable.step[OF r c(1) core_step.enter[OF c(2) this]]
    show ?case by (simp add: partial_fill_def fun_upd_def)
  next
    case (Suc i)
    have "reachable bb n s0 (?at i)" by (rule Suc.IH) (use Suc.prems in simp)
    moreover have "core_step bb c (?at i) (?at (Suc i))"
      using core_step.iterate[of "?at i" c i "snd (partial_fill bb i (sys_pmm S))" bb
          "fst (partial_fill bb (Suc i) (sys_pmm S))" "snd (partial_fill bb (Suc i) (sys_pmm S))"] Suc.prems
      by (simp add: partial_fill_def)
    ultimately show ?case using c(1) by (blast intro: reachable.step)
  qed
  from reachable.step[OF this[OF order_refl] c(1)
      core_step.leave[of "?at (num_mmap_entries bb)" c "num_mmap_entries bb" _ bb]]
  show ?thesis by (simp add: partial_fill_def init_blocks_def release_lock_def)
qed

text \<open>When every core has finished, the lock is free and the table is what \<open>n\<close> runs make of it.\<close>

lemma all_finished:
  assumes "reachable bb n s0 S" and "\<forall>c<n. sys_core S c = Finished"
  shows "sys_pmm S = (init_blocks bb ^^ n) s0"
proof -
  have inv: "lock_inv bb n s0 S" by (rule reachable_inv[OF assms(1)])
  have "finished S n = {..<n}" using assms(2) by (auto simp: finished_def)
  moreover have "\<not> sys_lock S" using inv assms(2) by (auto simp: lock_inv_def Let_def)
  ultimately show ?thesis using inv by (simp add: lock_inv_def Let_def done_runs_def)
qed

section \<open>Properties\<close>

text \<open>C8: The spin lock excludes, serialises and does not deadlock. In every interleaving of the cores
  that run \<open>init_blocks\<close>, no two cores are inside the loop at a time; whenever the lock is free the
  allocator is exactly the result of running \<open>init_blocks\<close> once for every core that has finished; and
  as long as some core has not finished, some core can go on.\<close>

theorem init_blocks_serialised:
  assumes "reachable bb n s0 S"
  shows "(sys_core S c = Filling i x \<and> sys_core S d = Filling j y \<longrightarrow> c = d) \<and>
    (\<not> sys_lock S \<longrightarrow> sys_pmm S = (init_blocks bb ^^ card (finished S n)) s0) \<and>
    (c < n \<and> sys_core S c \<noteq> Finished \<longrightarrow> (\<exists>e<n. \<exists>S'. core_step bb e S S' \<and> S' \<noteq> S))"
proof (intro conjI impI)
  have inv: "lock_inv bb n s0 S" by (rule reachable_inv[OF assms])
  show "c = d" if "sys_core S c = Filling i x \<and> sys_core S d = Filling j y"
    using lock_inv_filling[OF inv, of c i x] that by metis
  show "sys_pmm S = (init_blocks bb ^^ card (finished S n)) s0" if "\<not> sys_lock S"
    using inv that by (simp add: lock_inv_def Let_def done_runs_def)
  show "\<exists>e<n. \<exists>S'. core_step bb e S S' \<and> S' \<noteq> S" if "c < n \<and> sys_core S c \<noteq> Finished"
    using progress[OF inv] that by blast
qed

theorem init_blocks_serialised_witness:
  "\<exists>S. reachable sample_boot 2 pmm_bss S \<and> sys_lock S \<and> sys_core S 0 = Filling 0 0 \<and>
    sys_core S 1 \<noteq> Filling 0 0"
proof -
  let ?B = "boot_system pmm_bss"
  let ?S = "?B\<lparr>sys_lock := True, sys_core := (sys_core ?B)(0 := Filling 0 0)\<rparr>"
  have "core_step sample_boot 0 ?B ?S"
    by (rule core_step.enter) (simp_all add: boot_system_def acquire_round_def test_and_set_def)
  from reachable.step[OF reachable.start[of sample_boot 2 pmm_bss] _ this]
  have "reachable sample_boot 2 pmm_bss ?S" by simp
  then show ?thesis
    using init_blocks_serialised[of sample_boot 2 pmm_bss ?S 0 0 0 1 0 0] by auto
qed

end
