(* ===== verification/Cpu.thy ===== *)
theory Cpu
  imports Libc_String Machine_IO
begin

text \<open>
  Processor access, \<^verbatim>\<open>src/kernel/source/x86_64/cpu.c\<close>: \<open>cpuid\<close>, the time stamp counter, model-specific
  registers and the interrupt flag. Values come from the answer stream of the world, so the lemmas
  hold for every processor.
\<close>

section \<open>Instructions\<close>

text \<open>\<open>cpuid\<close> returns four registers, in the order eax, ebx, ecx, edx.\<close>

type_synonym cpuid_result = "u32 \<times> u32 \<times> u32 \<times> u32"

definition cpuid :: "u32 \<Rightarrow> io_world \<Rightarrow> cpuid_result \<times> io_world" where
  "cpuid leaf w =
     (let (a, w) = ask w; (b, w) = ask w; (c, w) = ask w; (d, w) = ask w;
          r = (ucast a, ucast b, ucast c, ucast d)
      in (r, emit (Cpuid leaf (ucast a) (ucast b) (ucast c) (ucast d)) w))"

definition read_msr :: "u32 \<Rightarrow> io_world \<Rightarrow> u64 \<times> io_world" where
  "read_msr msr w =
     (let (a, w) = ask w;
          low = (ucast a :: u32); high = (ucast (drop_bit 32 a) :: u32)
      in (push_bit 32 (ucast high) OR ucast low, emit (Rdmsr msr low high) w))"

text \<open>The source computes both halves from the same 32 bits.\<close>

definition write_msr :: "u32 \<Rightarrow> u64 \<Rightarrow> io_world \<Rightarrow> io_world" where
  "write_msr msr v =
     (let low = (ucast v :: u32); high = (ucast v :: u32) in emit (Wrmsr msr low high))"

definition get_current_core_id :: "io_world \<Rightarrow> u32 \<times> io_world" where
  "get_current_core_id w =
     (let ((eax, ebx, ecx, edx), w) = cpuid 1 w in (drop_bit 24 ebx, w))"

definition read_tsc :: "io_world \<Rightarrow> u64 \<times> io_world" where
  "read_tsc w =
     (let (a, w) = ask w;
          lo = (ucast a :: u32); hi = (ucast (drop_bit 32 a) :: u32);
          v = push_bit 32 (ucast hi) OR ucast lo
      in (v, emit (Rdtsc v) w))"

definition disable_interrupts :: "io_world \<Rightarrow> io_world" where
  "disable_interrupts = emit Cli"

definition enable_interrupts :: "io_world \<Rightarrow> io_world" where
  "enable_interrupts = emit Sti"

definition are_interrupts_enabled :: "io_world \<Rightarrow> bool \<times> io_world" where
  "are_interrupts_enabled w = (let (flags, w) = ask w in (bit flags 9, emit (ReadFlags flags) w))"

text \<open>\<open>hcf\<close> halts for ever; the trace up to the first halt.\<close>

definition hcf :: "io_world \<Rightarrow> io_world" where
  "hcf w = emit Hlt (emit Cli w)"

definition get_rsp :: "io_world \<Rightarrow> u64 \<times> io_world" where
  "get_rsp w = (let (rsp, w) = ask w in (rsp, emit (ReadRsp rsp) w))"

section \<open>Identification\<close>

record cpu_info =
  cpu_model :: u32
  cpu_famiy :: u32
  cpu_model_name :: "u8 list"

definition chars_of :: "u8 list \<Rightarrow> string" where
  "chars_of bs = map (\<lambda>b. char_of (unat b)) (takeWhile (\<lambda>b. b \<noteq> 0) bs)"

definition vendor_bytes :: "cpuid_result \<Rightarrow> u8 list" where
  "vendor_bytes r = (case r of (eax, ebx, ecx, edx) \<Rightarrow>
     bytes_of 4 ebx @ bytes_of 4 edx @ bytes_of 4 ecx @ [0])"

definition detect_cpu :: "cpu_info \<times> io_world \<Rightarrow> cpu_info \<times> io_world" where
  "detect_cpu iw =
     (let (inf, w) = iw;
          (vendor, w) = cpuid 0 w;
          ((eax, ebx, ecx, edx), w) = cpuid 1 w;
          family = drop_bit 8 eax AND 0xF;
          inf = inf\<lparr>cpu_famiy := family\<rparr>;
          model = drop_bit 4 eax AND 0xF;
          inf = inf\<lparr>cpu_model := model\<rparr>;
          stepping = eax AND 0xF;
          w = print_call ''CPU Vendor: %s\<newline>'' 0xffff [VStr (chars_of (vendor_bytes vendor))] w;
          w = print_call ''CPU Family: %d, Model: %d, Stepping: %d\<newline>'' 0xffff
                [VInt family, VInt model, VInt stepping] w;
          w = (if bit edx 25 then print_call ''SSE supported\<newline>'' 0xffff [] w else w);
          w = (if bit ecx 28 then print_call ''AVX supported\<newline>'' 0xffff [] w else w)
      in (inf, w))"

definition is_cpuid_leaf_supported :: "u32 \<Rightarrow> io_world \<Rightarrow> bool \<times> io_world" where
  "is_cpuid_leaf_supported leaf w = (let ((eax, _), w) = cpuid 0 w in (leaf \<le> eax, w))"

text \<open>The family, model and stepping \<open>identify_cpu\<close> shows; the model test looks at the family after the
  extended family was added.\<close>

definition cpu_signature :: "u32 \<Rightarrow> u32 \<times> u32 \<times> u32" where
  "cpu_signature eax =
     (let stepping = eax AND 0xF;
          model = drop_bit 4 eax AND 0xF;
          family = drop_bit 8 eax AND 0xF;
          extended_model = drop_bit 16 eax AND 0xF;
          extended_family = drop_bit 20 eax AND 0xFF;
          family = (if family = 0xF then family + extended_family else family);
          model = (if family = 0x6 \<or> family = 0xF then model + push_bit 4 extended_model else model)
      in (family, model, stepping))"

fun brand_registers :: "nat \<Rightarrow> nat \<Rightarrow> io_world \<Rightarrow> u8 list \<times> io_world" where
  "brand_registers i 0 w = ([], w)"
| "brand_registers i (Suc n) w =
     (let ((a, b, c, d), w) = cpuid (0x80000002 + of_nat i) w;
          (rest, w) = brand_registers (Suc i) n w
      in (bytes_of 4 a @ bytes_of 4 b @ bytes_of 4 c @ bytes_of 4 d @ rest, w))"

definition print_feature :: "bool \<Rightarrow> string \<Rightarrow> io_world \<Rightarrow> io_world" where
  "print_feature present s w = (if present then print_call s 0xFFFF55 [] w else w)"

definition identify_cpu :: "cpu_info \<times> io_world \<Rightarrow> cpu_info \<times> io_world" where
  "identify_cpu iw =
     (let (inf, w) = iw;
          Color = 0xFFFF55;
          (vendor, w) = cpuid 0 w;
          w = print_call ''CPU Vendor: %s\<newline>'' Color [VStr (chars_of (vendor_bytes vendor))] w;
          ((eax, _), w) = cpuid 1 w;
          (family, model, stepping) = cpu_signature eax;
          w = print_call ''CPU Family: %d, Model: %d, Stepping: %d\<newline>'' Color
                [VInt family, VInt model, VInt stepping] w;
          ((eax, _), w) = cpuid 0x80000000 w;
          (inf, w) =
            (if 0x80000004 \<le> eax then
               let (brand, w) = brand_registers 0 3 w;
                   inf = inf\<lparr>cpu_model_name := take 3 brand @ drop 3 (cpu_model_name inf)\<rparr>;
                   inf = inf\<lparr>cpu_model_name := (cpu_model_name inf)[59 := 0]\<rparr>;
                   brand_trimmed = dropWhile (\<lambda>b. b = 32) (brand @ [0])
               in (inf, print_call ''CPU Brand: %s\<newline>'' Color [VStr (chars_of brand_trimmed)] w)
             else (inf, print_call ''CPU Brand: Not supported\<newline>'' Color [] w));
          ((eax, ebx, ecx, edx), w) = cpuid 1 w;
          w = print_call ''CPU Features: '' Color [] w;
          w = print_feature (bit edx 0) ''FPU '' w;
          w = print_feature (bit edx 23) ''MMX '' w;
          w = print_feature (bit edx 25) ''SSE '' w;
          w = print_feature (bit edx 26) ''SSE2 '' w;
          w = print_feature (bit ecx 0) ''SSE3 '' w;
          w = print_call ''\<newline>'' Color [] w;
          ((eax, ebx, ecx, edx), w) = cpuid 0x80000001 w;
          w = print_call ''Extended Features: '' Color [] w;
          w = print_feature (bit edx 29) ''64-bit '' w;
          w = print_feature (bit edx 11) ''SYSCALL/SYSRET '' w;
          w = print_call ''\<newline>'' Color [] w
      in (inf, w))"

section \<open>The time stamp counter's frequency\<close>

definition estimate_tsc_freq :: "io_world \<Rightarrow> u64 \<times> io_world" where
  "estimate_tsc_freq w =
     (let ((eax, ebx, ecx, edx), w) = cpuid 1 w;
          base_freq = drop_bit 8 ebx AND 0xFF
      in if base_freq \<noteq> 0 then (ucast base_freq * 1000000, w) else (0, w))"

definition get_tsc_frequency :: "io_world \<Rightarrow> u64 \<times> io_world" where
  "get_tsc_frequency w =
     (let ((eax, ebx, ecx, edx), w) = cpuid 0x15 w
      in if ecx \<noteq> 0 then (ucast ecx, w)
         else if eax \<noteq> 0 \<and> ebx \<noteq> 0 then (ucast (eax * ebx), w)
         else let (f, w) = estimate_tsc_freq w
              in if f \<noteq> 0 then estimate_tsc_freq w else (0, w))"

section \<open>User mode\<close>

text \<open>\<open>switch_to_user_mode\<close> copies \<open>sizeof(user_mode_function)\<close> (1 in GNU C) byte of the function to
  the user program's start and returns to ring 3 there; \<open>user_mode_function\<close> is its address.\<close>

definition switch_to_user_mode :: "u64 \<Rightarrow> u64 \<Rightarrow> memory \<times> io_world \<Rightarrow> memory \<times> io_world" where
  "switch_to_user_mode user_mode_function user_stack mw =
     (let (m, w) = mw;
          user_addr_p = 0x0000000400000000
      in (memcpy user_addr_p user_mode_function 1 m, emit (Iretq user_addr_p user_stack) w))"

definition cpu_information :: "io_world \<Rightarrow> io_world" where
  "cpu_information w = w"

section \<open>Signatures against the processor manuals\<close>

text \<open>The documented decoding: the extended model counts when the family field is 6 or 15.\<close>

definition documented_signature :: "u32 \<Rightarrow> u32 \<times> u32 \<times> u32" where
  "documented_signature eax =
     (let family = drop_bit 8 eax AND 0xF; model = drop_bit 4 eax AND 0xF;
          ext_family = drop_bit 20 eax AND 0xFF; ext_model = drop_bit 16 eax AND 0xF
      in (if family = 0xF then family + ext_family else family,
          if family = 0x6 \<or> family = 0xF then model + push_bit 4 ext_model else model,
          eax AND 0xF))"

lemma nibble_le: "(drop_bit k eax AND 0xF :: u32) \<le> 15" and byte_le: "(drop_bit k eax AND 0xFF :: u32) \<le> 255"
  by (simp_all add: word_and_le1)

lemma push_nibble_0: "push_bit 4 (x AND 0xF :: u32) = 0 \<longleftrightarrow> x AND 0xF = 0"
proof -
  have "unat (x AND 0xF) \<le> 15" using word_and_le1[of x "0xF"] by (simp add: word_le_nat_alt)
  then have "unat (push_bit 4 (x AND 0xF)) = 16 * unat (x AND 0xF)"
    by (simp add: push_bit_eq_mult unat_word_ariths)
  then show ?thesis by (simp add: word_unat_eq_iff)
qed

text \<open>The signature \<open>identify_cpu\<close> shows is the documented one except on processors whose family field
  is 15 with a nonzero extended family and extended model: there the extended model is left out.\<close>

theorem cpu_signature_correct:
  "cpu_signature eax = documented_signature eax \<longleftrightarrow>
     \<not> (drop_bit 8 eax AND 0xF = 0xF \<and> drop_bit 20 eax AND 0xFF \<noteq> 0 \<and> drop_bit 16 eax AND 0xF \<noteq> 0)"
proof -
  let ?ef = "drop_bit 20 eax AND 0xFF :: u32"
  have "unat ?ef \<le> 255" using byte_le[of 20 eax] by (simp add: word_le_nat_alt)
  then have "unat (0xF + ?ef) = 15 + unat ?ef" by (simp add: unat_word_ariths)
  then have "0xF + ?ef = 0xF \<longleftrightarrow> ?ef = 0" "0xF + ?ef \<noteq> 6" by (auto simp: word_unat_eq_iff)
  then show ?thesis
    using push_nibble_0[of "drop_bit 16 eax"]
    by (auto simp: cpu_signature_def documented_signature_def Let_def)
qed

end
