(* ===== verification/Descriptors.thy ===== *)
theory Descriptors
  imports Libc_String Machine_IO
begin

text \<open>
  The processor's tables: the global descriptor table and task state segment (\<^verbatim>\<open>x86_64/gdt.c\<close>), the
  interrupt descriptor table (\<^verbatim>\<open>x86_64/idt.c\<close>) and the exception handlers (\<^verbatim>\<open>x86_64/isr.c\<close>). The
  GDT and TSS are bytes of memory at the addresses of their symbols; the handlers never return,
  which the value \<open>Looping\<close> records.
\<close>

section \<open>Global descriptor table\<close>

definition gdt_set_gate :: "u64 \<Rightarrow> u16 \<Rightarrow> u32 \<Rightarrow> u32 \<Rightarrow> u8 \<Rightarrow> u8 \<Rightarrow> memory \<Rightarrow> memory" where
  "gdt_set_gate gdt_n num base limit access granularity m =
     (let e = gdt_n + 8 * ucast num;
          m = store16 m e 0;
          m = store16 m (e + 2) (ucast (base AND 0xFFFF));
          m = m(e + 4 := ucast (drop_bit 16 base AND 0xFF));
          m = m(e + 5 := access);
          m = m(e + 6 := ucast ((drop_bit 16 limit AND 0xFF) OR ucast (granularity AND 0xF0)));
          m = m(e + 7 := ucast (drop_bit 24 base AND 0xFF))
      in m)"

record gdtr =
  gdt_limit :: u16
  gdt_base :: u64

definition tss_size :: u32 where
  "tss_size = 104"

definition clear_tss :: "u64 \<Rightarrow> memory \<Rightarrow> memory" where
  "clear_tss tss m = fold (\<lambda>i m. m(tss + of_nat i := 0)) [0..<unat tss_size] m"

definition init_gdt :: "u64 \<Rightarrow> u64 \<Rightarrow> u64 \<Rightarrow> memory \<times> io_world \<Rightarrow> gdtr \<times> memory \<times> io_world" where
  "init_gdt gdt_n tss rsp mw =
     (let (m, w) = mw;
          gdt_pointer = \<lparr>gdt_limit = 8 * 7 - 1, gdt_base = gdt_n\<rparr>;
          m = gdt_set_gate gdt_n 0 0 0 0 0 m;
          m = gdt_set_gate gdt_n 1 0 0 0x9A 0x20 m;
          m = gdt_set_gate gdt_n 2 0 0 0x92 0 m;
          m = gdt_set_gate gdt_n 3 0 0 0xFA 0x20 m;
          m = gdt_set_gate gdt_n 4 0 0 0xF2 0 m;
          tss_limit = tss_size;
          m = gdt_set_gate gdt_n 5 (ucast (tss AND 0xFFFFFFFF)) tss_limit 0x89 0x40 m;
          m = store64 m (gdt_n + 8 * 5 + 8) (drop_bit 32 tss);
          m = clear_tss tss m;
          m = store64 m (tss + 4) rsp;
          m = store16 m (tss + 102) (ucast tss_limit);
          w = emit (Lgdt (gdt_base gdt_pointer)) w;
          w = emit (Ltr 0x28) w
      in (gdt_pointer, m, w))"

section \<open>Interrupt vectors\<close>

text \<open>The numbers of \<^verbatim>\<open>x86_64/idt.h\<close>, as gate numbers (8 bits) and as the field of the saved frame (64 bits).\<close>

definition DIVIDE_BY_ZERO_ERROR :: "'a::len word" where "DIVIDE_BY_ZERO_ERROR = 0x00"
definition DEBUG_EXCEPTION :: "'a::len word" where "DEBUG_EXCEPTION = 0x01"
definition NON_MASKABLE_INTERRUPT :: "'a::len word" where "NON_MASKABLE_INTERRUPT = 0x02"
definition BREAKPOINT :: "'a::len word" where "BREAKPOINT = 0x03"
definition OVERFLOW :: "'a::len word" where "OVERFLOW = 0x04"
definition BOUND_RANGE_EXCEEDED :: "'a::len word" where "BOUND_RANGE_EXCEEDED = 0x05"
definition INVALID_OPCODE :: "'a::len word" where "INVALID_OPCODE = 0x06"
definition DEVICE_NOT_AVAILABLE :: "'a::len word" where "DEVICE_NOT_AVAILABLE = 0x07"
definition DOUBLE_FAULT :: "'a::len word" where "DOUBLE_FAULT = 0x08"
definition COPROCESSOR_SEGMENT_OVERRUN :: "'a::len word" where "COPROCESSOR_SEGMENT_OVERRUN = 0x09"
definition INVALID_TSS :: "'a::len word" where "INVALID_TSS = 0x0A"
definition SEGMENT_NOT_PRESENT :: "'a::len word" where "SEGMENT_NOT_PRESENT = 0x0B"
definition STACK_SEGMENT_FAULT :: "'a::len word" where "STACK_SEGMENT_FAULT = 0x0C"
definition GENERAL_PROTECTION_FAULT :: "'a::len word" where "GENERAL_PROTECTION_FAULT = 0x0D"
definition PAGE_FAULT :: "'a::len word" where "PAGE_FAULT = 0x0E"
definition RESERVED :: "'a::len word" where "RESERVED = 0x0F"
definition x87_FLOATING_POINT_EXCEPTION :: "'a::len word" where "x87_FLOATING_POINT_EXCEPTION = 0x10"
definition ALIGNMENT_CHECK :: "'a::len word" where "ALIGNMENT_CHECK = 0x11"
definition MACHINE_CHECK :: "'a::len word" where "MACHINE_CHECK = 0x12"
definition SIMD_FLOATING_POINT_EXCEPTION :: "'a::len word" where "SIMD_FLOATING_POINT_EXCEPTION = 0x13"
definition SECURITY_EXCEPTION :: "'a::len word" where "SECURITY_EXCEPTION = 0x1E"
definition PIT_TIMER_INTERRUPT :: "'a::len word" where "PIT_TIMER_INTERRUPT = 0x20"
definition KEYBOARD_IRQ :: "'a::len word" where "KEYBOARD_IRQ = 0x21"
definition APIC_TIMER_IRQ :: "'a::len word" where "APIC_TIMER_IRQ = 0x22"
definition MOUSE_IRQ :: "'a::len word" where "MOUSE_IRQ = 0x23"
definition ATA_PRIMARY_IRQ :: "'a::len word" where "ATA_PRIMARY_IRQ = 0x2E"
definition ATA_SECONDARY_IRQ :: "'a::len word" where "ATA_SECONDARY_IRQ = 0x2F"
definition SYSTEM_CALL_INTERRUPT :: "'a::len word" where "SYSTEM_CALL_INTERRUPT = 0x80"

lemmas vector_numbers [simp] =
  DIVIDE_BY_ZERO_ERROR_def DEBUG_EXCEPTION_def NON_MASKABLE_INTERRUPT_def BREAKPOINT_def OVERFLOW_def
  BOUND_RANGE_EXCEEDED_def INVALID_OPCODE_def DEVICE_NOT_AVAILABLE_def DOUBLE_FAULT_def
  COPROCESSOR_SEGMENT_OVERRUN_def INVALID_TSS_def SEGMENT_NOT_PRESENT_def STACK_SEGMENT_FAULT_def
  GENERAL_PROTECTION_FAULT_def PAGE_FAULT_def RESERVED_def x87_FLOATING_POINT_EXCEPTION_def
  ALIGNMENT_CHECK_def MACHINE_CHECK_def SIMD_FLOATING_POINT_EXCEPTION_def SECURITY_EXCEPTION_def
  PIT_TIMER_INTERRUPT_def KEYBOARD_IRQ_def APIC_TIMER_IRQ_def MOUSE_IRQ_def ATA_PRIMARY_IRQ_def
  ATA_SECONDARY_IRQ_def SYSTEM_CALL_INTERRUPT_def

section \<open>Interrupt descriptor table\<close>

record idt_entry =
  base_lo :: u16
  sel :: u16
  always0 :: u8
  idt_flags :: u8
  base_mid :: u16
  base_hi :: u32
  always0_2 :: u32

type_synonym idt = "nat \<Rightarrow> idt_entry"

definition zero_gate :: idt_entry where
  "zero_gate = \<lparr>base_lo = 0, sel = 0, always0 = 0, idt_flags = 0, base_mid = 0, base_hi = 0, always0_2 = 0\<rparr>"

definition idt_set_gate :: "u8 \<Rightarrow> u64 \<Rightarrow> u16 \<Rightarrow> u8 \<Rightarrow> idt \<Rightarrow> idt" where
  "idt_set_gate num base selector flags idt =
     idt(unat num := \<lparr>base_lo = ucast (base AND 0xFFFF), sel = selector, always0 = 0, idt_flags = flags,
       base_mid = ucast (drop_bit 16 base AND 0xFFFF), base_hi = ucast (drop_bit 32 base AND 0xFFFFFFFF),
       always0_2 = 0\<rparr>)"

text \<open>The vectors \<open>idt_init\<close> gives a gate, in order; \<open>isr n\<close> is the address of the assembly routine
  \<^verbatim>\<open>interrupt_service_routine_n\<close> (with or without error code).\<close>

definition gate_vectors :: "u8 list" where
  "gate_vectors = [DIVIDE_BY_ZERO_ERROR, DEBUG_EXCEPTION, NON_MASKABLE_INTERRUPT, BREAKPOINT, OVERFLOW,
     BOUND_RANGE_EXCEEDED, INVALID_OPCODE, DEVICE_NOT_AVAILABLE, DOUBLE_FAULT,
     COPROCESSOR_SEGMENT_OVERRUN, INVALID_TSS, SEGMENT_NOT_PRESENT, STACK_SEGMENT_FAULT,
     GENERAL_PROTECTION_FAULT, PAGE_FAULT, RESERVED, x87_FLOATING_POINT_EXCEPTION, ALIGNMENT_CHECK,
     MACHINE_CHECK, PIT_TIMER_INTERRUPT, KEYBOARD_IRQ, APIC_TIMER_IRQ, MOUSE_IRQ, ATA_PRIMARY_IRQ,
     ATA_SECONDARY_IRQ, SYSTEM_CALL_INTERRUPT]"

definition idt_init :: "u64 \<Rightarrow> (u8 \<Rightarrow> u64) \<Rightarrow> io_world \<Rightarrow> idt \<times> io_world" where
  "idt_init idt_address isr w =
     (let idt = (\<lambda>_. zero_gate);
          idt = fold (\<lambda>n. idt_set_gate n (isr n) 0x08 0x8E) gate_vectors idt
      in (idt, emit Sti (emit (Lidt idt_address) w)))"

section \<open>Exception handlers\<close>

datatype ending = Returned | Looping

definition division_by_zero_handler :: "io_world \<Rightarrow> ending \<times> io_world" where
  "division_by_zero_handler w = (Looping, log_call LOG_LEVEL_DEBUG ''Division by Zero Exception\<newline>'' [] w)"

definition debug_exception_handler :: "io_world \<Rightarrow> ending \<times> io_world" where
  "debug_exception_handler w = (Looping, log_call LOG_LEVEL_DEBUG ''Debug Exception\<newline>'' [] w)"

definition non_maskable_interrupt_handler :: "io_world \<Rightarrow> ending \<times> io_world" where
  "non_maskable_interrupt_handler w = (Looping, log_call LOG_LEVEL_DEBUG ''Non-Maskable Interrupt\<newline>'' [] w)"

definition breakpoint_handler :: "io_world \<Rightarrow> ending \<times> io_world" where
  "breakpoint_handler w = (Looping, log_call LOG_LEVEL_DEBUG ''Breakpoint\<newline>'' [] w)"

definition overflow_handler :: "io_world \<Rightarrow> ending \<times> io_world" where
  "overflow_handler w = (Looping, log_call LOG_LEVEL_DEBUG (''Over'' @ [CHR 0xEF, CHR 0xAC, CHR 0x82] @ ''ow\<newline>'') [] w)"

definition bound_range_exceeded_handler :: "io_world \<Rightarrow> ending \<times> io_world" where
  "bound_range_exceeded_handler w = (Looping, log_call LOG_LEVEL_DEBUG ''Bound Range Exceeded\<newline>'' [] w)"

definition invalid_opcode_handler :: "io_world \<Rightarrow> ending \<times> io_world" where
  "invalid_opcode_handler w = (Looping, log_call LOG_LEVEL_DEBUG (''Invalid/unde'' @ [CHR 0xEF, CHR 0xAC, CHR 0x81] @ ''ned opcode\<newline>'') [] w)"

definition no_math_coprocessor_handler :: "io_world \<Rightarrow> ending \<times> io_world" where
  "no_math_coprocessor_handler w = (Looping, log_call LOG_LEVEL_DEBUG ''No Math Coprocessor\<newline>'' [] w)"

definition double_fault_handler :: "io_world \<Rightarrow> ending \<times> io_world" where
  "double_fault_handler w = (Looping, log_call LOG_LEVEL_DEBUG ''Double Fault \<newline>'' [] w)"

definition coprocessor_segment_overrun_handler :: "io_world \<Rightarrow> ending \<times> io_world" where
  "coprocessor_segment_overrun_handler w = (Looping, log_call LOG_LEVEL_DEBUG ''Coprocessor Segment Overrun | Reserved'' [] w)"

definition invalid_tss_handler :: "io_world \<Rightarrow> ending \<times> io_world" where
  "invalid_tss_handler w = (Looping, log_call LOG_LEVEL_DEBUG ''Invalid TSS Exception\<newline>'' [] w)"

definition segment_not_present_handler :: "io_world \<Rightarrow> ending \<times> io_world" where
  "segment_not_present_handler w = (Looping, log_call LOG_LEVEL_DEBUG ''Segment Not Present Interrupt\<newline>'' [] w)"

definition stack_segment_fault_handler :: "io_world \<Rightarrow> ending \<times> io_world" where
  "stack_segment_fault_handler w = (Looping, emit Hlt (log_call LOG_LEVEL_DEBUG ''Stack-Segment Fault\<newline>'' [] w))"

definition isr15_handler :: "io_world \<Rightarrow> ending \<times> io_world" where
  "isr15_handler w = (Looping, log_call LOG_LEVEL_DEBUG ''Reserved'' [] w)"

definition x87_fpu_error_handler :: "io_world \<Rightarrow> ending \<times> io_world" where
  "x87_fpu_error_handler w = (Looping, log_call LOG_LEVEL_DEBUG ''x87 FPU Floating-Point Error\<newline>'' [] w)"

definition alignment_check_exception_handler :: "io_world \<Rightarrow> ending \<times> io_world" where
  "alignment_check_exception_handler w = (Looping, log_call LOG_LEVEL_DEBUG ''Alignment Check Exception\<newline>'' [] w)"

definition machine_check_exception_handler :: "io_world \<Rightarrow> ending \<times> io_world" where
  "machine_check_exception_handler w = (Looping, log_call LOG_LEVEL_DEBUG ''Machine Check Exception\<newline>'' [] w)"

definition simd_floating_point_exception_handler :: "io_world \<Rightarrow> ending \<times> io_world" where
  "simd_floating_point_exception_handler w = (Looping, log_call LOG_LEVEL_DEBUG ''SIMD Floating POINT Exception\<newline>'' [] w)"

definition security_exception_handler :: "io_world \<Rightarrow> ending \<times> io_world" where
  "security_exception_handler w = (Looping, emit Hlt (log_call LOG_LEVEL_DEBUG ''Security Exception\<newline>'' [] w))"

definition isrX_handler :: "io_world \<Rightarrow> ending \<times> io_world" where
  "isrX_handler w = (Looping, log_call LOG_LEVEL_DEBUG ''Undefined Interrupt\<newline>'' [] w)"

definition general_protection_fault_handler :: "u64 \<Rightarrow> io_world \<Rightarrow> ending \<times> io_world" where
  "general_protection_fault_handler error_code w =
     (Looping, emit Hlt (log_call LOG_LEVEL_DEBUG ''The Error Code is %ld'' [VLong error_code]
       (log_call LOG_LEVEL_DEBUG ''General Protection Fault\<newline>'' [] w)))"

section \<open>What the processor reads\<close>

text \<open>The base and limit of a system descriptor in the table, and the target of a gate, as documented
  for the processor.\<close>

definition descriptor_base :: "memory \<Rightarrow> u64 \<Rightarrow> u64" where
  "descriptor_base m e =
     ucast (load16 m (e + 2)) OR push_bit 16 (ucast (m (e + 4))) OR push_bit 24 (ucast (m (e + 7))) OR
     push_bit 32 (ucast (load32 m (e + 8)))"

definition descriptor_limit :: "memory \<Rightarrow> u64 \<Rightarrow> u32" where
  "descriptor_limit m e = ucast (load16 m e) OR push_bit 16 (ucast (m (e + 6)) AND 0xF)"

definition gate_target :: "idt_entry \<Rightarrow> u64" where
  "gate_target g = ucast (base_lo g) OR push_bit 16 (ucast (base_mid g)) OR push_bit 32 (ucast (base_hi g))"

definition gate_present :: "idt_entry \<Rightarrow> bool" where
  "gate_present g \<longleftrightarrow> bit (idt_flags g) 7"

section \<open>Bits of the encodings\<close>

lemma and_masks:
  "x AND 0xF = take_bit 4 (x :: 'a::len word)" "x AND 0xFF = take_bit 8 (x :: 'a word)"
  "x AND 0xFFFF = take_bit 16 (x :: 'a word)" "x AND 0xFFFFFFFF = take_bit 32 (x :: 'a word)"
  by (simp_all only: take_bit_eq_mask mask_eq_exp_minus_1) simp_all

lemma load16_store16_same: "load16 (store16 m a v) a = v"
  using read_write_bytes_same[of "bytes_of 2 v" m a] word_of_bytes_of[of 2 v]
  by (simp add: load16_def store16_def)

lemma store16_bytes: "store16 m a v = m(a := ucast v, a + 1 := ucast (drop_bit 8 v))"
  by (simp add: store16_def bytes_of_def numeral_2_eq_2)

lemma load_cong:
  "(\<And>i. i < 2 \<Longrightarrow> m (a + of_nat i) = m' (a + of_nat i)) \<Longrightarrow> load16 m a = load16 m' a"
  "(\<And>i. i < 4 \<Longrightarrow> m (a + of_nat i) = m' (a + of_nat i)) \<Longrightarrow> load32 m a = load32 m' a"
proof -
  have "read_bytes m a n = read_bytes m' a n" if "\<And>i. i < n \<Longrightarrow> m (a + of_nat i) = m' (a + of_nat i)" for n
    by (rule nth_equalityI) (use that in auto)
  then show "(\<And>i. i < 2 \<Longrightarrow> m (a + of_nat i) = m' (a + of_nat i)) \<Longrightarrow> load16 m a = load16 m' a"
    "(\<And>i. i < 4 \<Longrightarrow> m (a + of_nat i) = m' (a + of_nat i)) \<Longrightarrow> load32 m a = load32 m' a"
    unfolding load16_def load32_def by metis+
qed

lemma load32_low: "load32 (store64 m a v) a = ucast v"
proof -
  have "read_bytes (store64 m a v) a 4 = bytes_of 4 (ucast v :: u32)"
  proof (rule nth_equalityI)
    fix i assume "i < length (read_bytes (store64 m a v) a 4)"
    then have i: "i < 4" by simp
    then have "unat (of_nat i :: u64) = i" by (intro unat_of_nat_less) simp
    with i show "read_bytes (store64 m a v) a 4 ! i = bytes_of 4 (ucast v :: u32) ! i"
      by (simp add: store64_def write_bytes_at bytes_of_def)
        (rule bit_word_eqI, auto simp: bit_simps)
  qed simp
  then show ?thesis by (simp add: load32_def word_of_bytes_of)
qed

lemma base_halves:
  "ucast (ucast (ucast (tss AND 0xFFFFFFFF) AND 0xFFFF :: u32) :: u16) OR
   push_bit 16 (ucast (ucast (drop_bit 16 (ucast (tss AND 0xFFFFFFFF) :: u32) AND 0xFF) :: u8)) OR
   push_bit 24 (ucast (ucast (drop_bit 24 (ucast (tss AND 0xFFFFFFFF) :: u32) AND 0xFF) :: u8)) OR
   push_bit 32 (ucast (ucast (drop_bit 32 tss) :: u32)) = (tss :: u64)"
proof (rule bit_word_eqI)
  fix n assume "n < LENGTH(64)"
  then consider "n < 16" | "16 \<le> n" "n < 24" | "24 \<le> n" "n < 32" | i where "n = 32 + i" "i < 32"
    using le_Suc_ex[of 32 n] by fastforce
  then show "bit (ucast (ucast (ucast (tss AND 0xFFFFFFFF) AND 0xFFFF :: u32) :: u16) OR
   push_bit 16 (ucast (ucast (drop_bit 16 (ucast (tss AND 0xFFFFFFFF) :: u32) AND 0xFF) :: u8)) OR
   push_bit 24 (ucast (ucast (drop_bit 24 (ucast (tss AND 0xFFFFFFFF) :: u32) AND 0xFF) :: u8)) OR
   push_bit 32 (ucast (ucast (drop_bit 32 tss) :: u32)) :: u64) n = bit tss n"
    unfolding and_masks by cases (auto simp: bit_simps)
qed

lemma gate_parts:
  "ucast (ucast (base AND 0xFFFF) :: u16) OR push_bit 16 (ucast (ucast (drop_bit 16 base AND 0xFFFF) :: u16)) OR
   push_bit 32 (ucast (ucast (drop_bit 32 base AND 0xFFFFFFFF) :: u32)) = (base :: u64)"
proof (rule bit_word_eqI)
  fix n assume "n < LENGTH(64)"
  then consider "n < 16" | "16 \<le> n" "n < 32" | i where "n = 32 + i" "i < 32"
    using le_Suc_ex[of 32 n] by fastforce
  then show "bit (ucast (ucast (base AND 0xFFFF) :: u16) OR push_bit 16 (ucast (ucast (drop_bit 16 base AND 0xFFFF) :: u16)) OR
      push_bit 32 (ucast (ucast (drop_bit 32 base AND 0xFFFFFFFF) :: u32)) :: u64) n = bit base n"
    unfolding and_masks by cases (auto simp: bit_simps)
qed

section \<open>The task state segment\<close>

text \<open>What follows the descriptor writes stays inside the segment.\<close>

definition tss_writes :: "u64 \<Rightarrow> u64 \<Rightarrow> memory \<Rightarrow> memory" where
  "tss_writes tss rsp m = store16 (store64 (clear_tss tss m) (tss + 4) rsp) (tss + 102) (ucast tss_size)"

lemma tss_writes_outside:
  assumes "apart gdt_n 56 tss 104" and "i < 56"
  shows "tss_writes tss rsp m (gdt_n + of_nat i) = m (gdt_n + of_nat i)"
proof -
  have ne: "gdt_n + of_nat i \<noteq> tss + of_nat j" if "j < 104" for j
    by (rule apart_neq[OF assms(1,2) that])
  have "\<not> unat (gdt_n + of_nat i - tss) < 104"
  proof
    assume "unat (gdt_n + of_nat i - tss) < 104"
    from ne[OF this] show False by simp
  qed
  then have clear: "clear_tss tss m (gdt_n + of_nat i) = m (gdt_n + of_nat i)"
    unfolding clear_tss_def tss_size_def by (subst fill_zero) simp_all
  have "\<not> unat (gdt_n + of_nat i - (tss + 4)) < 8"
  proof
    assume lt: "unat (gdt_n + of_nat i - (tss + 4)) < 8"
    then have "4 + unat (gdt_n + of_nat i - (tss + 4)) < 104" by simp
    from ne[OF this] show False by simp
  qed
  then have "store64 (clear_tss tss m) (tss + 4) rsp (gdt_n + of_nat i) = m (gdt_n + of_nat i)"
    using clear by (simp add: store64_def write_bytes_at)
  moreover have "gdt_n + of_nat i \<noteq> tss + 102" "gdt_n + of_nat i \<noteq> tss + 102 + 1"
    using ne[of 102] ne[of 103] by (simp_all add: add.assoc)
  ultimately show ?thesis by (simp add: tss_writes_def store16_bytes)
qed

definition gates_written :: "u64 \<Rightarrow> u64 \<Rightarrow> memory \<Rightarrow> memory" where
  "gates_written gdt_n tss m =
     store64 (gdt_set_gate gdt_n 5 (ucast (tss AND 0xFFFFFFFF)) tss_size 0x89 0x40
       (gdt_set_gate gdt_n 4 0 0 0xF2 0 (gdt_set_gate gdt_n 3 0 0 0xFA 0x20
         (gdt_set_gate gdt_n 2 0 0 0x92 0 (gdt_set_gate gdt_n 1 0 0 0x9A 0x20
           (gdt_set_gate gdt_n 0 0 0 0 0 m)))))) (gdt_n + 8 * 5 + 8) (drop_bit 32 tss)"

lemma init_gdt_memory:
  "fst (snd (init_gdt gdt_n tss rsp (m, w))) = tss_writes tss rsp (gates_written gdt_n tss m)"
  by (simp add: init_gdt_def Let_def tss_writes_def gates_written_def)

lemma store64_before:
  assumes "j < i" "i + 8 < 2 ^ 32"
  shows "store64 m (a + of_nat i) v (a + of_nat j) = m (a + of_nat j)"
proof -
  have "apart (a + of_nat i) 8 (a + of_nat j) 1"
    unfolding apart_sym[of "a + of_nat i"] using assms by (intro apart_offsets) auto
  from write_bytes_apart[of _ "bytes_of 8 v", of "a + of_nat i" "a + of_nat j" 1 0 m] this
  show ?thesis by (simp add: store64_def)
qed

lemma tss_gate_bytes:
  defines "m' \<equiv> \<lambda>gdt_n tss m. gates_written gdt_n tss m"
  shows "load16 (m' gdt_n tss m) (gdt_n + 40) = 0"
    and "load16 (m' gdt_n tss m) (gdt_n + 40 + 2) = ucast (ucast (tss AND 0xFFFFFFFF) AND 0xFFFF :: u32)"
    and "m' gdt_n tss m (gdt_n + 40 + 4) = ucast (drop_bit 16 (ucast (tss AND 0xFFFFFFFF) :: u32) AND 0xFF)"
    and "m' gdt_n tss m (gdt_n + 40 + 6) = 0x40"
    and "m' gdt_n tss m (gdt_n + 40 + 7) = ucast (drop_bit 24 (ucast (tss AND 0xFFFFFFFF) :: u32) AND 0xFF)"
    and "load32 (m' gdt_n tss m) (gdt_n + 40 + 8) = ucast (drop_bit 32 tss)"
proof -
  let ?g = "gdt_set_gate gdt_n 4 0 0 0xF2 0 (gdt_set_gate gdt_n 3 0 0 0xFA 0x20
         (gdt_set_gate gdt_n 2 0 0 0x92 0 (gdt_set_gate gdt_n 1 0 0 0x9A 0x20
           (gdt_set_gate gdt_n 0 0 0 0 0 m))))"
  let ?base = "ucast (tss AND 0xFFFFFFFF) :: u32"
  let ?h = "gdt_set_gate gdt_n 5 ?base tss_size 0x89 0x40 ?g"
  have at: "m' gdt_n tss m (gdt_n + 40 + of_nat j) = ?h (gdt_n + 40 + of_nat j)" if "j < 8" for j
    using store64_before[of "40 + j" 48 ?h gdt_n "drop_bit 32 tss"] that
    by (simp add: m'_def gates_written_def add.assoc)
  have h: "?h = (store16 (store16 ?g (gdt_n + 40) 0) (gdt_n + 40 + 2) (ucast (?base AND 0xFFFF)))
      (gdt_n + 40 + 4 := ucast (drop_bit 16 ?base AND 0xFF), gdt_n + 40 + 5 := 0x89,
       gdt_n + 40 + 6 := 0x40, gdt_n + 40 + 7 := ucast (drop_bit 24 ?base AND 0xFF))"
    by (simp add: gdt_set_gate_def Let_def tss_size_def)
  show "load16 (m' gdt_n tss m) (gdt_n + 40) = 0"
  proof -
    have "load16 (m' gdt_n tss m) (gdt_n + 40) = load16 (store16 ?g (gdt_n + 40) 0) (gdt_n + 40)"
      using at[of 0] at[of 1] by (intro load_cong(1)) (auto simp: h store16_bytes less_2_cases_iff)
    then show ?thesis by (simp add: load16_store16_same)
  qed
  show "load16 (m' gdt_n tss m) (gdt_n + 40 + 2) = ucast (?base AND 0xFFFF)"
  proof -
    have "load16 (m' gdt_n tss m) (gdt_n + 40 + 2) =
        load16 (store16 (store16 ?g (gdt_n + 40) 0) (gdt_n + 40 + 2) (ucast (?base AND 0xFFFF))) (gdt_n + 40 + 2)"
      using at[of 2] at[of 3] by (intro load_cong(1)) (auto simp: h store16_bytes less_2_cases_iff add.assoc)
    then show ?thesis by (simp add: load16_store16_same)
  qed
  show "m' gdt_n tss m (gdt_n + 40 + 4) = ucast (drop_bit 16 ?base AND 0xFF)"
    "m' gdt_n tss m (gdt_n + 40 + 6) = 0x40"
    "m' gdt_n tss m (gdt_n + 40 + 7) = ucast (drop_bit 24 ?base AND 0xFF)"
    using at[of 4] at[of 6] at[of 7] by (simp_all add: h)
  show "load32 (m' gdt_n tss m) (gdt_n + 40 + 8) = ucast (drop_bit 32 tss)"
    using load32_low[of ?h "gdt_n + 48" "drop_bit 32 tss"] by (simp add: m'_def gates_written_def add.assoc)
qed

section \<open>Properties\<close>

text \<open>C34: The TSS descriptor. After \<open>init_gdt\<close> the processor decodes the base of descriptor 5 as the
  address of the task state segment, whose ring 0 stack pointer is set; but the limit it decodes is
  0, since \<open>gdt_set_gate\<close> stores 0 for the low half: no field of the segment lies within the limit.\<close>

theorem tss_descriptor:
  assumes "apart gdt_n 56 tss 104"
  shows "let m' = fst (snd (init_gdt gdt_n tss rsp (m, w))) in
    descriptor_base m' (gdt_n + 40) = tss \<and> descriptor_limit m' (gdt_n + 40) = 0 \<and> load64 m' (tss + 4) = rsp"
proof -
  let ?g = "gates_written gdt_n tss m" and ?m = "fst (snd (init_gdt gdt_n tss rsp (m, w)))"
  have same: "?m (gdt_n + of_nat i) = ?g (gdt_n + of_nat i)" if "i < 56" for i
    unfolding init_gdt_memory by (rule tss_writes_outside[OF assms that])
  have l0: "load16 ?m (gdt_n + 40) = load16 ?g (gdt_n + 40)"
    using same[of "40 + _"] by (intro load_cong(1)) (simp add: add.assoc)
  have l2: "load16 ?m (gdt_n + 40 + 2) = load16 ?g (gdt_n + 40 + 2)"
    using same[of "42 + _"] by (intro load_cong(1)) (simp add: add.assoc)
  have l8: "load32 ?m (gdt_n + 40 + 8) = load32 ?g (gdt_n + 40 + 8)"
    using same[of "48 + _"] by (intro load_cong(2)) (simp add: add.assoc)
  have b: "?m (gdt_n + 40 + 4) = ?g (gdt_n + 40 + 4)" "?m (gdt_n + 40 + 6) = ?g (gdt_n + 40 + 6)"
    "?m (gdt_n + 40 + 7) = ?g (gdt_n + 40 + 7)"
    using same[of 44] same[of 46] same[of 47] by (simp_all add: add.assoc)
  have "descriptor_base ?m (gdt_n + 40) = tss"
    unfolding descriptor_base_def l2 l8 b tss_gate_bytes by (rule base_halves)
  moreover have "descriptor_limit ?m (gdt_n + 40) = 0"
    unfolding descriptor_limit_def l0 b tss_gate_bytes by simp
  moreover have "load64 ?m (tss + 4) = rsp"
  proof -
    have "apart (tss + 102) 2 (tss + 4) 8"
      using apart_offsets[of 4 8 102 2 tss] by (simp add: apart_sym)
    then have "load64 ?m (tss + 4) = load64 (store64 (clear_tss tss ?g) (tss + 4) rsp) (tss + 4)"
      unfolding init_gdt_memory tss_writes_def store16_def load64_def
      by (subst read_write_bytes_apart) simp_all
    then show ?thesis by (simp add: load64_store64_same)
  qed
  ultimately show ?thesis by (simp add: Let_def)
qed

theorem tss_descriptor_witness:
  "let m' = fst (snd (init_gdt 0x1000 0x2000 0x9000 ((\<lambda>_. 0), \<lparr>answer = \<lambda>_. 0, asked = 0, trace = []\<rparr>))) in
    descriptor_base m' 0x1028 = 0x2000 \<and> descriptor_limit m' 0x1028 = 0"
  using tss_descriptor[of "0x1000" "0x2000" "0x9000" "\<lambda>_. 0" "\<lparr>answer = \<lambda>_. 0, asked = 0, trace = []\<rparr>"]
  by (simp add: apart_def Let_def)

lemma gates_fold:
  "fold (\<lambda>n t. t(unat n := g n)) ns t (unat m) = (if m \<in> set ns then g m else t (unat m))" for m :: u8
  by (induction ns arbitrary: t) (auto dest: unsigned_word_eqI)

lemma idt_init_gate:
  "fst (idt_init a isr w) (unat n) =
     (if n \<in> set gate_vectors then idt_set_gate n (isr n) 0x08 0x8E (\<lambda>_. zero_gate) (unat n) else zero_gate)"
proof -
  have "fst (idt_init a isr w) = fold (\<lambda>n t. t(unat n := idt_set_gate n (isr n) 0x08 0x8E (\<lambda>_. zero_gate) (unat n)))
      gate_vectors (\<lambda>_. zero_gate)"
    by (simp add: idt_init_def Let_def idt_set_gate_def[abs_def])
  then show ?thesis by (simp only: gates_fold)
qed

text \<open>The interrupt gates. After \<open>idt_init\<close> a vector has a present gate exactly when it is in the list
  of installed vectors, and the 64-bit target the processor assembles from the three parts of the
  gate is the address of the vector's routine.\<close>

theorem idt_gates:
  "gate_present (fst (idt_init a isr w) (unat n)) = (n \<in> set gate_vectors) \<and>
   gate_target (fst (idt_init a isr w) (unat n)) = (if n \<in> set gate_vectors then isr n else 0)"
proof -
  show ?thesis
    using gate_parts[of "isr n"]
    by (simp add: idt_init_gate idt_set_gate_def gate_target_def gate_present_def zero_gate_def)
qed

end
