(* ===== verification/Acpi.thy ===== *)
theory Acpi
  imports Libc_String Machine_IO Boot_Info
begin

text \<open>
  ACPI tables: \<^verbatim>\<open>hardware/acpi/acpi.c\<close>, \<^verbatim>\<open>tables/madt.c\<close> and \<^verbatim>\<open>tables/hpet.c\<close>. The firmware's tables
  are bytes of memory, a field is a load at its offset in the packed structure. The static variables of
  the three files are the records \<open>acpi\<close> and \<open>hpet_state\<close>. A loop over table entries advances by a
  length the firmware supplies, so it may not end: the result is an \<open>option\<close>.
\<close>

section \<open>Tables\<close>

record acpi =
  acpi_rsdt :: u64
  acpi_xsdt :: u64
  rsdt_bool :: bool
  xsdt_bool :: bool
  madt_apic_base :: u32
  madt_ioapic_base :: u32

definition acpi_bss :: acpi where
  "acpi_bss = \<lparr>acpi_rsdt = 0, acpi_xsdt = 0, rsdt_bool = False, xsdt_bool = False,
     madt_apic_base = 0, madt_ioapic_base = 0\<rparr>"

text \<open>Offsets in \<^verbatim>\<open>acpi_sdt_header_t\<close> (36 bytes), \<^verbatim>\<open>madt_t\<close> and the entries.\<close>

definition sdt_header_size :: u64 where "sdt_header_size = 36"

definition sdt_length :: "memory \<Rightarrow> u64 \<Rightarrow> u32" where
  "sdt_length m sdt = load32 m (sdt + 4)"

definition sdt_revision :: "memory \<Rightarrow> u64 \<Rightarrow> u8" where
  "sdt_revision m sdt = m (sdt + 8)"

definition madt_local_controller_address :: "memory \<Rightarrow> u64 \<Rightarrow> u32" where
  "madt_local_controller_address m madt = load32 m (madt + 36)"

definition madt_entries :: "u64 \<Rightarrow> u64" where
  "madt_entries madt = madt + 44"

definition madt_end :: "memory \<Rightarrow> u64 \<Rightarrow> u64" where
  "madt_end m madt = madt + ucast (sdt_length m madt)"

definition io_apic_address :: "memory \<Rightarrow> u64 \<Rightarrow> u32" where
  "io_apic_address m entry = load32 m (entry + 4)"

text \<open>\<open>strncmp(table->signature, s, 4) == 0\<close> for a literal of four nonzero characters.\<close>

definition signature_is :: "memory \<Rightarrow> u64 \<Rightarrow> string \<Rightarrow> bool" where
  "signature_is m sdt s \<longleftrightarrow> read_bytes m sdt 4 = map of_char s"

definition find_rsdp :: "u64 \<Rightarrow> u64" where
  "find_rsdp acpi_ptr = acpi_ptr"

definition doChecksum :: "memory \<Rightarrow> u64 \<Rightarrow> bool" where
  "doChecksum m tableHeader \<longleftrightarrow>
     sum_list (read_bytes m tableHeader (unat (sdt_length m tableHeader))) = 0"

definition rsdt_pointer :: "memory \<Rightarrow> u64 \<Rightarrow> nat \<Rightarrow> u64" where
  "rsdt_pointer m sdt i = ucast (load32 m (sdt + sdt_header_size + 4 * of_nat i))"

definition xsdt_pointer :: "memory \<Rightarrow> u64 \<Rightarrow> nat \<Rightarrow> u64" where
  "xsdt_pointer m sdt i = load64 m (sdt + sdt_header_size + 8 * of_nat i)"

definition int_entries :: "memory \<Rightarrow> u64 \<Rightarrow> nat" where
  "int_entries m sdt =
     nat (sint (ucast ((ucast (sdt_length m sdt) - sdt_header_size) div 4) :: u32))"

text \<open>Both searches compute the checksum of the RSDT and do not use it.\<close>

definition find_version_1_table :: "memory \<Rightarrow> string \<Rightarrow> acpi \<Rightarrow> u64" where
  "find_version_1_table m sig s =
     (let rsdt = acpi_rsdt s;
          entries = int_entries m rsdt
      in case first_index (\<lambda>i. signature_is m (rsdt_pointer m rsdt i) sig) entries of
           Some i \<Rightarrow> (let validity = doChecksum m (acpi_rsdt s) in rsdt_pointer m rsdt i)
         | None \<Rightarrow> 0)"

definition find_version_2_up_table :: "memory \<Rightarrow> string \<Rightarrow> acpi \<Rightarrow> u64" where
  "find_version_2_up_table m sig s =
     (let xsdt = acpi_xsdt s;
          entries = unat (ucast ((ucast (sdt_length m xsdt) - sdt_header_size) div 8) :: u32)
      in case first_index (\<lambda>i. signature_is m (xsdt_pointer m xsdt i) sig) entries of
           Some i \<Rightarrow> (let validity = doChecksum m (acpi_rsdt s) in xsdt_pointer m xsdt i)
         | None \<Rightarrow> 0)"

text \<open>\<open>find_table\<close> reads 32-bit pointers from an XSDT too.\<close>

definition find_table :: "memory \<Rightarrow> u64 \<Rightarrow> string \<Rightarrow> u64" where
  "find_table m sdt sig =
     (let search = (case first_index (\<lambda>i. signature_is m (rsdt_pointer m sdt i) sig) (int_entries m sdt) of
                      Some i \<Rightarrow> rsdt_pointer m sdt i | None \<Rightarrow> 0)
      in if signature_is m sdt ''RSDT'' then search
         else if signature_is m sdt ''XSDT'' then search
         else 0)"

definition is_xsdt :: "acpi \<Rightarrow> bool" where "is_xsdt s = xsdt_bool s"
definition is_rsdt :: "acpi \<Rightarrow> bool" where "is_rsdt s = rsdt_bool s"

section \<open>The interrupt controller table\<close>

definition madt_entry_step :: "memory \<Rightarrow> u64 \<Rightarrow> u64 \<Rightarrow> acpi \<Rightarrow> acpi" where
  "madt_entry_step m madt entry s =
     (let s = s\<lparr>madt_apic_base := madt_local_controller_address m madt\<rparr>
      in if m entry = 1 then s\<lparr>madt_ioapic_base := io_apic_address m entry\<rparr> else s)"

partial_function (option) madt_loop :: "memory \<Rightarrow> u64 \<Rightarrow> u64 \<Rightarrow> acpi \<Rightarrow> acpi option" where
  "madt_loop m madt entry s =
     (if entry < madt_end m madt
      then madt_loop m madt (entry + ucast (m (entry + 1))) (madt_entry_step m madt entry s)
      else Some s)"

definition parse_madt :: "memory \<Rightarrow> u64 \<Rightarrow> acpi \<Rightarrow> acpi option" where
  "parse_madt m madt s = madt_loop m madt (madt_entries madt) s"

definition get_lapic_address :: "acpi \<Rightarrow> u32" where "get_lapic_address s = madt_apic_base s"
definition get_ioapic_addresss :: "acpi \<Rightarrow> u32" where "get_ioapic_addresss s = madt_ioapic_base s"

definition parse_acpi :: "bootboot \<Rightarrow> memory \<Rightarrow> acpi \<Rightarrow> acpi option" where
  "parse_acpi bb m s =
     (let sdt = find_rsdp (bb_acpi_ptr bb)
      in if signature_is m sdt ''RSDT'' then
           let s = s\<lparr>rsdt_bool := True, acpi_rsdt := sdt\<rparr>;
               madt = find_version_1_table m ''APIC'' s
           in if madt = 0 then Some s else parse_madt m madt s
         else if signature_is m sdt ''XSDT'' then
           let s = s\<lparr>xsdt_bool := True, acpi_xsdt := sdt\<rparr>;
               madt = find_version_2_up_table m ''APIC'' s
           in if madt = 0 then Some s else parse_madt m madt s
         else Some s)"

section \<open>Printing the tables\<close>

definition print_madt_entry :: "bool \<Rightarrow> memory \<Rightarrow> u64 \<Rightarrow> io_world \<Rightarrow> io_world" where
  "print_madt_entry rsdt m entry w =
     (if m entry = 0 then
        (if rsdt
         then print_call ''\<newline>The local apic id = %d and processor id = %d and length = %d'' 0xFFFFFF
                [VInt (ucast (m (entry + 3))), VInt (ucast (m (entry + 2))), VInt (ucast (m (entry + 1)))] w
         else print_call ''\<newline>The local apic id = %d and processor id = %d'' 0xFFFFFF
                [VInt (ucast (m (entry + 3))), VInt (ucast (m (entry + 2)))] w)
      else if m entry = 1 then
        print_call ''\<newline>The io apic id = %d and address = %p'' 0xFFFFFF
          [VInt (ucast (m (entry + 2))), VLong (ucast (io_apic_address m entry))] w
      else w)"

partial_function (option) print_madt_loop :: "bool \<Rightarrow> memory \<Rightarrow> u64 \<Rightarrow> u64 \<Rightarrow> io_world \<Rightarrow> io_world option" where
  "print_madt_loop rsdt m madt entry w =
     (if entry < madt_end m madt
      then print_madt_loop rsdt m madt (entry + ucast (m (entry + 1))) (print_madt_entry rsdt m entry w)
      else Some w)"

definition print_madt :: "bool \<Rightarrow> memory \<Rightarrow> u64 \<Rightarrow> io_world \<Rightarrow> io_world option" where
  "print_madt rsdt m madt w =
     (if madt = 0 then Some w
      else let w = print_call ''\<newline>Valid APIC found'' 0xFFFFFF [] w;
               entry = madt_entries madt;
               w = print_call ''\<newline>The number of entries %d'' 0xFFFFFF [VInt (ucast (m entry))] w
           in print_madt_loop rsdt m madt entry w)"

definition print_sdt_type :: "bootboot \<Rightarrow> memory \<Rightarrow> acpi \<Rightarrow> io_world \<Rightarrow> io_world option" where
  "print_sdt_type bb m s w =
     (let sdt = find_rsdp (bb_acpi_ptr bb)
      in if signature_is m sdt ''RSDT'' then
           let w = print_call ''\<newline>Valid RSDT'' 0xFFFFFF [] w;
               w = (if sdt_revision m sdt = 0 then print_call ''\<newline>Version 1.0'' 0xFFFFFF [] w
                    else print_call ''\<newline>Version > 1.0'' 0xFFFFFF [] w)
           in print_madt True m (find_version_1_table m ''APIC'' s) w
         else if signature_is m sdt ''XSDT'' then
           let w = print_call ''\<newline>Valid XSDT'' 0xFFFFFF [] w;
               w = (if sdt_revision m sdt = 0 then print_call ''\<newline>Version 1.0'' 0xFFFFFF [] w
                    else print_call ''\<newline>Version %d'' 0xFFFFFF [VInt (ucast (sdt_revision m sdt))] w)
           in print_madt False m (find_version_2_up_table m ''APIC'' s) w
         else Some w)"

definition acpi_interrupt_handler :: "io_world \<Rightarrow> io_world" where
  "acpi_interrupt_handler w = w"

section \<open>The high precision event timer\<close>

record hpet_state =
  hpet :: u64
  hpet_regs :: u64

definition hpet_write :: "u64 \<Rightarrow> u64 \<Rightarrow> io_world \<Rightarrow> io_world" where
  "hpet_write a v = emit (MmioWrite a v)"

definition hpet_read :: "u64 \<Rightarrow> io_world \<Rightarrow> u64 \<times> io_world" where
  "hpet_read a w = (let (v, w) = ask w in (v, emit (MmioRead a v) w))"

definition hpet_initialize :: "memory \<Rightarrow> acpi \<Rightarrow> hpet_state \<times> io_world \<Rightarrow> hpet_state \<times> io_world" where
  "hpet_initialize m s hw =
     (let (h, w) = hw
      in if \<not> is_rsdt s \<and> \<not> is_xsdt s then (h, w)
         else let h = h\<lparr>hpet := if is_rsdt s then find_version_1_table m ''HEPT'' s
                               else find_version_2_up_table m ''HEPT'' s\<rparr>
              in if hpet h = 0 then (h, w)
                 else let h = h\<lparr>hpet_regs := load64 m (hpet h + 44)\<rparr>;
                          w = hpet_write (hpet_regs h + 0xF0) 0 w;
                          w = hpet_write (hpet_regs h + 0x10) 1 w
                      in (h, w))"

partial_function (option) hpet_wait :: "u64 \<Rightarrow> u64 \<Rightarrow> io_world \<Rightarrow> io_world option" where
  "hpet_wait regs target_value w =
     (let (v, w) = hpet_read (regs + 0xF0) w
      in if v < target_value then hpet_wait regs target_value (emit Pause w) else Some w)"

text \<open>A period of zero is a division fault, whose handler never returns: no result.\<close>

definition hpet_usleep :: "u64 \<Rightarrow> hpet_state \<times> io_world \<Rightarrow> io_world option" where
  "hpet_usleep us hw =
     (let (h, w) = hw;
          (capabilities, w) = hpet_read (hpet_regs h) w;
          clock_period = (ucast (drop_bit 32 capabilities) :: u32)
      in if clock_period = 0 then None
         else let (counter, w) = hpet_read (hpet_regs h + 0xF0) w;
                  target_value = counter + us * ucast (1000000000 div clock_period)
              in hpet_wait (hpet_regs h) target_value w)"

definition hpet_get_counter_value :: "hpet_state \<times> io_world \<Rightarrow> u64 \<times> io_world" where
  "hpet_get_counter_value hw = (let (h, w) = hw in hpet_read (hpet_regs h + 0xF0) w)"

section \<open>Walking the entries\<close>

text \<open>\<open>entries_at m e ls\<close>: from \<open>e\<close> on there are entries of the nonzero lengths \<open>ls\<close>.\<close>

fun entries_at :: "memory \<Rightarrow> u64 \<Rightarrow> u8 list \<Rightarrow> bool" where
  "entries_at m e [] = True"
| "entries_at m e (l # ls) \<longleftrightarrow> m (e + 1) = l \<and> l \<noteq> 0 \<and> entries_at m (e + ucast l) ls"

fun entry_addresses :: "u64 \<Rightarrow> u8 list \<Rightarrow> u64 list" where
  "entry_addresses e [] = []"
| "entry_addresses e (l # ls) = e # entry_addresses (e + ucast l) ls"

definition total_length :: "u8 list \<Rightarrow> nat" where
  "total_length ls = sum_list (map unat ls)"

text \<open>The address of the last I/O APIC entry of the table wins.\<close>

definition last_io_apic :: "memory \<Rightarrow> u64 list \<Rightarrow> u32 \<Rightarrow> u32" where
  "last_io_apic m es old =
     (case filter (\<lambda>e. m e = 1) es of [] \<Rightarrow> old | xs \<Rightarrow> io_apic_address m (last xs))"

lemma total_length_simps [simp]:
  "total_length [] = 0" "total_length (l # ls) = unat l + total_length ls"
  by (simp_all add: total_length_def)

lemma last_io_apic_Nil: "last_io_apic m [] old = old"
  by (simp add: last_io_apic_def)

lemma last_io_apic_Cons:
  "last_io_apic m (e # es) old = last_io_apic m es (if m e = 1 then io_apic_address m e else old)"
  by (auto simp: last_io_apic_def split: list.splits)

lemma step_unat:
  fixes e :: u64 and l :: u8
  assumes "unat e + unat l < 2 ^ 64"
  shows "unat (e + ucast l) = unat e + unat l"
proof -
  have "unat (ucast l :: u64) = unat l" using unsigned_less[of l, where 'a = nat] by (simp add: unsigned_ucast_eq take_bit_nat_eq_self_iff)
  with assms show ?thesis by (simp add: unat_word_ariths)
qed

lemma madt_loop_entries:
  assumes "entries_at m e ls" and "unat e + total_length ls \<le> unat (madt_end m madt)"
  shows "madt_loop m madt e s =
    madt_loop m madt (e + of_nat (total_length ls)) (fold (madt_entry_step m madt) (entry_addresses e ls) s)"
  using assms
proof (induction ls arbitrary: e s)
  case (Cons l ls)
  let ?stop = "madt_end m madt"
  have l: "m (e + 1) = l" "0 < unat l" using Cons.prems(1) by (auto simp: unat_gt_0)
  have "unat e + unat l \<le> unat ?stop" using Cons.prems(2) by simp
  then have next_e: "unat (e + ucast l) = unat e + unat l"
    using unat64_less[of ?stop] by (intro step_unat) linarith
  have "e < ?stop" using \<open>unat e + unat l \<le> unat ?stop\<close> l(2) by (simp add: word_less_nat_alt)
  then have "madt_loop m madt e s = madt_loop m madt (e + ucast l) (madt_entry_step m madt e s)"
    using l(1) by (subst madt_loop.simps) simp
  also have "\<dots> = madt_loop m madt (e + ucast l + of_nat (total_length ls))
      (fold (madt_entry_step m madt) (entry_addresses (e + ucast l) ls) (madt_entry_step m madt e s))"
    using Cons.prems next_e by (intro Cons.IH) auto
  finally show ?case by (simp add: add.assoc)
qed simp

lemma fold_madt_steps:
  "fold (madt_entry_step m madt) es s =
     (if es = [] then s
      else s\<lparr>madt_apic_base := madt_local_controller_address m madt,
             madt_ioapic_base := last_io_apic m es (madt_ioapic_base s)\<rparr>)"
proof (induction es arbitrary: s)
  case (Cons e es)
  then show ?case
    by (cases "es = []") (auto simp: madt_entry_step_def Let_def last_io_apic_Cons last_io_apic_Nil)
qed simp

lemma madt_loop_advances:
  assumes "madt_loop m madt e s = Some r"
  shows "m (e + 1) = 0 \<longrightarrow> \<not> e < madt_end m madt"
  by (rule madt_loop.raw_induct[where P = "\<lambda>m madt e s r. m (e + 1) = 0 \<longrightarrow> \<not> e < madt_end m madt", OF _ assms])
     (auto split: if_splits)

lemma madt_loop_stuck:
  "e < madt_end m madt \<Longrightarrow> m (e + 1) = 0 \<Longrightarrow> madt_loop m madt e s = None"
  using madt_loop_advances[of m madt e s] by (cases "madt_loop m madt e s") auto

section \<open>Tables that end\<close>

text \<open>What the specification of the firmware's tables promises: the entries of the interrupt controller table have
  nonzero lengths and fill it.\<close>

definition madt_wf :: "memory \<Rightarrow> u64 \<Rightarrow> bool" where
  "madt_wf m madt \<longleftrightarrow> (\<exists>ls. entries_at m (madt_entries madt) ls \<and>
     unat (madt_entries madt) + total_length ls = unat (madt_end m madt))"

text \<open>The table that the two searches of the code find, and whether it is well formed.\<close>

definition acpi_at :: "bootboot \<Rightarrow> memory \<Rightarrow> acpi \<Rightarrow> bool" where
  "acpi_at bb m s \<longleftrightarrow> (let sdt = find_rsdp (bb_acpi_ptr bb)
     in if signature_is m sdt ''RSDT'' then acpi_rsdt s = sdt
        else if signature_is m sdt ''XSDT'' then acpi_xsdt s = sdt else True)"

definition acpi_wf :: "bootboot \<Rightarrow> memory \<Rightarrow> bool" where
  "acpi_wf bb m \<longleftrightarrow> (let sdt = find_rsdp (bb_acpi_ptr bb);
       madt = (if signature_is m sdt ''RSDT'' then find_version_1_table m ''APIC'' (acpi_bss\<lparr>acpi_rsdt := sdt\<rparr>)
               else if signature_is m sdt ''XSDT'' then find_version_2_up_table m ''APIC'' (acpi_bss\<lparr>acpi_xsdt := sdt\<rparr>)
               else 0)
     in madt = 0 \<or> madt_wf m madt)"

lemma find_version_1_cong: "acpi_rsdt s = acpi_rsdt t \<Longrightarrow> find_version_1_table m sig s = find_version_1_table m sig t"
  by (simp add: find_version_1_table_def Let_def split: option.split)

lemma find_version_2_cong: "acpi_xsdt s = acpi_xsdt t \<Longrightarrow> find_version_2_up_table m sig s = find_version_2_up_table m sig t"
  by (simp add: find_version_2_up_table_def Let_def split: option.split)

lemma madt_loop_end: "\<not> e < madt_end m madt \<Longrightarrow> madt_loop m madt e s = Some s"
  by (subst madt_loop.simps) simp

lemma entries_end:
  assumes "unat e + total_length ls = unat (stop :: u64)"
  shows "e + of_nat (total_length ls) = stop"
  using arg_cong[OF assms, of "of_nat :: nat \<Rightarrow> u64"] by simp

lemma parse_madt_returns: "madt_wf m madt \<Longrightarrow> \<exists>s'. parse_madt m madt s = Some s'"
  unfolding madt_wf_def parse_madt_def using madt_loop_entries entries_end by (metis madt_loop_end order.refl less_irrefl)

lemma print_madt_loop_returns:
  assumes "entries_at m e ls" and "unat e + total_length ls = unat (madt_end m madt)"
  shows "\<exists>w'. print_madt_loop rsdt m madt e w = Some w'"
  using assms
proof (induction ls arbitrary: e w)
  case Nil
  then have "\<not> e < madt_end m madt" by (simp add: word_less_nat_alt)
  then show ?case by (subst print_madt_loop.simps) simp
next
  case (Cons l ls)
  have l: "m (e + 1) = l" "unat e + unat l \<le> unat (madt_end m madt)" using Cons.prems by simp_all
  have next_e: "unat (e + ucast l) = unat e + unat l"
    using l(2) unat64_less[of "madt_end m madt"] by (intro step_unat) linarith
  have "\<exists>w'. print_madt_loop rsdt m madt (e + ucast l) v = Some w'" for v
    using Cons.prems next_e by (intro Cons.IH) auto
  then show ?case using l(1) by (subst print_madt_loop.simps) simp
qed

lemma print_madt_returns: "madt = 0 \<or> madt_wf m madt \<Longrightarrow> \<exists>w'. print_madt rsdt m madt w = Some w'"
  by (auto simp: print_madt_def madt_wf_def Let_def intro: print_madt_loop_returns)

lemma parse_acpi_returns:
  assumes "acpi_wf bb m"
  shows "\<exists>s'. parse_acpi bb m s = Some s'"
proof -
  let ?sdt = "find_rsdp (bb_acpi_ptr bb)"
  have "find_version_1_table m ''APIC'' (s\<lparr>rsdt_bool := True, acpi_rsdt := ?sdt\<rparr>) = find_version_1_table m ''APIC'' (acpi_bss\<lparr>acpi_rsdt := ?sdt\<rparr>)"
    "find_version_2_up_table m ''APIC'' (s\<lparr>xsdt_bool := True, acpi_xsdt := ?sdt\<rparr>) = find_version_2_up_table m ''APIC'' (acpi_bss\<lparr>acpi_xsdt := ?sdt\<rparr>)"
    by (rule find_version_1_cong find_version_2_cong; simp)+
  then show ?thesis using assms parse_madt_returns by (auto simp: parse_acpi_def acpi_wf_def Let_def)
qed

lemma print_sdt_returns:
  assumes "acpi_wf bb m" and "acpi_at bb m s"
  shows "\<exists>w'. print_sdt_type bb m s w = Some w'"
proof -
  let ?sdt = "find_rsdp (bb_acpi_ptr bb)"
  consider "signature_is m ?sdt ''RSDT''" | "\<not> signature_is m ?sdt ''RSDT''" "signature_is m ?sdt ''XSDT''"
    | "\<not> signature_is m ?sdt ''RSDT''" "\<not> signature_is m ?sdt ''XSDT''" by blast
  then show ?thesis
  proof cases
    case 1
    then have "find_version_1_table m ''APIC'' s = find_version_1_table m ''APIC'' (acpi_bss\<lparr>acpi_rsdt := ?sdt\<rparr>)"
      using assms(2) by (intro find_version_1_cong) (simp add: acpi_at_def Let_def)
    then show ?thesis using 1 assms(1) print_madt_returns by (simp add: print_sdt_type_def acpi_wf_def Let_def)
  next
    case 2
    then have "find_version_2_up_table m ''APIC'' s = find_version_2_up_table m ''APIC'' (acpi_bss\<lparr>acpi_xsdt := ?sdt\<rparr>)"
      using assms(2) by (intro find_version_2_cong) (simp add: acpi_at_def Let_def)
    then show ?thesis using 2 assms(1) print_madt_returns by (simp add: print_sdt_type_def acpi_wf_def Let_def)
  qed (simp add: print_sdt_type_def Let_def)
qed

text \<open>\<open>parse_acpi\<close> records the table it has found.\<close>

lemma madt_loop_keeps:
  assumes "madt_loop m madt e s = Some s'"
  shows "acpi_rsdt s' = acpi_rsdt s \<and> acpi_xsdt s' = acpi_xsdt s"
  by (rule madt_loop.raw_induct[where P = "\<lambda>m madt e s s'. acpi_rsdt s' = acpi_rsdt s \<and> acpi_xsdt s' = acpi_xsdt s", OF _ assms])
    (auto simp: madt_entry_step_def Let_def split: if_splits)

lemma parse_acpi_at:
  assumes "parse_acpi bb m s = Some s'"
  shows "acpi_at bb m s'"
  using assms by (auto simp: parse_acpi_def acpi_at_def parse_madt_def Let_def dest!: madt_loop_keeps split: if_splits)

section \<open>Properties\<close>

text \<open>C32: Parsing the MADT. For a table whose entries have the nonzero lengths \<open>ls\<close>: if they fill the
  table, \<open>parse_madt\<close> returns with the local APIC address of the header and the address of the last
  I/O APIC entry (the old one if there is none); if an entry of length zero follows them inside the
  table, it never returns.\<close>

theorem parse_madt_entries:
  assumes "entries_at m (madt_entries madt) ls" and "ls \<noteq> []"
    and "unat madt + 44 + total_length ls \<le> unat madt + unat (sdt_length m madt)"
    and "unat madt + unat (sdt_length m madt) < 2 ^ 64"
  shows "(44 + total_length ls = unat (sdt_length m madt) \<longrightarrow>
      parse_madt m madt s = Some (s\<lparr>madt_apic_base := madt_local_controller_address m madt,
        madt_ioapic_base := last_io_apic m (entry_addresses (madt_entries madt) ls) (madt_ioapic_base s)\<rparr>)) \<and>
    (44 + total_length ls < unat (sdt_length m madt) \<and> m (madt_entries madt + of_nat (total_length ls) + 1) = 0 \<longrightarrow>
      parse_madt m madt s = None)"
proof -
  let ?e = "madt_entries madt + of_nat (total_length ls)"
  have stop: "unat (madt_end m madt) = unat madt + unat (sdt_length m madt)"
  proof -
    have "unat (ucast (sdt_length m madt) :: u64) = unat (sdt_length m madt)"
      using unsigned_less[of "sdt_length m madt", where 'a = nat]
      by (simp add: unsigned_ucast_eq take_bit_nat_eq_self_iff)
    with assms(4) show ?thesis by (simp add: madt_end_def unat_word_ariths)
  qed
  have first: "unat (madt_entries madt) = unat madt + 44"
    using assms(3,4) by (simp add: madt_entries_def unat_word_ariths)
  have after: "unat ?e = unat madt + 44 + total_length ls"
    using assms(3,4) first unat_of_nat_less[of "total_length ls"] by (simp add: unat_word_ariths)
  have addr: "entry_addresses (madt_entries madt) ls \<noteq> []" using assms(2) by (cases ls) auto
  have run: "parse_madt m madt s = madt_loop m madt ?e
      (s\<lparr>madt_apic_base := madt_local_controller_address m madt,
         madt_ioapic_base := last_io_apic m (entry_addresses (madt_entries madt) ls) (madt_ioapic_base s)\<rparr>)"
    using madt_loop_entries[OF assms(1), of madt s] assms(3) stop first addr
    by (simp add: parse_madt_def fold_madt_steps)
  have at_end: "\<not> ?e < madt_end m madt" if "44 + total_length ls = unat (sdt_length m madt)"
    using that after stop by (simp add: word_less_nat_alt)
  have inside: "?e < madt_end m madt" if "44 + total_length ls < unat (sdt_length m madt)"
    using that after stop by (simp add: word_less_nat_alt)
  show ?thesis
    unfolding run using at_end inside by (auto simp: madt_loop_stuck) (subst madt_loop.simps, simp)
qed

text \<open>A table of 64 bytes at address 0x1000: a local APIC entry of 8 and an I/O APIC entry of 12 bytes;
  then the same table with its length raised by 16, over memory of zeros.\<close>

definition sample_madt :: "u8 \<Rightarrow> memory" where
  "sample_madt len =
     (\<lambda>_. 0)(0x1004 := len, 0x1026 := 0xE0, 0x1027 := 0xFE, 0x102D := 8,
       0x1034 := 1, 0x1035 := 12, 0x103A := 0xC0, 0x103B := 0xFE)"

theorem parse_madt_entries_witness:
  "parse_madt (sample_madt 64) 0x1000 acpi_bss =
     Some (acpi_bss\<lparr>madt_apic_base := 0xFEE00000, madt_ioapic_base := 0xFEC00000\<rparr>) \<and>
   parse_madt (sample_madt 80) 0x1000 acpi_bss = None"
  using parse_madt_entries[of "sample_madt 64" "0x1000" "[8, 12]" acpi_bss]
    parse_madt_entries[of "sample_madt 80" "0x1000" "[8, 12]" acpi_bss]
  by (simp add: sample_madt_def sdt_length_def madt_entries_def madt_local_controller_address_def
      io_apic_address_def last_io_apic_def load32_def read_bytes_def word_of_bytes_def upt_rec acpi_bss_def)

end
