(* ===== verification/Apic.thy ===== *)
theory Apic
  imports Acpi Paging Cpu Descriptors
begin

text \<open>
  The interrupt controllers and the timer: \<^verbatim>\<open>hardware/apic/apic.c\<close>, \<^verbatim>\<open>ioapic.c\<close> and \<^verbatim>\<open>timer.c\<close>. The
  registers are device memory, so an access is an event and a read takes its value from the stream of
  answers. Loops that wait for the hardware are partial; the masking loop over an 8-bit counter is
  partial as well. A halt is woken by an interrupt that the answer says is the timer's or not.
\<close>

section \<open>State\<close>

record apic =
  ap_vm :: vm
  ap_acpi :: acpi
  apic_base_address :: u64
  ioapic_base_address :: u64
  apic_ticks :: u64
  sleep_count_down :: u64
  last_refresh :: u64

definition on_io :: "(io_world \<Rightarrow> 'a \<times> io_world) \<Rightarrow> apic \<Rightarrow> 'a \<times> apic" where
  "on_io f s = (let (v, w) = f (vm_io (ap_vm s)) in (v, s\<lparr>ap_vm := (ap_vm s)\<lparr>vm_io := w\<rparr>\<rparr>))"

definition do_io :: "(io_world \<Rightarrow> io_world) \<Rightarrow> apic \<Rightarrow> apic" where
  "do_io f s = s\<lparr>ap_vm := (ap_vm s)\<lparr>vm_io := f (vm_io (ap_vm s))\<rparr>\<rparr>"

definition ap_log :: "log_level \<Rightarrow> string \<Rightarrow> va_arg list \<Rightarrow> apic \<Rightarrow> apic" where
  "ap_log l f args = do_io (log_call l f args)"

definition mmio_write :: "u64 \<Rightarrow> u32 \<Rightarrow> apic \<Rightarrow> apic" where
  "mmio_write a v = do_io (emit (MmioWrite a (ucast v)))"

definition mmio_read :: "u64 \<Rightarrow> apic \<Rightarrow> u32 \<times> apic" where
  "mmio_read a = on_io (\<lambda>w. let (v, w) = ask w; v = (ucast v :: u32) in (v, emit (MmioRead a (ucast v)) w))"

definition PTE_MMIO_FLAGS :: u64 where "PTE_MMIO_FLAGS = PTE_DEFAULT_FLAGS OR 0x10 OR 0x8"

definition ap_map_4kb_page :: "u64 \<Rightarrow> u64 \<Rightarrow> u64 \<Rightarrow> apic \<Rightarrow> apic" where
  "ap_map_4kb_page virt phys flags s = s\<lparr>ap_vm := map_4kb_page virt phys flags (ap_vm s)\<rparr>"

section \<open>Local APIC\<close>

definition IA32_APIC_BASE_MSR :: u32 where "IA32_APIC_BASE_MSR = 0x1B"

definition enable_apic :: "apic \<Rightarrow> apic" where
  "enable_apic s =
     (let (msr, s) = on_io (read_msr IA32_APIC_BASE_MSR) s;
          msr = msr OR push_bit 11 1
      in do_io (write_msr IA32_APIC_BASE_MSR msr) s)"

definition get_msr_apic_base_address :: "apic \<Rightarrow> u64 \<times> apic" where
  "get_msr_apic_base_address s =
     (let (msr_value, s) = on_io (read_msr IA32_APIC_BASE_MSR) s in (msr_value AND 0xFFFFF000, s))"

definition is_apic_enabled_in_msr :: "apic \<Rightarrow> bool \<times> apic" where
  "is_apic_enabled_in_msr s =
     (let (v, s) = on_io (read_msr IA32_APIC_BASE_MSR) s in (bit v 11, s))"

definition write_apic_register :: "u32 \<Rightarrow> u32 \<Rightarrow> apic \<Rightarrow> apic" where
  "write_apic_register reg v s = mmio_write (apic_base_address s + ucast reg) v s"

definition read_apic_register :: "u32 \<Rightarrow> apic \<Rightarrow> u32 \<times> apic" where
  "read_apic_register reg s = mmio_read (apic_base_address s + ucast reg) s"

definition send_eoi :: "apic \<Rightarrow> apic" where
  "send_eoi s = mmio_write (apic_base_address s + 0xB0) 0 s"

definition apic_init :: "apic \<Rightarrow> apic" where
  "apic_init s =
     (let s = ap_log LOG_LEVEL_INFO ''Initializing APIC'' [] s;
          s = s\<lparr>apic_base_address := ucast (get_lapic_address (ap_acpi s))\<rparr>;
          s = ap_map_4kb_page 0xFFFFFFFFF7001000 (apic_base_address s) PTE_MMIO_FLAGS s;
          s = ap_log LOG_LEVEL_INFO ''APIC address = %p'' [VLong (apic_base_address s)] s;
          (a, s) = get_msr_apic_base_address s;
          msr_apic_base_address = (ucast a :: u32);
          s = (if ucast msr_apic_base_address \<noteq> apic_base_address s
               then ap_log LOG_LEVEL_WARN ''The MSR %p and MADT %p, APIC address are different''
                      [VInt msr_apic_base_address, VLong (apic_base_address s)] s
               else s);
          s = s\<lparr>apic_base_address := 0xFFFFFFFFF7001000\<rparr>;
          (apic_status, s) = is_apic_enabled_in_msr s;
          s = (if apic_status then ap_log LOG_LEVEL_INFO ''APIC ENABLED'' [] s
               else enable_apic (ap_log LOG_LEVEL_WARN ''APIC not enable, ... Enabling APIC'' [] s));
          (spurious, s) = read_apic_register 0xF0 s;
          s = write_apic_register 0xF0 (spurious OR 0x100) s
      in ap_log LOG_LEVEL_INFO ''APIC Initialized'' [] s)"

section \<open>I/O APIC\<close>

definition ioapic_write :: "u8 \<Rightarrow> u32 \<Rightarrow> apic \<Rightarrow> apic" where
  "ioapic_write reg v s =
     (let s = mmio_write (ioapic_base_address s) (ucast reg AND 0xFF) s
      in mmio_write (ioapic_base_address s + 16) v s)"

definition ioapic_read :: "u8 \<Rightarrow> apic \<Rightarrow> u32 \<times> apic" where
  "ioapic_read reg s =
     (let s = mmio_write (ioapic_base_address s) (ucast reg AND 0xFF) s
      in mmio_read (ioapic_base_address s + 16) s)"

definition ioapic_set_irq :: "u8 \<Rightarrow> u8 \<Rightarrow> u8 \<Rightarrow> apic \<Rightarrow> apic" where
  "ioapic_set_irq irq vector apic_id s =
     (let low_index = (0x10 + 2 * ucast irq :: u32);
          high_index = low_index + 1;
          low_value = ucast vector;
          s = ioapic_write (ucast high_index) (push_bit 24 (ucast apic_id)) s
      in ioapic_write (ucast low_index) low_value s)"

partial_function (option) mask_loop :: "u8 \<Rightarrow> u8 \<Rightarrow> apic \<Rightarrow> apic option" where
  "mask_loop i max_redirection_entry s =
     (if i \<le> max_redirection_entry then
        let redtbl_low = (0x10 + 2 * ucast i :: u32);
            (v, s) = ioapic_read (ucast redtbl_low) s;
            v = v OR push_bit 16 1;
            s = ioapic_write (ucast redtbl_low) v s
        in mask_loop (i + 1) max_redirection_entry s
      else Some s)"

definition mask_all_ioapic_vectors :: "apic \<Rightarrow> apic option" where
  "mask_all_ioapic_vectors s =
     (let (version, s) = ioapic_read 0x01 s;
          max_redirection_entry = ucast (drop_bit 16 version AND 0xFF)
      in mask_loop 0 max_redirection_entry s)"

definition ioapic_unmask_irq :: "u8 \<Rightarrow> apic \<Rightarrow> apic" where
  "ioapic_unmask_irq irq s =
     (let ioredtbl = (0x10 + 2 * ucast irq :: u32);
          (v, s) = ioapic_read (ucast ioredtbl) s;
          v = v AND NOT (push_bit 16 1)
      in ioapic_write (ucast ioredtbl) v s)"

definition ioapic_init :: "apic \<Rightarrow> apic option" where
  "ioapic_init s =
     (let s = s\<lparr>ioapic_base_address := ucast (get_ioapic_addresss (ap_acpi s))\<rparr>;
          s = ap_map_4kb_page 0xFFFFFFFFF7002000 (ioapic_base_address s) PTE_MMIO_FLAGS s;
          s = s\<lparr>ioapic_base_address := 0xFFFFFFFFF7002000\<rparr>
      in mask_all_ioapic_vectors s)"

definition ioapic_send_eoi :: "u8 \<Rightarrow> apic \<Rightarrow> apic" where
  "ioapic_send_eoi vector s = mmio_write (ioapic_base_address s + 0xFEE000B0) (ucast vector) s"

section \<open>Timer\<close>

partial_function (option) wait_for_pit :: "apic \<Rightarrow> apic option" where
  "wait_for_pit s =
     (let (v, s) = on_io (in_b 0x61) s
      in if v AND 0x20 = 0 then wait_for_pit s else Some s)"

definition LVT_TIMER_REGISTER :: u32 where "LVT_TIMER_REGISTER = 0x320"
definition INITIAL_COUNT_REGISTER_FOR_TIMER :: u32 where "INITIAL_COUNT_REGISTER_FOR_TIMER = 0x380"
definition CURRENT_COUNT_REGISTER_FOR_TIMER :: u32 where "CURRENT_COUNT_REGISTER_FOR_TIMER = 0x390"
definition DIVIDE_CONFIGURATION_REGISTER_FOR_TIMER :: u32 where "DIVIDE_CONFIGURATION_REGISTER_FOR_TIMER = 0x3E0"
definition APIC_TIMER_FLAG_MASKED :: u32 where "APIC_TIMER_FLAG_MASKED = push_bit 16 1"
definition APIC_TIMER_FLAG_PERIODIC :: u32 where "APIC_TIMER_FLAG_PERIODIC = push_bit 17 1"

definition calibrate_apic_timer :: "apic \<Rightarrow> (u32 \<times> apic) option" where
  "calibrate_apic_timer s = do {
     let s = do_io (out_b 0x43 0x30) s;
     let s = do_io (out_b 0x40 0xA9) s;
     let s = do_io (out_b 0x40 0x04) s;
     let s = write_apic_register DIVIDE_CONFIGURATION_REGISTER_FOR_TIMER 0x3 s;
     let s = write_apic_register INITIAL_COUNT_REGISTER_FOR_TIMER 0xFFFFFFFF s;
     s \<leftarrow> wait_for_pit s;
     let s = write_apic_register LVT_TIMER_REGISTER APIC_TIMER_FLAG_MASKED s;
     let (count, s) = read_apic_register CURRENT_COUNT_REGISTER_FOR_TIMER s;
     Some ((0xFFFFFFFF - count) * 1000, s)
   }"

text \<open>The frequency is a positive constant at the only call.\<close>

definition init_apic_timer :: "u32 \<Rightarrow> apic \<Rightarrow> apic option" where
  "init_apic_timer frequency s = do {
     (apic_frequency, s) \<leftarrow> calibrate_apic_timer s;
     if apic_frequency = 0
     then Some (ap_log LOG_LEVEL_ERROR ''Failed to calibrate APIC timer'' [] s)
     else let initial_count = apic_frequency div frequency;
              s = write_apic_register DIVIDE_CONFIGURATION_REGISTER_FOR_TIMER 0x3 s;
              s = write_apic_register INITIAL_COUNT_REGISTER_FOR_TIMER initial_count s;
              s = write_apic_register LVT_TIMER_REGISTER (APIC_TIMER_FLAG_PERIODIC OR 34) s
          in Some (ap_log LOG_LEVEL_INFO ''APIC Timer initialized with frequency %lu Hz'' [VInt frequency] s)
   }"

definition init_apic_timer_interrupt :: "apic \<Rightarrow> apic option" where
  "init_apic_timer_interrupt s = do {
     s \<leftarrow> init_apic_timer 10000 s;
     let s = ioapic_set_irq 0 0x22 0 s;
     Some (ioapic_unmask_irq 0 s)
   }"

definition apic_timer_interrupt_handler :: "apic \<Rightarrow> apic" where
  "apic_timer_interrupt_handler s =
     (let s = s\<lparr>apic_ticks := apic_ticks s + 1\<rparr>;
          s = (if 0 < sleep_count_down s then s\<lparr>sleep_count_down := sleep_count_down s - 1\<rparr> else s);
          s = (if 16 \<le> apic_ticks s - last_refresh s then s\<lparr>last_refresh := apic_ticks s\<rparr> else s)
      in send_eoi s)"

text \<open>\<open>sti; hlt; cli\<close>: an odd answer is a wake-up by the timer, whose handler runs.\<close>

definition halt_round :: "apic \<Rightarrow> apic" where
  "halt_round s =
     (let s = do_io (emit Hlt) (do_io (emit Sti) s);
          (woken, s) = on_io ask s;
          s = (if bit woken 0 then apic_timer_interrupt_handler s else s)
      in do_io (emit Cli) s)"

partial_function (option) sleep_loop :: "u64 \<Rightarrow> apic \<Rightarrow> apic option" where
  "sleep_loop target_tick s =
     (if apic_ticks s < target_tick then sleep_loop target_tick (halt_round s) else Some s)"

definition sleep :: "u64 \<Rightarrow> apic \<Rightarrow> apic option" where
  "sleep milliseconds s =
     (let target_tick = apic_ticks s + milliseconds in sleep_loop target_tick s)"

section \<open>The state the operations leave\<close>

abbreviation ap_trace :: "apic \<Rightarrow> io_event list" where
  "ap_trace s \<equiv> trace (vm_io (ap_vm s))"

lemma do_io_simps [simp]:
  "vm_io (ap_vm (do_io f s)) = f (vm_io (ap_vm s))" "apic_base_address (do_io f s) = apic_base_address s"
  "ioapic_base_address (do_io f s) = ioapic_base_address s" "apic_ticks (do_io f s) = apic_ticks s"
  "ap_acpi (do_io f s) = ap_acpi s"
  by (simp_all add: do_io_def)

lemma mmio_write_simps [simp]:
  "ap_trace (mmio_write a v s) = ap_trace s @ [MmioWrite a (ucast v)]"
  "answer (vm_io (ap_vm (mmio_write a v s))) = answer (vm_io (ap_vm s))"
  "asked (vm_io (ap_vm (mmio_write a v s))) = asked (vm_io (ap_vm s))"
  "ioapic_base_address (mmio_write a v s) = ioapic_base_address s"
  "apic_base_address (mmio_write a v s) = apic_base_address s"
  "apic_ticks (mmio_write a v s) = apic_ticks s"
  by (simp_all add: mmio_write_def)

lemma mmio_read_simps [simp]:
  "fst (mmio_read a s) = ucast (answer (vm_io (ap_vm s)) (asked (vm_io (ap_vm s))))"
  "ap_trace (snd (mmio_read a s)) = ap_trace s @ [MmioRead a (ucast (fst (mmio_read a s)))]"
  "ioapic_base_address (snd (mmio_read a s)) = ioapic_base_address s"
  "apic_base_address (snd (mmio_read a s)) = apic_base_address s"
  "apic_ticks (snd (mmio_read a s)) = apic_ticks s"
  by (simp_all add: mmio_read_def on_io_def ask_def Let_def split_beta)

lemma ucast_chain [simp]:
  "(ucast (ucast r :: u32) :: u64) = ucast r" "(ucast (ucast r :: u64) :: u8) = r" for r :: u8
  by (rule bit_word_eqI, auto simp: bit_simps dest: bit_imp_le_length)+

lemma ioapic_write_simps [simp]:
  "ap_trace (ioapic_write r v s) = ap_trace s @
     [MmioWrite (ioapic_base_address s) (ucast r), MmioWrite (ioapic_base_address s + 16) (ucast v)]"
  "ioapic_base_address (ioapic_write r v s) = ioapic_base_address s"
proof -
  have "(ucast r AND 0xFF :: u32) = ucast r"
    by (rule bit_word_eqI) (auto simp: and_masks bit_simps dest: bit_imp_le_length)
  then show "ap_trace (ioapic_write r v s) = ap_trace s @
     [MmioWrite (ioapic_base_address s) (ucast r), MmioWrite (ioapic_base_address s + 16) (ucast v)]"
    by (simp add: ioapic_write_def Let_def)
qed (simp add: ioapic_write_def Let_def)

lemma ioapic_read_trace [simp]:
  "ap_trace (snd (ioapic_read r s)) = ap_trace s @
     [MmioWrite (ioapic_base_address s) (ucast r), MmioRead (ioapic_base_address s + 16) (ucast (fst (ioapic_read r s)))]"
  "ioapic_base_address (snd (ioapic_read r s)) = ioapic_base_address s"
proof -
  have "(ucast r AND 0xFF :: u32) = ucast r"
    by (rule bit_word_eqI) (auto simp: and_masks bit_simps dest: bit_imp_le_length)
  then show "ap_trace (snd (ioapic_read r s)) = ap_trace s @
     [MmioWrite (ioapic_base_address s) (ucast r), MmioRead (ioapic_base_address s + 16) (ucast (fst (ioapic_read r s)))]"
    by (simp add: ioapic_read_def Let_def)
qed (simp add: ioapic_read_def Let_def)

section \<open>The device behind the registers\<close>

text \<open>An I/O APIC: a selector and a window onto the selected register.\<close>

record io_apic_device =
  selected :: u8
  registers :: "u8 \<Rightarrow> u32"

fun device_step :: "u64 \<Rightarrow> io_event \<Rightarrow> io_apic_device \<Rightarrow> io_apic_device" where
  "device_step base (MmioWrite a v) d =
     (if a = base then d\<lparr>selected := ucast v\<rparr>
      else if a = base + 16 then d\<lparr>registers := (registers d)(selected d := ucast v)\<rparr>
      else d)"
| "device_step base _ d = d"

definition device_after :: "u64 \<Rightarrow> io_event list \<Rightarrow> io_apic_device \<Rightarrow> io_apic_device" where
  "device_after base es d = fold (device_step base) es d"

definition masked :: "io_apic_device \<Rightarrow> u8 \<Rightarrow> bool" where
  "masked d i \<longleftrightarrow> bit (registers d (0x10 + 2 * i)) 16"

lemma device_after_Cons: "device_after b (e # es) d = device_after b es (device_step b e d)"
  by (simp add: device_after_def)

lemma device_after_append [simp]: "device_after b (es @ fs) d = device_after b fs (device_after b es d)"
  by (simp add: device_after_def)

definition mask_round :: "u8 \<Rightarrow> apic \<Rightarrow> apic" where
  "mask_round i s =
     (let (v, s) = ioapic_read (0x10 + 2 * i) s in ioapic_write (0x10 + 2 * i) (v OR push_bit 16 1) s)"

lemma low_register: "(ucast (0x10 + 2 * ucast i :: u32) :: u8) = 0x10 + 2 * i" for i :: u8
proof -
  have "uint i < 256" using uint_lt2p[of i] by simp
  then have "take_bit 32 (uint i) = uint i" by (simp add: take_bit_int_eq_self_iff)
  with \<open>uint i < 256\<close> have "uint (0x10 + 2 * ucast i :: u32) = 16 + 2 * uint i"
    by (simp add: uint_word_ariths unsigned_ucast_eq)
  then have "of_int (uint (0x10 + 2 * ucast i :: u32)) = (of_int (16 + 2 * uint i) :: u8)" by simp
  then show ?thesis by simp
qed

lemma mask_loop_step:
  "mask_loop i mx s = (if i \<le> mx then mask_loop (i + 1) mx (mask_round i s) else Some s)"
  by (subst mask_loop.simps) (simp add: mask_round_def Let_def split_beta low_register)

lemma mask_round_device:
  "\<exists>es. ap_trace (mask_round i s) = ap_trace s @ es \<and> ioapic_base_address (mask_round i s) = ioapic_base_address s \<and>
     (\<forall>d. masked (device_after (ioapic_base_address s) es d) i \<and>
        (\<forall>j. masked d j \<longrightarrow> masked (device_after (ioapic_base_address s) es d) j))"
  by (auto simp: mask_round_def Let_def split_beta device_after_def masked_def bit_simps)

lemma mask_loop_device:
  assumes "mx < 255" and "unat i \<le> unat mx + 1"
  shows "\<exists>s' es. mask_loop i mx s = Some s' \<and> ap_trace s' = ap_trace s @ es \<and>
     (\<forall>d j. masked d j \<or> i \<le> j \<and> j \<le> mx \<longrightarrow> masked (device_after (ioapic_base_address s) es d) j)"
  using assms(2)
proof (induction "unat mx + 1 - unat i" arbitrary: i s)
  case 0
  then have "\<not> i \<le> mx" by (simp add: word_le_nat_alt)
  then show ?case
    by (subst mask_loop_step) (auto simp: device_after_def)
next
  case (Suc k)
  then have le: "i \<le> mx" by (simp add: word_le_nat_alt)
  have lt: "unat i < 255" using le assms(1) by (simp add: word_le_nat_alt word_less_nat_alt)
  then have inc: "unat (i + 1) = unat i + 1" by (simp add: unat_word_ariths)
  from mask_round_device[of i s] obtain es where
    es: "ap_trace (mask_round i s) = ap_trace s @ es" "ioapic_base_address (mask_round i s) = ioapic_base_address s"
    "\<And>d. masked (device_after (ioapic_base_address s) es d) i"
    "\<And>d j. masked d j \<Longrightarrow> masked (device_after (ioapic_base_address s) es d) j" by blast
  have "k = unat mx + 1 - unat (i + 1)" using Suc.hyps(2) inc by simp
  moreover have "unat (i + 1) \<le> unat mx + 1" using le inc by (simp add: word_le_nat_alt)
  ultimately obtain s' fs where
    fs: "mask_loop (i + 1) mx (mask_round i s) = Some s'" "ap_trace s' = ap_trace (mask_round i s) @ fs"
    "\<And>d j. masked d j \<or> i + 1 \<le> j \<and> j \<le> mx \<Longrightarrow> masked (device_after (ioapic_base_address s) fs d) j"
    using Suc.hyps(1)[of "i + 1" "mask_round i s"] es(2) by auto
  have "masked (device_after (ioapic_base_address s) (es @ fs) d) j"
    if "masked d j \<or> i \<le> j \<and> j \<le> mx" for d j
  proof -
    have "i \<le> j \<Longrightarrow> j = i \<or> i + 1 \<le> j"
      using inc by (auto simp: word_le_nat_alt le_less word_unat_eq_iff)
    with that es(3,4) fs(3) show ?thesis by auto
  qed
  then show ?case
    using le fs(1,2) es(1) by (subst mask_loop_step) auto
qed

lemma mask_loop_bound:
  assumes "mask_loop i mx s = Some s'"
  shows "mx \<noteq> 255"
proof (rule mask_loop.raw_induct[where P = "\<lambda>i mx s s'. mx \<noteq> 255", OF _ assms])
  fix f i s s' and mx :: u8
  assume IH: "\<And>i mx s s'. f i mx s = Some s' \<Longrightarrow> mx \<noteq> 255"
    and eq: "(if i \<le> mx then
        let redtbl_low = 0x10 + 2 * ucast i; (v, s) = ioapic_read (ucast (redtbl_low :: u32)) s; v = v OR push_bit 16 1;
            s = ioapic_write (ucast redtbl_low) v s in f (i + 1) mx s
      else Some s) = Some s'"
  show "mx \<noteq> 255"
  proof
    assume "mx = 255"
    then have "mx = - 1" by simp
    then have "i \<le> mx" by simp
    with eq IH \<open>mx = 255\<close> show False by (auto simp: Let_def split_beta)
  qed
qed

section \<open>Sleeping\<close>

text \<open>The number of timer wake-ups among the next \<open>k\<close> wake-ups.\<close>

definition timer_ticks :: "(nat \<Rightarrow> u64) \<Rightarrow> nat \<Rightarrow> nat \<Rightarrow> nat" where
  "timer_ticks ans i k = card {j. i \<le> j \<and> j < i + k \<and> bit (ans j) 0}"

abbreviation ap_answer :: "apic \<Rightarrow> nat \<Rightarrow> u64" where "ap_answer s \<equiv> answer (vm_io (ap_vm s))"
abbreviation ap_asked :: "apic \<Rightarrow> nat" where "ap_asked s \<equiv> asked (vm_io (ap_vm s))"

lemma timer_ticks_0 [simp]: "timer_ticks ans i 0 = 0"
proof -
  have none: "{j. i \<le> j \<and> j < i + 0 \<and> bit (ans j) 0} = {}" by auto
  show ?thesis unfolding timer_ticks_def none by simp
qed

lemma timer_ticks_Suc:
  "timer_ticks ans i (Suc k) = (if bit (ans i) 0 then 1 else 0) + timer_ticks ans (Suc i) k"
proof -
  let ?A = "{j. Suc i \<le> j \<and> j < Suc i + k \<and> bit (ans j) 0}"
  have "{j. i \<le> j \<and> j < i + Suc k \<and> bit (ans j) 0} = (if bit (ans i) 0 then insert i ?A else ?A)"
    by (auto simp: Suc_le_eq intro: le_neq_implies_less)
  moreover have "finite ?A" "i \<notin> ?A" by auto
  ultimately show ?thesis by (simp add: timer_ticks_def)
qed

lemma timer_handler_simps [simp]:
  "apic_ticks (apic_timer_interrupt_handler s) = apic_ticks s + 1"
  "ap_answer (apic_timer_interrupt_handler s) = ap_answer s"
  "ap_asked (apic_timer_interrupt_handler s) = ap_asked s"
  by (simp_all add: apic_timer_interrupt_handler_def send_eoi_def Let_def)

lemma halt_round_simps:
  "apic_ticks (halt_round s) = (if bit (ap_answer s (ap_asked s)) 0 then apic_ticks s + 1 else apic_ticks s)"
  "ap_answer (halt_round s) = ap_answer s"
  "ap_asked (halt_round s) = Suc (ap_asked s)"
  by (simp_all add: halt_round_def Let_def split_beta on_io_def ask_def)

lemma sleep_loop_runs:
  assumes "unat (apic_ticks s) + n = unat target" and "timer_ticks (ap_answer s) (ap_asked s) k = n"
  shows "\<exists>s'. sleep_loop target s = Some s' \<and> apic_ticks s' = target \<and> ap_asked s' \<le> ap_asked s + k"
  using assms
proof (induction k arbitrary: s n)
  case 0
  then have "apic_ticks s = target" by (simp add: word_unat_eq_iff)
  then show ?case by (subst sleep_loop.simps) simp
next
  case (Suc k)
  show ?case
  proof (cases "n = 0")
    case True
    with Suc.prems(1) have "apic_ticks s = target" by (simp add: word_unat_eq_iff)
    then show ?thesis by (subst sleep_loop.simps) simp
  next
    case False
    then have lt: "apic_ticks s < target" using Suc.prems(1) by (simp add: word_less_nat_alt)
    have unroll: "sleep_loop target s = sleep_loop target (halt_round s)"
      using lt by (subst sleep_loop.simps) simp
    let ?b = "bit (ap_answer s (ap_asked s)) 0"
    have inc: "unat (apic_ticks s + 1) = unat (apic_ticks s) + 1"
      using False Suc.prems(1) unat64_less[of target] by (simp add: unat_word_ariths)
    have n: "n = (if ?b then 1 else 0) + timer_ticks (ap_answer s) (Suc (ap_asked s)) k"
      using Suc.prems(2) by (simp add: timer_ticks_Suc)
    have "unat (apic_ticks (halt_round s)) + timer_ticks (ap_answer s) (Suc (ap_asked s)) k = unat target"
      using Suc.prems(1) n inc by (auto simp: halt_round_simps split: if_splits)
    from Suc.IH[OF this] unroll show ?thesis by (auto simp: halt_round_simps)
  qed
qed

section \<open>Properties\<close>

definition max_entry :: "apic \<Rightarrow> u8" where
  "max_entry s = ucast (drop_bit 16 (fst (ioapic_read 1 s)) AND 0xFF)"

text \<open>C21: Masking the I/O APIC. Whatever the device answers, \<open>mask_all_ioapic_vectors\<close> returns and leaves
  the mask bit of every redirection entry up to the number the device reports set, unless that number
  is 255: then the 8-bit counter never exceeds it and the loop does not end.\<close>

theorem mask_all_masks:
  "(max_entry s \<noteq> 255 \<longrightarrow> (\<exists>s' es. mask_all_ioapic_vectors s = Some s' \<and> ap_trace s' = ap_trace s @ es \<and>
      (\<forall>d j. j \<le> max_entry s \<longrightarrow> masked (device_after (ioapic_base_address s) es d) j))) \<and>
   (max_entry s = 255 \<longrightarrow> mask_all_ioapic_vectors s = None)"
proof -
  let ?s = "snd (ioapic_read 1 s)"
  have run: "mask_all_ioapic_vectors s = mask_loop 0 (max_entry s) ?s"
    by (simp add: mask_all_ioapic_vectors_def Let_def split_beta max_entry_def)
  show ?thesis
  proof (intro conjI impI)
    assume "max_entry s \<noteq> 255"
    then have "max_entry s < 255"
      using unsigned_less[of "max_entry s", where 'a = nat] by (simp add: word_less_nat_alt word_unat_eq_iff)
    from mask_loop_device[OF this, of 0 ?s] obtain s' es where
      es: "mask_loop 0 (max_entry s) ?s = Some s'" "ap_trace s' = ap_trace ?s @ es"
      "\<And>d j. j \<le> max_entry s \<Longrightarrow> masked (device_after (ioapic_base_address s) es d) j" by auto
    show "\<exists>s' es. mask_all_ioapic_vectors s = Some s' \<and> ap_trace s' = ap_trace s @ es \<and>
        (\<forall>d j. j \<le> max_entry s \<longrightarrow> masked (device_after (ioapic_base_address s) es d) j)"
      using es by (auto simp: run device_after_Cons)
  next
    assume "max_entry s = 255"
    then show "mask_all_ioapic_vectors s = None"
      using mask_loop_bound[of 0 "max_entry s" ?s] unfolding run
      by (cases "mask_loop 0 (max_entry s) ?s") auto
  qed
qed

definition sample_apic :: "u64 \<Rightarrow> apic" where
  "sample_apic a = \<lparr>ap_vm = \<lparr>vm_pmm = pmm_bss, vm_mem = (\<lambda>_. 0), vm_cr3 = 0,
       vm_io = \<lparr>answer = (\<lambda>_. a), asked = 0, trace = []\<rparr>, vm_bootboot_paging = 0\<rparr>,
     ap_acpi = acpi_bss, apic_base_address = 0xFEE00000, ioapic_base_address = 0xFEC00000,
     apic_ticks = 5, sleep_count_down = 0, last_refresh = 0\<rparr>"

theorem mask_all_masks_witness:
  "(\<exists>s' es. mask_all_ioapic_vectors (sample_apic 0x170020) = Some s' \<and> ap_trace s' = es \<and>
      masked (device_after 0xFEC00000 es \<lparr>selected = 0, registers = (\<lambda>_. 0)\<rparr>) 23) \<and>
   mask_all_ioapic_vectors (sample_apic 0xFF0020) = None"
proof -
  have "max_entry (sample_apic 0x170020) = 23" "max_entry (sample_apic 0xFF0020) = 255"
    by (simp_all add: max_entry_def sample_apic_def ioapic_read_def Let_def drop_bit_eq_div)
  moreover have "ioapic_base_address (sample_apic a) = 0xFEC00000" "ap_trace (sample_apic a) = []" for a
    by (simp_all add: sample_apic_def)
  ultimately show ?thesis
    using mask_all_masks[of "sample_apic 0x170020"] mask_all_masks[of "sample_apic 0xFF0020"] by fastforce
qed

text \<open>C29: Sleeping. If \<open>k\<close> wake-ups contain as many timer ticks as \<open>sleep\<close> is to wait for, it returns within
  \<open>k\<close> halts with the tick counter advanced by exactly that number; a target beyond the counter's
  range wraps around and \<open>sleep\<close> returns at once.\<close>

theorem sleep_waits:
  assumes "timer_ticks (ap_answer s) (ap_asked s) k = unat n"
  shows "(unat (apic_ticks s) + unat n < 2 ^ 64 \<longrightarrow>
      (\<exists>s'. sleep n s = Some s' \<and> apic_ticks s' = apic_ticks s + n \<and> ap_asked s' \<le> ap_asked s + k)) \<and>
    (2 ^ 64 \<le> unat (apic_ticks s) + unat n \<longrightarrow> sleep n s = Some s)"
proof (intro conjI impI)
  assume "unat (apic_ticks s) + unat n < 2 ^ 64"
  then have "unat (apic_ticks s) + unat n = unat (apic_ticks s + n)" by (simp add: unat_word_ariths)
  from sleep_loop_runs[OF this assms]
  show "\<exists>s'. sleep n s = Some s' \<and> apic_ticks s' = apic_ticks s + n \<and> ap_asked s' \<le> ap_asked s + k"
    by (simp add: sleep_def)
next
  assume over: "2 ^ 64 \<le> unat (apic_ticks s) + unat n"
  have "unat (apic_ticks s + n) = (unat (apic_ticks s) + unat n) mod 2 ^ 64" by (simp add: unat_word_ariths)
  also have "\<dots> = unat (apic_ticks s) + unat n - 2 ^ 64"
    using over unat64_less[of "apic_ticks s"] unat64_less[of n] by (simp add: le_mod_geq)
  also have "\<dots> \<le> unat (apic_ticks s)" using unat64_less[of n] by linarith
  finally have "\<not> apic_ticks s < apic_ticks s + n" by (simp add: word_less_nat_alt)
  then show "sleep n s = Some s" by (simp add: sleep_def) (subst sleep_loop.simps, simp)
qed

theorem sleep_waits_witness:
  "(\<exists>s'. sleep 2 (sample_apic 1) = Some s' \<and> apic_ticks s' = 7 \<and> ap_asked s' \<le> 2)"
proof -
  have "timer_ticks (ap_answer (sample_apic 1)) (ap_asked (sample_apic 1)) 2 = unat (2 :: u64)"
    using timer_ticks_Suc[of "\<lambda>_. 1" 0 1] timer_ticks_Suc[of "\<lambda>_. 1" 1 0] by (simp add: sample_apic_def flip: numeral_2_eq_2)
  from sleep_waits[OF this] show ?thesis by (simp add: sample_apic_def flip: numeral_2_eq_2)
qed

end
