(* ===== verification/Syscall.thy ===== *)
theory Syscall
  imports Cpu
begin

text \<open>
  System calls, \<^verbatim>\<open>process/syscall/syscall.c\<close>, the register frame of an interrupted context
  (\<^verbatim>\<open>cpu_status_t\<close> of \<^verbatim>\<open>x86_64/cpu.h\<close>) and the stub \<open>syscall\<close> of user programs, \<^verbatim>\<open>libc/hukaos.c\<close>.
  The dispatcher is a stub in the source: no call has an effect yet. \<open>setup_syscall\<close> is to program the
  model-specific registers of the SYSCALL instruction, which connects the two sides; the processor
  refuses what it writes.
\<close>

section \<open>The register frame\<close>

record cpu_status =
  r15 :: u64 r14 :: u64 r13 :: u64 r12 :: u64 r11 :: u64 r10 :: u64 r9 :: u64 r8 :: u64
  rdi :: u64 rsi :: u64 rbp :: u64 rdx :: u64 rcx :: u64 rbx :: u64 rax :: u64
  interrupt_number :: u64
  error_code :: u64
  rip :: u64
  cs :: u16
  rflags :: u64
  rsp :: u64
  ss :: u16

section \<open>System calls\<close>

definition SYSCALL_WRITE :: u64 where "SYSCALL_WRITE = 1"
definition SYSCALL_READ :: u64 where "SYSCALL_READ = 2"
definition SYSCALL_OPEN :: u64 where "SYSCALL_OPEN = 6"
definition SYSCALL_CLOSE :: u64 where "SYSCALL_CLOSE = 7"

text \<open>\<open>sys_write\<close> falls off its end without a result; nobody reads one.\<close>

definition sys_write :: "u64 \<Rightarrow> u64 \<Rightarrow> u64 \<Rightarrow> io_world \<Rightarrow> io_world" where
  "sys_write dev_id buffer n w = w"

definition syscall_handler :: "cpu_status \<Rightarrow> io_world \<Rightarrow> io_world" where
  "syscall_handler registers w =
     (let syscall_number = rdi registers
      in if syscall_number = SYSCALL_WRITE
         then sys_write (rsi registers) (rdx registers) (rcx registers) w
         else if syscall_number = SYSCALL_READ then w
         else if syscall_number = SYSCALL_OPEN then w
         else if syscall_number = SYSCALL_CLOSE then w
         else w)"

text \<open>The packed structure in memory.\<close>

definition cpu_status_at :: "memory \<Rightarrow> u64 \<Rightarrow> cpu_status" where
  "cpu_status_at m p =
     \<lparr>r15 = load64 m p, r14 = load64 m (p + 8), r13 = load64 m (p + 16), r12 = load64 m (p + 24),
      r11 = load64 m (p + 32), r10 = load64 m (p + 40), r9 = load64 m (p + 48), r8 = load64 m (p + 56),
      rdi = load64 m (p + 64), rsi = load64 m (p + 72), rbp = load64 m (p + 80), rdx = load64 m (p + 88),
      rcx = load64 m (p + 96), rbx = load64 m (p + 104), rax = load64 m (p + 112),
      interrupt_number = load64 m (p + 120), error_code = load64 m (p + 128), rip = load64 m (p + 136),
      cs = load16 m (p + 144), rflags = load64 m (p + 146), rsp = load64 m (p + 154), ss = load16 m (p + 162)\<rparr>"

definition syscall_write_handler :: "cpu_status \<Rightarrow> io_world \<Rightarrow> io_world" where
  "syscall_write_handler context w = w"

definition IA32_EFER :: u32 where "IA32_EFER = 0xC0000080"
definition IA32_STAR :: u32 where "IA32_STAR = 0xC0000081"
definition IA32_LSTAR :: u32 where "IA32_LSTAR = 0xC0000082"
definition IA32_FMASK :: u32 where "IA32_FMASK = 0xC0000084"

text \<open>\<open>entry\<close> is the address of \<open>syscall_handler\<close>.\<close>

definition setup_syscall :: "u64 \<Rightarrow> io_world \<Rightarrow> io_world" where
  "setup_syscall entry w =
     (let (efer, w) = read_msr IA32_EFER w;
          efer = efer OR push_bit 0 1;
          w = write_msr IA32_EFER efer w;
          star = push_bit 48 0x23 OR push_bit 32 0x08;
          w = write_msr IA32_STAR star w;
          w = write_msr IA32_LSTAR entry w
      in write_msr IA32_FMASK 0x257 w)"

section \<open>The user's side\<close>

text \<open>The moves of the stub. The compiler takes the operands from registers that the stub does not
  overwrite, since it lists those as clobbered.\<close>

definition syscall_stub :: "u64 \<Rightarrow> u64 \<Rightarrow> u64 \<Rightarrow> u64 \<Rightarrow> cpu_status \<Rightarrow> cpu_status" where
  "syscall_stub syscall_number arg1 arg2 arg3 regs =
     (let regs = regs\<lparr>rax := syscall_number\<rparr>;
          regs = regs\<lparr>rdi := arg1\<rparr>;
          regs = regs\<lparr>rsi := arg2\<rparr>
      in regs\<lparr>rdx := arg3\<rparr>)"

section \<open>The processor\<close>

text \<open>The processor, as its manual documents it. WRMSR with a reserved bit set raises a general protection
  fault, and so does a non-canonical address for LSTAR; the upper halves of EFER and FMASK are reserved.
  SYSCALL raises an undefined-opcode fault unless bit 0 of EFER is set.\<close>

definition canonical :: "u64 \<Rightarrow> bool" where
  "canonical a \<longleftrightarrow> drop_bit 47 a = 0 \<or> drop_bit 47 a = 0x1FFFF"

definition msr_word :: "u32 \<Rightarrow> u32 \<Rightarrow> u64" where
  "msr_word low high = push_bit 32 (ucast high) OR ucast low"

fun wrmsr_faults :: "io_event \<Rightarrow> bool" where
  "wrmsr_faults (Wrmsr n low high) \<longleftrightarrow>
     (n \<in> {IA32_EFER, IA32_FMASK} \<and> high \<noteq> 0) \<or> (n = IA32_LSTAR \<and> \<not> canonical (msr_word low high))"
| "wrmsr_faults _ \<longleftrightarrow> False"

fun msr_step :: "io_event \<Rightarrow> (u32 \<Rightarrow> u64) \<Rightarrow> u32 \<Rightarrow> u64" where
  "msr_step (Wrmsr n low high) regs = regs(n := msr_word low high)"
| "msr_step _ regs = regs"

text \<open>The registers after a run of instructions, and those that were not executed: the run stops at the first
  that faults.\<close>

fun run_msr :: "io_event list \<Rightarrow> (u32 \<Rightarrow> u64) \<Rightarrow> (u32 \<Rightarrow> u64) \<times> io_event list" where
  "run_msr [] regs = (regs, [])"
| "run_msr (e # es) regs = (if wrmsr_faults e then (regs, e # es) else run_msr es (msr_step e regs))"

text \<open>\<open>rip\<close> is the address behind the instruction.\<close>

definition syscall_instruction :: "(u32 \<Rightarrow> u64) \<Rightarrow> cpu_status \<Rightarrow> cpu_status option" where
  "syscall_instruction msr regs =
     (if \<not> bit (msr IA32_EFER) 0 then None
      else Some (regs\<lparr>rcx := rip regs, r11 := rflags regs, rip := msr IA32_LSTAR,
        rflags := rflags regs AND NOT (msr IA32_FMASK),
        cs := ucast (drop_bit 32 (msr IA32_STAR)) AND 0xFFFC,
        ss := ucast (drop_bit 32 (msr IA32_STAR)) + 8\<rparr>))"

section \<open>The writes of the set-up\<close>

text \<open>\<open>write_msr\<close> sends the low half of its value as both halves.\<close>

definition doubled :: "u64 \<Rightarrow> u64" where
  "doubled v = push_bit 32 v OR take_bit 32 v"

lemma msr_word_doubled: "msr_word (ucast v) (ucast v) = doubled v" for v :: u64
proof -
  have "push_bit 32 (ucast (ucast v :: u32)) OR ucast (ucast v :: u32) = doubled v"
  proof (rule bit_word_eqI)
    fix n assume "n < LENGTH(64)"
    then show "bit (push_bit 32 (ucast (ucast v :: u32)) OR ucast (ucast v :: u32) :: u64) n = bit (doubled v) n"
      by (auto simp: doubled_def bit_simps)
  qed
  then show ?thesis by (simp add: msr_word_def)
qed

definition both_halves :: "u32 \<Rightarrow> u64 \<Rightarrow> io_event" where
  "both_halves n v = Wrmsr n (ucast v) (ucast v)"

lemma setup_syscall_writes:
  "\<exists>lo hi. trace (setup_syscall entry w) = trace w @
     [Rdmsr IA32_EFER lo hi, both_halves IA32_EFER (fst (read_msr IA32_EFER w) OR 1), both_halves IA32_STAR 0x0023000800000000,
      both_halves IA32_LSTAR entry, both_halves IA32_FMASK 0x257]"
proof -
  obtain efer w1 where r: "read_msr IA32_EFER w = (efer, w1)" by (metis surj_pair)
  then obtain lo hi where "trace w1 = trace w @ [Rdmsr IA32_EFER lo hi]"
    by (auto simp: read_msr_def ask_def Let_def)
  then show ?thesis using r by (auto simp: setup_syscall_def both_halves_def Let_def write_msr_def push_bit_eq_mult)
qed

lemma low_half_odd: "(ucast (v OR 1) :: u32) \<noteq> 0" for v :: u64
proof
  assume "(ucast (v OR 1) :: u32) = 0"
  then have "\<not> bit (ucast (v OR 1) :: u32) 0" by simp
  then show False by (simp add: bit_simps)
qed

lemma msr_numbers: "distinct [IA32_EFER, IA32_STAR, IA32_LSTAR, IA32_FMASK]"
  by (simp add: IA32_EFER_def IA32_STAR_def IA32_LSTAR_def IA32_FMASK_def)

lemma setup_faults:
  "wrmsr_faults (both_halves IA32_EFER (v OR 1))" "\<not> wrmsr_faults (both_halves IA32_STAR v)"
  "wrmsr_faults (both_halves IA32_LSTAR v) \<longleftrightarrow> \<not> canonical (doubled v)" "wrmsr_faults (both_halves IA32_FMASK 0x257)"
  using low_half_odd[of v] msr_numbers by (auto simp: both_halves_def msr_word_doubled)

section \<open>Properties\<close>

text \<open>C40: System calls are never enabled. On the documented processor the first write of \<open>setup_syscall\<close>
  faults, whatever EFER held: \<open>write_msr\<close> sends the low half of the value as both halves, which sets
  reserved bits. No model-specific register has changed by then, and the other three writes are never
  executed; the one to FMASK would fault too, and the one to LSTAR unless the entry address with its low
  half doubled is canonical. So the stub's SYSCALL still does what it did before: it faults if system calls
  were off, and otherwise carries number and arguments in their registers to the old entry point.\<close>

theorem syscall_never_enabled:
  "\<exists>es. trace (setup_syscall entry w) = trace w @ es \<and>
     map wrmsr_faults es = [False, True, False, \<not> canonical (doubled entry), True] \<and>
     (let (msr', rest) = run_msr es msr
      in msr' = msr \<and> rest = tl es \<and>
         (case syscall_instruction msr' (syscall_stub number arg1 arg2 arg3 regs) of
            None \<Rightarrow> \<not> bit (msr IA32_EFER) 0
          | Some r \<Rightarrow> bit (msr IA32_EFER) 0 \<and> rip r = msr IA32_LSTAR \<and> rcx r = rip regs \<and>
              rax r = number \<and> rdi r = arg1 \<and> rsi r = arg2 \<and> rdx r = arg3))"
proof -
  obtain lo hi where es: "trace (setup_syscall entry w) = trace w @
     [Rdmsr IA32_EFER lo hi, both_halves IA32_EFER (fst (read_msr IA32_EFER w) OR 1), both_halves IA32_STAR 0x0023000800000000,
      both_halves IA32_LSTAR entry, both_halves IA32_FMASK 0x257]" (is "_ = _ @ ?es")
    using setup_syscall_writes by blast
  have "run_msr ?es msr = (msr, tl ?es)" by (simp add: setup_faults)
  moreover have "map wrmsr_faults ?es = [False, True, False, \<not> canonical (doubled entry), True]"
    by (simp add: setup_faults)
  ultimately show ?thesis
    unfolding es by (intro exI[of _ ?es]) (simp add: syscall_instruction_def syscall_stub_def Let_def)
qed

end
