(* ===== verification/Process.thy ===== *)
theory Process
  imports Paging Cpu Syscall
begin

text \<open>
  Processes and threads, \<^verbatim>\<open>process/process.c\<close>, and the scheduler, \<^verbatim>\<open>process/scheduler/scheduler.c\<close>. The
  control blocks are byte memory returned by \<open>allocate_memory\<close>; a field is an offset of the structures
  of \<^verbatim>\<open>process.h\<close> as laid out for x86-64. Walks over linked lists need not end, so the operations
  return an \<open>option\<close>.
\<close>

section \<open>Layout\<close>

text \<open>\<^verbatim>\<open>thread_t\<close>; the packed context starts right after the 32-bit state.\<close>

definition sizeof_thread :: u64 where "sizeof_thread = 8440"
definition thread_name :: "u64 \<Rightarrow> u64" where "thread_name t = t + 8"
definition thread_state :: "u64 \<Rightarrow> u64" where "thread_state t = t + 40"
definition context_rdi :: "u64 \<Rightarrow> u64" where "context_rdi t = t + 44 + 64"
definition context_rbp :: "u64 \<Rightarrow> u64" where "context_rbp t = t + 44 + 80"
definition context_rip :: "u64 \<Rightarrow> u64" where "context_rip t = t + 44 + 136"
definition context_cs :: "u64 \<Rightarrow> u64" where "context_cs t = t + 44 + 144"
definition context_rflags :: "u64 \<Rightarrow> u64" where "context_rflags t = t + 44 + 146"
definition context_rsp :: "u64 \<Rightarrow> u64" where "context_rsp t = t + 44 + 154"
definition context_ss :: "u64 \<Rightarrow> u64" where "context_ss t = t + 44 + 162"
definition thread_parent :: "u64 \<Rightarrow> u64" where "thread_parent t = t + 8424"
definition thread_next :: "u64 \<Rightarrow> u64" where "thread_next t = t + 8432"

lemmas thread_fields = thread_name_def thread_state_def context_rdi_def context_rbp_def context_rip_def
  context_cs_def context_rflags_def context_rsp_def context_ss_def thread_parent_def thread_next_def

text \<open>\<^verbatim>\<open>process_control_block_t\<close>.\<close>

definition sizeof_pcb :: u64 where "sizeof_pcb = 168"
definition pcb_name :: "u64 \<Rightarrow> u64" where "pcb_name p = p + 8"
definition process_threads :: "u64 \<Rightarrow> u64" where "process_threads p = p + 128"
definition thread_count :: "u64 \<Rightarrow> u64" where "thread_count p = p + 136"
definition pcb_next :: "u64 \<Rightarrow> u64" where "pcb_next p = p + 152"

lemmas pcb_fields = pcb_name_def process_threads_def thread_count_def pcb_next_def

definition NEW_PROCESS :: u32 where "NEW_PROCESS = 0"
definition RUNNING_PROCESS :: u32 where "RUNNING_PROCESS = 1"
definition READY_PROCESS :: u32 where "READY_PROCESS = 2"

definition MAX_PROCESS_NAME :: u64 where "MAX_PROCESS_NAME = 32"
definition MAX_PROCESSES :: nat where "MAX_PROCESSES = 100"

definition KERNEL_CS :: u16 where "KERNEL_CS = 0x08"
definition KERNEL_SS :: u16 where "KERNEL_SS = 0x10"
definition USER_CS :: u16 where "USER_CS = 0x1B"
definition USER_SS :: u16 where "USER_SS = 0x23"

section \<open>State\<close>

record processes =
  pr_vm :: vm
  assigned_process_id :: u64
  next_thread_id :: u64
  process_table :: u64
  current_thread :: u64
  num_processes :: int

definition pr_mem :: "processes \<Rightarrow> memory" where
  "pr_mem s = vm_mem (pr_vm s)"

definition with_mem :: "(memory \<Rightarrow> memory) \<Rightarrow> processes \<Rightarrow> processes" where
  "with_mem f s = s\<lparr>pr_vm := (pr_vm s)\<lparr>vm_mem := f (vm_mem (pr_vm s))\<rparr>\<rparr>"

definition with_mem_opt :: "(memory \<Rightarrow> memory option) \<Rightarrow> processes \<Rightarrow> processes option" where
  "with_mem_opt f s = do {
     m \<leftarrow> f (vm_mem (pr_vm s));
     Some (s\<lparr>pr_vm := (pr_vm s)\<lparr>vm_mem := m\<rparr>\<rparr>)
   }"

definition pr_allocate :: "u64 \<Rightarrow> processes \<Rightarrow> u64 \<times> processes" where
  "pr_allocate n s = (let (a, v) = vm_allocate n (pr_vm s) in (a, s\<lparr>pr_vm := v\<rparr>))"

definition pr_io :: "(io_world \<Rightarrow> io_world) \<Rightarrow> processes \<Rightarrow> processes" where
  "pr_io f s = s\<lparr>pr_vm := (pr_vm s)\<lparr>vm_io := f (vm_io (pr_vm s))\<rparr>\<rparr>"

section \<open>Creating processes\<close>

definition init_process :: "processes \<Rightarrow> processes" where
  "init_process s = s"

definition new_pcb :: "u64 \<Rightarrow> processes \<Rightarrow> (u64 \<times> processes) option" where
  "new_pcb name s = do {
     let s = s\<lparr>assigned_process_id := assigned_process_id s + 1\<rparr>;
     let (process, s) = pr_allocate sizeof_pcb s;
     s \<leftarrow> with_mem_opt (strncpy (pcb_name process) name MAX_PROCESS_NAME) s;
     Some (process, with_mem (\<lambda>m. store64 m process (assigned_process_id s)) s)
   }"

definition create_kernel_process :: "u64 \<Rightarrow> processes \<Rightarrow> (u64 \<times> processes) option" where
  "create_kernel_process name s = new_pcb name s"

definition create_user_process :: "u64 \<Rightarrow> processes \<Rightarrow> (u64 \<times> processes) option" where
  "create_user_process name s = do {
     (process, s) \<leftarrow> new_pcb name s;
     let s = s\<lparr>pr_vm := new_paging (pr_vm s)\<rparr>;
     let s = s\<lparr>pr_vm := init_user_program_memory (pr_vm s)\<rparr>;
     Some (process, s)
   }"

section \<open>Creating threads\<close>

text \<open>The walk to the end of the list; \<open>*thread\<close> is copied to address 0 when there is no list.\<close>

partial_function (option) append_thread :: "u64 \<Rightarrow> u64 \<Rightarrow> memory \<Rightarrow> memory option" where
  "append_thread scan thread m =
     (if scan = 0 then Some m
      else if load64 m (thread_next scan) \<noteq> 0 then append_thread (load64 m (thread_next scan)) thread m
      else Some (store64 m (thread_next scan) thread))"

definition link_thread :: "u64 \<Rightarrow> u64 \<Rightarrow> memory \<Rightarrow> memory option" where
  "link_thread process thread m =
     (if load64 m (process_threads process) = 0
      then Some (memcpy (load64 m (process_threads process)) thread sizeof_thread m)
      else append_thread (load64 m (process_threads process)) thread m)"

definition name_thread :: "u64 \<Rightarrow> u64 \<Rightarrow> processes \<Rightarrow> processes option" where
  "name_thread thread name s = do {
     s \<leftarrow> with_mem_opt (strncpy (thread_name thread) name MAX_PROCESS_NAME) s;
     let tid = next_thread_id s;
     let s = s\<lparr>next_thread_id := next_thread_id s + 1\<rparr>;
     let s = with_mem (\<lambda>m. store64 m thread tid) s;
     let s = with_mem (\<lambda>m. store32 m (thread_state thread) NEW_PROCESS) s;
     Some (with_mem (\<lambda>m. store64 m (thread_next thread) 0) s)
   }"

definition set_context :: "u64 \<Rightarrow> u64 \<Rightarrow> u16 \<Rightarrow> u64 \<Rightarrow> u64 \<Rightarrow> processes \<Rightarrow> processes" where
  "set_context thread stack selector entry arg s =
     (let s = with_mem (\<lambda>m. store64 m (context_rsp thread) stack) s;
          s = with_mem (\<lambda>m. store64 m (context_rflags thread) 0x202) s;
          s = with_mem (\<lambda>m. store16 m (context_cs thread) selector) s;
          s = with_mem (\<lambda>m. store64 m (context_rip thread) entry) s;
          s = with_mem (\<lambda>m. store64 m (context_rdi thread) arg) s
      in with_mem (\<lambda>m. store64 m (context_rbp thread) 0) s)"

definition create_kernel_thread :: "u64 \<Rightarrow> u64 \<Rightarrow> u64 \<Rightarrow> u64 \<Rightarrow> processes \<Rightarrow> (u64 \<times> processes) option" where
  "create_kernel_thread process name function arg s = do {
     let (thread, s) = pr_allocate sizeof_thread s;
     s \<leftarrow> with_mem_opt (link_thread process thread) s;
     s \<leftarrow> name_thread thread name s;
     let s = with_mem (\<lambda>m. store16 m (context_ss thread) KERNEL_SS) s;
     let (stack, s) = pr_allocate (1024 * 1024) s;
     let s = set_context thread stack KERNEL_CS function arg s;
     Some (thread, s)
   }"

text \<open>The call of \<open>enable_interrupts\<close> stands behind the return.\<close>

definition create_user_thread :: "u64 \<Rightarrow> u64 \<Rightarrow> u64 \<Rightarrow> u64 \<Rightarrow> processes \<Rightarrow> (u64 \<times> processes) option" where
  "create_user_thread process name main arg s = do {
     let s = pr_io disable_interrupts s;
     let (thread, s) = pr_allocate sizeof_thread s;
     s \<leftarrow> with_mem_opt (link_thread process thread) s;
     s \<leftarrow> name_thread thread name s;
     let s = with_mem (\<lambda>m. store16 m (context_ss thread) USER_SS) s;
     let s = set_context thread USER_SPACE_END USER_CS main arg s;
     len \<leftarrow> strlen (pr_mem s) name;
     let s = pr_io (log_call LOG_LEVEL_INFO ''Thread %s successfully created with pid %lu: ''
               [VStr (chars_of (read_bytes (pr_mem s) name (unat len))), VLong (load64 (pr_mem s) thread)]) s;
     Some (thread, s)
   }"

section \<open>The scheduler\<close>

definition init_scheduler :: "processes \<Rightarrow> processes" where
  "init_scheduler s =
     (let (table, s) = pr_allocate (sizeof_pcb * of_nat MAX_PROCESSES) s;
          s = s\<lparr>process_table := table\<rparr>
      in with_mem (fold (\<lambda>i m. store64 m (table + of_nat i * sizeof_pcb) 0) [0..<MAX_PROCESSES]) s)"

text \<open>\<open>add_process\<close> has no body after its check: the result is then undefined, here \<open>None\<close>.\<close>

definition add_process :: "processes \<Rightarrow> int option" where
  "add_process s = (if int MAX_PROCESSES \<le> num_processes s then Some (- 1) else None)"

definition thread_at :: "u64 \<Rightarrow> nat \<Rightarrow> u64" where
  "thread_at threads i = threads + of_nat i * sizeof_thread"

definition is_ready :: "memory \<Rightarrow> u64 \<Rightarrow> bool" where
  "is_ready m t \<longleftrightarrow> load32 m (thread_state t) = READY_PROCESS"

definition count_of :: "memory \<Rightarrow> u64 \<Rightarrow> nat" where
  "count_of m p = unat (load32 m (thread_count p))"

definition threads_of :: "memory \<Rightarrow> u64 \<Rightarrow> u64" where
  "threads_of m p = load64 m (process_threads p)"

text \<open>The first ready thread of a process, 0 if there is none.\<close>

definition ready_in :: "memory \<Rightarrow> u64 \<Rightarrow> u64" where
  "ready_in m p =
     (case first_index (\<lambda>i. is_ready m (thread_at (threads_of m p) i)) (count_of m p) of
        Some i \<Rightarrow> thread_at (threads_of m p) i | None \<Rightarrow> 0)"

text \<open>First scheduling: through the list of processes.\<close>

partial_function (option) first_ready :: "memory \<Rightarrow> u64 \<Rightarrow> u64 option" where
  "first_ready m p =
     (if p = 0 then Some 0
      else if first_index (\<lambda>i. is_ready m (thread_at (threads_of m p) i)) (count_of m p) \<noteq> None
      then Some (ready_in m p)
      else first_ready m (load64 m (pcb_next p)))"

text \<open>The round through the current thread's own process, from the thread after \<open>i\<close> to the one before.\<close>

partial_function (option) next_in_process :: "memory \<Rightarrow> u64 \<Rightarrow> nat \<Rightarrow> nat \<Rightarrow> u64 option" where
  "next_in_process m p i j =
     (if j = i then Some 0
      else if is_ready m (thread_at (threads_of m p) j) then Some (thread_at (threads_of m p) j)
      else next_in_process m p i ((j + 1) mod count_of m p))"

text \<open>The round through the other processes; the end of the list leads back to the table.\<close>

definition next_process :: "memory \<Rightarrow> u64 \<Rightarrow> u64 \<Rightarrow> u64" where
  "next_process m table p = (if load64 m (pcb_next p) \<noteq> 0 then load64 m (pcb_next p) else table)"

partial_function (option) next_elsewhere :: "memory \<Rightarrow> u64 \<Rightarrow> u64 \<Rightarrow> u64 \<Rightarrow> u64 option" where
  "next_elsewhere m table current p =
     (if p = current then Some 0
      else let next_thread = ready_in m p
           in if next_thread \<noteq> 0 then Some next_thread
              else next_elsewhere m table current (next_process m table p))"

definition pick_next :: "memory \<Rightarrow> u64 \<Rightarrow> u64 \<Rightarrow> u64 option" where
  "pick_next m table current = do {
     let p = load64 m (thread_parent current);
     next_thread \<leftarrow> (case first_index (\<lambda>i. thread_at (threads_of m p) i = current) (count_of m p) of
         Some i \<Rightarrow> next_in_process m p i ((i + 1) mod count_of m p)
       | None \<Rightarrow> Some 0);
     if next_thread \<noteq> 0 then Some next_thread
     else next_elsewhere m table p (next_process m table p)
   }"

definition process_scheduler :: "processes \<Rightarrow> processes option" where
  "process_scheduler s =
     (if current_thread s = 0 then do {
        t \<leftarrow> first_ready (pr_mem s) (process_table s);
        if t \<noteq> 0 then
          let s = s\<lparr>current_thread := t\<rparr>
          in Some (with_mem (\<lambda>m. store32 m (thread_state (current_thread s)) RUNNING_PROCESS) s)
        else Some s
      } else do {
        next_thread \<leftarrow> pick_next (pr_mem s) (process_table s) (current_thread s);
        if next_thread \<noteq> 0 then
          let s = with_mem (\<lambda>m. store32 m (thread_state (current_thread s)) READY_PROCESS) s;
              s = with_mem (\<lambda>m. store32 m (thread_state next_thread) RUNNING_PROCESS) s
          in Some (s\<lparr>current_thread := next_thread\<rparr>)
        else Some s
      })"

section \<open>Writes that stay in a region\<close>

definition within :: "u64 \<Rightarrow> nat \<Rightarrow> memory \<Rightarrow> memory \<Rightarrow> bool" where
  "within a n m m' \<longleftrightarrow> (\<forall>x. n \<le> unat (x - a) \<longrightarrow> m' x = m x)"

lemma within_refl: "within a n m m"
  by (simp add: within_def)

lemma within_trans: "within a n m1 m2 \<Longrightarrow> within a n m2 m3 \<Longrightarrow> within a n m1 m3"
  by (simp add: within_def)

lemma write_bytes_within:
  assumes "i + length bs \<le> n" and "n < 2 ^ 64"
  shows "within a n m (write_bytes m (a + of_nat i) bs)"
  unfolding within_def
proof (intro allI impI)
  fix x assume out: "n \<le> unat (x - a)"
  have "\<not> unat (x - (a + of_nat i)) < length bs"
  proof
    assume lt: "unat (x - (a + of_nat i)) < length bs"
    define j where "j = unat (x - (a + of_nat i))"
    have "x - a = of_nat (i + j)" by (simp add: j_def)
    moreover have "unat (of_nat (i + j) :: u64) = i + j"
      using lt assms by (intro unat_of_nat_less) (simp add: j_def)
    ultimately show False using out lt assms(1) by (simp add: j_def)
  qed
  then show "write_bytes m (a + of_nat i) bs x = m x"
    using assms by (simp add: write_bytes_at)
qed

lemma within_read:
  assumes "within a n m m'" and "apart a n b k"
  shows "read_bytes m' b k = read_bytes m b k"
proof (rule nth_equalityI)
  fix j assume "j < length (read_bytes m' b k)"
  then have j: "j < k" by simp
  have "n \<le> unat (b + of_nat j - a)"
  proof (rule ccontr)
    assume "\<not> n \<le> unat (b + of_nat j - a)"
    from apart_neq[OF assms(2) _ j, of "unat (b + of_nat j - a)"] this show False by simp
  qed
  with assms(1) j show "read_bytes m' b k ! j = read_bytes m b k ! j" by (simp add: within_def)
qed simp

lemma within_stores:
  assumes "within a n m m'" and "n < 2 ^ 64"
  shows "unat x + 8 \<le> n \<Longrightarrow> within a n m (store64 m' (a + x) v)"
    and "unat x + 4 \<le> n \<Longrightarrow> within a n m (store32 m' (a + x) v4)"
    and "unat x + 2 \<le> n \<Longrightarrow> within a n m (store16 m' (a + x) v2)"
  using write_bytes_within[of "unat x" "bytes_of 8 v" n a m'] write_bytes_within[of "unat x" "bytes_of 4 v4" n a m']
    write_bytes_within[of "unat x" "bytes_of 2 v2" n a m'] assms
  by (auto simp: store64_def store32_def store16_def intro: within_trans)

lemma load_within:
  assumes "within a n m m'" and "apart a n b k" and "0 < n"
  shows "i + 8 \<le> k \<Longrightarrow> load64 m' (b + of_nat i) = load64 m (b + of_nat i)"
    and "i + 4 \<le> k \<Longrightarrow> load32 m' (b + of_nat i) = load32 m (b + of_nat i)"
  using within_read[OF assms(1), of "b + of_nat i"] apart_sub[OF assms(2), of 0 n i] assms(3)
  by (simp_all add: load64_def load32_def)

section \<open>What creating a thread leaves\<close>

lemma pr_mem_simps [simp]:
  "pr_mem (snd (pr_allocate n s)) = pr_mem s" "pr_mem (with_mem f s) = f (pr_mem s)"
  "next_thread_id (snd (pr_allocate n s)) = next_thread_id s" "next_thread_id (with_mem f s) = next_thread_id s"
  "pr_mem (pr_io g s) = pr_mem s"
  by (simp_all add: pr_mem_def pr_allocate_def vm_allocate_def with_mem_def pr_io_def Let_def split_beta)

lemma with_mem_opt_Some:
  "f (pr_mem s) = Some m \<Longrightarrow> with_mem_opt f s = Some (with_mem (\<lambda>_. m) s)"
  by (simp add: with_mem_opt_def with_mem_def pr_mem_def)

definition context_stores :: "u64 \<Rightarrow> u16 \<Rightarrow> u64 \<Rightarrow> u16 \<Rightarrow> u64 \<Rightarrow> u64 \<Rightarrow> memory \<Rightarrow> memory" where
  "context_stores t ss_v stack selector entry arg m =
     (let m = store16 m (context_ss t) ss_v;
          m = store64 m (context_rsp t) stack;
          m = store64 m (context_rflags t) 0x202;
          m = store16 m (context_cs t) selector;
          m = store64 m (context_rip t) entry;
          m = store64 m (context_rdi t) arg
      in store64 m (context_rbp t) 0)"

definition header_stores :: "u64 \<Rightarrow> u64 \<Rightarrow> memory \<Rightarrow> memory" where
  "header_stores t tid m =
     (let m = store64 m t tid; m = store32 m (thread_state t) NEW_PROCESS in store64 m (thread_next t) 0)"

lemma context_stores_within: "within t 8440 m (context_stores t a b c d e m)"
  by (simp add: context_stores_def Let_def thread_fields add.assoc within_stores within_refl)

lemma header_stores_within: "within t 8440 m (header_stores t tid m)"
  using within_stores(1)[of t 8440 m m 0 tid]
  by (simp add: header_stores_def Let_def thread_fields within_stores within_refl)

lemma load_apart:
  "apart a 8 b 4 \<Longrightarrow> load32 (store64 m a v) b = load32 m b"
  "apart a 2 b 4 \<Longrightarrow> load32 (store16 m a v2) b = load32 m b"
  "apart a 2 b 8 \<Longrightarrow> load64 (store16 m a v2) b = load64 m b"
  "apart a 4 b 8 \<Longrightarrow> load64 (store32 m a v4) b = load64 m b"
  "apart a 4 b 4 \<Longrightarrow> load32 (store32 m a v4) b = load32 m b"
  by (simp_all add: load32_def load64_def store64_def store32_def store16_def read_write_bytes_apart)

lemma thread_fields_after:
  "load64 (context_stores t a b c d e (header_stores t tid m)) (context_rip t) = d"
  "load64 (context_stores t a b c d e (header_stores t tid m)) (context_rsp t) = b"
  "load32 (context_stores t a b c d e (header_stores t tid m)) (thread_state t) = NEW_PROCESS"
  "load64 (context_stores t a b c d e (header_stores t tid m)) t = tid"
  by (simp_all add: context_stores_def header_stores_def Let_def thread_fields add.assoc
      load64_store64_apart load_apart load64_store64_same load32_store32_same apart_def)

lemma name_after:
  "read_bytes (context_stores t a b c d e (header_stores t tid m)) (thread_name t) 32 = read_bytes m (thread_name t) 32"
  by (simp add: context_stores_def header_stores_def Let_def thread_fields add.assoc store64_def store32_def store16_def
      read_write_bytes_apart apart_def)

lemma strncpy_name:
  assumes "cstring m name nm" and "length nm < 32" and "apart t 8440 name (length nm + 1)"
  shows "\<exists>m'. strncpy (thread_name t) name MAX_PROCESS_NAME m = Some m' \<and> within t 8440 m m' \<and>
    read_bytes m' (thread_name t) 32 = nm @ replicate (32 - length nm) 0"
proof -
  have "apart (t + of_nat 8) (unat (32 :: u64) + 1) (name + of_nat 0) (length nm + 1)"
    by (rule apart_sub[OF assms(3)]) simp_all
  then obtain m' where m': "strncpy (t + 8) name 32 m = Some m'"
    and at: "\<And>x. m' x = (if unat (x - (t + 8)) < length nm then nm ! unat (x - (t + 8))
                      else if unat (x - (t + 8)) < 32 then 0 else m x)"
    using strncpy_facts[OF assms(1), of 32 "t + 8"] assms(2) by auto
  have "within t 8440 m m'"
    unfolding within_def
  proof (intro allI impI)
    fix x assume out: "8440 \<le> unat (x - t)"
    have "\<not> unat (x - (t + 8)) < 32"
    proof
      assume lt: "unat (x - (t + 8)) < 32"
      define j where "j = unat (x - (t + 8))"
      have "x - t = of_nat (8 + j)" by (simp add: j_def)
      moreover have "unat (of_nat (8 + j) :: u64) = 8 + j" using lt by (intro unat_of_nat_less) (simp add: j_def)
      ultimately have "unat (x - t) = 8 + j" by simp
      with lt out show False by (simp add: j_def)
    qed
    then show "m' x = m x" using assms(2) by (simp add: at)
  qed
  moreover have "read_bytes m' (t + 8) 32 = nm @ replicate (32 - length nm) 0"
  proof (rule nth_equalityI)
    fix i assume "i < length (read_bytes m' (t + 8) 32)"
    then have "i < 32" by simp
    then have "unat (of_nat i :: u64) = i" by (intro unat_of_nat_less) simp
    with \<open>i < 32\<close> show "read_bytes m' (t + 8) 32 ! i = (nm @ replicate (32 - length nm) 0) ! i"
      by (simp add: at nth_append)
  qed (use assms(2) in simp)
  ultimately show ?thesis using m' by (auto simp: thread_name_def MAX_PROCESS_NAME_def)
qed

text \<open>The thread's memory, the page at address 0 and the process do not overlap.\<close>

definition thread_layout :: "u64 \<Rightarrow> u64 \<Rightarrow> u64 \<Rightarrow> nat \<Rightarrow> bool" where
  "thread_layout t process name len \<longleftrightarrow>
     apart 0 8440 t 8440 \<and> apart 0 8440 process 168 \<and> apart t 8440 process 168 \<and>
     apart 0 8440 name (len + 1) \<and> apart t 8440 name (len + 1)"

lemma copied_within: "n < 2 ^ 64 \<Longrightarrow> within a n m (copied a b n m)"
  by (simp add: within_def copied_def)

lemma cstring_within:
  assumes "cstring m a s" and "within b n m m'" and "apart b n a (length s + 1)"
  shows "cstring m' a s"
proof -
  have "m' (a + of_nat i) = m (a + of_nat i)" if "i < length s + 1" for i
    using within_read[OF assms(2,3)] that by (metis nth_read_bytes)
  with assms(1) show ?thesis by (auto simp: cstring_def)
qed

text \<open>A process without threads stays without threads. \<open>create_kernel_thread\<close> on a process whose thread
  list is empty returns a thread with its name, its entry point and the state NEW, but the process
  still has an empty list and the same thread count: the copy goes to address 0.\<close>

theorem kernel_thread_unlisted:
  assumes "load64 (pr_mem s) (process_threads process) = 0"
    and "cstring (pr_mem s) name nm" and "length nm < 32"
    and "thread_layout (fst (pr_allocate sizeof_thread s)) process name (length nm)"
  shows "\<exists>t s'. create_kernel_thread process name entry arg s = Some (t, s') \<and>
    load64 (pr_mem s') (process_threads process) = 0 \<and>
    count_of (pr_mem s') process = count_of (pr_mem s) process \<and>
    read_bytes (pr_mem s') (thread_name t) 32 = nm @ replicate (32 - length nm) 0 \<and>
    load64 (pr_mem s') (context_rip t) = entry \<and> \<not> is_ready (pr_mem s') t"
proof -
  let ?t = "fst (pr_allocate sizeof_thread s)" and ?s1 = "snd (pr_allocate sizeof_thread s)"
  let ?m = "pr_mem s" and ?m1 = "copied 0 ?t 8440 (pr_mem s)"
  have lay: "apart 0 8440 ?t 8440" "apart 0 8440 process 168" "apart ?t 8440 process 168"
    "apart 0 8440 name (length nm + 1)" "apart ?t 8440 name (length nm + 1)"
    using assms(4) by (auto simp: thread_layout_def)
  have w1: "within 0 8440 ?m ?m1" by (simp add: copied_within)
  have link: "with_mem_opt (link_thread process ?t) ?s1 = Some (with_mem (\<lambda>_. ?m1) ?s1)"
    using lay(1) assms(1) by (intro with_mem_opt_Some)
      (simp add: link_thread_def sizeof_thread_def memcpy_copied)
  obtain m2 where m2: "strncpy (thread_name ?t) name MAX_PROCESS_NAME ?m1 = Some m2" "within ?t 8440 ?m1 m2"
    "read_bytes m2 (thread_name ?t) 32 = nm @ replicate (32 - length nm) 0"
    using strncpy_name[OF cstring_within[OF assms(2) w1 lay(4)] assms(3) lay(5)] by blast
  define tid where "tid = next_thread_id s"
  obtain s2 where s2: "name_thread ?t name (with_mem (\<lambda>_. ?m1) ?s1) = Some s2" "pr_mem s2 = header_stores ?t tid m2"
    using m2(1) by (simp add: name_thread_def with_mem_opt_Some header_stores_def Let_def tid_def
        pr_mem_def with_mem_def)
  define s3 where "s3 = with_mem (\<lambda>m. store16 m (context_ss ?t) KERNEL_SS) s2"
  define stack where "stack = fst (pr_allocate (1024 * 1024) s3)"
  define s' where "s' = set_context ?t stack KERNEL_CS entry arg (snd (pr_allocate (1024 * 1024) s3))"
  have run: "create_kernel_thread process name entry arg s = Some (?t, s')"
    using link s2(1) by (simp add: create_kernel_thread_def Let_def split_beta s3_def stack_def s'_def)
  have mem: "pr_mem s' = context_stores ?t KERNEL_SS stack KERNEL_CS entry arg (header_stores ?t tid m2)"
    by (simp add: s'_def s3_def set_context_def context_stores_def Let_def s2(2))
  have w2: "within ?t 8440 ?m1 (pr_mem s')"
    unfolding mem by (rule within_trans[OF within_trans[OF m2(2) header_stores_within] context_stores_within])
  have "load64 (pr_mem s') (process_threads process) = load64 ?m (process_threads process)"
    using load_within(1)[OF w2 lay(3), of 128] load_within(1)[OF w1 lay(2), of 128] by (simp add: process_threads_def)
  moreover have "count_of (pr_mem s') process = count_of ?m process"
    using load_within(2)[OF w2 lay(3), of 136] load_within(2)[OF w1 lay(2), of 136]
    by (simp add: count_of_def thread_count_def)
  ultimately show ?thesis
    using run assms(1) m2(3)
    by (auto simp: mem thread_fields_after name_after is_ready_def NEW_PROCESS_def READY_PROCESS_def)
qed

text \<open>One free block of 2 MiB, a process without threads at 0x8000 and the name \<open>a\<close> at 0x9000.\<close>

definition sample_processes :: processes where
  "sample_processes = \<lparr>pr_vm = \<lparr>vm_pmm = pmm_bss\<lparr>free_blocks := 1,
       free_memory_blocks := (\<lambda>_. \<lparr>mb_address = 0x10000, mb_size = 0x200000, mb_next_block = 0\<rparr>)\<rparr>,
       vm_mem = (\<lambda>_. 0)(0x9000 := 97), vm_cr3 = 0,
       vm_io = \<lparr>answer = (\<lambda>_. 0), asked = 0, trace = []\<rparr>, vm_bootboot_paging = 0\<rparr>,
     assigned_process_id = 1, next_thread_id = 0, process_table = 0x8000, current_thread = 0, num_processes = 1\<rparr>"

lemma sample_thread: "fst (pr_allocate sizeof_thread sample_processes) = 0x10000"
proof -
  have "first_index (\<lambda>i. sizeof_thread \<le> (0x200000 :: u64)) (unat (1 :: u16)) = Some 0"
    by (simp add: first_index_Some_iff sizeof_thread_def)
  then show ?thesis
    by (simp add: pr_allocate_def vm_allocate_def allocate_memory_def sample_processes_def Let_def split_beta)
qed

theorem kernel_thread_unlisted_witness:
  "\<exists>t s'. create_kernel_thread 0x8000 0x9000 0x2345 7 sample_processes = Some (t, s') \<and>
    load64 (pr_mem s') (process_threads 0x8000) = 0 \<and> load64 (pr_mem s') (context_rip t) = 0x2345"
proof -
  have m: "pr_mem sample_processes = (\<lambda>_. 0)(0x9000 := 97)" by (simp add: pr_mem_def sample_processes_def)
  have "load64 (pr_mem sample_processes) (process_threads 0x8000) = 0"
    by (simp add: m process_threads_def load64_def read_bytes_def word_of_bytes_def upt_rec)
  moreover have "cstring (pr_mem sample_processes) 0x9000 [97]"
    by (simp add: m cstring_def)
  moreover have "thread_layout (fst (pr_allocate sizeof_thread sample_processes)) 0x8000 0x9000 (length [97 :: u8])"
    unfolding sample_thread by (simp add: thread_layout_def apart_def)
  ultimately show ?thesis
    using kernel_thread_unlisted[of sample_processes "0x8000" "0x9000" "[97]" "0x2345" 7] by auto
qed

section \<open>Round robin\<close>

text \<open>A process \<open>p\<close> with \<open>c\<close> threads in an array at \<open>T\<close>, the \<open>i\<close>-th running and all others ready.\<close>

definition rotation :: "memory \<Rightarrow> u64 \<Rightarrow> u64 \<Rightarrow> nat \<Rightarrow> nat \<Rightarrow> bool" where
  "rotation m p T c i \<longleftrightarrow>
     2 \<le> c \<and> i < c \<and> T \<noteq> 0 \<and> unat T + c * 8440 < 2 ^ 64 \<and> apart T (c * 8440) p 168 \<and>
     count_of m p = c \<and> threads_of m p = T \<and>
     list_all (\<lambda>j. load64 m (thread_parent (thread_at T j)) = p) [0..<c] \<and>
     list_all (\<lambda>j. load32 m (thread_state (thread_at T j)) = (if j = i then RUNNING_PROCESS else READY_PROCESS)) [0..<c]"

fun schedules :: "nat \<Rightarrow> processes \<Rightarrow> processes option" where
  "schedules 0 s = Some s"
| "schedules (Suc n) s = do { s \<leftarrow> process_scheduler s; schedules n s }"

lemma thread_at_offset: "thread_at T j + of_nat k = T + of_nat (j * 8440 + k)"
  by (simp add: thread_at_def sizeof_thread_def)

lemma rotationD:
  assumes "rotation m p T c i"
  shows "2 \<le> c" "i < c" "T \<noteq> 0" "unat T + c * 8440 < 2 ^ 64" "apart T (c * 8440) p 168"
    "count_of m p = c" "threads_of m p = T"
    "\<And>j. j < c \<Longrightarrow> load64 m (thread_parent (thread_at T j)) = p"
    "\<And>j. j < c \<Longrightarrow> load32 m (thread_state (thread_at T j)) = (if j = i then RUNNING_PROCESS else READY_PROCESS)"
  using assms by (auto simp: rotation_def list_all_iff)

lemma unat_thread_at:
  assumes "unat T + c * 8440 < 2 ^ 64" and "j < c"
  shows "unat (thread_at T j) = unat T + j * 8440"
proof -
  have "j * 8440 \<le> c * 8440" using assms(2) by simp
  then have lt: "unat T + j * 8440 < 2 ^ 64" using assms(1) by linarith
  have "thread_at T j = T + of_nat (j * 8440)" by (simp add: thread_at_def sizeof_thread_def)
  then show ?thesis using lt by (simp add: unat_word_ariths unat_of_nat_less del: of_nat_mult)
qed

lemma thread_at_eq:
  assumes "unat T + c * 8440 < 2 ^ 64" and "i < c" and "j < c"
  shows "thread_at T i = thread_at T j \<longleftrightarrow> i = j"
proof
  assume "thread_at T i = thread_at T j"
  then have "unat T + i * 8440 = unat T + j * 8440"
    using unat_thread_at[OF assms(1,2)] unat_thread_at[OF assms(1,3)] by argo
  then show "i = j" by simp
qed simp

lemma state_write_frame:
  fixes v :: u32
  assumes "unat T + c * 8440 < 2 ^ 64" and "i < c" and "j < c"
  defines "m' \<equiv> \<lambda>m. store32 m (thread_state (thread_at T i)) v"
  shows "load32 (m' m) (thread_state (thread_at T j)) = (if i = j then v else load32 m (thread_state (thread_at T j)))"
    and "load64 (m' m) (thread_parent (thread_at T j)) = load64 m (thread_parent (thread_at T j))"
    and "within T (c * 8440) m (m' m)"
proof -
  have bound: "i * 8440 + 8440 \<le> c * 8440" "j * 8440 + 8440 \<le> c * 8440" using assms(2,3) by auto
  have state: "thread_state (thread_at T k) = T + of_nat (k * 8440 + 40)" for k
    using thread_at_offset[of T k 40] by (simp add: thread_state_def)
  have parent: "thread_parent (thread_at T k) = T + of_nat (k * 8440 + 8424)" for k
    using thread_at_offset[of T k 8424] by (simp add: thread_parent_def)
  have sep: "apart (T + of_nat a) n (T + of_nat b) k"
    if "a + n \<le> b \<or> b + k \<le> a" "a + n \<le> c * 8440" "b + k \<le> c * 8440" "0 < n" "0 < k" for a b n k
    using that(1)
  proof
    assume "a + n \<le> b"
    with that assms(1) show ?thesis by (intro apart_offsets) linarith+
  next
    assume "b + k \<le> a"
    with that assms(1) show ?thesis by (subst apart_sym) (intro apart_offsets, linarith+)
  qed
  show "load32 (m' m) (thread_state (thread_at T j)) = (if i = j then v else load32 m (thread_state (thread_at T j)))"
  proof (cases "i = j")
    case False
    then have "i * 8440 + 8440 \<le> j * 8440 \<or> j * 8440 + 8440 \<le> i * 8440" by arith
    with bound False show ?thesis
      unfolding m'_def state by (subst load_apart(5)[OF sep]) auto
  qed (simp add: m'_def load32_store32_same)
  have "i * 8440 + 44 \<le> j * 8440 + 8424 \<or> j * 8440 + 8432 \<le> i * 8440 + 40"
    by (cases "i \<le> j") auto
  with bound show "load64 (m' m) (thread_parent (thread_at T j)) = load64 m (thread_parent (thread_at T j))"
    unfolding m'_def state parent by (intro load_apart(4)[OF sep]) auto
  show "within T (c * 8440) m (m' m)"
    unfolding m'_def state store32_def using bound assms(1) by (intro write_bytes_within) auto
qed

lemma read_pcb:
  assumes "within T n m m'" and "apart T n p 168" and "0 < n"
  shows "count_of m' p = count_of m p" and "threads_of m' p = threads_of m p"
  using load_within(2)[OF assms, of 136] load_within(1)[OF assms, of 128]
  by (simp_all add: count_of_def threads_of_def thread_count_def process_threads_def)

lemma pick_next_rotation:
  assumes r: "rotation m p T c i"
  shows "pick_next m table (thread_at T i) = Some (thread_at T ((i + 1) mod c))"
proof -
  note R = rotationD[OF r]
  have fi: "first_index (\<lambda>j. thread_at T j = thread_at T i) c = Some i"
    using R(2) thread_at_eq[OF R(4)] by (auto simp: first_index_Some_iff)
  have lt: "(i + 1) mod c < c" using R(1) by simp
  have ne: "(i + 1) mod c \<noteq> i" using R(1,2) by (cases "i + 1 = c") auto
  have "is_ready m (thread_at T ((i + 1) mod c))"
    using R(9)[OF lt] ne by (simp add: is_ready_def)
  then have "next_in_process m p i ((i + 1) mod c) = Some (thread_at T ((i + 1) mod c))"
    using ne R(7) by (subst next_in_process.simps) simp
  moreover have "thread_at T ((i + 1) mod c) \<noteq> 0"
  proof
    assume "thread_at T ((i + 1) mod c) = 0"
    then have "unat T = 0" using unat_thread_at[OF R(4) lt] by simp
    with R(3) show False by (simp add: unat_eq_zero)
  qed
  ultimately show ?thesis
    using R(6,7) R(8)[OF R(2)] fi by (simp add: pick_next_def)
qed

lemma rotation_step:
  assumes r: "rotation (pr_mem s) p T c i" and cur: "current_thread s = thread_at T i"
  shows "\<exists>s'. process_scheduler s = Some s' \<and> current_thread s' = thread_at T ((i + 1) mod c) \<and>
    rotation (pr_mem s') p T c ((i + 1) mod c)"
proof -
  note R = rotationD[OF r]
  let ?j = "(i + 1) mod c" and ?m = "pr_mem s"
  have j: "?j < c" using R(1) by simp
  have ne: "?j \<noteq> i" using R(1,2) by (cases "i + 1 = c") auto
  have nz: "thread_at T k \<noteq> 0" if "k < c" for k
  proof
    assume "thread_at T k = 0"
    then have "unat T = 0" using unat_thread_at[OF R(4) that] by simp
    with R(3) show False by (simp add: unat_eq_zero)
  qed
  let ?m1 = "store32 ?m (thread_state (thread_at T i)) READY_PROCESS"
  let ?m2 = "store32 ?m1 (thread_state (thread_at T ?j)) RUNNING_PROCESS"
  define s' where "s' = (with_mem (\<lambda>m. store32 m (thread_state (thread_at T ?j)) RUNNING_PROCESS)
      (with_mem (\<lambda>m. store32 m (thread_state (thread_at T i)) READY_PROCESS) s))\<lparr>current_thread := thread_at T ?j\<rparr>"
  have run: "process_scheduler s = Some s'"
    using pick_next_rotation[OF r] nz[OF R(2)] nz[OF j] cur by (simp add: process_scheduler_def s'_def)
  have mem: "pr_mem s' = ?m2"
    by (simp add: s'_def pr_mem_def with_mem_def)
  note f1 = state_write_frame[OF R(4) R(2)] and f2 = state_write_frame[OF R(4) j]
  have w: "within T (c * 8440) ?m ?m2" by (rule within_trans[OF f1(3)[OF R(2)] f2(3)[OF j]])
  have "rotation ?m2 p T c ?j"
    unfolding rotation_def list_all_iff
  proof (intro conjI ballI)
    show "count_of ?m2 p = c" "threads_of ?m2 p = T"
      using read_pcb[OF w R(5)] R(1,6,7) by auto
    fix k assume "k \<in> set [0..<c]"
    then have k: "k < c" by simp
    show "load64 ?m2 (thread_parent (thread_at T k)) = p"
      using f1(2)[OF k] f2(2)[OF k] R(8)[OF k] by simp
    show "load32 ?m2 (thread_state (thread_at T k)) = (if k = ?j then RUNNING_PROCESS else READY_PROCESS)"
      unfolding f2(1)[OF k] f1(1)[OF k] R(9)[OF k] by simp
  qed (rule R j)+
  then show ?thesis using run mem by (auto simp: s'_def)
qed

text \<open>C19: Every thread gets its turn. In a process with several threads, one running and the others ready,
  \<open>n\<close> calls of the scheduler return and hand the processor on in order: the thread \<open>n\<close> places after
  the first runs and all others are ready again, so each thread runs once in as many calls as there
  are threads.\<close>

theorem scheduler_round_robin:
  assumes "rotation (pr_mem s) p T c i" and "current_thread s = thread_at T i"
  shows "\<exists>s'. schedules n s = Some s' \<and> current_thread s' = thread_at T ((i + n) mod c) \<and>
    rotation (pr_mem s') p T c ((i + n) mod c)"
  using assms
proof (induction n arbitrary: s i)
  case 0
  then show ?case using rotationD(2)[OF 0(1)] by simp
next
  case (Suc n)
  from rotation_step[OF Suc.prems] obtain s1 where
    s1: "process_scheduler s = Some s1" "current_thread s1 = thread_at T ((i + 1) mod c)"
    "rotation (pr_mem s1) p T c ((i + 1) mod c)" by blast
  have "((i + 1) mod c + n) mod c = (i + Suc n) mod c" by (simp add: mod_simps)
  then show ?case using Suc.IH[OF s1(3,2)] s1(1) by simp
qed

text \<open>Two threads at 0x10000 of the process at 0x8000, the first one running.\<close>

definition sample_rotation :: processes where
  "sample_rotation = sample_processes\<lparr>current_thread := 0x10000, pr_vm := (pr_vm sample_processes)\<lparr>vm_mem :=
     (\<lambda>_. 0)(0x8000 + 130 := 1, 0x8000 + 136 := 2, 0x10000 + 40 := 1, 0x10000 + 8480 := 2,
       0x10000 + 8425 := 0x80, 0x10000 + 16865 := 0x80)\<rparr>\<rparr>"

theorem scheduler_round_robin_witness:
  "\<exists>s'. schedules 3 sample_rotation = Some s' \<and> current_thread s' = 0x10000 + 8440"
proof -
  have m: "pr_mem sample_rotation = (\<lambda>_. 0)(0x8082 := 1, 0x8088 := 2, 0x10028 := 1, 0x12120 := 2, 0x120E9 := 0x80, 0x141E1 := 0x80)"
    by (simp add: sample_rotation_def pr_mem_def)
  have "rotation (pr_mem sample_rotation) 0x8000 0x10000 2 0"
    unfolding rotation_def
    by (simp add: m apart_def count_of_def threads_of_def thread_at_def sizeof_thread_def thread_fields pcb_fields
        load64_def load32_def read_bytes_def word_of_bytes_def upt_rec RUNNING_PROCESS_def READY_PROCESS_def)
  moreover have "current_thread sample_rotation = thread_at 0x10000 0"
    by (simp add: sample_rotation_def thread_at_def)
  ultimately show ?thesis
    using scheduler_round_robin[of sample_rotation "0x8000" "0x10000" 2 0 3]
    by (auto simp: thread_at_def sizeof_thread_def)
qed

end
