(* ===== verification/Format.thy ===== *)
theory Format
  imports Libc_Double Cpu
begin

text \<open>
  The variadic printers' format strings, and the serial log, \<^verbatim>\<open>debug/log.c\<close>. The same loop over the
  format stands in \<open>log\<close>, \<open>print_numstr\<close> and \<open>terminal_write\<close>; it is written once, with what \<^verbatim>\<open>%s\<close> and
  \<^verbatim>\<open>%lf\<close> do as parameters: \<open>log\<close> has no \<^verbatim>\<open>%lf\<close>. The result is the text, character by character;
  \<open>None\<close> means that the loop does not go on (\<^verbatim>\<open>%l\<close> before a character it does not know) or reads an
  argument that was not passed.
\<close>

section \<open>Numbers as text\<close>

text \<open>A conversion into a local buffer, read back up to the terminating zero.\<close>

definition local_text :: "(u64 \<Rightarrow> memory \<Rightarrow> memory) \<Rightarrow> string" where
  "local_text f = chars_of (read_bytes (f 0 (\<lambda>_. 0)) 0 64)"

definition int_text :: "u32 \<Rightarrow> string" where "int_text v = local_text (int_to_string v)"
definition ulong_text :: "u64 \<Rightarrow> string" where "ulong_text v = local_text (unsigned_long_to_string v)"
definition long_text :: "u64 \<Rightarrow> string" where "long_text v = local_text (long_to_string (ucast v))"
definition pointer_text :: "u64 \<Rightarrow> string" where "pointer_text v = local_text (pointer_to_hex_string v)"
definition char_text :: "u32 \<Rightarrow> string" where "char_text v = [char_of (unat (ucast v :: u8))]"

text \<open>The buffers of \<open>print_numstr\<close> and of \<open>double_to_string\<close> are local arrays of 64 bytes.\<close>

definition double_text :: "double \<Rightarrow> string option" where
  "double_text v = map_option (\<lambda>m. chars_of (read_bytes m 0 64)) (double_to_string v 64 0 6 (\<lambda>_. 0))"

section \<open>Arguments\<close>

text \<open>An integer argument occupies one 64-bit slot: an \<^verbatim>\<open>int\<close> read as a long is extended by zeros, a
  long read as an \<^verbatim>\<open>int\<close> loses its upper half. Doubles travel in registers of their own: reading an
  integer passes over them, and reading a double passes over the integers.\<close>

fun next_slot :: "va_arg list \<Rightarrow> (u64 \<times> va_arg list) option" where
  "next_slot (VInt v # as) = Some (ucast v, as)"
| "next_slot (VLong v # as) = Some (v, as)"
| "next_slot (VPtr v # as) = Some (v, as)"
| "next_slot (VDouble x # as) = map_option (\<lambda>(v, as). (v, VDouble x # as)) (next_slot as)"
| "next_slot _ = None"

fun next_string :: "va_arg list \<Rightarrow> (string \<times> va_arg list) option" where
  "next_string (VStr t # as) = Some (t, as)"
| "next_string (VDouble x # as) = map_option (\<lambda>(t, as). (t, VDouble x # as)) (next_string as)"
| "next_string _ = None"

fun next_double :: "va_arg list \<Rightarrow> (double \<times> va_arg list) option" where
  "next_double [] = None"
| "next_double (VDouble x # as) = Some (x, as)"
| "next_double (a # as) = map_option (\<lambda>(x, as). (x, a # as)) (next_double as)"

section \<open>The format loop\<close>

text \<open>\<open>peek s i\<close>: the character \<open>i\<close> places on, the terminating zero at the end.\<close>

definition peek :: "string \<Rightarrow> nat \<Rightarrow> char" where
  "peek s i = (if i < length s then s ! i else CHR 0x00)"

text \<open>One round: the text written, the rest of the format and of the arguments.\<close>

definition format_step ::
  "(double \<Rightarrow> string option) \<Rightarrow> (string \<Rightarrow> string option) \<Rightarrow> string \<Rightarrow> va_arg list \<Rightarrow> (string \<times> string \<times> va_arg list) option" where
  "format_step flt str s args =
     (if peek s 0 = CHR ''%'' \<and> peek s 1 = CHR ''d'' then do {
        (v, args) \<leftarrow> next_slot args;
        Some (int_text (ucast v), drop 2 s, args)
      } else if peek s 0 = CHR ''%'' \<and> peek s 1 = CHR ''l'' then
        if peek s 2 = CHR ''u'' then do {
          (v, args) \<leftarrow> next_slot args;
          Some (ulong_text v, drop 3 s, args)
        } else if peek s 2 = CHR ''d'' then do {
          (v, args) \<leftarrow> next_slot args;
          Some (long_text v, drop 3 s, args)
        } else if peek s 2 = CHR ''f'' then do {
          (x, args) \<leftarrow> next_double args;
          t \<leftarrow> flt x;
          Some (t, drop 3 s, args)
        } else None
      else if peek s 0 = CHR ''%'' \<and> peek s 1 = CHR ''p'' then do {
        (v, args) \<leftarrow> next_slot args;
        Some (pointer_text v, drop 2 s, args)
      } else if peek s 0 = CHR ''%'' \<and> peek s 1 = CHR ''s'' then do {
        (t, args) \<leftarrow> next_string args;
        u \<leftarrow> str t;
        Some (u, drop 2 s, args)
      } else if peek s 0 = CHR ''%'' \<and> peek s 1 = CHR ''c'' then do {
        (v, args) \<leftarrow> next_slot args;
        Some (char_text (ucast v), drop 2 s, args)
      } else Some ([peek s 0], drop 1 s, args))"

lemma format_step_shorter:
  "format_step flt str s args = Some (t, s', args') \<Longrightarrow> s \<noteq> [] \<Longrightarrow> length s' < length s"
  by (auto simp: format_step_def Let_def neq_Nil_conv split: if_splits bind_splits option.splits)

function format_loop ::
  "(double \<Rightarrow> string option) \<Rightarrow> (string \<Rightarrow> string option) \<Rightarrow> string \<Rightarrow> va_arg list \<Rightarrow> string option" where
  "format_loop flt str s args =
     (if s = [] then Some []
      else case format_step flt str s args of
        None \<Rightarrow> None
      | Some (t, s', args') \<Rightarrow> map_option (\<lambda>u. t @ u) (format_loop flt str s' args'))"
  by auto
termination
  by (relation "measure (\<lambda>(flt, str, s, args). length s)") (auto dest: format_step_shorter)

declare format_loop.simps [simp del]

text \<open>\<open>log\<close> writes a string argument as it is, and stops at \<^verbatim>\<open>%lf\<close> as at any other letter.\<close>

definition log_text :: "string \<Rightarrow> va_arg list \<Rightarrow> string option" where
  "log_text s args = format_loop (\<lambda>_. None) Some s args"

text \<open>\<open>print_numstr\<close> and \<open>terminal_write\<close> print a string argument with \<open>print_numstr(string, color)\<close>:
  as a format without arguments, so that no directive finds one.\<close>

definition nested_text :: "string \<Rightarrow> string option" where
  "nested_text t = format_loop (\<lambda>_. None) (\<lambda>_. None) t []"

definition numstr_text :: "string \<Rightarrow> va_arg list \<Rightarrow> string option" where
  "numstr_text s args = format_loop double_text nested_text s args"

section \<open>Well-typed calls\<close>

text \<open>What the C compiler would check of a format and its arguments: every directive is known to the
  printer and finds an argument of its type. \<open>dbl\<close> says whether \<^verbatim>\<open>%lf\<close> is known, \<open>str\<close> which strings
  may be printed.\<close>

function well_typed :: "bool \<Rightarrow> (string \<Rightarrow> bool) \<Rightarrow> string \<Rightarrow> va_arg list \<Rightarrow> bool" where
  "well_typed dbl str s args =
     (if s = [] then True
      else if peek s 0 \<noteq> CHR ''%'' then well_typed dbl str (drop 1 s) args
      else if peek s 1 = CHR ''d'' \<or> peek s 1 = CHR ''c'' then
        (case args of VInt v # as \<Rightarrow> well_typed dbl str (drop 2 s) as | _ \<Rightarrow> False)
      else if peek s 1 = CHR ''p'' then
        (case args of VPtr v # as \<Rightarrow> well_typed dbl str (drop 2 s) as
         | VLong v # as \<Rightarrow> well_typed dbl str (drop 2 s) as | _ \<Rightarrow> False)
      else if peek s 1 = CHR ''s'' then
        (case args of VStr t # as \<Rightarrow> str t \<and> well_typed dbl str (drop 2 s) as | _ \<Rightarrow> False)
      else if peek s 1 = CHR ''l'' then
        if peek s 2 = CHR ''u'' \<or> peek s 2 = CHR ''d'' then
          (case args of VLong v # as \<Rightarrow> well_typed dbl str (drop 3 s) as | _ \<Rightarrow> False)
        else if peek s 2 = CHR ''f'' then
          (case args of VDouble x # as \<Rightarrow> dbl \<and> well_typed dbl str (drop 3 s) as | _ \<Rightarrow> False)
        else False
      else well_typed dbl str (drop 1 s) args)"
  by auto
termination by (relation "measure (\<lambda>(dbl, str, s, args). length s)") auto

declare well_typed.simps [simp del]

text \<open>A string that \<open>print_numstr\<close> may print as a format: no directive in it.\<close>

definition plain :: "string \<Rightarrow> bool" where
  "plain t = well_typed False (\<lambda>_. False) t []"

definition log_ok :: "string \<Rightarrow> va_arg list \<Rightarrow> bool" where
  "log_ok = well_typed False (\<lambda>_. True)"

definition print_ok :: "string \<Rightarrow> va_arg list \<Rightarrow> bool" where
  "print_ok = well_typed True plain"

text \<open>One round of a well-typed call succeeds, and the rest of the call is well typed.\<close>

lemma well_typed_step:
  assumes "well_typed dbl str s args" and "s \<noteq> []"
    and "\<And>t. str t \<Longrightarrow> prt t \<noteq> None" and "\<And>x. dbl \<Longrightarrow> flt x \<noteq> None"
  shows "\<exists>t s' args'. format_step flt prt s args = Some (t, s', args') \<and> well_typed dbl str s' args'"
  using assms(1,2)
  by (subst (asm) well_typed.simps)
    (auto simp: format_step_def assms(4) split: if_splits list.splits va_arg.splits bind_splits dest!: assms(3))

lemma well_typed_text:
  assumes "\<And>t. str t \<Longrightarrow> prt t \<noteq> None" and "\<And>x. dbl \<Longrightarrow> flt x \<noteq> None"
  shows "well_typed dbl str s args \<Longrightarrow> \<exists>t. format_loop flt prt s args = Some t"
proof (induction "length s" arbitrary: s args rule: less_induct)
  case less
  show ?case
  proof (cases "s = []")
    case False
    obtain t s' args' where step: "format_step flt prt s args = Some (t, s', args')" "well_typed dbl str s' args'"
      using well_typed_step[OF less.prems False, of prt flt] assms by blast
    from less.hyps[OF format_step_shorter[OF step(1) False] step(2)] step(1) False
    show ?thesis by (auto simp: format_loop.simps[of flt prt s])
  qed (simp add: format_loop.simps)
qed

lemma double_text_some: "double_text x \<noteq> None"
proof -
  have "apart (64 :: u64) 64 0 64" by (simp add: apart_def)
  then show ?thesis using double_to_string_run[of 64 0 x] by (simp add: double_text_def)
qed

lemma plain_text: "plain t \<Longrightarrow> nested_text t \<noteq> None"
  unfolding plain_def nested_text_def
  using well_typed_text[of "\<lambda>_. False" "\<lambda>_. None" False "\<lambda>_. None" t "[]"] by auto

lemma log_ok_text: "log_ok s args \<Longrightarrow> \<exists>t. log_text s args = Some t"
  unfolding log_ok_def log_text_def by (rule well_typed_text) simp_all

lemma print_ok_text: "print_ok s args \<Longrightarrow> \<exists>t. numstr_text s args = Some t"
  unfolding print_ok_def numstr_text_def by (rule well_typed_text) (simp_all add: plain_text double_text_some)

section \<open>The serial port\<close>

definition SERIAL_PORT_COM1 :: u16 where "SERIAL_PORT_COM1 = 0x3F8"

text \<open>Logging is compiled in (\<^verbatim>\<open>config/Common.mk\<close> defines \<^verbatim>\<open>ENABLE_LOGGING\<close>).\<close>

definition serial_init :: "io_world \<Rightarrow> io_world" where
  "serial_init w =
     (let w = out_b (SERIAL_PORT_COM1 + 1) 0x00 w;
          w = out_b (SERIAL_PORT_COM1 + 3) 0x80 w;
          w = out_b (SERIAL_PORT_COM1 + 0) 0x03 w;
          w = out_b (SERIAL_PORT_COM1 + 1) 0x00 w;
          w = out_b (SERIAL_PORT_COM1 + 3) 0x03 w;
          w = out_b (SERIAL_PORT_COM1 + 2) 0xC7 w
      in out_b (SERIAL_PORT_COM1 + 4) 0x0B w)"

definition serial_is_transmit_empty :: "io_world \<Rightarrow> u8 \<times> io_world" where
  "serial_is_transmit_empty w =
     (let (v, w) = in_b (SERIAL_PORT_COM1 + 5) w in (v AND 0x20, w))"

partial_function (option) serial_wait :: "io_world \<Rightarrow> io_world option" where
  "serial_wait w =
     (let (v, w) = serial_is_transmit_empty w in if v = 0 then serial_wait w else Some w)"

definition serial_write_char :: "char \<Rightarrow> io_world \<Rightarrow> io_world option" where
  "serial_write_char a w = do { w \<leftarrow> serial_wait w; Some (out_b SERIAL_PORT_COM1 (of_char a) w) }"

fun serial_write_string :: "string \<Rightarrow> io_world \<Rightarrow> io_world option" where
  "serial_write_string [] w = Some w"
| "serial_write_string (c # s) w = do { w \<leftarrow> serial_write_char c w; serial_write_string s w }"

definition serial_write_number :: "u64 \<Rightarrow> io_world \<Rightarrow> io_world option" where
  "serial_write_number number w = serial_write_string (ulong_text number) w"

fun level_text :: "log_level \<Rightarrow> string" where
  "level_text LOG_LEVEL_DEBUG = ''DEBUG: ''"
| "level_text LOG_LEVEL_INFO = ''INFO: ''"
| "level_text LOG_LEVEL_WARN = ''WARN: ''"
| "level_text LOG_LEVEL_ERROR = ''ERROR: ''"

definition log :: "log_level \<Rightarrow> string \<Rightarrow> va_arg list \<Rightarrow> io_world \<Rightarrow> io_world option" where
  "log level message args w = do {
     let (cpu_id, w) = get_current_core_id w;
     w \<leftarrow> serial_write_string ''[CPU '' w;
     w \<leftarrow> serial_write_number (ucast cpu_id) w;
     w \<leftarrow> serial_write_string '' ] | '' w;
     w \<leftarrow> serial_write_string (level_text level) w;
     t \<leftarrow> log_text message args;
     w \<leftarrow> serial_write_string t w;
     serial_write_string ''\<newline>'' w
   }"

section \<open>What reaches the line\<close>

text \<open>The bytes sent to the port's data register.\<close>

fun sent :: "io_event list \<Rightarrow> u8 list" where
  "sent [] = []"
| "sent (Out8 p v # es) = (if p = SERIAL_PORT_COM1 then v # sent es else sent es)"
| "sent (_ # es) = sent es"

lemma sent_append [simp]: "sent (es @ fs) = sent es @ sent fs"
  by (induction es rule: sent.induct) auto

text \<open>The device is fair: from every point on, some answer has the transmit bit set.\<close>

definition fair_port :: "(nat \<Rightarrow> u64) \<Rightarrow> bool" where
  "fair_port ans \<longleftrightarrow> (\<forall>i. \<exists>j\<ge>i. bit (ans j) 5)"

lemma transmit_empty:
  "fst (serial_is_transmit_empty w) = 0 \<longleftrightarrow> \<not> bit (answer w (asked w)) 5"
  "answer (snd (serial_is_transmit_empty w)) = answer w"
  "asked (snd (serial_is_transmit_empty w)) = Suc (asked w)"
  "sent (trace (snd (serial_is_transmit_empty w))) = sent (trace w)"
proof -
  have "(x AND 0x20 = 0) = (\<not> bit x 5)" for x :: u8
    using and_exp_eq_0_iff_not_bit[of x 5] by simp
  then show "fst (serial_is_transmit_empty w) = 0 \<longleftrightarrow> \<not> bit (answer w (asked w)) 5"
    by (simp add: serial_is_transmit_empty_def Let_def split_beta bit_simps)
qed (simp_all add: serial_is_transmit_empty_def Let_def split_beta)

lemma serial_wait_returns:
  assumes "bit (answer w j) 5" and "asked w \<le> j"
  shows "\<exists>w'. serial_wait w = Some w' \<and> answer w' = answer w \<and> sent (trace w') = sent (trace w)"
  using assms
proof (induction "j - asked w" arbitrary: w)
  case 0
  then have "asked w = j" by simp
  with 0 show ?case by (subst serial_wait.simps) (simp add: transmit_empty split_beta)
next
  case (Suc k)
  show ?case
  proof (cases "bit (answer w (asked w)) 5")
    case True
    then show ?thesis by (subst serial_wait.simps) (simp add: transmit_empty split_beta)
  next
    case False
    then have "serial_wait w = serial_wait (snd (serial_is_transmit_empty w))"
      by (subst serial_wait.simps) (simp add: transmit_empty split_beta)
    then show ?thesis
      using Suc.hyps(1)[of "snd (serial_is_transmit_empty w)"] Suc.hyps(2) Suc.prems
      by (simp add: transmit_empty)
  qed
qed

lemma serial_write_string_sends:
  assumes "fair_port (answer w)"
  shows "\<exists>w'. serial_write_string s w = Some w' \<and> answer w' = answer w \<and>
    sent (trace w') = sent (trace w) @ map of_char s"
  using assms
proof (induction s arbitrary: w)
  case (Cons c s)
  obtain j where "asked w \<le> j" "bit (answer w j) 5" using Cons.prems by (auto simp: fair_port_def)
  from serial_wait_returns[OF this(2,1)] obtain w1 where
    w1: "serial_wait w = Some w1" "answer w1 = answer w" "sent (trace w1) = sent (trace w)" by blast
  let ?w2 = "out_b SERIAL_PORT_COM1 (of_char c) w1"
  have "fair_port (answer ?w2)" using w1 Cons.prems by simp
  from Cons.IH[OF this] w1 show ?case by (auto simp: serial_write_char_def)
qed simp

section \<open>A call of the log\<close>

lemma log_sends:
  assumes "fair_port (answer w)" and "log_text message args = Some t"
  shows "\<exists>w'. log level message args w = Some w' \<and> answer w' = answer w \<and>
    sent (trace w') = sent (trace w) @
      map of_char (''[CPU '' @ ulong_text (ucast (fst (get_current_core_id w))) @ '' ] | '' @ level_text level @ t @ ''\<newline>'')"
proof -
  obtain cpu w0 where c: "get_current_core_id w = (cpu, w0)" by (metis surj_pair)
  then have w0: "answer w0 = answer w" "sent (trace w0) = sent (trace w)"
    by (auto simp: get_current_core_id_def cpuid_def ask_def Let_def emit_def split: prod.splits)
  note send = serial_write_string_sends
  have f: "fair_port (answer w0)" using w0 assms(1) by simp
  from send[OF f] obtain w1 where
    w1: "serial_write_string ''[CPU '' w0 = Some w1" "answer w1 = answer w" "sent (trace w1) = sent (trace w) @ map of_char ''[CPU ''"
    using w0 by metis
  from send[of w1] assms(1) w1 obtain w2 where
    w2: "serial_write_string (ulong_text (ucast cpu)) w1 = Some w2" "answer w2 = answer w"
    "sent (trace w2) = sent (trace w1) @ map of_char (ulong_text (ucast cpu))" by metis
  from send[of w2] assms(1) w2 obtain w3 where
    w3: "serial_write_string '' ] | '' w2 = Some w3" "answer w3 = answer w"
    "sent (trace w3) = sent (trace w2) @ map of_char '' ] | ''" by metis
  from send[of w3] assms(1) w3 obtain w4 where
    w4: "serial_write_string (level_text level) w3 = Some w4" "answer w4 = answer w"
    "sent (trace w4) = sent (trace w3) @ map of_char (level_text level)" by metis
  from send[of w4] assms(1) w4 obtain w5 where
    w5: "serial_write_string t w4 = Some w5" "answer w5 = answer w"
    "sent (trace w5) = sent (trace w4) @ map of_char t" by metis
  from send[of w5] assms(1) w5 obtain w6 where
    w6: "serial_write_string ''\<newline>'' w5 = Some w6" "answer w6 = answer w"
    "sent (trace w6) = sent (trace w5) @ map of_char ''\<newline>''" by metis
  have "log level message args w = Some w6"
    by (simp only: log_def Let_def c prod.case w1(1) w2(1) w3(1) w4(1) w5(1) w6(1) assms(2) serial_write_number_def Option.bind_lunit)
  then show ?thesis
    using w1(3) w2(3) w3(3) w4(3) w5(3) w6(2,3) c by (intro exI[of _ w6]) simp
qed

text \<open>The log calls of a trace, carried out on the serial port.\<close>

fun send_logs :: "io_event list \<Rightarrow> io_world \<Rightarrow> io_world option" where
  "send_logs [] w = Some w"
| "send_logs (Log l s args # es) w = do { w \<leftarrow> log l s args w; send_logs es w }"
| "send_logs (_ # es) w = send_logs es w"

fun loggable :: "io_event \<Rightarrow> bool" where
  "loggable (Log l s args) = (log_text s args \<noteq> None)"
| "loggable _ = True"

lemma send_logs_returns:
  "fair_port (answer w) \<Longrightarrow> list_all loggable es \<Longrightarrow> \<exists>w'. send_logs es w = Some w'"
proof (induction es w rule: send_logs.induct)
  case (2 l s args es w)
  then obtain t where "log_text s args = Some t" by auto
  from log_sends[OF 2(2) this, of l] obtain w' where "log l s args w = Some w'" "answer w' = answer w" by blast
  then show ?case using 2 by simp
qed simp_all

section \<open>Property\<close>

text \<open>C33: The log line. On a port that keeps becoming ready, \<open>log\<close> returns for every message whose format
  has a text, and the bytes sent are exactly the processor number, the level, the text and a newline,
  in this order and without loss.\<close>

theorem log_line:
  assumes "fair_port (answer w)" and "log_text message args = Some t"
  shows "\<exists>w'. log level message args w = Some w' \<and>
    sent (trace w') = sent (trace w) @
      map of_char (''[CPU '' @ ulong_text (ucast (fst (get_current_core_id w))) @ '' ] | '' @ level_text level @ t @ ''\<newline>'')"
  using log_sends[OF assms] by blast

lemma sample_text_value: "log_text ''n=%d'' [VInt 42] = Some ''n=42''"
  by code_simp

theorem log_line_witness:
  "\<exists>w'. log LOG_LEVEL_INFO ''n=%d'' [VInt 42] \<lparr>answer = (\<lambda>_. 0x20), asked = 0, trace = []\<rparr> = Some w' \<and>
    sent (trace w') = map of_char (''[CPU '' @ ulong_text 0 @ '' ] | INFO: n=42\<newline>'')"
proof -
  have "fair_port (answer \<lparr>answer = (\<lambda>_. 0x20), asked = 0, trace = []\<rparr>)"
    by (auto simp: fair_port_def)
  from log_line[OF this sample_text_value, of LOG_LEVEL_INFO] show ?thesis
    by (simp add: get_current_core_id_def cpuid_def ask_def Let_def)
qed

end
