(* ===== verification/Font.thy ===== *)
theory Font
  imports Kernel_Prelude
begin

text \<open>
  The glyphs of the text output, the table of \<^verbatim>\<open>include/fonts/font8x8_basic.h\<close>: a character's eight rows
  of pixels from the top, the lowest bit of a row its leftmost pixel.
\<close>

definition font8x8_table :: "u8 list list" where
  "font8x8_table = [
   [0x00, 0x00, 0x00, 0x00, 0x00, 0x00, 0x00, 0x00],
   [0x00, 0x00, 0x00, 0x00, 0x00, 0x00, 0x00, 0x00],
   [0x00, 0x00, 0x00, 0x00, 0x00, 0x00, 0x00, 0x00],
   [0x00, 0x00, 0x00, 0x00, 0x00, 0x00, 0x00, 0x00],
   [0x00, 0x00, 0x00, 0x00, 0x00, 0x00, 0x00, 0x00],
   [0x00, 0x00, 0x00, 0x00, 0x00, 0x00, 0x00, 0x00],
   [0x00, 0x00, 0x00, 0x00, 0x00, 0x00, 0x00, 0x00],
   [0x00, 0x00, 0x00, 0x00, 0x00, 0x00, 0x00, 0x00],
   [0x00, 0x00, 0x00, 0x00, 0x00, 0x00, 0x00, 0x00],
   [0x00, 0x00, 0x00, 0x00, 0x00, 0x00, 0x00, 0x00],
   [0x00, 0x00, 0x00, 0x00, 0x00, 0x00, 0x00, 0x00],
   [0x00, 0x00, 0x00, 0x00, 0x00, 0x00, 0x00, 0x00],
   [0x00, 0x00, 0x00, 0x00, 0x00, 0x00, 0x00, 0x00],
   [0x00, 0x00, 0x00, 0x00, 0x00, 0x00, 0x00, 0x00],
   [0x00, 0x00, 0x00, 0x00, 0x00, 0x00, 0x00, 0x00],
   [0x00, 0x00, 0x00, 0x00, 0x00, 0x00, 0x00, 0x00],
   [0x00, 0x00, 0x00, 0x00, 0x00, 0x00, 0x00, 0x00],
   [0x00, 0x00, 0x00, 0x00, 0x00, 0x00, 0x00, 0x00],
   [0x00, 0x00, 0x00, 0x00, 0x00, 0x00, 0x00, 0x00],
   [0x00, 0x00, 0x00, 0x00, 0x00, 0x00, 0x00, 0x00],
   [0x00, 0x00, 0x00, 0x00, 0x00, 0x00, 0x00, 0x00],
   [0x00, 0x00, 0x00, 0x00, 0x00, 0x00, 0x00, 0x00],
   [0x00, 0x00, 0x00, 0x00, 0x00, 0x00, 0x00, 0x00],
   [0x00, 0x00, 0x00, 0x00, 0x00, 0x00, 0x00, 0x00],
   [0x00, 0x00, 0x00, 0x00, 0x00, 0x00, 0x00, 0x00],
   [0x00, 0x00, 0x00, 0x00, 0x00, 0x00, 0x00, 0x00],
   [0x00, 0x00, 0x00, 0x00, 0x00, 0x00, 0x00, 0x00],
   [0x00, 0x00, 0x00, 0x00, 0x00, 0x00, 0x00, 0x00],
   [0x00, 0x00, 0x00, 0x00, 0x00, 0x00, 0x00, 0x00],
   [0x00, 0x00, 0x00, 0x00, 0x00, 0x00, 0x00, 0x00],
   [0x00, 0x00, 0x00, 0x00, 0x00, 0x00, 0x00, 0x00],
   [0x00, 0x00, 0x00, 0x00, 0x00, 0x00, 0x00, 0x00],
   [0x00, 0x00, 0x00, 0x00, 0x00, 0x00, 0x00, 0x00],
   [0x18, 0x3C, 0x3C, 0x18, 0x18, 0x00, 0x18, 0x00],
   [0x36, 0x36, 0x00, 0x00, 0x00, 0x00, 0x00, 0x00],
   [0x36, 0x36, 0x7F, 0x36, 0x7F, 0x36, 0x36, 0x00],
   [0x0C, 0x3E, 0x03, 0x1E, 0x30, 0x1F, 0x0C, 0x00],
   [0x00, 0x63, 0x33, 0x18, 0x0C, 0x66, 0x63, 0x00],
   [0x1C, 0x36, 0x1C, 0x6E, 0x3B, 0x33, 0x6E, 0x00],
   [0x06, 0x06, 0x03, 0x00, 0x00, 0x00, 0x00, 0x00],
   [0x18, 0x0C, 0x06, 0x06, 0x06, 0x0C, 0x18, 0x00],
   [0x06, 0x0C, 0x18, 0x18, 0x18, 0x0C, 0x06, 0x00],
   [0x00, 0x66, 0x3C, 0xFF, 0x3C, 0x66, 0x00, 0x00],
   [0x00, 0x0C, 0x0C, 0x3F, 0x0C, 0x0C, 0x00, 0x00],
   [0x00, 0x00, 0x00, 0x00, 0x00, 0x0C, 0x0C, 0x06],
   [0x00, 0x00, 0x00, 0x3F, 0x00, 0x00, 0x00, 0x00],
   [0x00, 0x00, 0x00, 0x00, 0x00, 0x0C, 0x0C, 0x00],
   [0x60, 0x30, 0x18, 0x0C, 0x06, 0x03, 0x01, 0x00],
   [0x3E, 0x63, 0x73, 0x7B, 0x6F, 0x67, 0x3E, 0x00],
   [0x0C, 0x0E, 0x0C, 0x0C, 0x0C, 0x0C, 0x3F, 0x00],
   [0x1E, 0x33, 0x30, 0x1C, 0x06, 0x33, 0x3F, 0x00],
   [0x1E, 0x33, 0x30, 0x1C, 0x30, 0x33, 0x1E, 0x00],
   [0x38, 0x3C, 0x36, 0x33, 0x7F, 0x30, 0x78, 0x00],
   [0x3F, 0x03, 0x1F, 0x30, 0x30, 0x33, 0x1E, 0x00],
   [0x1C, 0x06, 0x03, 0x1F, 0x33, 0x33, 0x1E, 0x00],
   [0x3F, 0x33, 0x30, 0x18, 0x0C, 0x0C, 0x0C, 0x00],
   [0x1E, 0x33, 0x33, 0x1E, 0x33, 0x33, 0x1E, 0x00],
   [0x1E, 0x33, 0x33, 0x3E, 0x30, 0x18, 0x0E, 0x00],
   [0x00, 0x0C, 0x0C, 0x00, 0x00, 0x0C, 0x0C, 0x00],
   [0x00, 0x0C, 0x0C, 0x00, 0x00, 0x0C, 0x0C, 0x06],
   [0x18, 0x0C, 0x06, 0x03, 0x06, 0x0C, 0x18, 0x00],
   [0x00, 0x00, 0x3F, 0x00, 0x00, 0x3F, 0x00, 0x00],
   [0x06, 0x0C, 0x18, 0x30, 0x18, 0x0C, 0x06, 0x00],
   [0x1E, 0x33, 0x30, 0x18, 0x0C, 0x00, 0x0C, 0x00],
   [0x3E, 0x63, 0x7B, 0x7B, 0x7B, 0x03, 0x1E, 0x00],
   [0x0C, 0x1E, 0x33, 0x33, 0x3F, 0x33, 0x33, 0x00],
   [0x3F, 0x66, 0x66, 0x3E, 0x66, 0x66, 0x3F, 0x00],
   [0x3C, 0x66, 0x03, 0x03, 0x03, 0x66, 0x3C, 0x00],
   [0x1F, 0x36, 0x66, 0x66, 0x66, 0x36, 0x1F, 0x00],
   [0x7F, 0x46, 0x16, 0x1E, 0x16, 0x46, 0x7F, 0x00],
   [0x7F, 0x46, 0x16, 0x1E, 0x16, 0x06, 0x0F, 0x00],
   [0x3C, 0x66, 0x03, 0x03, 0x73, 0x66, 0x7C, 0x00],
   [0x33, 0x33, 0x33, 0x3F, 0x33, 0x33, 0x33, 0x00],
   [0x1E, 0x0C, 0x0C, 0x0C, 0x0C, 0x0C, 0x1E, 0x00],
   [0x78, 0x30, 0x30, 0x30, 0x33, 0x33, 0x1E, 0x00],
   [0x67, 0x66, 0x36, 0x1E, 0x36, 0x66, 0x67, 0x00],
   [0x0F, 0x06, 0x06, 0x06, 0x46, 0x66, 0x7F, 0x00],
   [0x63, 0x77, 0x7F, 0x7F, 0x6B, 0x63, 0x63, 0x00],
   [0x63, 0x67, 0x6F, 0x7B, 0x73, 0x63, 0x63, 0x00],
   [0x1C, 0x36, 0x63, 0x63, 0x63, 0x36, 0x1C, 0x00],
   [0x3F, 0x66, 0x66, 0x3E, 0x06, 0x06, 0x0F, 0x00],
   [0x1E, 0x33, 0x33, 0x33, 0x3B, 0x1E, 0x38, 0x00],
   [0x3F, 0x66, 0x66, 0x3E, 0x36, 0x66, 0x67, 0x00],
   [0x1E, 0x33, 0x07, 0x0E, 0x38, 0x33, 0x1E, 0x00],
   [0x3F, 0x2D, 0x0C, 0x0C, 0x0C, 0x0C, 0x1E, 0x00],
   [0x33, 0x33, 0x33, 0x33, 0x33, 0x33, 0x3F, 0x00],
   [0x33, 0x33, 0x33, 0x33, 0x33, 0x1E, 0x0C, 0x00],
   [0x63, 0x63, 0x63, 0x6B, 0x7F, 0x77, 0x63, 0x00],
   [0x63, 0x63, 0x36, 0x1C, 0x1C, 0x36, 0x63, 0x00],
   [0x33, 0x33, 0x33, 0x1E, 0x0C, 0x0C, 0x1E, 0x00],
   [0x7F, 0x63, 0x31, 0x18, 0x4C, 0x66, 0x7F, 0x00],
   [0x1E, 0x06, 0x06, 0x06, 0x06, 0x06, 0x1E, 0x00],
   [0x03, 0x06, 0x0C, 0x18, 0x30, 0x60, 0x40, 0x00],
   [0x1E, 0x18, 0x18, 0x18, 0x18, 0x18, 0x1E, 0x00],
   [0x08, 0x1C, 0x36, 0x63, 0x00, 0x00, 0x00, 0x00],
   [0x00, 0x00, 0x00, 0x00, 0x00, 0x00, 0x00, 0xFF],
   [0x0C, 0x0C, 0x18, 0x00, 0x00, 0x00, 0x00, 0x00],
   [0x00, 0x00, 0x1E, 0x30, 0x3E, 0x33, 0x6E, 0x00],
   [0x07, 0x06, 0x06, 0x3E, 0x66, 0x66, 0x3B, 0x00],
   [0x00, 0x00, 0x1E, 0x33, 0x03, 0x33, 0x1E, 0x00],
   [0x38, 0x30, 0x30, 0x3E, 0x33, 0x33, 0x6E, 0x00],
   [0x00, 0x00, 0x1E, 0x33, 0x3F, 0x03, 0x1E, 0x00],
   [0x1C, 0x36, 0x06, 0x0F, 0x06, 0x06, 0x0F, 0x00],
   [0x00, 0x00, 0x6E, 0x33, 0x33, 0x3E, 0x30, 0x1F],
   [0x07, 0x06, 0x36, 0x6E, 0x66, 0x66, 0x67, 0x00],
   [0x0C, 0x00, 0x0E, 0x0C, 0x0C, 0x0C, 0x1E, 0x00],
   [0x30, 0x00, 0x30, 0x30, 0x30, 0x33, 0x33, 0x1E],
   [0x07, 0x06, 0x66, 0x36, 0x1E, 0x36, 0x67, 0x00],
   [0x0E, 0x0C, 0x0C, 0x0C, 0x0C, 0x0C, 0x1E, 0x00],
   [0x00, 0x00, 0x33, 0x7F, 0x7F, 0x6B, 0x63, 0x00],
   [0x00, 0x00, 0x1F, 0x33, 0x33, 0x33, 0x33, 0x00],
   [0x00, 0x00, 0x1E, 0x33, 0x33, 0x33, 0x1E, 0x00],
   [0x00, 0x00, 0x3B, 0x66, 0x66, 0x3E, 0x06, 0x0F],
   [0x00, 0x00, 0x6E, 0x33, 0x33, 0x3E, 0x30, 0x78],
   [0x00, 0x00, 0x3B, 0x6E, 0x66, 0x06, 0x0F, 0x00],
   [0x00, 0x00, 0x3E, 0x03, 0x1E, 0x30, 0x1F, 0x00],
   [0x08, 0x0C, 0x3E, 0x0C, 0x0C, 0x2C, 0x18, 0x00],
   [0x00, 0x00, 0x33, 0x33, 0x33, 0x33, 0x6E, 0x00],
   [0x00, 0x00, 0x33, 0x33, 0x33, 0x1E, 0x0C, 0x00],
   [0x00, 0x00, 0x63, 0x6B, 0x7F, 0x7F, 0x36, 0x00],
   [0x00, 0x00, 0x63, 0x36, 0x1C, 0x36, 0x63, 0x00],
   [0x00, 0x00, 0x33, 0x33, 0x33, 0x3E, 0x30, 0x1F],
   [0x00, 0x00, 0x3F, 0x19, 0x0C, 0x26, 0x3F, 0x00],
   [0x38, 0x0C, 0x0C, 0x07, 0x0C, 0x0C, 0x38, 0x00],
   [0x18, 0x18, 0x18, 0x00, 0x18, 0x18, 0x18, 0x00],
   [0x07, 0x0C, 0x0C, 0x38, 0x0C, 0x0C, 0x07, 0x00],
   [0x6E, 0x3B, 0x00, 0x00, 0x00, 0x00, 0x00, 0x00],
   [0x00, 0x00, 0x00, 0x00, 0x00, 0x00, 0x00, 0x00]]"

lemma font_table_shape: "length font8x8_table = 128" "list_all (\<lambda>r. length r = 8) font8x8_table"
  by (simp_all add: font8x8_table_def)

lemma font_table_A: "font8x8_table ! 65 = [0x0C, 0x1E, 0x33, 0x33, 0x3F, 0x33, 0x33, 0x00]"
  by (simp add: font8x8_table_def)

text \<open>The control characters and the blank have empty glyphs.\<close>

lemma font_table_blank:
  assumes "n \<le> 32 \<or> n = 127"
  shows "font8x8_table ! n = replicate 8 0"
proof -
  have "take 33 font8x8_table = replicate 33 (replicate 8 0)" "font8x8_table ! 127 = replicate 8 0"
    by (simp_all add: font8x8_table_def eval_nat_numeral)
  moreover have "font8x8_table ! n = take 33 font8x8_table ! n" if "n \<le> 32" using that by simp
  ultimately show ?thesis using assms by auto
qed

end
