(* ===== verification/Display.thy ===== *)
theory Display
  imports Format Boot_Info Font "HOL-Library.Signed_Division"
begin

text \<open>
  The screen: \<^verbatim>\<open>display/framebuffer.c\<close>, \<^verbatim>\<open>terminal/terminal.c\<close>, \<^verbatim>\<open>gui/widgets.c\<close> and the picture
  routines of \<^verbatim>\<open>logos/\<close>. The frame buffer is byte memory; every pixel address is computed in 32 bits as
  in the code. What does not change is the record \<open>screen\<close>: the loader's structure, the address of
  the symbol \<open>fb\<close>, the bytes after the glyph table, which are read for characters from 128 on, and the address of the linked PSF font.
\<close>

section \<open>State\<close>

record screen =
  scr_boot :: bootboot
  scr_fb :: u64
  beyond_font :: "u8 \<Rightarrow> nat \<Rightarrow> u8"
  psf_font :: u64

record framebuffer_details =
  fbd_width :: u32
  fbd_height :: u32
  fbd_scanline :: u32
  fbd_type :: u8

record display =
  d_mem :: memory
  cursor_x :: u32
  cursor_y :: u32
  framebuffer_details :: framebuffer_details

definition char_width :: u32 where "char_width = 8"
definition char_height :: u32 where "char_height = 8"

abbreviation fb_width :: "screen \<Rightarrow> u32" where "fb_width sc \<equiv> bb_fb_width (scr_boot sc)"
abbreviation fb_height :: "screen \<Rightarrow> u32" where "fb_height sc \<equiv> bb_fb_height (scr_boot sc)"
abbreviation fb_scanline :: "screen \<Rightarrow> u32" where "fb_scanline sc \<equiv> bb_fb_scanline (scr_boot sc)"

definition initialize_framebuffer_details :: "screen \<Rightarrow> display \<times> io_world \<Rightarrow> display \<times> io_world" where
  "initialize_framebuffer_details sc dw =
     (let (d, w) = dw;
          h = fb_height sc;
          w = log_call LOG_LEVEL_DEBUG ''framebuffer height = %lu'' [VInt h] w;
          wd = fb_width sc;
          w = log_call LOG_LEVEL_DEBUG ''framebuffer width = %lu'' [VInt wd] w
      in (d\<lparr>framebuffer_details := \<lparr>fbd_width = wd, fbd_height = h, fbd_scanline = fb_scanline sc,
            fbd_type = bb_fb_type (scr_boot sc)\<rparr>\<rparr>, w))"

definition get_screen_width :: "display \<Rightarrow> u32" where
  "get_screen_width d = fbd_width (framebuffer_details d)"

definition get_screen_height :: "display \<Rightarrow> u32" where
  "get_screen_height d = fbd_height (framebuffer_details d)"

datatype color =
    Black | Blue | Green | Cyan | Red | Purple | Brown | Gray | Dark_Gray | Light_Blue | Light_Green
  | Light_Cyan | Light_Red | Light_Purple | Yellow | White

fun color_value :: "color \<Rightarrow> u32" where
  "color_value Black = 0x000000"
| "color_value Blue = 0x0000AA"
| "color_value Green = 0x00AA00"
| "color_value Cyan = 0x00AAAA"
| "color_value Red = 0xAA0000"
| "color_value Purple = 0xAA00AA"
| "color_value Brown = 0xAA5500"
| "color_value Gray = 0xAAAAAA"
| "color_value Dark_Gray = 0x555555"
| "color_value Light_Blue = 0x5555FF"
| "color_value Light_Green = 0x55FF55"
| "color_value Light_Cyan = 0x55FFFF"
| "color_value Light_Red = 0xFF5555"
| "color_value Light_Purple = 0xFF55FF"
| "color_value Yellow = 0xFFFF55"
| "color_value White = 0xFFFFFF"

section \<open>Pixels and characters\<close>

definition pixel_offset :: "screen \<Rightarrow> u32 \<Rightarrow> u32 \<Rightarrow> u32" where
  "pixel_offset sc x y = (8 + y) * fb_scanline sc + 4 * (x + 8)"

definition put_pixel :: "screen \<Rightarrow> u32 \<Rightarrow> u32 \<Rightarrow> u32 \<Rightarrow> display \<Rightarrow> display" where
  "put_pixel sc x y color d =
     (let offset = pixel_offset sc x y
      in d\<lparr>d_mem := store32 (d_mem d) (scr_fb sc + ucast offset) color\<rparr>)"

definition draw_row :: "screen \<Rightarrow> u32 \<Rightarrow> u32 \<Rightarrow> u8 \<Rightarrow> nat \<Rightarrow> u32 \<Rightarrow> display \<Rightarrow> display" where
  "draw_row sc x y row i color =
     fold (\<lambda>j d. if bit row j then put_pixel sc (x - (7 - of_nat j)) (y + of_nat i) color d else d) [0..<8]"

definition font8x8_basic :: "screen \<Rightarrow> u8 \<Rightarrow> nat \<Rightarrow> u8" where
  "font8x8_basic sc c i = (if unat c < 128 then font8x8_table ! unat c ! i else beyond_font sc c i)"

definition draw_char :: "screen \<Rightarrow> u32 \<Rightarrow> u32 \<Rightarrow> u8 \<Rightarrow> u32 \<Rightarrow> display \<Rightarrow> display" where
  "draw_char sc x y c color = fold (\<lambda>i. draw_row sc x y (font8x8_basic sc c i) i color) [0..<8]"

definition copy_row :: "screen \<Rightarrow> u32 \<Rightarrow> memory \<Rightarrow> memory" where
  "copy_row sc y m =
     (let src_offset = (y + char_height) * fb_scanline sc;
          dest_offset = y * fb_scanline sc;
          src = scr_fb sc + ucast src_offset;
          dest = scr_fb sc + ucast dest_offset
      in fold (\<lambda>x m. store32 m (dest + 4 * of_nat x) (load32 m (src + 4 * of_nat x)))
           [0..<unat (fb_width sc)] m)"

definition clear_row :: "screen \<Rightarrow> u32 \<Rightarrow> display \<Rightarrow> display" where
  "clear_row sc y = fold (\<lambda>x. put_pixel sc (of_nat x) y 0x000000) [0..<unat (fb_width sc)]"

definition scroll :: "screen \<Rightarrow> display \<Rightarrow> display" where
  "scroll sc d =
     (let d = d\<lparr>d_mem := fold (\<lambda>y. copy_row sc (of_nat y)) [0..<unat (fb_height sc - char_height)] (d_mem d)\<rparr>;
          d = fold (\<lambda>y. clear_row sc (of_nat y)) [unat (fb_height sc - char_height)..<unat (fb_height sc)] d
      in d\<lparr>cursor_y := cursor_y d - char_height\<rparr>)"

definition next_line :: "screen \<Rightarrow> display \<Rightarrow> display" where
  "next_line sc d =
     (let d = d\<lparr>cursor_x := 0\<rparr>;
          d = d\<lparr>cursor_y := cursor_y d + char_height\<rparr>
      in if fb_height sc \<le> cursor_y d then scroll sc (d\<lparr>cursor_y := 0\<rparr>) else d)"

definition print_char :: "screen \<Rightarrow> char \<Rightarrow> u32 \<Rightarrow> display \<Rightarrow> display" where
  "print_char sc c color d =
     (if c = CHR 0x0A then next_line sc d
      else let d = (if fb_width sc < cursor_x d + char_width then next_line sc d else d);
               d = draw_char sc (cursor_x d) (cursor_y d) (of_char c) color d
           in d\<lparr>cursor_x := cursor_x d + char_width\<rparr>)"

definition print_text :: "screen \<Rightarrow> string \<Rightarrow> u32 \<Rightarrow> display \<Rightarrow> display" where
  "print_text sc s color = fold (\<lambda>c. print_char sc c color) s"

definition print_numstr :: "screen \<Rightarrow> string \<Rightarrow> u32 \<Rightarrow> va_arg list \<Rightarrow> display \<Rightarrow> display option" where
  "print_numstr sc str color args d = do {
     t \<leftarrow> numstr_text str args;
     Some (print_text sc t color d)
   }"

section \<open>The PSF font\<close>

text \<open>\<open>disp_str\<close> draws with the linked font; the bytes per glyph row are computed once, the other header
  fields are read when a glyph or a row of it is begun. A character is signed.\<close>

definition glyph_index :: "memory \<Rightarrow> u64 \<Rightarrow> u8 \<Rightarrow> u32" where
  "glyph_index m font c =
     (if 0 < sint c \<and> (scast c :: u32) < load32 m (font + 16) then scast c else 0)"

definition glyph_pixel :: "screen \<Rightarrow> u64 \<Rightarrow> memory \<times> u32 \<times> u32 \<Rightarrow> memory \<times> u32 \<times> u32" where
  "glyph_pixel sc glyph s =
     (let (m, line, mask) = s;
          m = store32 m (scr_fb sc + ucast line) (if (ucast (m glyph) :: u32) AND mask \<noteq> 0 then 0xFFFFFF else 0)
      in (m, line + 4, drop_bit 1 mask))"

definition glyph_row :: "screen \<Rightarrow> u32 \<Rightarrow> memory \<times> u64 \<times> u32 \<Rightarrow> memory \<times> u64 \<times> u32" where
  "glyph_row sc bpl s =
     (let (m, glyph, offs) = s;
          width = load32 m (psf_font sc + 28);
          (m, line, mask) = fold (\<lambda>_. glyph_pixel sc glyph) [0..<unat width]
            (m, offs, push_bit (unat (width - 1) mod 32) 1);
          m = store32 m (scr_fb sc + ucast line) 0
      in (m, glyph + ucast bpl, offs + fb_scanline sc))"

definition disp_glyph :: "screen \<Rightarrow> u32 \<Rightarrow> u8 \<Rightarrow> u32 \<Rightarrow> display \<Rightarrow> display" where
  "disp_glyph sc bpl c kx d =
     (let m = d_mem d;
          font = psf_font sc;
          glyph = font + ucast (load32 m (font + 8)) + ucast (glyph_index m font c * load32 m (font + 20));
          offs = (kx * (load32 m (font + 28) + 1) * 4) + cursor_y d * fb_scanline sc;
          (m, _) = fold (\<lambda>_. glyph_row sc bpl) [0..<unat (load32 m (font + 24))] (m, glyph, offs)
      in d\<lparr>d_mem := m\<rparr>)"

definition disp_text :: "screen \<Rightarrow> u32 \<Rightarrow> string \<Rightarrow> u32 \<times> display \<Rightarrow> u32 \<times> display" where
  "disp_text sc bpl = fold (\<lambda>c (kx, d). (kx + 1, disp_glyph sc bpl (of_char c) kx d))"

function disp_loop :: "screen \<Rightarrow> u32 \<Rightarrow> string \<Rightarrow> va_arg list \<Rightarrow> u32 \<times> display \<Rightarrow> (u32 \<times> display) option" where
  "disp_loop sc bpl s args kd =
     (if s = [] then Some kd
      else if peek s 0 = CHR 0x0A then
        let (kx, d) = kd;
            d = d\<lparr>cursor_y := cursor_y d + load32 (d_mem d) (psf_font sc + 24)\<rparr>;
            d = (if fb_height sc \<le> cursor_y d then d\<lparr>cursor_y := 0\<rparr> else d)
        in disp_loop sc bpl (drop 1 s) args (0, d)
      else if peek s 0 = CHR ''%'' \<and> peek s 1 = CHR ''d'' then
        (case next_slot args of
           None \<Rightarrow> None
         | Some (v, args) \<Rightarrow> disp_loop sc bpl (drop 2 s) args (disp_text sc bpl (int_text (ucast v)) kd))
      else disp_loop sc bpl (drop 1 s) args (disp_text sc bpl [peek s 0] kd))"
  by auto
termination by (relation "measure (\<lambda>(sc, bpl, s, args, kd). length s)") auto

declare disp_loop.simps [simp del]

definition disp_str :: "screen \<Rightarrow> string \<Rightarrow> va_arg list \<Rightarrow> display \<Rightarrow> display option" where
  "disp_str sc s args d =
     (let bpl = (load32 (d_mem d) (psf_font sc + 28) + 7) div 8
      in map_option snd (disp_loop sc bpl s args (0, d)))"

section \<open>Clearing\<close>

text \<open>For screens narrower than \<open>2 ^ 32 - 1\<close> pixels. Eight bytes are written for every second column; the color is extended to 64 bits.\<close>

definition fill_row :: "screen \<Rightarrow> u64 \<Rightarrow> u32 \<Rightarrow> memory \<Rightarrow> memory" where
  "fill_row sc v j =
     fold (\<lambda>k m. store64 m (bb_fb_ptr (scr_boot sc) + ucast (j + 8 * of_nat k)) v)
       [0..<(unat (fb_width sc) + 1) div 2]"

definition clear_framebuffer :: "screen \<Rightarrow> u32 \<Rightarrow> display \<Rightarrow> display" where
  "clear_framebuffer sc color d =
     d\<lparr>d_mem := fold (\<lambda>y. fill_row sc (ucast color) (of_nat y * fb_scanline sc)) [0..<unat (fb_height sc)] (d_mem d)\<rparr>"

definition clear_fb :: "screen \<Rightarrow> display \<Rightarrow> display" where
  "clear_fb sc d =
     d\<lparr>d_mem := fold (\<lambda>y. fill_row sc 0 (of_nat y * fb_scanline sc)) [0..<unat (fb_height sc)] (d_mem d)\<rparr>"

definition clear_screen :: "screen \<Rightarrow> u32 \<Rightarrow> display \<Rightarrow> display" where
  "clear_screen sc color d =
     (let offset = fb_height sc * fb_scanline sc
      in d\<lparr>d_mem := store32 (d_mem d) (scr_fb sc + ucast offset) color\<rparr>)"

section \<open>Pictures\<close>

text \<open>\<open>draw_kyle\<close> and \<open>draw_hukaos_logo\<close>: one byte per pixel, row by row; the picture is a parameter.\<close>

definition gray :: "u8 \<Rightarrow> u32" where
  "gray b = push_bit 16 (ucast b) OR push_bit 8 (ucast b) OR ucast b"

definition draw_picture :: "screen \<Rightarrow> nat \<Rightarrow> nat \<Rightarrow> (nat \<Rightarrow> u8) \<Rightarrow> display \<Rightarrow> display" where
  "draw_picture sc h wd bitmap =
     fold (\<lambda>y. fold (\<lambda>x. put_pixel sc (of_nat x) (of_nat y) (gray (bitmap (y * wd + x)))) [0..<wd]) [0..<h]"

definition HUKAOS_HEIGHT :: nat where "HUKAOS_HEIGHT = 333"
definition HUKAOS_WIDTH :: nat where "HUKAOS_WIDTH = 592"

definition draw_hukaos_logo :: "screen \<Rightarrow> (nat \<Rightarrow> u8) \<Rightarrow> display \<Rightarrow> display" where
  "draw_hukaos_logo sc HukaOS = draw_picture sc HUKAOS_HEIGHT HUKAOS_WIDTH HukaOS"

definition BITMAP_HEIGHT :: nat where "BITMAP_HEIGHT = 300"
definition BITMAP_WIDTH :: nat where "BITMAP_WIDTH = 200"

definition draw_kyle :: "screen \<Rightarrow> (nat \<Rightarrow> u8) \<Rightarrow> display \<Rightarrow> display" where
  "draw_kyle sc bitmap = draw_picture sc BITMAP_HEIGHT BITMAP_WIDTH bitmap"

section \<open>The terminal\<close>

definition terminal_write :: "screen \<Rightarrow> string \<Rightarrow> va_arg list \<Rightarrow> display \<Rightarrow> display option" where
  "terminal_write sc str args d = do {
     t \<leftarrow> numstr_text str args;
     Some (print_text sc t (color_value White) d)
   }"

definition terminal_initialize :: "screen \<Rightarrow> display \<Rightarrow> display option" where
  "terminal_initialize sc d = print_numstr sc ''\<newline>root@hukkaOS:~/ '' 0xd622 [] d"

section \<open>Widgets\<close>

fun draw_string :: "screen \<Rightarrow> u32 \<Rightarrow> u32 \<Rightarrow> string \<Rightarrow> u32 \<Rightarrow> display \<Rightarrow> display" where
  "draw_string sc x y [] color d = d"
| "draw_string sc x y (c # s) color d = draw_string sc (x + 8) y s color (draw_char sc x y (of_char c) color d)"

definition draw_rect :: "screen \<Rightarrow> u32 \<Rightarrow> u32 \<Rightarrow> u32 \<Rightarrow> u32 \<Rightarrow> u32 \<Rightarrow> display \<Rightarrow> display" where
  "draw_rect sc x y w h color =
     fold (\<lambda>i. fold (\<lambda>j. put_pixel sc (x + of_nat j) (y + of_nat i) color) [0..<unat w]) [0..<unat h]"

definition draw_win_rect :: "screen \<Rightarrow> u32 \<Rightarrow> u32 \<Rightarrow> u32 \<Rightarrow> u32 \<Rightarrow> u32 \<Rightarrow> u32 \<Rightarrow> display \<Rightarrow> display" where
  "draw_win_rect sc x y w h color title_bar_height =
     fold (\<lambda>i. if title_bar_height - 1 < of_nat i
               then fold (\<lambda>j. put_pixel sc (x + of_nat j) (y + of_nat i) color) [0..<unat w]
               else (\<lambda>d. d)) [0..<unat h]"

record button =
  btn_x :: u32
  btn_y :: u32
  btn_width :: u32
  btn_height :: u32
  btn_text :: string
  btn_color :: u32
  btn_text_color :: u32

text \<open>The width is extended to 64 bits before the length of the text is taken off and the division
  is unsigned; the height is divided as a signed number.\<close>

definition draw_button :: "screen \<Rightarrow> button \<Rightarrow> display \<Rightarrow> display" where
  "draw_button sc b d =
     (let d = draw_rect sc (btn_x b) (btn_y b) (btn_width b) (btn_height b) (btn_color b) d;
          text_x = ucast ((scast (btn_x b) :: u64) + (scast (btn_width b) - of_nat (length (btn_text b)) * 8) div 2);
          text_y = btn_y b + of_int ((sint (btn_height b) - 8) sdiv 2)
      in draw_string sc (text_x + 5) text_y (btn_text b) (btn_text_color b) d)"

record text_field =
  tf_x :: u32
  tf_y :: u32
  tf_width :: u32
  tf_height :: u32
  tf_text :: string
  tf_text_length :: u32
  tf_color :: u32
  tf_text_color :: u32

definition draw_text_field :: "screen \<Rightarrow> text_field \<Rightarrow> display \<Rightarrow> display" where
  "draw_text_field sc f d =
     (let d = draw_rect sc (tf_x f) (tf_y f) (tf_width f) (tf_height f) (tf_color f) d
      in draw_string sc (tf_x f + 8) (tf_y f + 5) (tf_text f) (tf_text_color f) d)"

section \<open>Reading the screen back\<close>

text \<open>The pixel in row \<open>r\<close> and column \<open>c\<close> of the frame buffer, \<open>S\<close> bytes per row.\<close>

abbreviation bytes_per_row :: "screen \<Rightarrow> nat" where "bytes_per_row sc \<equiv> unat (fb_scanline sc)"

definition at_offset :: "screen \<Rightarrow> memory \<Rightarrow> nat \<Rightarrow> u32" where
  "at_offset sc m o' = load32 m (scr_fb sc + of_nat o')"

definition pixel :: "screen \<Rightarrow> memory \<Rightarrow> nat \<Rightarrow> nat \<Rightarrow> u32" where
  "pixel sc m r c = at_offset sc m (r * bytes_per_row sc + 4 * c)"

text \<open>Rows are whole pixels and offsets do not wrap up to row \<open>rows\<close>.\<close>

definition geometry :: "screen \<Rightarrow> nat \<Rightarrow> bool" where
  "geometry sc rows \<longleftrightarrow> bytes_per_row sc mod 4 = 0 \<and> rows * bytes_per_row sc < 2 ^ 32"

lemma store32_at_offset:
  assumes "o1 mod 4 = 0" "o2 mod 4 = 0" "o1 < 2 ^ 32" "o2 < 2 ^ 32"
  shows "at_offset sc (store32 m (scr_fb sc + of_nat o1) v) o2 = (if o2 = o1 then v else at_offset sc m o2)"
proof (cases "o1 = o2")
  case False
  have "apart (scr_fb sc + of_nat o1) 4 (scr_fb sc + of_nat o2) 4"
  proof (cases "o1 < o2")
    case True
    with assms show ?thesis by (intro apart_offsets) (presburger | simp)+
  next
    case lt: False
    with False assms show ?thesis by (subst apart_sym) (intro apart_offsets, (presburger | simp)+)
  qed
  then have "load32 (store32 m (scr_fb sc + of_nat o1) v) (scr_fb sc + of_nat o2) = load32 m (scr_fb sc + of_nat o2)"
    by (simp add: load32_def store32_def read_write_bytes_apart)
  with False show ?thesis by (simp add: at_offset_def)
qed (simp add: at_offset_def load32_store32_same)

lemma ucast_of_nat32: "n < 2 ^ 32 \<Longrightarrow> ucast (of_nat n :: u32) = (of_nat n :: u64)"
  by (rule word_unat_eq_iff[THEN iffD2]) (simp add: unat_of_nat unsigned_ucast_eq take_bit_nat_eq_self)

lemma put_pixel_at_offset:
  assumes "pixel_offset sc x y = of_nat o1" "o1 mod 4 = 0" "o2 mod 4 = 0" "o1 < 2 ^ 32" "o2 < 2 ^ 32"
  shows "at_offset sc (d_mem (put_pixel sc x y color d)) o2 = (if o2 = o1 then color else at_offset sc (d_mem d) o2)"
  using store32_at_offset[OF assms(2-)] by (simp add: put_pixel_def Let_def assms(1) ucast_of_nat32[OF assms(4)])

lemma pixel_offset_of_nat:
  "pixel_offset sc (of_nat x) (of_nat y) = of_nat ((8 + y) * bytes_per_row sc + 4 * (x + 8))"
  by (simp add: pixel_offset_def)

section \<open>Scrolling\<close>

lemma copy_row_pixels:
  assumes g: "geometry sc (y + 9)" and w: "4 * unat (fb_width sc) \<le> bytes_per_row sc"
    and o2: "o2 mod 4 = 0" "o2 < 2 ^ 32"
  shows "at_offset sc (copy_row sc (of_nat y) m) o2 =
    (if y * bytes_per_row sc \<le> o2 \<and> o2 < y * bytes_per_row sc + 4 * unat (fb_width sc)
     then at_offset sc m (o2 + 8 * bytes_per_row sc) else at_offset sc m o2)"
proof -
  let ?S = "bytes_per_row sc" and ?W = "unat (fb_width sc)"
  have S: "?S mod 4 = 0" and lim: "(y + 9) * ?S < 2 ^ 32" using g by (auto simp: geometry_def)
  have yS: "y * ?S \<le> (y + 8) * ?S" "(y + 8) * ?S + ?S = (y + 9) * ?S" by (auto simp: algebra_simps)
  have lim8: "(y + 8) * ?S < 2 ^ 32" and lim0: "y * ?S < 2 ^ 32" using lim yS by linarith+
  have src: "ucast ((of_nat y + char_height) * fb_scanline sc :: u32) = (of_nat ((y + 8) * ?S) :: u64)"
  proof -
    have "(of_nat y + char_height) * fb_scanline sc = (of_nat ((y + 8) * ?S) :: u32)" by (simp add: char_height_def)
    then show ?thesis using ucast_of_nat32[OF lim8] by simp
  qed
  have dest: "ucast (of_nat y * fb_scanline sc :: u32) = (of_nat (y * ?S) :: u64)"
    using ucast_of_nat32[OF lim0] by simp
  have step: "fold (\<lambda>x m. store32 m (scr_fb sc + of_nat (y * ?S) + 4 * of_nat x)
        (load32 m (scr_fb sc + of_nat ((y + 8) * ?S) + 4 * of_nat x))) [0..<k] m = m'
      \<Longrightarrow> k \<le> ?W \<Longrightarrow> o2 mod 4 = 0 \<Longrightarrow> o2 < 2 ^ 32 \<Longrightarrow>
      at_offset sc m' o2 = (if y * ?S \<le> o2 \<and> o2 < y * ?S + 4 * k then at_offset sc m (o2 + 8 * ?S) else at_offset sc m o2)"
    for k m' o2
  proof (induction k arbitrary: m' o2)
    case (Suc k)
    let ?f = "fold (\<lambda>x m. store32 m (scr_fb sc + of_nat (y * ?S) + 4 * of_nat x)
        (load32 m (scr_fb sc + of_nat ((y + 8) * ?S) + 4 * of_nat x))) [0..<k] m"
    have k: "4 * k + 4 \<le> ?S" using Suc.prems(2) w by linarith
    have ok: "y * ?S + 4 * k < 2 ^ 32" "(y * ?S + 4 * k) mod 4 = 0" "(y + 8) * ?S + 4 * k < 2 ^ 32" "((y + 8) * ?S + 4 * k) mod 4 = 0"
      using k lim yS S by (auto simp: mod_mult_right_eq[symmetric] mod_add_eq[symmetric, of "_ * _"] algebra_simps)
    have "load32 ?f (scr_fb sc + of_nat ((y + 8) * ?S) + 4 * of_nat k) = at_offset sc ?f ((y + 8) * ?S + 4 * k)"
      by (simp add: at_offset_def add.assoc)
    also have "\<dots> = at_offset sc m ((y + 8) * ?S + 4 * k)"
      using Suc.IH[OF refl _ ok(4,3)] Suc.prems(2) k by (simp add: algebra_simps)
    finally have v: "load32 ?f (scr_fb sc + of_nat ((y + 8) * ?S) + 4 * of_nat k) = at_offset sc m ((y + 8) * ?S + 4 * k)" .
    have "m' = store32 ?f (scr_fb sc + of_nat (y * ?S + 4 * k)) (at_offset sc m ((y + 8) * ?S + 4 * k))"
      using Suc.prems(1) v by (simp add: add.assoc)
    then have "at_offset sc m' o2 = (if o2 = y * ?S + 4 * k then at_offset sc m ((y + 8) * ?S + 4 * k) else at_offset sc ?f o2)"
      using store32_at_offset[OF ok(2) Suc.prems(3) ok(1) Suc.prems(4)] by simp
    also have "\<dots> = (if y * ?S \<le> o2 \<and> o2 < y * ?S + 4 * Suc k then at_offset sc m (o2 + 8 * ?S) else at_offset sc m o2)"
    proof (cases "o2 = y * ?S + 4 * k")
      case True
      then show ?thesis by (simp add: algebra_simps)
    next
      case False
      have "o2 < y * ?S + 4 * Suc k \<longleftrightarrow> o2 < y * ?S + 4 * k"
        using False ok(2) Suc.prems(3) by presburger
      then show ?thesis using False Suc.IH[OF refl _ Suc.prems(3,4)] Suc.prems(2) by simp
    qed
    finally show ?case .
  qed auto
  show ?thesis
    unfolding copy_row_def Let_def src dest using step[OF refl order_refl o2] by simp
qed

lemma row_offset:
  assumes "4 * wd \<le> (S :: nat)" and "c < wd"
  shows "y * S \<le> r * S + 4 * c \<and> r * S + 4 * c < y * S + 4 * wd \<longleftrightarrow> r = y"
proof -
  consider "r = y" | "r < y" | "y < r" by linarith
  then show ?thesis
  proof cases
    case 2
    then have "(r + 1) * S \<le> y * S" by (intro mult_right_mono) auto
    with 2 assms show ?thesis by (simp add: algebra_simps)
  next
    case 3
    then have "(y + 1) * S \<le> r * S" by (intro mult_right_mono) auto
    with 3 assms show ?thesis by (simp add: algebra_simps)
  qed (use assms in auto)
qed

lemma geometry_mono: "geometry sc n \<Longrightarrow> k \<le> n \<Longrightarrow> geometry sc k"
  by (auto simp: geometry_def intro: le_less_trans mult_le_mono1)

lemma copy_rows_pixels:
  assumes "geometry sc (n + 9)" and "4 * unat (fb_width sc) \<le> bytes_per_row sc"
    and "c < unat (fb_width sc)" and "r < n + 8"
  shows "pixel sc (fold (\<lambda>y. copy_row sc (of_nat y)) [0..<n] m) r c =
    (if r < n then pixel sc m (r + 8) c else pixel sc m r c)"
  using assms(1,4)
proof (induction n arbitrary: r)
  case (Suc n)
  let ?S = "bytes_per_row sc" and ?m = "fold (\<lambda>y. copy_row sc (of_nat y)) [0..<n] m"
  have S: "?S mod 4 = 0" and lim: "(Suc n + 9) * ?S < 2 ^ 32" using Suc.prems(1) by (auto simp: geometry_def)
  have g: "geometry sc (n + 9)" using Suc.prems(1) by (rule geometry_mono) simp
  have off: "(x * ?S + 4 * c) mod 4 = 0" "x < n + 9 \<Longrightarrow> x * ?S + 4 * c < 2 ^ 32" for x
  proof -
    show "(x * ?S + 4 * c) mod 4 = 0" using S by auto
    assume "x < n + 9"
    then have "(x + 1) * ?S \<le> (Suc n + 9) * ?S" by (intro mult_le_mono1) simp
    moreover have "x * ?S + 4 * c < (x + 1) * ?S" using assms(2,3) by simp
    ultimately show "x * ?S + 4 * c < 2 ^ 32" using lim by linarith
  qed
  have "pixel sc (copy_row sc (of_nat n) ?m) r c = (if r = n then pixel sc ?m (r + 8) c else pixel sc ?m r c)"
    using copy_row_pixels[OF g assms(2) off(1)[of r] off(2)] Suc.prems(2) row_offset[OF assms(2,3), of n r]
    by (simp add: pixel_def algebra_simps)
  moreover have "pixel sc ?m x c = (if x < n then pixel sc m (x + 8) c else pixel sc m x c)" if "x < n + 9" for x
  proof (cases "x < n + 8")
    case True
    then show ?thesis by (rule Suc.IH[OF g])
  next
    case False
    have "pixel sc (fold (\<lambda>y. copy_row sc (of_nat y)) [0..<k] m) x c = pixel sc m x c" if "k \<le> n" for k
      using that
    proof (induction k)
      case (Suc k)
      have g': "geometry sc (k + 9)" using g by (rule geometry_mono) (use Suc.prems in simp)
      have "\<not> (k * ?S \<le> x * ?S + 4 * c \<and> x * ?S + 4 * c < k * ?S + 4 * unat (fb_width sc))"
        using row_offset[OF assms(2,3), of k x] Suc.prems False by auto
      then have "at_offset sc (copy_row sc (of_nat k) m) (x * ?S + 4 * c) = at_offset sc m (x * ?S + 4 * c)" for m
        unfolding copy_row_pixels[OF g' assms(2) off(1)[of x] off(2)[OF \<open>x < n + 9\<close>]] by (rule if_not_P)
      with Suc show ?case by (simp add: pixel_def)
    qed simp
    from this[of n] False show ?thesis by simp
  qed
  ultimately show ?case using Suc.prems(2) by auto
qed simp

text \<open>Clearing goes to rows and columns eight further on: below the screen.\<close>

lemma put_pixel_below:
  assumes "geometry sc rows" and "o2 mod 4 = 0" "o2 < (8 + y) * bytes_per_row sc" and "4 * (x + 8) < 2 ^ 31"
    and "(8 + y) * bytes_per_row sc + 4 * (x + 8) < 2 ^ 32"
  shows "at_offset sc (d_mem (put_pixel sc (of_nat x) (of_nat y) color d)) o2 = at_offset sc (d_mem d) o2"
proof -
  let ?o = "(8 + y) * bytes_per_row sc + 4 * (x + 8)"
  have "?o mod 4 = 0" using assms(1) by (auto simp: geometry_def)
  from put_pixel_at_offset[OF pixel_offset_of_nat this assms(2,5)] assms(3,5) show ?thesis by simp
qed

lemma clear_rows_below:
  assumes g: "geometry sc (h + 9)" and w: "4 * unat (fb_width sc) \<le> bytes_per_row sc"
    and o2: "o2 mod 4 = 0" "o2 < (8 + a) * bytes_per_row sc" and "b \<le> h"
    and big: "(h + 8) * bytes_per_row sc + 4 * (unat (fb_width sc) + 8) < 2 ^ 31"
  shows "at_offset sc (d_mem (fold (\<lambda>y. clear_row sc (of_nat y)) [a..<b] d)) o2 = at_offset sc (d_mem d) o2"
  using assms(5)
proof (induction b)
  case (Suc b)
  let ?S = "bytes_per_row sc"
  show ?case
  proof (cases "a \<le> b")
    case True
    let ?d = "fold (\<lambda>y. clear_row sc (of_nat y)) [a..<b] d"
    have low: "o2 < (8 + b) * ?S"
      using o2(2) True mult_le_mono1[of "8 + a" "8 + b" ?S] by linarith
    have top: "(8 + b) * ?S \<le> (h + 8) * ?S" using Suc.prems by (intro mult_le_mono1) simp
    have "at_offset sc (d_mem (fold (\<lambda>x. put_pixel sc (of_nat x) (of_nat b) 0) [0..<k] ?d)) o2 = at_offset sc (d_mem ?d) o2"
      if "k \<le> unat (fb_width sc)" for k
      using that
    proof (induction k)
      case (Suc k)
      have "4 * (k + 8) \<le> 4 * (unat (fb_width sc) + 8)" using Suc.prems by simp
      from le_less_trans[OF add_mono[OF top this] big] have "(8 + b) * ?S + 4 * (k + 8) < 2 ^ 31" .
      then have "(8 + b) * ?S + 4 * (k + 8) < 2 ^ 32" "4 * (k + 8) < 2 ^ 31" by simp_all
      then show ?case using put_pixel_below[OF g o2(1) low] Suc by simp
    qed simp
    with Suc True show ?thesis by (simp add: clear_row_def)
  qed (use Suc in simp)
qed simp

text \<open>C39: Scrolling. After \<open>scroll\<close> every row but the last eight shows what stood eight rows below, but the
  last eight rows keep their pixels: \<open>put_pixel\<close> adds eight to both coordinates, so the clearing falls
  below the screen. When \<open>print_char\<close> scrolls, the cursor goes from 0 to 8 below zero.\<close>

theorem scroll_pixels:
  assumes "geometry sc (unat (fb_height sc) + 9)" and "4 * unat (fb_width sc) \<le> bytes_per_row sc"
    and "(unat (fb_height sc) + 8) * bytes_per_row sc + 4 * (unat (fb_width sc) + 8) < 2 ^ 31"
    and "8 \<le> unat (fb_height sc)" and "r < unat (fb_height sc)" and "c < unat (fb_width sc)"
  shows "pixel sc (d_mem (scroll sc d)) r c =
      (if r < unat (fb_height sc) - 8 then pixel sc (d_mem d) (r + 8) c else pixel sc (d_mem d) r c) \<and>
    cursor_y (scroll sc (d\<lparr>cursor_y := 0\<rparr>)) = - 8"
proof -
  let ?H = "unat (fb_height sc)" and ?S = "bytes_per_row sc"
  have n: "unat (fb_height sc - char_height) = ?H - 8"
    using assms(4) by (simp add: char_height_def unat_sub word_le_nat_alt)
  have S: "?S mod 4 = 0" using assms(1) by (simp add: geometry_def)
  let ?d1 = "\<lambda>d. d\<lparr>d_mem := fold (\<lambda>y. copy_row sc (of_nat y)) [0..<?H - 8] (d_mem d)\<rparr>"
  let ?clear = "fold (\<lambda>y. clear_row sc (of_nat y)) [?H - 8..<?H]"
  have eq: "scroll sc d = (?clear (?d1 d))\<lparr>cursor_y := cursor_y (?clear (?d1 d)) - 8\<rparr>" for d
    unfolding scroll_def Let_def n by (simp add: char_height_def)
  have "r * ?S + 4 * c < ?H * ?S"
  proof -
    have "(r + 1) * ?S \<le> ?H * ?S" using assms(5) by (intro mult_le_mono1) simp
    with assms(2,6) show ?thesis by simp
  qed
  then have low: "r * ?S + 4 * c < (8 + (?H - 8)) * ?S" using assms(4) by simp
  have al: "(r * ?S + 4 * c) mod 4 = 0" using S by auto
  have "pixel sc (d_mem (scroll sc d)) r c = pixel sc (d_mem (?d1 d)) r c"
    using clear_rows_below[OF assms(1,2) al low order_refl assms(3)] by (simp add: eq pixel_def)
  also have "\<dots> = (if r < ?H - 8 then pixel sc (d_mem d) (r + 8) c else pixel sc (d_mem d) r c)"
    using copy_rows_pixels[OF geometry_mono[OF assms(1)] assms(2,6), of "?H - 8" r] assms(4,5) by simp
  finally have pix: "pixel sc (d_mem (scroll sc d)) r c = \<dots>" .
  have "cursor_y (clear_row sc y d) = cursor_y d" for y d
    unfolding clear_row_def by (rule fold_invariant[where P = "\<lambda>d'. cursor_y d' = cursor_y d" and Q = "\<lambda>_. True"])
      (auto simp: put_pixel_def Let_def)
  then have "cursor_y (?clear d) = cursor_y d" for d
    by (intro fold_invariant[where P = "\<lambda>d'. cursor_y d' = cursor_y d" and Q = "\<lambda>_. True"]) auto
  then show ?thesis using pix by (simp add: eq)
qed

definition sample_screen :: screen where
  "sample_screen = \<lparr>scr_boot = \<lparr>bb_magic = [], bb_size = 128, bb_protocol = 0, bb_fb_type = 0, bb_numcores = 1,
     bb_bspid = 0, bb_timezone = 0, bb_datetime = [], bb_initrd_ptr = 0, bb_initrd_size = 0, bb_fb_ptr = 0xFC000000,
     bb_fb_size = 1024, bb_fb_width = 16, bb_fb_height = 16, bb_fb_scanline = 64, bb_acpi_ptr = 0, bb_smbi_ptr = 0,
     bb_efi_ptr = 0, bb_mp_ptr = 0, bb_mmap = (\<lambda>_. \<lparr>ent_ptr = 0, ent_size = 0\<rparr>)\<rparr>,
     scr_fb = 0xFFFFFFFFFC000000, beyond_font = (\<lambda>_ _. 0), psf_font = 0x5000\<rparr>"

definition sample_display :: display where
  "sample_display = \<lparr>d_mem = (\<lambda>a. ucast a), cursor_x = 0, cursor_y = 8,
     framebuffer_details = \<lparr>fbd_width = 16, fbd_height = 16, fbd_scanline = 64, fbd_type = 0\<rparr>\<rparr>"

theorem scroll_pixels_witness:
  "pixel sample_screen (d_mem (scroll sample_screen sample_display)) 3 5 = pixel sample_screen (d_mem sample_display) 11 5 \<and>
   pixel sample_screen (d_mem (scroll sample_screen sample_display)) 15 5 = pixel sample_screen (d_mem sample_display) 15 5 \<and>
   cursor_y (scroll sample_screen (sample_display\<lparr>cursor_y := 0\<rparr>)) = - 8"
proof -
  have s: "fb_height sample_screen = 16" "fb_width sample_screen = 16" "fb_scanline sample_screen = 64"
    by (simp_all add: sample_screen_def)
  have "geometry sample_screen (unat (fb_height sample_screen) + 9)" by (simp add: geometry_def s)
  from scroll_pixels[OF this, of 3 5 sample_display] scroll_pixels[OF this, of 15 5 sample_display]
  show ?thesis by (simp add: s)
qed

section \<open>Glyphs\<close>

lemma offset_inj:
  assumes "4 * c < (S :: nat)" and "4 * c' < S"
  shows "r * S + 4 * c = r' * S + 4 * c' \<longleftrightarrow> r = r' \<and> c = c'"
proof
  assume eq: "r * S + 4 * c = r' * S + 4 * c'"
  have "(r * S + 4 * c) div S = r" "(r' * S + 4 * c') div S = r'" using assms by (auto simp: div_mult_self3)
  then have "r = r'" using eq by simp
  with eq show "r = r' \<and> c = c'" by simp
qed simp

lemma glyph_offset:
  "pixel_offset sc (x - (7 - of_nat j)) (y + of_nat i) =
     of_nat ((unat y + 8 + i) * bytes_per_row sc + 4 * (unat x + 1 + j))"
  by (simp add: pixel_offset_def algebra_simps)

lemma draw_row_pixels:
  assumes "geometry sc (unat y + 17)" and "4 * (unat x + 9) \<le> bytes_per_row sc" and "i < 8"
    and "4 * c < bytes_per_row sc" and "r < unat y + 17"
  shows "pixel sc (d_mem (draw_row sc x y row i color d)) r c =
    (if r = unat y + 8 + i \<and> unat x + 1 \<le> c \<and> c < unat x + 9 \<and> bit row (c - (unat x + 1))
     then color else pixel sc (d_mem d) r c)"
proof -
  let ?S = "bytes_per_row sc"
  have S: "?S mod 4 = 0" and lim: "(unat y + 17) * ?S < 2 ^ 32" using assms(1) by (auto simp: geometry_def)
  have ok: "(q * ?S + 4 * b) mod 4 = 0" "q * ?S + 4 * b < 2 ^ 32" if "q < unat y + 17" "4 * b < ?S" for q b
  proof -
    show "(q * ?S + 4 * b) mod 4 = 0" using S by auto
    have "(q + 1) * ?S \<le> (unat y + 17) * ?S" using that(1) by (intro mult_le_mono1) simp
    with that(2) lim show "q * ?S + 4 * b < 2 ^ 32" by simp
  qed
  have "pixel sc (d_mem (fold (\<lambda>j d. if bit row j then put_pixel sc (x - (7 - of_nat j)) (y + of_nat i) color d else d) [0..<k] d)) r c =
    (if r = unat y + 8 + i \<and> unat x + 1 \<le> c \<and> c < unat x + 1 + k \<and> bit row (c - (unat x + 1))
     then color else pixel sc (d_mem d) r c)" if "k \<le> 8" for k
    using that
  proof (induction k)
    case (Suc k)
    let ?d = "fold (\<lambda>j d. if bit row j then put_pixel sc (x - (7 - of_nat j)) (y + of_nat i) color d else d) [0..<k] d"
    have b: "4 * (unat x + 1 + k) < ?S" using Suc.prems assms(2) by simp
    have q: "unat y + 8 + i < unat y + 17" using assms(3) by simp
    have put: "pixel sc (d_mem (put_pixel sc (x - (7 - of_nat k)) (y + of_nat i) color ?d)) r c =
        (if r = unat y + 8 + i \<and> c = unat x + 1 + k then color else pixel sc (d_mem ?d) r c)"
      unfolding pixel_def put_pixel_at_offset[OF glyph_offset ok(1)[OF q b] ok(1)[OF assms(5,4)] ok(2)[OF q b] ok(2)[OF assms(5,4)]]
      using offset_inj[OF assms(4) b, of r "unat y + 8 + i"] by simp
    show ?case
      using put Suc by (auto simp: less_Suc_eq)
  qed auto
  from this[of 8] show ?thesis by (simp add: draw_row_def add.assoc)
qed

lemma draw_char_blank:
  assumes "unat ch \<le> 32 \<or> ch = 127"
  shows "draw_char sc x y ch color d = d"
proof -
  have same: "fold (\<lambda>_ d. d) xs d = d" for xs :: "nat list" and d :: display by (induction xs) simp_all
  have row: "draw_row sc x y 0 i color d = d" for i d by (simp add: draw_row_def same)
  have "font8x8_basic sc ch i = 0" if "i < 8" for i
    using assms font_table_blank[of "unat ch"] that by (auto simp: font8x8_basic_def)
  then have "fold (\<lambda>i. draw_row sc x y (font8x8_basic sc ch i) i color) [0..<8] d = fold (\<lambda>i d. d) [0..<8] d"
    by (intro fold_cong) (auto simp: row fun_eq_iff)
  then show ?thesis by (simp add: draw_char_def same)
qed

text \<open>Drawing a character. Exactly the pixels whose bit is set in the glyph take the color, in the
  eight rows from \<open>y + 8\<close> and the eight columns from \<open>x + 1\<close>; every other pixel is unchanged. The
  character is thus drawn eight rows and one column off its position: the bottom text line of the
  screen lies below the frame buffer.\<close>

theorem draw_char_pixels:
  assumes "geometry sc (unat y + 17)" and "4 * (unat x + 9) \<le> bytes_per_row sc"
    and "4 * c < bytes_per_row sc" and "r < unat y + 17"
  shows "pixel sc (d_mem (draw_char sc x y ch color d)) r c =
    (if unat y + 8 \<le> r \<and> r < unat y + 16 \<and> unat x + 1 \<le> c \<and> c < unat x + 9 \<and>
        bit (font8x8_basic sc ch (r - (unat y + 8))) (c - (unat x + 1))
     then color else pixel sc (d_mem d) r c)"
proof -
  have "pixel sc (d_mem (fold (\<lambda>i. draw_row sc x y (font8x8_basic sc ch i) i color) [0..<k] d)) r c =
    (if unat y + 8 \<le> r \<and> r < unat y + 8 + k \<and> unat x + 1 \<le> c \<and> c < unat x + 9 \<and>
        bit (font8x8_basic sc ch (r - (unat y + 8))) (c - (unat x + 1))
     then color else pixel sc (d_mem d) r c)" if "k \<le> 8" for k
    using that
  proof (induction k)
    case (Suc k)
    then have "k < 8" by simp
    from draw_row_pixels[OF assms(1,2) this assms(3,4)] Suc show ?case
      by (cases "r = unat y + 8 + k") (auto simp: less_Suc_eq)
  qed auto
  from this[of 8] show ?thesis by (simp add: draw_char_def add.assoc)
qed

theorem draw_char_pixels_witness:
  "pixel sample_screen (d_mem (draw_char sample_screen 0 0 65 0xFFFFFF sample_display)) 8 4 = 0xFFFFFF \<and>
   pixel sample_screen (d_mem (draw_char sample_screen 0 0 65 0xFFFFFF sample_display)) 8 1 =
     pixel sample_screen (d_mem sample_display) 8 1"
proof -
  have s: "fb_scanline sample_screen = 64" by (simp add: sample_screen_def)
  have glyph: "font8x8_basic sample_screen 65 0 = 0x0C" by (simp add: font8x8_basic_def font_table_A)
  have "geometry sample_screen (unat (0 :: u32) + 17)" by (simp add: geometry_def s)
  from draw_char_pixels[OF this, of 0 4 8 65 "0xFFFFFF" sample_display] draw_char_pixels[OF this, of 0 1 8 65 "0xFFFFFF" sample_display]
  show ?thesis by (simp add: s glyph)
qed

end
