(* ===== verification/Keyboard.thy ===== *)
theory Keyboard
  imports Apic
begin

text \<open>
  The PS/2 controller and the keyboard: \<^verbatim>\<open>hardware/ps2/ps2.c\<close> and \<^verbatim>\<open>devices/keyboard.c\<close>. The
  handler's state is a shift, a caps lock and a control flag and the last key; the properties relate it
  to the history of scan codes. The waiting loops are partial. The scan-code tables are the source's.
\<close>

section \<open>The controller\<close>

definition PS2_CMD_PORT :: u16 where "PS2_CMD_PORT = 0x64"
definition PS2_DATA_PORT :: u16 where "PS2_DATA_PORT = 0x60"

partial_function (option) ps2_wait_input :: "io_world \<Rightarrow> io_world option" where
  "ps2_wait_input w =
     (let (v, w) = in_b PS2_CMD_PORT w in if v AND 0x02 \<noteq> 0 then ps2_wait_input w else Some w)"

partial_function (option) ps2_wait_output :: "io_world \<Rightarrow> io_world option" where
  "ps2_wait_output w =
     (let (v, w) = in_b PS2_CMD_PORT w in if v AND 0x01 = 0 then ps2_wait_output w else Some w)"

definition ps2_send_command :: "u8 \<Rightarrow> io_world \<Rightarrow> io_world option" where
  "ps2_send_command command w = do { w \<leftarrow> ps2_wait_input w; Some (out_b PS2_CMD_PORT command w) }"

definition ps2_send_data :: "u8 \<Rightarrow> io_world \<Rightarrow> io_world option" where
  "ps2_send_data b w = do { w \<leftarrow> ps2_wait_input w; Some (out_b PS2_DATA_PORT b w) }"

definition ps2_read_data :: "io_world \<Rightarrow> (u8 \<times> io_world) option" where
  "ps2_read_data w = do { w \<leftarrow> ps2_wait_output w; Some (in_b PS2_DATA_PORT w) }"

section \<open>Scan codes\<close>

definition scan_code_to_ascii :: "u8 list" where
  "scan_code_to_ascii =
     [0, 27, 49, 50, 51, 52, 53, 54, 55, 56, 57, 48, 45, 61, 8, 9, 113, 119, 101, 114, 116, 121, 117, 105, 111,
      112, 91, 93, 10, 0, 97, 115, 100, 102, 103, 104, 106, 107, 108, 59, 0, 96, 0, 92, 122, 120, 99, 118, 98, 110,
      109, 44, 46, 47, 0, 42, 0, 32, 0, 0, 0, 0, 0, 0, 0, 0, 0, 0, 0, 0, 0, 0, 0, 0, 45, 0, 0, 0, 43, 0,
      0, 0, 0, 0, 0, 0, 0, 0, 0, 0]"

definition shift_set1_scancodes :: "u8 list" where
  "shift_set1_scancodes =
     [0, 0, 33, 64, 35, 36, 37, 94, 38, 42, 40, 41, 95, 43, 8, 9, 81, 87, 69, 82, 84, 89, 85, 73, 79,
      80, 123, 125, 10, 94, 65, 83, 68, 70, 71, 72, 74, 75, 76, 58, 39, 126, 0, 124, 90, 88, 67, 86, 66, 78,
      77, 60, 62, 63, 0, 42, 0, 0, 0, 0, 0, 0, 0, 0, 0, 0, 0, 0, 0, 0, 0, 0, 0, 0, 0, 0, 0, 0, 0, 0,
      0, 0, 0, 0, 0, 0, 0, 0, 0]"

record keyboard =
  kb_apic :: apic
  temp_key :: u8
  shift :: bool
  caps_lock :: bool
  ctrl :: bool

definition keyboard_bss :: "apic \<Rightarrow> keyboard" where
  "keyboard_bss a = \<lparr>kb_apic = a, temp_key = 0, shift = False, caps_lock = False, ctrl = False\<rparr>"

definition kb_io :: "(io_world \<Rightarrow> io_world) \<Rightarrow> keyboard \<Rightarrow> keyboard" where
  "kb_io f k = k\<lparr>kb_apic := do_io f (kb_apic k)\<rparr>"

text \<open>\<open>print_numstr("%c", 0xffff, c)\<close> after the key is stored.\<close>

definition key_pressed :: "u8 \<Rightarrow> keyboard \<Rightarrow> keyboard" where
  "key_pressed c k =
     (let k = k\<lparr>temp_key := c\<rparr> in kb_io (print_call ''%c'' 0xffff [VInt (scast c)]) k)"

definition handle_scan_code :: "u64 \<Rightarrow> keyboard \<Rightarrow> keyboard" where
  "handle_scan_code scan_code k =
     (if scan_code = 0x2A \<or> scan_code = 0x36 then k\<lparr>shift := True\<rparr>
      else if scan_code = 0x3A then k\<lparr>caps_lock := (caps_lock k \<noteq> True)\<rparr>
      else if scan_code = 0xBA then k\<lparr>caps_lock := (caps_lock k \<noteq> False)\<rparr>
      else if scan_code = 0x1D then k\<lparr>ctrl := True\<rparr>
      else if scan_code = 0xAA \<or> scan_code = 0xB6 then k\<lparr>shift := False\<rparr>
      else if scan_code < 0x58 then
        (if scan_code AND 0x80 \<noteq> 0 then k
         else if ctrl k then key_pressed (scan_code_to_ascii ! unat scan_code) k
         else if shift k \<noteq> caps_lock k then key_pressed (shift_set1_scancodes ! unat scan_code) k
         else key_pressed (scan_code_to_ascii ! unat scan_code) k)
      else k)"

definition keyboard_interrupt_handler :: "keyboard \<Rightarrow> keyboard" where
  "keyboard_interrupt_handler k =
     (let (b, a) = on_io (in_b PS2_DATA_PORT) (kb_apic k);
          k = k\<lparr>kb_apic := a\<rparr>;
          k = handle_scan_code (ucast b) k
      in k\<lparr>kb_apic := send_eoi (kb_apic k)\<rparr>)"

definition enable_keyboard :: "apic \<Rightarrow> apic" where
  "enable_keyboard a = ioapic_unmask_irq 33 (ioapic_set_irq 1 33 0 a)"

definition get_keyboard_input :: "keyboard \<Rightarrow> u8" where
  "get_keyboard_input k = temp_key k"

section \<open>Reading a line\<close>

text \<open>\<open>kernel_readline\<close> polls the last key without waiting; \<open>keys n\<close> is what the \<open>n\<close>-th poll finds, as
  the interrupts leave it. The counter \<open>i\<close> and the bound are 64-bit.\<close>

definition echo :: "char \<Rightarrow> io_world \<Rightarrow> io_world" where
  "echo c = emit (PrintChar c 0xffffff)"

partial_function (option) readline_loop ::
  "(nat \<Rightarrow> u8) \<Rightarrow> u64 \<Rightarrow> u64 \<Rightarrow> nat \<Rightarrow> u64 \<Rightarrow> memory \<times> io_world \<Rightarrow> (u64 \<times> memory \<times> io_world) option" where
  "readline_loop keys buffer sz n i mw =
     (if i < sz - 1 then
        let c = keys n; (m, w) = mw
        in if c = 10 \<or> c = 13 then Some (i, m, echo (CHR 0x0A) w)
           else if c = 8 \<or> c = 127 then
             (if 0 < i
              then readline_loop keys buffer sz (Suc n) (i - 1)
                     (m, echo (CHR 0x08) (echo (CHR '' '') (echo (CHR 0x08) w)))
              else readline_loop keys buffer sz (Suc n) i (m, w))
           else if 32 \<le> sint c \<and> sint c \<le> 126 then
             readline_loop keys buffer sz (Suc n) (i + 1) (m(buffer + i := c), echo (char_of (unat c)) w)
           else readline_loop keys buffer sz (Suc n) i (m, w)
      else Some (i, fst mw, snd mw))"

definition kernel_readline :: "(nat \<Rightarrow> u8) \<Rightarrow> u64 \<Rightarrow> u64 \<Rightarrow> memory \<times> io_world \<Rightarrow> (memory \<times> io_world) option" where
  "kernel_readline keys buffer sz mw = do {
     (i, m, w) \<leftarrow> readline_loop keys buffer sz 0 0 mw;
     Some (m(buffer + i := 0), w)
   }"

section \<open>The flags and the history\<close>

text \<open>\<open>handle_all n\<close>: \<open>n\<close> interrupts in a row; the codes are what the port answers.\<close>

fun handle_all :: "nat \<Rightarrow> keyboard \<Rightarrow> keyboard" where
  "handle_all 0 k = k"
| "handle_all (Suc n) k = keyboard_interrupt_handler (handle_all n k)"

definition scan_codes :: "keyboard \<Rightarrow> nat \<Rightarrow> u8 list" where
  "scan_codes k n = map (\<lambda>i. ucast (ap_answer (kb_apic k) (ap_asked (kb_apic k) + i))) [0..<n]"

text \<open>Shift: the last shift code was a press. Caps lock: an odd number of presses. Control: pressed once.\<close>

definition shift_held :: "u8 list \<Rightarrow> bool" where
  "shift_held cs =
     (let xs = filter (\<lambda>c. c \<in> {0x2A, 0x36, 0xAA, 0xB6}) cs in xs \<noteq> [] \<and> last xs \<in> {0x2A, 0x36})"

definition caps_on :: "u8 list \<Rightarrow> bool" where
  "caps_on cs = odd (length (filter (\<lambda>c. c = 0x3A) cs))"

definition ctrl_pressed :: "u8 list \<Rightarrow> bool" where
  "ctrl_pressed cs = (0x1D \<in> set cs)"

definition modifier :: "u8 \<Rightarrow> bool" where
  "modifier c \<longleftrightarrow> c \<in> {0x2A, 0x36, 0x3A, 0x1D, 0xAA, 0xB6}"

text \<open>The key a code produces after a history.\<close>

definition key_after :: "u8 list \<Rightarrow> u8 \<Rightarrow> u8" where
  "key_after cs c =
     (if \<not> ctrl_pressed cs \<and> shift_held cs \<noteq> caps_on cs
      then shift_set1_scancodes ! unat c else scan_code_to_ascii ! unat c)"

fun last_key :: "u8 list \<Rightarrow> u8" where
  "last_key [] = 0"
| "last_key (c # rcs) = (if \<not> modifier c \<and> c < 0x58 then key_after (rev rcs) c else last_key rcs)"

definition tracks :: "u8 list \<Rightarrow> keyboard \<Rightarrow> bool" where
  "tracks cs k \<longleftrightarrow> shift k = shift_held cs \<and> caps_lock k = caps_on cs \<and> ctrl k = ctrl_pressed cs \<and>
     temp_key k = last_key (rev cs)"

lemma history_snoc:
  "shift_held (cs @ [c]) = (if c \<in> {0x2A, 0x36} then True else if c \<in> {0xAA, 0xB6} then False else shift_held cs)"
  "caps_on (cs @ [c]) = (if c = 0x3A then \<not> caps_on cs else caps_on cs)"
  "ctrl_pressed (cs @ [c]) = (c = 0x1D \<or> ctrl_pressed cs)"
  by (auto simp: shift_held_def caps_on_def ctrl_pressed_def Let_def)

lemma key_pressed_simps [simp]:
  "temp_key (key_pressed c k) = c" "shift (key_pressed c k) = shift k"
  "caps_lock (key_pressed c k) = caps_lock k" "ctrl (key_pressed c k) = ctrl k"
  by (simp_all add: key_pressed_def kb_io_def Let_def)

lemma unat_code [simp]: "unat (ucast c :: u64) = unat c" for c :: u8
  using unsigned_less[of c, where 'a = nat] by (simp add: unsigned_ucast_eq take_bit_nat_eq_self_iff)

lemma small_code:
  assumes "(c :: u8) < 0x58"
  shows "(ucast c :: u64) AND 0x80 = 0"
proof -
  have "unat c < 128" using assms by (simp add: word_less_nat_alt)
  then have "\<not> bit (unat c) 7" by (simp add: bit_iff_odd)
  then have "\<not> bit (ucast c :: u64) 7" by (simp add: bit_simps)
  then show ?thesis using and_exp_eq_0_iff_not_bit[of "ucast c :: u64" 7] by simp
qed

lemma handle_code:
  "handle_scan_code (ucast c) k =
     (if c \<in> {0x2A, 0x36} then k\<lparr>shift := True\<rparr>
      else if c = 0x3A then k\<lparr>caps_lock := \<not> caps_lock k\<rparr>
      else if c = 0xBA then k
      else if c = 0x1D then k\<lparr>ctrl := True\<rparr>
      else if c \<in> {0xAA, 0xB6} then k\<lparr>shift := False\<rparr>
      else if c < 0x58 then
        key_pressed (if \<not> ctrl k \<and> shift k \<noteq> caps_lock k then shift_set1_scancodes ! unat c
                     else scan_code_to_ascii ! unat c) k
      else k)"
  for c :: u8
proof -
  have eq: "(ucast c = (0x2A :: u64)) = (c = 0x2A)" "(ucast c = (0x36 :: u64)) = (c = 0x36)"
    "(ucast c = (0x3A :: u64)) = (c = 0x3A)" "(ucast c = (0xBA :: u64)) = (c = 0xBA)"
    "(ucast c = (0x1D :: u64)) = (c = 0x1D)" "(ucast c = (0xAA :: u64)) = (c = 0xAA)"
    "(ucast c = (0xB6 :: u64)) = (c = 0xB6)" "(ucast c < (0x58 :: u64)) = (c < 0x58)"
    by (simp_all add: word_unat_eq_iff word_less_nat_alt)
  show ?thesis
    by (auto simp: handle_scan_code_def eq small_code)
qed

lemma tracks_step:
  fixes c :: u8
  assumes "tracks cs k"
  shows "tracks (cs @ [c]) (handle_scan_code (ucast c) k)"
  using assms by (auto simp: tracks_def handle_code history_snoc modifier_def key_after_def)

lemma handler_simps:
  "kb_apic (handle_scan_code x k) = kb_apic k \<or>
   (\<exists>f. kb_apic (handle_scan_code x k) = do_io (print_call ''%c'' 0xffff f) (kb_apic k))"
  by (auto simp: handle_scan_code_def key_pressed_def kb_io_def Let_def)

lemma handler_answers:
  "ap_answer (kb_apic (keyboard_interrupt_handler k)) = ap_answer (kb_apic k)"
  "ap_asked (kb_apic (keyboard_interrupt_handler k)) = Suc (ap_asked (kb_apic k))"
proof -
  obtain b a where b: "on_io (in_b PS2_DATA_PORT) (kb_apic k) = (b, a)" by (metis surj_pair)
  then have a: "ap_answer a = ap_answer (kb_apic k)" "ap_asked a = Suc (ap_asked (kb_apic k))"
    by (auto simp: on_io_def Let_def split_beta)
  show "ap_answer (kb_apic (keyboard_interrupt_handler k)) = ap_answer (kb_apic k)"
    "ap_asked (kb_apic (keyboard_interrupt_handler k)) = Suc (ap_asked (kb_apic k))"
    using handler_simps[of "ucast b" "k\<lparr>kb_apic := a\<rparr>"] a
    by (auto simp: keyboard_interrupt_handler_def b Let_def send_eoi_def)
qed

lemma handle_all_answers:
  "ap_answer (kb_apic (handle_all n k)) = ap_answer (kb_apic k)"
  "ap_asked (kb_apic (handle_all n k)) = ap_asked (kb_apic k) + n"
  by (induction n) (simp_all add: handler_answers)

lemma tracks_apic [simp]: "tracks cs (k\<lparr>kb_apic := a\<rparr>) = tracks cs k"
  by (simp add: tracks_def)

section \<open>The line editor as a function of the keys\<close>

definition printable :: "u8 \<Rightarrow> bool" where
  "printable c \<longleftrightarrow> 32 \<le> sint c \<and> sint c \<le> 126"

text \<open>\<open>edit cap s cs\<close>: the line when it is complete, from the text \<open>s\<close> so far and the keys polled next;
  \<open>None\<close> while it is not.\<close>

fun edit :: "nat \<Rightarrow> u8 list \<Rightarrow> u8 list \<Rightarrow> u8 list option" where
  "edit cap s [] = (if length s < cap then None else Some s)"
| "edit cap s (c # cs) =
     (if \<not> length s < cap \<or> c = 10 \<or> c = 13 then Some s
      else if c = 8 \<or> c = 127 then edit cap (butlast s) cs
      else if printable c then edit cap (s @ [c]) cs
      else edit cap s cs)"

text \<open>The buffer holds the text so far.\<close>

definition holds :: "memory \<Rightarrow> u64 \<Rightarrow> u8 list \<Rightarrow> bool" where
  "holds m a s \<longleftrightarrow> (\<forall>j<length s. m (a + of_nat j) = s ! j) \<and> 0 \<notin> set s"

lemma holds_butlast: "holds m a s \<Longrightarrow> holds m a (butlast s)"
  by (auto simp: holds_def nth_butlast dest: in_set_butlastD)

lemma holds_snoc:
  assumes "holds m a s" and "printable c" and "length s < 2 ^ 64"
  shows "holds (m(a + of_nat (length s) := c)) a (s @ [c])"
proof -
  have "c \<noteq> 0" using assms(2) by (auto simp: printable_def)
  moreover have "(of_nat j :: u64) \<noteq> of_nat (length s)" if "j < length s" for j
    using that assms(3) by (metis less_trans nat_neq_iff unat_of_nat_less)
  ultimately show ?thesis using assms(1) by (auto simp: holds_def nth_append less_Suc_eq)
qed

lemma readline_loop_edit:
  fixes sz buffer :: u64
  defines "cap \<equiv> unat (sz - 1)"
  assumes "edit cap s (map keys [n..<n + k]) = Some t" and "holds m buffer s" and "length s \<le> cap"
  shows "\<exists>m' w'. readline_loop keys buffer sz n (of_nat (length s)) (m, w) = Some (of_nat (length t), m', w') \<and>
    holds m' buffer t \<and> length t \<le> cap \<and> (\<forall>x. cap \<le> unat (x - buffer) \<longrightarrow> m' x = m x)"
  using assms(2-)
proof (induction k arbitrary: n s m w)
  case 0
  then have "\<not> length s < cap" "t = s" by (auto split: if_splits)
  moreover have "unat (of_nat (length s) :: u64) = length s"
    using 0(3) unat64_less[of "sz - 1"] by (intro unat_of_nat_less) (simp add: cap_def)
  ultimately show ?case using 0 by (subst readline_loop.simps) (auto simp: word_less_nat_alt simp flip: cap_def)
next
  case (Suc k)
  have len: "unat (of_nat (length s) :: u64) = length s"
    using Suc.prems(3) unat64_less[of "sz - 1"] by (intro unat_of_nat_less) (simp add: cap_def)
  have lt: "((of_nat (length s) :: u64) < sz - 1) = (length s < cap)"
    by (simp add: word_less_nat_alt len flip: cap_def)
  have upt: "map keys [n..<n + Suc k] = keys n # map keys [Suc n..<Suc n + k]" by (simp add: upt_conv_Cons del: upt_Suc)
  note unroll = readline_loop.simps[of keys buffer sz n "of_nat (length s)" "(m, w)"]
  consider "\<not> length s < cap \<or> keys n = 10 \<or> keys n = 13"
    | "length s < cap" "keys n = 8 \<or> keys n = 127"
    | "length s < cap" "printable (keys n)" "keys n \<notin> {10, 13, 8, 127}"
    | "length s < cap" "\<not> printable (keys n)" "keys n \<notin> {10, 13, 8, 127}" by auto
  then show ?case
  proof cases
    case 1
    then show ?thesis using Suc.prems lt unfolding unroll upt by auto
  next
    case 2
    have "keys n \<noteq> 10" "keys n \<noteq> 13" using 2(2) by auto
    then have ed: "edit cap (butlast s) (map keys [Suc n..<Suc n + k]) = Some t" using Suc.prems(1) 2 unfolding upt by simp
    have pos: "(0 < (of_nat (length s) :: u64)) = (s \<noteq> [])" using len by (simp add: word_less_nat_alt)
    have dec: "(of_nat (length s) - 1 :: u64) = of_nat (length (butlast s))" if "s \<noteq> []" using that by (cases s) simp_all
    show ?thesis
    proof (cases "s = []")
      case True
      then show ?thesis
        using Suc.IH[of s "Suc n" m w] Suc.prems ed 2 lt \<open>keys n \<noteq> 10\<close> \<open>keys n \<noteq> 13\<close> unfolding unroll by auto
    next
      case False
      then show ?thesis
        using Suc.IH[OF ed holds_butlast[OF Suc.prems(2)], of "echo (CHR 0x08) (echo (CHR '' '') (echo (CHR 0x08) w))"]
          Suc.prems(3) 2 lt pos dec \<open>keys n \<noteq> 10\<close> \<open>keys n \<noteq> 13\<close> unfolding unroll by (auto simp: Let_def)
    qed
  next
    case 3
    have ed: "edit cap (s @ [keys n]) (map keys [Suc n..<Suc n + k]) = Some t" using Suc.prems(1) 3 unfolding upt by simp
    let ?m = "m(buffer + of_nat (length s) := keys n)"
    have "length s < 2 ^ 64" using 3(1) unat64_less[of "sz - 1"] by (simp add: cap_def)
    note h = holds_snoc[OF Suc.prems(2) 3(2) this]
    have eq: "of_nat (length (s @ [keys n])) = (of_nat (length s) + 1 :: u64)" by (simp add: add.commute)
    have "length (s @ [keys n]) \<le> cap" using 3(1) by simp
    from Suc.IH[OF ed h this, of "echo (char_of (unat (keys n))) w", unfolded eq]
    obtain m' w' where run: "readline_loop keys buffer sz (Suc n) (of_nat (length s) + 1) (?m, echo (char_of (unat (keys n))) w) =
        Some (of_nat (length t), m', w')" and res: "holds m' buffer t" "length t \<le> cap"
        "\<And>x. cap \<le> unat (x - buffer) \<Longrightarrow> m' x = ?m x" by blast
    have "m' x = m x" if "cap \<le> unat (x - buffer)" for x using res(3)[OF that] that 3(1) len by auto
    then show ?thesis using run res(1,2) 3 lt unfolding unroll by (auto simp: Let_def printable_def)
  next
    case 4
    then have "edit cap s (map keys [Suc n..<Suc n + k]) = Some t" using Suc.prems(1) unfolding upt by simp
    from Suc.IH[OF this Suc.prems(2,3), of w] show ?thesis
      using 4 lt unfolding unroll by (auto simp: Let_def printable_def)
  qed
qed

section \<open>Properties\<close>

text \<open>C22: The keyboard follows the history of scan codes. After any number of interrupts from the start
  the shift flag tells whether the last shift code was a press, caps lock whether its key was pressed
  an odd number of times, and control whether it was pressed at all (no code releases it); the last
  key is the translation of the last other press under the flags of that moment.\<close>

theorem keyboard_history:
  "tracks (scan_codes (keyboard_bss a) n) (handle_all n (keyboard_bss a))"
proof (induction n)
  case 0
  then show ?case
    by (simp add: tracks_def scan_codes_def keyboard_bss_def shift_held_def caps_on_def ctrl_pressed_def)
next
  case (Suc n)
  let ?k = "handle_all n (keyboard_bss a)"
  let ?c = "ucast (ap_answer a (ap_asked a + n)) :: u8"
  have codes: "scan_codes (keyboard_bss a) (Suc n) = scan_codes (keyboard_bss a) n @ [?c]"
    by (simp add: scan_codes_def keyboard_bss_def)
  obtain a' where on: "on_io (in_b PS2_DATA_PORT) (kb_apic ?k) = (?c, a')"
    using handle_all_answers[of n "keyboard_bss a"]
    by (simp add: on_io_def Let_def split_beta keyboard_bss_def)
  have "tracks (scan_codes (keyboard_bss a) n @ [?c]) (handle_scan_code (ucast ?c) (?k\<lparr>kb_apic := a'\<rparr>))"
    by (rule tracks_step) (simp add: Suc)
  then show ?case by (simp add: codes keyboard_interrupt_handler_def on Let_def)
qed

text \<open>C23: Reading a line. As soon as the keys polled so far complete a line (a newline, or the buffer's
  size less one is reached), \<open>kernel_readline\<close> returns: the buffer holds the edited text, printable keys
  appended and backspaces taken off, with its terminator within the size, and no byte behind the
  buffer has changed.\<close>

theorem readline_edits:
  assumes "edit (unat (sz - 1)) [] (map keys [0..<k]) = Some t" and "sz \<noteq> 0" and "unat sz < 2 ^ 63"
  shows "\<exists>m' w'. kernel_readline keys buffer sz (m, w) = Some (m', w') \<and> cstring m' buffer t \<and>
    length t < unat sz \<and> (\<forall>x. unat sz \<le> unat (x - buffer) \<longrightarrow> m' x = m x)"
proof -
  let ?cap = "unat (sz - 1)"
  have cap: "?cap = unat sz - 1" "0 < unat sz" using assms(2) by (simp_all add: unat_minus_one unat_gt_0)
  have "edit ?cap [] (map keys [0..<0 + k]) = Some t" "holds m buffer []" using assms(1) by (simp_all add: holds_def)
  from readline_loop_edit[OF this, where w = w] obtain m' w' where
    run: "readline_loop keys buffer sz 0 0 (m, w) = Some (of_nat (length t), m', w')"
    and h: "holds m' buffer t" "length t \<le> ?cap" "\<And>x. ?cap \<le> unat (x - buffer) \<Longrightarrow> m' x = m x" by auto
  have off: "unat (of_nat j :: u64) = j" if "j \<le> length t" for j
    using that h(2) cap unat64_less[of sz] by (intro unat_of_nat_less) simp
  have ne: "(of_nat j :: u64) \<noteq> of_nat (length t)" if "j < length t" for j
    using that off[of j] off[of "length t"] by (metis less_imp_le nat_neq_iff order_refl)
  let ?m = "m'(buffer + of_nat (length t) := 0)"
  have "cstring ?m buffer t" using h(1,2) ne cap assms(3) by (auto simp: cstring_def holds_def)
  moreover have "?m x = m x" if "unat sz \<le> unat (x - buffer)" for x
    using that h(2) h(3)[of x] cap off[of "length t"] by auto
  moreover have "length t < unat sz" using h(2) cap by linarith
  ultimately show ?thesis using run by (auto simp: kernel_readline_def)
qed

text \<open>The keys \<^verbatim>\<open>a\<close>, \<^verbatim>\<open>b\<close>, backspace, \<^verbatim>\<open>c\<close> and return.\<close>

theorem readline_edits_witness:
  "\<exists>m' w'. kernel_readline (\<lambda>n. [97, 98, 8, 99, 10] ! n) 0x1000 16 (\<lambda>_. 0, \<lparr>answer = (\<lambda>_. 0), asked = 0, trace = []\<rparr>) =
     Some (m', w') \<and> cstring m' 0x1000 [97, 99]"
proof -
  have "edit (unat (16 - 1 :: u64)) [] (map (\<lambda>n. [97, 98, 8, 99, 10] ! n) [0..<5]) = Some [97, 99]"
    by (simp add: upt_rec printable_def)
  from readline_edits[OF this, of "0x1000" "\<lambda>_. 0" "\<lparr>answer = (\<lambda>_. 0), asked = 0, trace = []\<rparr>"]
  show ?thesis by auto
qed

end
