(* ===== verification/Gui.thy ===== *)
theory Gui
  imports Display Apic Libc_String
begin

text \<open>
  The windows: \<^verbatim>\<open>gui/gui.c\<close>. A window is a record at the address \<open>allocate_memory\<close> returned for it; the
  array \<open>windows\<close> with its counter is the list of these addresses, the last one on top. \<^verbatim>\<open>int\<close> fields
  are 32-bit words, compared as signed or unsigned numbers as the code's types make them. The
  properties: the mouse never moves a window off the screen, and at most one window is dragged.
  \<open>init_gui\<close>, which also drives the mouse, is in the theory Mouse.
\<close>

section \<open>State\<close>

record window_widget =
  win_x :: u32
  win_y :: u32
  win_width :: u32
  win_height :: u32
  background_color :: u32
  title :: string
  is_dragging :: bool
  drag_offset_x :: u32
  drag_offset_y :: u32
  close_button :: button
  is_closed :: bool

record gui =
  gui_apic :: apic
  gui_disp :: display
  win_heap :: "u64 \<Rightarrow> window_widget"
  windows :: "u64 list"
  front_buffer :: u64
  back_buffer :: u64
  old_x :: u32
  old_y :: u32
  old_buttons :: u8

definition MAX_WINDOWS :: nat where "MAX_WINDOWS = 10"
definition FB_ADDR :: u64 where "FB_ADDR = 0xFFFFFFFFFC000000"
definition sizeof_window_widget :: u64 where "sizeof_window_widget = 200"

definition window_count :: "gui \<Rightarrow> u32" where
  "window_count g = of_nat (length (windows g))"

definition on_disp :: "(display \<Rightarrow> display) \<Rightarrow> gui \<Rightarrow> gui" where
  "on_disp f g = g\<lparr>gui_disp := f (gui_disp g)\<rparr>"

definition set_window :: "u64 \<Rightarrow> (window_widget \<Rightarrow> window_widget) \<Rightarrow> gui \<Rightarrow> gui" where
  "set_window a f g = g\<lparr>win_heap := (win_heap g)(a := f (win_heap g a))\<rparr>"

section \<open>Buffers\<close>

text \<open>No caller is left for these two; the product of the screen's sizes is a 32-bit number.\<close>

definition update_screen :: "u64 \<Rightarrow> gui \<Rightarrow> gui" where
  "update_screen buffer g =
     (let n = ucast (get_screen_width (gui_disp g) * get_screen_height (gui_disp g)) * 4
      in on_disp (\<lambda>d. d\<lparr>d_mem := memcpy FB_ADDR buffer n (d_mem d)\<rparr>) g)"

definition swap_buffers :: "gui \<Rightarrow> gui" where
  "swap_buffers g =
     (let n = ucast (get_screen_width (gui_disp g) * get_screen_height (gui_disp g)) * 4;
          g = on_disp (\<lambda>d. d\<lparr>d_mem := memcpy (front_buffer g) (back_buffer g) n (d_mem d)\<rparr>) g
      in update_screen (front_buffer g) g)"

section \<open>Drawing\<close>

definition draw_cursor :: "screen \<Rightarrow> u32 \<Rightarrow> u32 \<Rightarrow> gui \<Rightarrow> gui" where
  "draw_cursor sc x y g =
     (let g = on_disp (draw_rect sc x y 8 8 0xFFFFFF) g
      in on_disp (draw_rect sc x y 7 7 0x000000) g)"

definition new_close_button :: "window_widget \<Rightarrow> button" where
  "new_close_button win =
     \<lparr>btn_x = win_x win + win_width win - 25, btn_y = win_y win + 5, btn_width = 20, btn_height = 20,
      btn_text = ''X'', btn_color = 0xFF0000, btn_text_color = 0xFFFFFF\<rparr>"

definition draw_borders :: "screen \<Rightarrow> window_widget \<Rightarrow> display \<Rightarrow> display" where
  "draw_borders sc win d =
     (let d = fold (\<lambda>i d.
            let d = put_pixel sc (win_x win) (win_y win + of_nat i) 0xFFFFFF d
            in put_pixel sc (win_x win + win_width win - 1) (win_y win + of_nat i) 0xFFFFFF d)
          [0..<unat (win_height win)] d
      in fold (\<lambda>i d.
            let d = put_pixel sc (win_x win + of_nat i) (win_y win) 0xFFFFFF d
            in put_pixel sc (win_x win + of_nat i) (win_y win + win_height win - 1) 0xFFFFFF d)
          [0..<unat (win_width win)] d)"

definition draw_window :: "screen \<Rightarrow> u64 \<Rightarrow> gui \<Rightarrow> gui" where
  "draw_window sc a g =
     (let win = win_heap g a
      in if is_closed win = False then
           let title_bar_height = 20;
               g = on_disp (draw_rect sc (win_x win) (win_y win) (win_width win) title_bar_height 0x0000FF) g;
               g = on_disp (draw_string sc (win_x win + 10) (win_y win + 5) (title win) 0xFFFFFF) g;
               g = set_window a (\<lambda>w. w\<lparr>close_button := new_close_button win\<rparr>) g;
               g = on_disp (draw_button sc (close_button (win_heap g a))) g;
               g = on_disp (draw_win_rect sc (win_x win) (win_y win) (win_width win) (win_height win)
                     (background_color win) title_bar_height) g
           in on_disp (draw_borders sc win) g
         else g)"

definition draw_desktop :: "screen \<Rightarrow> gui \<Rightarrow> gui" where
  "draw_desktop sc = on_disp (clear_fb sc)"

definition draw_all_windows :: "screen \<Rightarrow> gui \<Rightarrow> gui" where
  "draw_all_windows sc g = fold (draw_window sc) (windows g) g"

section \<open>Windows\<close>

text \<open>\<open>strncpy(new->title, window_title, 126)\<close> and a zero in the last byte, as text: a title of 126 or
  more characters keeps 127 of them (lemma \<open>copied_title_strncpy\<close>).\<close>

definition copied_title :: "string \<Rightarrow> string" where
  "copied_title s = (if length s < 126 then s else take 127 s)"

definition gui_allocate :: "u64 \<Rightarrow> gui \<Rightarrow> u64 \<times> gui" where
  "gui_allocate n g =
     (let v = ap_vm (gui_apic g); (a, p) = allocate_memory n (vm_pmm v)
      in (a, g\<lparr>gui_apic := (gui_apic g)\<lparr>ap_vm := v\<lparr>vm_pmm := p\<rparr>\<rparr>\<rparr>))"

definition create_window :: "screen \<Rightarrow> string \<Rightarrow> u32 \<Rightarrow> u32 \<Rightarrow> gui \<Rightarrow> gui" where
  "create_window sc window_title width height g =
     (if MAX_WINDOWS \<le> length (windows g) then g
      else
        let (a, g) = gui_allocate sizeof_window_widget g;
            g = set_window a (\<lambda>w. w\<lparr>background_color := 0x00000f, win_height := height, win_width := width,
                  title := copied_title window_title, win_x := 10 + window_count g * 20,
                  win_y := 10 + window_count g * 20, is_dragging := False\<rparr>) g;
            g = set_window a (\<lambda>w. w\<lparr>close_button := new_close_button w, is_closed := False\<rparr>) g;
            g = g\<lparr>windows := windows g @ [a]\<rparr>
        in draw_window sc a g)"

section \<open>The mouse\<close>

text \<open>The pointer's coordinates are signed; against a window's they are compared as unsigned numbers.
  The branch of the close button has no effect in the source.\<close>

definition clamp_drag :: "u32 \<Rightarrow> u32 \<Rightarrow> u32 \<Rightarrow> u32" where
  "clamp_drag new sz screen_size =
     (if sint new < 0 then 0 else if screen_size < new + sz then screen_size - sz else new)"

definition drag_window :: "screen \<Rightarrow> u32 \<Rightarrow> u32 \<Rightarrow> u64 \<Rightarrow> gui \<Rightarrow> gui" where
  "drag_window sc x y a g =
     (let win = win_heap g a;
          new_x = x - drag_offset_x win;
          new_y = y - drag_offset_y win;
          new_x = clamp_drag new_x (win_width win) (get_screen_width (gui_disp g));
          new_y = clamp_drag new_y (win_height win) (get_screen_height (gui_disp g));
          g = set_window a (\<lambda>w. w\<lparr>win_x := new_x, win_y := new_y\<rparr>) g
      in draw_window sc a g)"

definition inside :: "u32 \<Rightarrow> u32 \<Rightarrow> window_widget \<Rightarrow> bool" where
  "inside x y win \<longleftrightarrow> win_x win \<le> x \<and> x < win_x win + win_width win \<and>
     win_y win \<le> y \<and> y < win_y win + win_height win"

definition press_window :: "u32 \<Rightarrow> u32 \<Rightarrow> u64 \<Rightarrow> gui \<Rightarrow> gui" where
  "press_window x y a g =
     (let win = win_heap g a
      in if y < win_y win + 20
         then set_window a (\<lambda>w. w\<lparr>is_dragging := True, drag_offset_x := x - win_x win,
                drag_offset_y := y - win_y win\<rparr>) g
         else g)"

fun scan_windows :: "screen \<Rightarrow> u32 \<Rightarrow> u32 \<Rightarrow> u8 \<Rightarrow> u64 list \<Rightarrow> gui \<Rightarrow> gui" where
  "scan_windows sc x y buttons [] g = g"
| "scan_windows sc x y buttons (a # as) g =
     (if is_dragging (win_heap g a) then drag_window sc x y a g
      else if inside x y (win_heap g a) then
        (if buttons AND 1 \<noteq> 0 \<and> old_buttons g AND 1 = 0 then press_window x y a g else g)
      else scan_windows sc x y buttons as g)"

definition release_windows :: "gui \<Rightarrow> gui" where
  "release_windows g = fold (\<lambda>a. set_window a (\<lambda>w. w\<lparr>is_dragging := False\<rparr>)) (windows g) g"

definition gui_update_mouse :: "screen \<Rightarrow> u32 \<Rightarrow> u32 \<Rightarrow> u8 \<Rightarrow> gui \<Rightarrow> gui" where
  "gui_update_mouse sc x y buttons g =
     (let g = on_disp (draw_rect sc (old_x g) (old_y g) 8 8 0x000000) g;
          g = scan_windows sc x y buttons (rev (windows g)) g;
          g = (if buttons AND 1 = 0 \<and> old_buttons g AND 1 \<noteq> 0 then release_windows g else g);
          g = draw_cursor sc x y g
      in g\<lparr>old_x := x, old_y := y, old_buttons := buttons\<rparr>)"

section \<open>What drawing leaves alone\<close>

lemma details_put_pixel [simp]: "framebuffer_details (put_pixel sc x y c d) = framebuffer_details d"
  by (simp add: put_pixel_def Let_def)

text \<open>A fold of steps that keep an observation keeps it.\<close>

lemma fold_keeps:
  assumes "\<And>x s. f (g x s) = f s"
  shows "f (fold g xs s) = f s"
  by (rule fold_invariant[where P = "\<lambda>s'. f s' = f s" and Q = "\<lambda>_. True"]) (simp_all add: assms)

lemma details_draw_row [simp]: "framebuffer_details (draw_row sc x y r i c d) = framebuffer_details d"
  unfolding draw_row_def by (rule fold_keeps) simp

lemma details_draw_char [simp]: "framebuffer_details (draw_char sc x y ch c d) = framebuffer_details d"
  unfolding draw_char_def by (rule fold_keeps) simp

lemma details_draw_string [simp]: "framebuffer_details (draw_string sc x y s c d) = framebuffer_details d"
  by (induction sc x y s c d rule: draw_string.induct) auto

lemma details_draw_rect [simp]: "framebuffer_details (draw_rect sc x y w h c d) = framebuffer_details d"
  unfolding draw_rect_def by (rule fold_keeps, rule fold_keeps) simp

lemma details_draw_win_rect [simp]:
  "framebuffer_details (draw_win_rect sc x y w h c t d) = framebuffer_details d"
  unfolding draw_win_rect_def by (rule fold_keeps) (auto intro: fold_keeps)

lemma details_draw_button [simp]: "framebuffer_details (draw_button sc b d) = framebuffer_details d"
  by (simp add: draw_button_def Let_def)

lemma details_draw_borders [simp]: "framebuffer_details (draw_borders sc w d) = framebuffer_details d"
proof -
  have "framebuffer_details (fold (\<lambda>i d. put_pixel sc (f1 i) (f2 i) c (put_pixel sc (f3 i) (f4 i) c d)) xs d) =
      framebuffer_details d" for f1 f2 f3 f4 c d and xs :: "nat list"
    by (rule fold_keeps) simp
  then show ?thesis by (simp add: draw_borders_def Let_def)
qed

abbreviation gui_details :: "gui \<Rightarrow> framebuffer_details" where
  "gui_details g \<equiv> framebuffer_details (gui_disp g)"

lemma on_disp_simps [simp]:
  "gui_apic (on_disp f g) = gui_apic g" "win_heap (on_disp f g) = win_heap g" "windows (on_disp f g) = windows g"
  "old_x (on_disp f g) = old_x g" "old_y (on_disp f g) = old_y g" "old_buttons (on_disp f g) = old_buttons g"
  "gui_disp (on_disp f g) = f (gui_disp g)"
  by (simp_all add: on_disp_def)

lemma set_window_simps [simp]:
  "gui_apic (set_window a f g) = gui_apic g" "gui_disp (set_window a f g) = gui_disp g"
  "windows (set_window a f g) = windows g" "old_buttons (set_window a f g) = old_buttons g"
  "win_heap (set_window a f g) = (win_heap g)(a := f (win_heap g a))"
  by (simp_all add: set_window_def)

text \<open>Drawing a window changes at most its close button.\<close>

lemma draw_window_simps [simp]:
  "gui_apic (draw_window sc a g) = gui_apic g" "windows (draw_window sc a g) = windows g"
  "old_buttons (draw_window sc a g) = old_buttons g" "gui_details (draw_window sc a g) = gui_details g"
  by (simp_all add: draw_window_def Let_def)

lemma draw_window_heap:
  "win_heap (draw_window sc a g) b =
     (if b = a \<and> \<not> is_closed (win_heap g a)
      then (win_heap g a)\<lparr>close_button := new_close_button (win_heap g a)\<rparr> else win_heap g b)"
  by (simp add: draw_window_def Let_def)

section \<open>The title\<close>

text \<open>The bytes \<open>strncpy\<close> and the final zero leave in the title's 128 bytes hold the copied title.\<close>

lemma copied_title_strncpy:
  assumes "cstring m s2 t" and "length t < 2 ^ 31" and "apart s1 128 s2 (length t + 1)"
    and "strncpy s1 s2 126 m = Some m'"
  shows "cstring (m'(s1 + 127 := 0)) s1 (if length t < 126 then t else take 127 t)"
proof -
  have ap: "apart s1 (unat (126 :: u64) + 1) s2 (length t + 1)" using assms(3) by (auto simp: apart_def)
  obtain m2 where m2: "strncpy s1 s2 126 m = Some m2"
    "m2 x = (if length t < 126 then if unat (x - s1) < length t then t ! unat (x - s1) else if unat (x - s1) < 126 then 0 else m x
      else if unat (x - s1) \<le> 126 then (t @ [0]) ! unat (x - s1) else m x)" for x
    using strncpy_facts[OF assms(1,2) _ ap] by auto
  have small: "unat (of_nat i :: u64) = i" if "i \<le> 127" for i
    using that by (intro unat_of_nat_less) simp
  define u where "u = (if length t < 126 then t else take 127 t)"
  define mm where "mm = m'(s1 + 127 := 0)"
  have u: "length u \<le> 127" "length u \<le> length t" by (auto simp: u_def)
  have byte: "mm (s1 + of_nat i) = (u @ [0]) ! i" if "i \<le> length u" for i
  proof -
    have i: "i \<le> 127" using that u by simp
    have "(of_nat i = (127 :: u64)) = (i = 127)" using small[OF i] by (auto simp: word_unat_eq_iff)
    moreover note m2(2)[of "s1 + of_nat i"] small[OF i] m2(1) assms(4)
    moreover have "i = length t \<or> i < length t" using that u by linarith
    ultimately show ?thesis
      using that by (elim disjE) (auto simp: mm_def u_def nth_append min_def split: if_splits)
  qed
  have "length u < 2 ^ 63" "0 \<notin> set u"
    using u assms(1) by (auto simp: cstring_def u_def dest: in_set_takeD)
  then show ?thesis
    unfolding u_def[symmetric] mm_def[symmetric] cstring_def using byte
    by (auto simp: nth_append)
qed

section \<open>Windows stay on the screen\<close>

definition fits :: "framebuffer_details \<Rightarrow> window_widget \<Rightarrow> bool" where
  "fits f w \<longleftrightarrow> unat (win_x w) + unat (win_width w) \<le> unat (fbd_width f) \<and>
     unat (win_y w) + unat (win_height w) \<le> unat (fbd_height f)"

definition all_fit :: "gui \<Rightarrow> bool" where
  "all_fit g \<longleftrightarrow> unat (fbd_width (gui_details g)) < 2 ^ 31 \<and> unat (fbd_height (gui_details g)) < 2 ^ 31 \<and>
     (\<forall>a\<in>set (windows g). fits (gui_details g) (win_heap g a))"

definition dragged :: "gui \<Rightarrow> u64 set" where
  "dragged g = {a \<in> set (windows g). is_dragging (win_heap g a)}"

definition one_dragged :: "gui \<Rightarrow> bool" where
  "one_dragged g \<longleftrightarrow> (\<forall>a\<in>dragged g. \<forall>b\<in>dragged g. a = b) \<and> (old_buttons g AND 1 = 0 \<longrightarrow> dragged g = {})"

lemma clamp_drag_fits:
  assumes "unat sz \<le> unat scr" and "unat scr < 2 ^ 31"
  shows "unat (clamp_drag new sz scr) + unat sz \<le> unat scr"
proof (cases "sint new < 0")
  case False
  then have "unat new < 2 ^ 31"
    using unsigned_less[of new, where 'a = int] by (simp add: sint_u32 split: if_splits)
  then have sum: "unat (new + sz) = unat new + unat sz" using assms by (simp add: unat_word_ariths)
  show ?thesis
    using assms False sum by (simp add: clamp_drag_def word_less_nat_alt unat_sub word_le_nat_alt)
qed (use assms in \<open>simp add: clamp_drag_def\<close>)

lemma drag_window_simps [simp]:
  "windows (drag_window sc x y a g) = windows g" "gui_details (drag_window sc x y a g) = gui_details g"
  "old_buttons (drag_window sc x y a g) = old_buttons g" "gui_apic (drag_window sc x y a g) = gui_apic g"
  by (simp_all add: drag_window_def Let_def)

lemma all_fit_drag:
  assumes "all_fit g" and "a \<in> set (windows g)"
  shows "all_fit (drag_window sc x y a g)"
  using assms
  by (auto simp: all_fit_def fits_def drag_window_def Let_def draw_window_heap get_screen_width_def
      get_screen_height_def intro!: clamp_drag_fits)

lemma dragged_drag: "dragged (drag_window sc x y a g) = dragged g"
  by (auto simp: dragged_def drag_window_def Let_def draw_window_heap split: if_splits)

lemma press_window_simps [simp]:
  "windows (press_window x y a g) = windows g" "gui_details (press_window x y a g) = gui_details g"
  "old_buttons (press_window x y a g) = old_buttons g" "gui_apic (press_window x y a g) = gui_apic g"
  by (simp_all add: press_window_def Let_def)

lemma all_fit_press: "all_fit g \<Longrightarrow> all_fit (press_window x y a g)"
  by (auto simp: all_fit_def fits_def press_window_def Let_def)

lemma dragged_press: "dragged (press_window x y a g) \<subseteq> insert a (dragged g)"
  by (auto simp: dragged_def press_window_def Let_def split: if_splits)

lemma scan_windows_simps [simp]:
  "windows (scan_windows sc x y b as g) = windows g" "gui_details (scan_windows sc x y b as g) = gui_details g"
  "old_buttons (scan_windows sc x y b as g) = old_buttons g" "gui_apic (scan_windows sc x y b as g) = gui_apic g"
  by (induction sc x y b as g rule: scan_windows.induct) auto

lemma all_fit_scan:
  "all_fit g \<Longrightarrow> set as \<subseteq> set (windows g) \<Longrightarrow> all_fit (scan_windows sc x y b as g)"
  by (induction sc x y b as g rule: scan_windows.induct) (auto simp: all_fit_drag all_fit_press)

text \<open>A press starts a drag only when nothing was dragged before.\<close>

lemma dragged_scan:
  assumes "one_dragged g"
  shows "dragged (scan_windows sc x y b as g) = dragged g \<or>
    (b AND 1 \<noteq> 0 \<and> (\<exists>a. dragged (scan_windows sc x y b as g) \<subseteq> {a}))"
  using assms
proof (induction sc x y b as g rule: scan_windows.induct)
  case (2 sc x y buttons a as g)
  show ?case
  proof (cases "is_dragging (win_heap g a) \<or> \<not> inside x y (win_heap g a)")
    case False
    then show ?thesis using dragged_press[of x y a g] 2 by (auto simp: one_dragged_def)
  qed (use 2 in \<open>auto simp: dragged_drag\<close>)
qed simp

lemma release_windows_fold:
  "windows (fold (\<lambda>a. set_window a (\<lambda>w. w\<lparr>is_dragging := False\<rparr>)) as g) = windows g"
  "gui_disp (fold (\<lambda>a. set_window a (\<lambda>w. w\<lparr>is_dragging := False\<rparr>)) as g) = gui_disp g"
  "gui_apic (fold (\<lambda>a. set_window a (\<lambda>w. w\<lparr>is_dragging := False\<rparr>)) as g) = gui_apic g"
  "win_heap (fold (\<lambda>a. set_window a (\<lambda>w. w\<lparr>is_dragging := False\<rparr>)) as g) b =
     (if b \<in> set as then (win_heap g b)\<lparr>is_dragging := False\<rparr> else win_heap g b)"
  by (induction as arbitrary: g) auto

lemma release_windows_simps [simp]:
  "windows (release_windows g) = windows g" "gui_disp (release_windows g) = gui_disp g"
  "gui_apic (release_windows g) = gui_apic g"
  "win_heap (release_windows g) b =
     (if b \<in> set (windows g) then (win_heap g b)\<lparr>is_dragging := False\<rparr> else win_heap g b)"
  by (simp_all add: release_windows_def release_windows_fold)

lemma dragged_release [simp]: "dragged (release_windows g) = {}"
  by (auto simp: dragged_def)

lemma all_fit_release: "all_fit g \<Longrightarrow> all_fit (release_windows g)"
  by (auto simp: all_fit_def fits_def)

text \<open>One report, without the drawing.\<close>

lemma gui_update_mouse_simps [simp]:
  "windows (gui_update_mouse sc x y b g) = windows g" "gui_details (gui_update_mouse sc x y b g) = gui_details g"
  "gui_apic (gui_update_mouse sc x y b g) = gui_apic g" "old_buttons (gui_update_mouse sc x y b g) = b"
  by (simp_all add: gui_update_mouse_def Let_def draw_cursor_def)

definition gui_ok :: "gui \<Rightarrow> bool" where
  "gui_ok g \<longleftrightarrow> all_fit g \<and> one_dragged g"

lemma gui_ok_update:
  assumes "gui_ok g"
  shows "gui_ok (gui_update_mouse sc x y b g)"
proof -
  let ?g0 = "on_disp (draw_rect sc (old_x g) (old_y g) 8 8 0x000000) g"
  let ?g1 = "scan_windows sc x y b (rev (windows ?g0)) ?g0"
  let ?g2 = "if b AND 1 = 0 \<and> old_buttons ?g1 AND 1 \<noteq> 0 then release_windows ?g1 else ?g1"
  have g0: "all_fit ?g0" "one_dragged ?g0" "dragged ?g0 = dragged g"
    using assms by (auto simp: gui_ok_def all_fit_def one_dragged_def dragged_def)
  have "all_fit ?g1" using g0(1) by (rule all_fit_scan) simp
  then have fit: "all_fit ?g2" by (simp add: all_fit_release)
  have "(b AND 1 = 0 \<longrightarrow> dragged ?g2 = {}) \<and> (\<forall>c\<in>dragged ?g2. \<forall>e\<in>dragged ?g2. c = e)"
    using dragged_scan[OF g0(2), of sc x y b "rev (windows ?g0)"] assms g0(3)
    unfolding gui_ok_def one_dragged_def by (auto dest: subset_singletonD)
  with fit show ?thesis
    by (simp add: gui_ok_def gui_update_mouse_def Let_def draw_cursor_def all_fit_def one_dragged_def dragged_def
        cong: if_cong)
qed

section \<open>Properties\<close>

text \<open>C20: Windows stay on the screen. On a screen below \<open>2 ^ 31\<close> pixels in each direction, whatever the
  mouse reports, every window that was inside the screen stays inside, at most one window is being
  dragged, and none is while the left button is up.\<close>

theorem windows_stay:
  assumes "gui_ok g"
  shows "gui_ok (fold (\<lambda>(x, y, b). gui_update_mouse sc x y b) reports g)"
  using assms by (induction reports arbitrary: g) (auto simp: gui_ok_update)

definition sample_window :: window_widget where
  "sample_window = \<lparr>win_x = 2, win_y = 3, win_width = 6, win_height = 5, background_color = 0, title = ''t'',
     is_dragging = False, drag_offset_x = 0, drag_offset_y = 0,
     close_button = \<lparr>btn_x = 0, btn_y = 0, btn_width = 0, btn_height = 0, btn_text = [], btn_color = 0, btn_text_color = 0\<rparr>,
     is_closed = False\<rparr>"

definition sample_gui :: gui where
  "sample_gui = \<lparr>gui_apic = sample_apic 0, gui_disp = sample_display, win_heap = (\<lambda>_. sample_window),
     windows = [0x9000], front_buffer = 0, back_buffer = 0, old_x = 0, old_y = 0, old_buttons = 0\<rparr>"

lemma sample_gui_ok: "gui_ok sample_gui"
  by (simp add: gui_ok_def all_fit_def one_dragged_def dragged_def fits_def sample_gui_def sample_window_def sample_display_def)

theorem windows_stay_witness:
  "gui_ok (fold (\<lambda>(x, y, b). gui_update_mouse sample_screen x y b) [(4, 4, 1), (15, 15, 1), (15, 15, 0)] sample_gui)"
  using windows_stay[OF sample_gui_ok] .

text \<open>Dragging. When the pointer is in the title bar of the topmost window and the left button goes
  down, the next report with the button held moves that window by as much as the pointer moved, cut
  off at the edges of the screen; all other windows stay where they were.\<close>

theorem drag_follows:
  assumes "windows g = ws @ [a]" and "a \<notin> set ws" and "dragged g = {}" and "old_buttons g AND 1 = 0" and "b AND 1 \<noteq> 0"
    and "inside x y (win_heap g a)" and "y < win_y (win_heap g a) + 20"
  shows "let g' = gui_update_mouse sc x' y' b (gui_update_mouse sc x y b g); w = win_heap g a
    in win_x (win_heap g' a) = clamp_drag (x' - (x - win_x w)) (win_width w) (fbd_width (gui_details g)) \<and>
       win_y (win_heap g' a) = clamp_drag (y' - (y - win_y w)) (win_height w) (fbd_height (gui_details g)) \<and>
       (\<forall>c. c \<noteq> a \<longrightarrow> win_heap g' c = win_heap g c)"
proof -
  let ?g1 = "gui_update_mouse sc x y b g"
  have "\<not> is_dragging (win_heap g a)" using assms(1,3) by (auto simp: dragged_def)
  then have g1: "win_heap ?g1 = (win_heap g)(a := (win_heap g a)\<lparr>is_dragging := True,
      drag_offset_x := x - win_x (win_heap g a), drag_offset_y := y - win_y (win_heap g a)\<rparr>)"
    using assms by (simp add: gui_update_mouse_def Let_def draw_cursor_def press_window_def)
  have w1: "windows ?g1 = ws @ [a]" "old_buttons ?g1 = b" using assms(1) by simp_all
  show ?thesis
    using assms(5) w1
    by (auto simp: gui_update_mouse_def[of sc x' y'] Let_def draw_cursor_def drag_window_def draw_window_heap g1
        get_screen_width_def get_screen_height_def)
qed

theorem drag_follows_witness:
  "let g' = gui_update_mouse sample_screen 4 9 1 (gui_update_mouse sample_screen 3 4 1 sample_gui)
   in win_x (win_heap g' 0x9000) = 3 \<and> win_y (win_heap g' 0x9000) = 8"
proof -
  have w: "windows sample_gui = [] @ [0x9000]" by (simp add: sample_gui_def)
  have "dragged sample_gui = {}" by (simp add: dragged_def sample_gui_def sample_window_def)
  from drag_follows[OF w _ this, of 1 3 4 sample_screen 4 9] show ?thesis
    by (simp add: sample_gui_def sample_window_def sample_display_def inside_def clamp_drag_def Let_def)
qed

end
