(* ===== verification/Mouse.thy ===== *)
theory Mouse
  imports Gui Keyboard
begin

text \<open>
  The mouse, \<^verbatim>\<open>devices/mouse.c\<close>, and the loop of \<open>init_gui\<close> that drives it. The handler collects
  three-byte packets from the controller as long as its status says that data is there; the property
  relates the pointer to the whole stream of bytes. Its loop is partial, the waits are bounded.
\<close>

section \<open>State\<close>

record mouse =
  ms_gui :: gui
  mouse_x :: u32
  mouse_y :: u32
  mouse_buttons :: u8
  mouse_cycle :: u8
  mouse_byte :: "u8 list"

definition mouse_bss :: "gui \<Rightarrow> mouse" where
  "mouse_bss g = \<lparr>ms_gui = g, mouse_x = 0, mouse_y = 0, mouse_buttons = 0, mouse_cycle = 0, mouse_byte = [0, 0, 0]\<rparr>"

definition ms_inb :: "u16 \<Rightarrow> mouse \<Rightarrow> u8 \<times> mouse" where
  "ms_inb port s =
     (let (v, a) = on_io (in_b port) (gui_apic (ms_gui s)) in (v, s\<lparr>ms_gui := (ms_gui s)\<lparr>gui_apic := a\<rparr>\<rparr>))"

section \<open>Commands\<close>

text \<open>\<open>while (time_out--)\<close>: at most so many reads of the status; the flag tells that one succeeded.\<close>

fun poll_status :: "(u8 \<Rightarrow> bool) \<Rightarrow> nat \<Rightarrow> apic \<Rightarrow> bool \<times> apic" where
  "poll_status ready 0 a = (False, a)"
| "poll_status ready (Suc n) a =
     (let (v, a) = on_io (in_b 0x64) a in if ready v then (True, a) else poll_status ready n a)"

definition mouse_wait :: "u8 \<Rightarrow> apic \<Rightarrow> apic" where
  "mouse_wait type a =
     (if type = 0 then snd (poll_status (\<lambda>v. v AND 1 = 1) 100000 a)
      else let (ok, a) = poll_status (\<lambda>v. v AND 2 = 0) 100000 a
           in if ok then a else ap_log LOG_LEVEL_DEBUG ''mouse timed out!\<newline>'' [] a)"

definition mouse_write :: "u8 \<Rightarrow> apic \<Rightarrow> apic" where
  "mouse_write v a =
     (let a = mouse_wait 1 a;
          a = do_io (out_b 0x64 0xD4) a;
          a = mouse_wait 1 a
      in do_io (out_b 0x60 v) a)"

definition mouse_read :: "apic \<Rightarrow> u8 \<times> apic" where
  "mouse_read a = on_io (in_b 0x60) (mouse_wait 0 a)"

definition enable_mouse :: "apic \<Rightarrow> apic" where
  "enable_mouse a =
     (let a = mouse_wait 1 a;
          a = do_io (out_b 0x64 0xA8) a;
          a = mouse_wait 1 a;
          a = do_io (out_b 0x64 0x20) a;
          a = mouse_wait 0 a;
          (v, a) = on_io (in_b 0x60) a;
          status = v OR 2;
          a = mouse_wait 1 a;
          a = do_io (out_b 0x64 0x60) a;
          a = mouse_wait 1 a;
          a = do_io (out_b 0x60 status) a;
          a = mouse_write 0xF6 a;
          (_, a) = mouse_read a;
          a = mouse_write 0xF4 a;
          (_, a) = mouse_read a;
          a = ioapic_set_irq 12 0x23 0 a;
          a = ioapic_unmask_irq 12 a
      in ap_log LOG_LEVEL_DEBUG ''IRQ 3: IDT 35 Mouse set'' [] a)"

section \<open>Packets\<close>

definition clamp_pointer :: "u32 \<Rightarrow> u32 \<Rightarrow> u32" where
  "clamp_pointer v screen_size = (if sint v < 0 then 0 else if screen_size \<le> v then screen_size - 1 else v)"

definition process_mouse_packet :: "screen \<Rightarrow> u8 list \<Rightarrow> mouse \<Rightarrow> mouse" where
  "process_mouse_packet sc mouse_packet s =
     (let x_offset = mouse_packet ! 1;
          y_offset = - (mouse_packet ! 2);
          s = s\<lparr>mouse_buttons := mouse_packet ! 0 AND 0x07\<rparr>;
          s = s\<lparr>mouse_x := mouse_x s + scast x_offset\<rparr>;
          s = s\<lparr>mouse_y := mouse_y s + scast y_offset\<rparr>;
          s = s\<lparr>mouse_x := clamp_pointer (mouse_x s) (get_screen_width (gui_disp (ms_gui s)))\<rparr>;
          s = s\<lparr>mouse_y := clamp_pointer (mouse_y s) (get_screen_height (gui_disp (ms_gui s)))\<rparr>
      in s\<lparr>ms_gui := gui_update_mouse sc (mouse_x s) (mouse_y s) (mouse_buttons s) (ms_gui s)\<rparr>)"

definition feed_byte :: "screen \<Rightarrow> u8 \<Rightarrow> mouse \<Rightarrow> mouse" where
  "feed_byte sc mouse_data s =
     (if mouse_cycle s = 0 then s\<lparr>mouse_byte := (mouse_byte s)[0 := mouse_data], mouse_cycle := mouse_cycle s + 1\<rparr>
      else if mouse_cycle s = 1 then s\<lparr>mouse_byte := (mouse_byte s)[1 := mouse_data], mouse_cycle := mouse_cycle s + 1\<rparr>
      else if mouse_cycle s = 2 then
        let s = s\<lparr>mouse_byte := (mouse_byte s)[2 := mouse_data]\<rparr>;
            s = process_mouse_packet sc (mouse_byte s) s
        in s\<lparr>mouse_cycle := 0\<rparr>
      else s)"

partial_function (option) handler_loop :: "screen \<Rightarrow> u8 \<Rightarrow> mouse \<Rightarrow> mouse option" where
  "handler_loop sc status s =
     (if status AND 0x01 \<noteq> 0 then
        let (mouse_data, s) = ms_inb PS2_DATA_PORT s;
            s = feed_byte sc mouse_data s;
            (status, s) = ms_inb PS2_CMD_PORT s
        in handler_loop sc status s
      else Some s)"

definition mouse_handler :: "screen \<Rightarrow> mouse \<Rightarrow> mouse option" where
  "mouse_handler sc s = do {
     let (status, s) = ms_inb PS2_CMD_PORT s;
     s \<leftarrow> handler_loop sc status s;
     Some (s\<lparr>ms_gui := (ms_gui s)\<lparr>gui_apic := send_eoi (gui_apic (ms_gui s))\<rparr>\<rparr>)
   }"

section \<open>The desktop loop\<close>

text \<open>One round of \<open>init_gui\<close>, and a number of them: the loop itself does not end.\<close>

definition gui_round :: "screen \<Rightarrow> mouse \<Rightarrow> mouse option" where
  "gui_round sc s =
     (let g = draw_desktop sc (ms_gui s);
          g = draw_all_windows sc g;
          g = gui_update_mouse sc 30 30 0 g;
          g = g\<lparr>gui_apic := enable_mouse (gui_apic g)\<rparr>
      in map_option (\<lambda>a. s\<lparr>ms_gui := g\<lparr>gui_apic := a\<rparr>\<rparr>) (sleep 1000 (gui_apic g)))"

fun init_gui :: "screen \<Rightarrow> nat \<Rightarrow> mouse \<Rightarrow> mouse option" where
  "init_gui sc 0 s = Some s"
| "init_gui sc (Suc n) s = do { s \<leftarrow> gui_round sc s; init_gui sc n s }"

section \<open>The pointer and the bytes\<close>

text \<open>The reference: pairs of integers, cut off at the edges, packet by packet.\<close>

definition cut_off :: "int \<Rightarrow> int \<Rightarrow> int" where
  "cut_off n v = max 0 (min (n - 1) v)"

fun track :: "int \<Rightarrow> int \<Rightarrow> u8 list \<Rightarrow> int \<times> int \<Rightarrow> int \<times> int" where
  "track w h (b0 # b1 # b2 # bs) (x, y) = track w h bs (cut_off w (x + sint b1), cut_off h (y + sint (- b2)))"
| "track w h _ p = p"

abbreviation scr_w :: "mouse \<Rightarrow> u32" where "scr_w s \<equiv> fbd_width (gui_details (ms_gui s))"
abbreviation scr_h :: "mouse \<Rightarrow> u32" where "scr_h s \<equiv> fbd_height (gui_details (ms_gui s))"

definition pointer_ok :: "mouse \<Rightarrow> bool" where
  "pointer_ok s \<longleftrightarrow> 0 < unat (scr_w s) \<and> unat (scr_w s) < 2 ^ 30 \<and> 0 < unat (scr_h s) \<and> unat (scr_h s) < 2 ^ 30 \<and>
     mouse_x s < scr_w s \<and> mouse_y s < scr_h s \<and> length (mouse_byte s) = 3 \<and> gui_ok (ms_gui s)"

definition pointer :: "mouse \<Rightarrow> int \<times> int" where
  "pointer s = (int (unat (mouse_x s)), int (unat (mouse_y s)))"

lemma clamp_pointer_cut_off:
  assumes "v < n" and "unat n < 2 ^ 30"
  shows "int (unat (clamp_pointer (v + scast (d :: u8)) n)) = cut_off (int (unat n)) (int (unat v) + sint d)"
proof -
  let ?w = "v + scast d :: u32"
  have d: "- 128 \<le> sint d" "sint d \<le> 127" using sint_greater_eq[of d] sint_less[of d] by simp_all
  have lt: "unat v < unat n" using assms(1) by (simp add: word_less_nat_alt)
  have "sint ?w = int (unat v) + sint d"
  proof -
    have "sint v = int (unat v)" using lt assms(2) by (simp add: sint_u32)
    moreover have "sint (scast d :: u32) = sint d" by (rule sint_up_scast) (simp add: is_up)
    moreover have "uint v < 1073741824"
      using of_nat_less_iff[where 'a = int, of "unat v" "2 ^ 30"] lt assms(2) by simp
    moreover have "0 \<le> uint v" by (rule unsigned_greater_eq)
    ultimately have "- 2147483648 \<le> uint v + sint d" "uint v + sint d < 2147483648" using d by linarith+
    then have "signed_take_bit 31 (uint v + sint d) = uint v + sint d" by (intro signed_take_bit_int_eq_self) simp_all
    with \<open>sint v = _\<close> \<open>sint (scast d :: u32) = _\<close> show ?thesis by (simp add: sint_word_add)
  qed
  then have neg: "sint ?w < 0 \<longleftrightarrow> int (unat v) + sint d < 0"
    and pos: "\<not> sint ?w < 0 \<Longrightarrow> int (unat ?w) = int (unat v) + sint d"
    using unsigned_less[of ?w, where 'a = int] by (simp_all add: sint_u32[of ?w] split: if_splits)
  have "uint v < uint n" using assms(1) by (simp add: word_less_def)
  moreover have v: "0 \<le> uint v" by (rule unsigned_greater_eq)
  moreover have "1 \<le> uint n" using calculation by linarith
  moreover from this have "uint (n - 1) = uint n - 1" by (simp add: uint_sub_if')
  ultimately show ?thesis
    using neg pos by (cases "sint ?w < 0") (auto simp: clamp_pointer_def cut_off_def word_le_def max_def)
qed

lemma process_packet:
  assumes "pointer_ok s"
  shows "pointer_ok (process_mouse_packet sc p s)"
    and "pointer (process_mouse_packet sc p s) =
      (cut_off (int (unat (scr_w s))) (fst (pointer s) + sint (p ! 1)),
       cut_off (int (unat (scr_h s))) (snd (pointer s) + sint (- (p ! 2))))"
    and "scr_w (process_mouse_packet sc p s) = scr_w s" "scr_h (process_mouse_packet sc p s) = scr_h s"
    and "mouse_byte (process_mouse_packet sc p s) = mouse_byte s"
proof -
  note ok = assms[unfolded pointer_ok_def]
  have x: "int (unat (clamp_pointer (mouse_x s + scast (p ! 1)) (scr_w s))) =
      cut_off (int (unat (scr_w s))) (int (unat (mouse_x s)) + sint (p ! 1))"
    using ok by (intro clamp_pointer_cut_off) auto
  have y: "int (unat (clamp_pointer (mouse_y s + scast (- (p ! 2))) (scr_h s))) =
      cut_off (int (unat (scr_h s))) (int (unat (mouse_y s)) + sint (- (p ! 2)))"
    using ok by (intro clamp_pointer_cut_off) auto
  show "pointer (process_mouse_packet sc p s) =
      (cut_off (int (unat (scr_w s))) (fst (pointer s) + sint (p ! 1)),
       cut_off (int (unat (scr_h s))) (snd (pointer s) + sint (- (p ! 2))))"
    using x y by (simp add: pointer_def process_mouse_packet_def Let_def get_screen_width_def get_screen_height_def)
  have "int (unat (clamp_pointer v n)) < int (unat n)" if "int (unat (clamp_pointer v n)) = cut_off (int (unat n)) z" "0 < unat n" for v n z
    using that by (simp only: cut_off_def)
  from this[OF x] this[OF y] ok
  have "clamp_pointer (mouse_x s + scast (p ! 1)) (scr_w s) < scr_w s"
    "clamp_pointer (mouse_y s + scast (- (p ! 2))) (scr_h s) < scr_h s"
    by (simp_all only: word_less_nat_alt of_nat_less_iff)
  with ok show "pointer_ok (process_mouse_packet sc p s)"
    by (simp add: pointer_ok_def process_mouse_packet_def Let_def get_screen_width_def get_screen_height_def gui_ok_update)
qed (simp_all add: process_mouse_packet_def Let_def)

lemma feed_byte_step:
  assumes "pointer_ok s" and "unat (mouse_cycle s) < 2"
  shows "pointer_ok (feed_byte sc b s)" "pointer (feed_byte sc b s) = pointer s"
    "mouse_cycle (feed_byte sc b s) = mouse_cycle s + 1"
    "mouse_byte (feed_byte sc b s) = (mouse_byte s)[unat (mouse_cycle s) := b]"
    "ms_gui (feed_byte sc b s) = ms_gui s"
proof -
  have "mouse_cycle s = 0 \<or> mouse_cycle s = 1" using assms(2) by (simp add: word_unat_eq_iff less_2_cases_iff)
  then show "pointer_ok (feed_byte sc b s)" "pointer (feed_byte sc b s) = pointer s"
    "mouse_cycle (feed_byte sc b s) = mouse_cycle s + 1"
    "mouse_byte (feed_byte sc b s) = (mouse_byte s)[unat (mouse_cycle s) := b]"
    "ms_gui (feed_byte sc b s) = ms_gui s"
    using assms(1) by (auto simp: feed_byte_def pointer_ok_def pointer_def)
qed

lemma feed_byte_third:
  assumes "pointer_ok s" and "mouse_cycle s = 2" and "take 2 (mouse_byte s) = [b0, b1]"
  shows "pointer_ok (feed_byte sc b2 s)" "mouse_cycle (feed_byte sc b2 s) = 0"
    "scr_w (feed_byte sc b2 s) = scr_w s" "scr_h (feed_byte sc b2 s) = scr_h s"
    "pointer (feed_byte sc b2 s) = (cut_off (int (unat (scr_w s))) (fst (pointer s) + sint b1),
       cut_off (int (unat (scr_h s))) (snd (pointer s) + sint (- b2)))"
proof -
  let ?s = "s\<lparr>mouse_byte := (mouse_byte s)[2 := b2]\<rparr>"
  have ok: "pointer_ok ?s" using assms(1) by (simp add: pointer_ok_def)
  have "length (mouse_byte s) = 3" using assms(1) by (simp add: pointer_ok_def)
  with assms(3) obtain b where "mouse_byte s = [b0, b1, b]"
    by (auto simp: length_Suc_conv numeral_3_eq_3 numeral_2_eq_2)
  then have f: "feed_byte sc b2 s = (process_mouse_packet sc [b0, b1, b2] ?s)\<lparr>mouse_cycle := 0\<rparr>"
    using assms(2) by (simp add: feed_byte_def Let_def)
  show "pointer_ok (feed_byte sc b2 s)" using process_packet(1)[OF ok] by (simp add: f pointer_ok_def)
  show "mouse_cycle (feed_byte sc b2 s) = 0" by (simp add: f)
  show "scr_w (feed_byte sc b2 s) = scr_w s" "scr_h (feed_byte sc b2 s) = scr_h s"
    using process_packet(3,4)[OF ok] by (simp_all add: f)
  show "pointer (feed_byte sc b2 s) = (cut_off (int (unat (scr_w s))) (fst (pointer s) + sint b1),
       cut_off (int (unat (scr_h s))) (snd (pointer s) + sint (- b2)))"
    using process_packet(2)[OF ok, of sc "[b0, b1, b2]"] by (simp add: f pointer_def)
qed

lemma track_step:
  "track w h (b0 # b1 # b2 # bs) p = track w h bs (cut_off w (fst p + sint b1), cut_off h (snd p + sint (- b2)))"
  by (cases p) simp

lemma feed_bytes:
  assumes "pointer_ok s" and "mouse_cycle s = 0"
  shows "pointer_ok (fold (feed_byte sc) bs s) \<and>
    mouse_cycle (fold (feed_byte sc) bs s) = of_nat (length bs mod 3) \<and>
    pointer (fold (feed_byte sc) bs s) = track (int (unat (scr_w s))) (int (unat (scr_h s))) bs (pointer s)"
  using assms
proof (induction bs arbitrary: s rule: measure_induct_rule[of length])
  case (less bs)
  note first = feed_byte_step[OF less.prems(1), of sc]
  consider "bs = []" | b where "bs = [b]" | b0 b1 where "bs = [b0, b1]" | b0 b1 b2 cs where "bs = b0 # b1 # b2 # cs"
    by (metis list.exhaust)
  then show ?case
  proof cases
    case 2
    then show ?thesis using first less.prems by simp
  next
    case (3 b0 b1)
    then show ?thesis using first[of b0] feed_byte_step[of "feed_byte sc b0 s" sc b1] less.prems by simp
  next
    case (4 b0 b1 b2 cs)
    let ?s1 = "feed_byte sc b0 s" and ?s2 = "feed_byte sc b1 (feed_byte sc b0 s)"
    have one: "pointer_ok ?s1" "mouse_cycle ?s1 = 1" "pointer ?s1 = pointer s" "ms_gui ?s1 = ms_gui s"
      "mouse_byte ?s1 = (mouse_byte s)[0 := b0]"
      using first[of b0] less.prems(2) by simp_all
    have two: "pointer_ok ?s2" "mouse_cycle ?s2 = 2" "pointer ?s2 = pointer s" "ms_gui ?s2 = ms_gui s"
      "mouse_byte ?s2 = (mouse_byte s)[0 := b0, 1 := b1]"
      using feed_byte_step[OF one(1), of sc b1] one(2-5) by simp_all
    have "length (mouse_byte s) = 3" using less.prems(1) by (simp add: pointer_ok_def)
    then have "take 2 (mouse_byte ?s2) = [b0, b1]"
      unfolding two(5) by (auto simp: length_Suc_conv numeral_3_eq_3 numeral_2_eq_2)
    note three = feed_byte_third[OF two(1,2) this, of sc b2]
    have "length cs < length bs" using 4 by simp
    from less.IH[OF this three(1,2)] show ?thesis
      using three(3-5) two(3,4) by (simp add: 4 split_beta track_step)
  qed (use less.prems in simp)
qed

section \<open>The port and the packets\<close>

text \<open>What a byte does is independent of the ports.\<close>

lemma on_disp_apic [simp]: "on_disp f (g\<lparr>gui_apic := a\<rparr>) = (on_disp f g)\<lparr>gui_apic := a\<rparr>"
  by (simp add: on_disp_def)

lemma set_window_apic [simp]: "set_window w f (g\<lparr>gui_apic := a\<rparr>) = (set_window w f g)\<lparr>gui_apic := a\<rparr>"
  by (simp add: set_window_def)

lemma draw_window_apic [simp]: "draw_window sc w (g\<lparr>gui_apic := a\<rparr>) = (draw_window sc w g)\<lparr>gui_apic := a\<rparr>"
  by (simp add: draw_window_def Let_def)

lemma scan_windows_apic [simp]:
  "scan_windows sc x y b ws (g\<lparr>gui_apic := a\<rparr>) = (scan_windows sc x y b ws g)\<lparr>gui_apic := a\<rparr>"
  by (induction sc x y b ws g rule: scan_windows.induct) (auto simp: drag_window_def press_window_def Let_def)

lemma release_windows_apic [simp]: "release_windows (g\<lparr>gui_apic := a\<rparr>) = (release_windows g)\<lparr>gui_apic := a\<rparr>"
proof -
  have "fold (\<lambda>c. set_window c f) cs (g\<lparr>gui_apic := a\<rparr>) = (fold (\<lambda>c. set_window c f) cs g)\<lparr>gui_apic := a\<rparr>" for f cs
    by (induction cs arbitrary: g) auto
  then show ?thesis by (simp add: release_windows_def)
qed

lemma gui_update_mouse_apic [simp]:
  "gui_update_mouse sc x y b (g\<lparr>gui_apic := a\<rparr>) = (gui_update_mouse sc x y b g)\<lparr>gui_apic := a\<rparr>"
  by (simp add: gui_update_mouse_def Let_def draw_cursor_def)

definition with_apic :: "apic \<Rightarrow> mouse \<Rightarrow> mouse" where
  "with_apic a s = s\<lparr>ms_gui := (ms_gui s)\<lparr>gui_apic := a\<rparr>\<rparr>"

lemma feed_byte_apic: "feed_byte sc d (with_apic a s) = with_apic a (feed_byte sc d s)"
  by (simp add: with_apic_def feed_byte_def process_mouse_packet_def Let_def)

lemma feed_byte_gui_apic [simp]: "gui_apic (ms_gui (feed_byte sc d s)) = gui_apic (ms_gui s)"
  by (simp add: feed_byte_def process_mouse_packet_def Let_def)

lemma with_apic_simps [simp]:
  "gui_apic (ms_gui (with_apic a s)) = a" "with_apic a (with_apic b s) = with_apic a s"
  "with_apic (gui_apic (ms_gui s)) s = s"
  by (simp_all add: with_apic_def)

abbreviation ms_answer :: "mouse \<Rightarrow> nat \<Rightarrow> u64" where "ms_answer s \<equiv> ap_answer (gui_apic (ms_gui s))"
abbreviation ms_asked :: "mouse \<Rightarrow> nat" where "ms_asked s \<equiv> ap_asked (gui_apic (ms_gui s))"

lemma ms_inb_simps:
  "fst (ms_inb p s) = ucast (ms_answer s (ms_asked s))"
  "\<exists>a. snd (ms_inb p s) = with_apic a s \<and> ap_answer a = ms_answer s \<and> ap_asked a = Suc (ms_asked s)"
  by (auto simp: ms_inb_def on_io_def Let_def split_beta with_apic_def)

text \<open>The bytes between status reads, from answer \<open>i\<close> on.\<close>

definition data_bytes :: "(nat \<Rightarrow> u64) \<Rightarrow> nat \<Rightarrow> nat \<Rightarrow> u8 list" where
  "data_bytes ans i n = map (\<lambda>k. ucast (ans (i + 2 * k))) [0..<n]"

lemma data_bytes_Suc: "data_bytes ans i (Suc n) = ucast (ans i) # data_bytes ans (i + 2) n"
  by (simp add: data_bytes_def upt_conv_Cons map_Suc_upt[symmetric] del: upt_Suc)

lemma handler_loop_feeds:
  assumes "bit (status :: u8) 0 \<longleftrightarrow> 0 < n"
    and "\<And>k. Suc k < n \<Longrightarrow> bit (ms_answer s (ms_asked s + 2 * k + 1)) 0"
    and "0 < n \<Longrightarrow> \<not> bit (ms_answer s (ms_asked s + 2 * n - 1)) 0"
  shows "\<exists>a. handler_loop sc status s = Some (with_apic a (fold (feed_byte sc) (data_bytes (ms_answer s) (ms_asked s) n) s))"
  using assms
proof (induction n arbitrary: status s)
  case 0
  then have "status AND 1 = 0" using and_exp_eq_0_iff_not_bit[of status 0] by simp
  then have "handler_loop sc status s = Some (with_apic (gui_apic (ms_gui s)) s)"
    by (subst handler_loop.simps) simp
  then show ?case by (intro exI[of _ "gui_apic (ms_gui s)"]) (simp add: data_bytes_def)
next
  case (Suc n)
  then have st: "status AND 1 \<noteq> 0" using and_exp_eq_0_iff_not_bit[of status 0] by simp
  let ?b = "ucast (ms_answer s (ms_asked s)) :: u8"
  obtain a1 where a1: "snd (ms_inb PS2_DATA_PORT s) = with_apic a1 s" "ap_answer a1 = ms_answer s" "ap_asked a1 = Suc (ms_asked s)"
    using ms_inb_simps(2) by blast
  let ?s1 = "with_apic a1 (feed_byte sc ?b s)"
  obtain a2 where a2: "snd (ms_inb PS2_CMD_PORT ?s1) = with_apic a2 (feed_byte sc ?b s)" "ap_answer a2 = ms_answer s"
    "ap_asked a2 = Suc (Suc (ms_asked s))"
    using ms_inb_simps(2)[of PS2_CMD_PORT ?s1] a1 by auto
  let ?s2 = "with_apic a2 (feed_byte sc ?b s)" and ?st = "ucast (ms_answer s (Suc (ms_asked s))) :: u8"
  have "handler_loop sc status s = handler_loop sc ?st ?s2"
    using st a1 a2 by (subst handler_loop.simps) (simp add: Let_def split_beta ms_inb_simps(1) feed_byte_apic)
  moreover have "\<exists>a. handler_loop sc ?st ?s2 =
      Some (with_apic a (fold (feed_byte sc) (data_bytes (ms_answer ?s2) (ms_asked ?s2) n) ?s2))"
  proof (rule Suc.IH)
    show "bit ?st 0 \<longleftrightarrow> 0 < n" using Suc.prems(2)[of 0] Suc.prems(3) by (cases n) (auto simp: bit_simps)
    show "bit (ms_answer ?s2 (ms_asked ?s2 + 2 * k + 1)) 0" if "Suc k < n" for k
      using Suc.prems(2)[of "Suc k"] that a2 by (simp add: algebra_simps)
    show "\<not> bit (ms_answer ?s2 (ms_asked ?s2 + 2 * n - 1)) 0" if "0 < n"
      using Suc.prems(3) that a2 by (simp add: algebra_simps)
  qed
  moreover have "fold (feed_byte sc) ds (with_apic a t) = with_apic a (fold (feed_byte sc) ds t)" for ds a t
    by (induction ds arbitrary: t) (auto simp: feed_byte_apic)
  ultimately show ?case using a2 by (auto simp: data_bytes_Suc)
qed

section \<open>Properties\<close>

text \<open>C16: The pointer follows the bytes. When the controller offers \<open>n\<close> bytes and then no more, the handler
  returns; the pointer is where the reference walk over the whole packets among these bytes puts it,
  with every coordinate cut off at the edges of the screen; the bytes of an unfinished packet wait for
  the next interrupt; the pointer and all windows are on the screen. The vertical offset is the
  negated third byte as an 8-bit number: -128 moves the pointer up, not down.\<close>

theorem mouse_follows:
  assumes "pointer_ok s" and "mouse_cycle s = 0"
    and "\<forall>k<n. bit (ms_answer s (ms_asked s + 2 * k)) 0" and "\<not> bit (ms_answer s (ms_asked s + 2 * n)) 0"
  shows "\<exists>s'. mouse_handler sc s = Some s' \<and> pointer_ok s' \<and> mouse_cycle s' = of_nat (n mod 3) \<and>
    pointer s' = track (int (unat (scr_w s))) (int (unat (scr_h s)))
      (data_bytes (ms_answer s) (ms_asked s + 1) n) (pointer s)"
proof -
  obtain a1 where a1: "snd (ms_inb PS2_CMD_PORT s) = with_apic a1 s" "ap_answer a1 = ms_answer s" "ap_asked a1 = Suc (ms_asked s)"
    using ms_inb_simps(2) by blast
  let ?s1 = "with_apic a1 s" and ?st = "ucast (ms_answer s (ms_asked s)) :: u8"
  let ?ds = "data_bytes (ms_answer s) (ms_asked s + 1) n"
  have "\<exists>a. handler_loop sc ?st ?s1 = Some (with_apic a (fold (feed_byte sc) (data_bytes (ms_answer ?s1) (ms_asked ?s1) n) ?s1))"
  proof (rule handler_loop_feeds)
    show "bit ?st 0 \<longleftrightarrow> 0 < n" using assms(3,4) by (cases "n = 0") (auto simp: bit_simps)
    show "bit (ms_answer ?s1 (ms_asked ?s1 + 2 * k + 1)) 0" if "Suc k < n" for k
      using assms(3)[rule_format, OF that] a1 by (simp add: algebra_simps)
    show "\<not> bit (ms_answer ?s1 (ms_asked ?s1 + 2 * n - 1)) 0" if "0 < n"
      using assms(4) that a1 by (simp add: algebra_simps)
  qed
  moreover have "fold (feed_byte sc) ds (with_apic a t) = with_apic a (fold (feed_byte sc) ds t)" for ds a t
    by (induction ds arbitrary: t) (auto simp: feed_byte_apic)
  ultimately obtain a where a: "handler_loop sc ?st ?s1 = Some (with_apic a (fold (feed_byte sc) ?ds s))"
    using a1 by auto
  have "length ?ds = n" by (simp add: data_bytes_def)
  then show ?thesis
    using feed_bytes[OF assms(1,2), of sc ?ds] a a1(1)
    by (auto simp: mouse_handler_def Let_def split_beta ms_inb_simps(1) with_apic_def pointer_ok_def pointer_def
        gui_ok_def all_fit_def one_dragged_def dragged_def)
qed

text \<open>A controller that offers one packet, 5 right and 3 down, then nothing.\<close>

definition sample_mouse :: mouse where
  "sample_mouse = mouse_bss (sample_gui\<lparr>gui_apic := (sample_apic 0)\<lparr>ap_vm := (ap_vm (sample_apic 0))\<lparr>
     vm_io := \<lparr>answer = (\<lambda>i. [1, 8, 1, 5, 1, 253, 0] ! i), asked = 0, trace = []\<rparr>\<rparr>\<rparr>\<rparr>)"

lemma sample_mouse_ok: "pointer_ok sample_mouse"
  using sample_gui_ok
  by (simp add: pointer_ok_def sample_mouse_def mouse_bss_def sample_gui_def sample_display_def
      gui_ok_def all_fit_def one_dragged_def dragged_def)

theorem mouse_follows_witness:
  "\<exists>s'. mouse_handler sample_screen sample_mouse = Some s' \<and> pointer s' = (5, 3) \<and> mouse_cycle s' = 0"
proof -
  have io: "ms_answer sample_mouse = (\<lambda>i. [1, 8, 1, 5, 1, 253, 0] ! i)" "ms_asked sample_mouse = 0"
    by (simp_all add: sample_mouse_def mouse_bss_def)
  have "\<forall>k<3. bit (ms_answer sample_mouse (ms_asked sample_mouse + 2 * k)) 0"
    by (auto simp: io less_Suc_eq numeral_3_eq_3)
  moreover have "mouse_cycle sample_mouse = 0" by (simp add: sample_mouse_def mouse_bss_def)
  moreover have "\<not> bit (ms_answer sample_mouse (ms_asked sample_mouse + 2 * 3)) 0" by (simp add: io)
  ultimately obtain s' where
    "mouse_handler sample_screen sample_mouse = Some s'" "mouse_cycle s' = of_nat (3 mod 3)"
    "pointer s' = track (int (unat (scr_w sample_mouse))) (int (unat (scr_h sample_mouse)))
      (data_bytes (ms_answer sample_mouse) (ms_asked sample_mouse + 1) 3) (pointer sample_mouse)"
    using mouse_follows[OF sample_mouse_ok, of 3 sample_screen] by blast
  moreover have "data_bytes (ms_answer sample_mouse) (ms_asked sample_mouse + 1) 3 = [8, 5, 253]"
    unfolding io by (simp add: data_bytes_def upt_rec)
  moreover have "pointer sample_mouse = (0, 0)" "scr_w sample_mouse = 16" "scr_h sample_mouse = 16"
    by (simp_all add: sample_mouse_def mouse_bss_def pointer_def sample_gui_def sample_display_def)
  ultimately show ?thesis by (auto simp: cut_off_def)
qed

end
