(* ===== verification/Ata.thy ===== *)
theory Ata
  imports Apic Display
begin

text \<open>
  The disk driver, \<^verbatim>\<open>hardware/storage/ata.c\<close>: programmed input and output on the two legacy channels.
  Every wait is a bounded poll, so all operations are total. The properties replay the port accesses on
  a controller model: what it was asked to transfer and which data it received, what a read leaves in
  memory, and what happens when the drive stays busy.
\<close>

section \<open>Registers\<close>

definition ATA_PRIMARY_DATA :: u16 where "ATA_PRIMARY_DATA = 0x1F0"
definition ATA_PRIMARY_CONTROL :: u16 where "ATA_PRIMARY_CONTROL = 0x3F6"
definition ATA_SECONDARY_DATA :: u16 where "ATA_SECONDARY_DATA = 0x170"
definition ATA_SECONDARY_CONTROL :: u16 where "ATA_SECONDARY_CONTROL = 0x376"

abbreviation (input) ATA_REG_DATA :: u8 where "ATA_REG_DATA \<equiv> 0x00"
abbreviation (input) ATA_REG_ERROR :: u8 where "ATA_REG_ERROR \<equiv> 0x01"
abbreviation (input) ATA_REG_SECCOUNT0 :: u8 where "ATA_REG_SECCOUNT0 \<equiv> 0x02"
abbreviation (input) ATA_REG_LBA0 :: u8 where "ATA_REG_LBA0 \<equiv> 0x03"
abbreviation (input) ATA_REG_LBA1 :: u8 where "ATA_REG_LBA1 \<equiv> 0x04"
abbreviation (input) ATA_REG_LBA2 :: u8 where "ATA_REG_LBA2 \<equiv> 0x05"
abbreviation (input) ATA_REG_HDDEVSEL :: u8 where "ATA_REG_HDDEVSEL \<equiv> 0x06"
abbreviation (input) ATA_REG_COMMAND :: u8 where "ATA_REG_COMMAND \<equiv> 0x07"
abbreviation (input) ATA_REG_STATUS :: u8 where "ATA_REG_STATUS \<equiv> 0x07"
abbreviation (input) ATA_REG_SECCOUNT1 :: u8 where "ATA_REG_SECCOUNT1 \<equiv> 0x08"
abbreviation (input) ATA_REG_LBA3 :: u8 where "ATA_REG_LBA3 \<equiv> 0x09"
abbreviation (input) ATA_REG_LBA4 :: u8 where "ATA_REG_LBA4 \<equiv> 0x0A"
abbreviation (input) ATA_REG_LBA5 :: u8 where "ATA_REG_LBA5 \<equiv> 0x0B"

definition ATA_CMD_READ_PIO :: u8 where "ATA_CMD_READ_PIO = 0x20"
definition ATA_CMD_READ_PIO_EXT :: u8 where "ATA_CMD_READ_PIO_EXT = 0x24"
definition ATA_CMD_WRITE_PIO :: u8 where "ATA_CMD_WRITE_PIO = 0x30"
definition ATA_CMD_WRITE_PIO_EXT :: u8 where "ATA_CMD_WRITE_PIO_EXT = 0x34"
definition ATA_CMD_IDENTIFY :: u8 where "ATA_CMD_IDENTIFY = 0xEC"

text \<open>Status: busy, ready, data request, error.\<close>

abbreviation (input) ATA_SR_BSY :: u8 where "ATA_SR_BSY \<equiv> 0x80"
abbreviation (input) ATA_SR_DRDY :: u8 where "ATA_SR_DRDY \<equiv> 0x40"
abbreviation (input) ATA_SR_DRQ :: u8 where "ATA_SR_DRQ \<equiv> 0x08"
abbreviation (input) ATA_SR_ERR :: u8 where "ATA_SR_ERR \<equiv> 0x01"

definition MAX_DRIVES :: nat where "MAX_DRIVES = 4"

definition ata_port :: "u16 \<Rightarrow> u8 \<Rightarrow> u16" where
  "ata_port channel reg = channel + (if reg < 0x08 then ucast reg else ucast reg - 0x06)"

text \<open>The offset of the control register is 0: the byte goes to the data port.\<close>

definition ata_high_bank :: "u16 \<Rightarrow> u8 \<Rightarrow> io_world \<Rightarrow> io_world" where
  "ata_high_bank channel reg w =
     (if 0x07 < reg \<and> reg < 0x0C then out_b (channel + 0x00) (0x80 OR (reg - 0x08)) w else w)"

definition ata_read_register :: "u16 \<Rightarrow> u8 \<Rightarrow> io_world \<Rightarrow> u8 \<times> io_world" where
  "ata_read_register channel reg w = in_b (ata_port channel reg) (ata_high_bank channel reg w)"

definition ata_write_register :: "u16 \<Rightarrow> u8 \<Rightarrow> u8 \<Rightarrow> io_world \<Rightarrow> io_world" where
  "ata_write_register channel reg d w = out_b (ata_port channel reg) d (ata_high_bank channel reg w)"

fun ata_poll :: "u16 \<Rightarrow> nat \<Rightarrow> io_world \<Rightarrow> bool \<times> io_world" where
  "ata_poll channel 0 w = (False, w)"
| "ata_poll channel (Suc n) w =
     (let (status, w) = ata_read_register channel ATA_REG_STATUS w
      in if status AND ATA_SR_BSY = 0 \<and> status AND ATA_SR_DRDY \<noteq> 0 then (True, w) else ata_poll channel n w)"

definition ata_wait_ready :: "u16 \<Rightarrow> io_world \<Rightarrow> bool \<times> io_world" where
  "ata_wait_ready channel = ata_poll channel 1000"

definition ata_select_drive :: "u16 \<Rightarrow> u8 \<Rightarrow> io_world \<Rightarrow> io_world" where
  "ata_select_drive channel drive = ata_write_register channel ATA_REG_HDDEVSEL (0xA0 OR push_bit 4 drive)"

section \<open>Identification\<close>

record drive_info =
  present :: bool
  is_sata :: bool
  capacity :: u64
  model :: "u8 list"
  serial :: "u8 list"

definition no_drive :: drive_info where
  "no_drive = \<lparr>present = False, is_sata = False, capacity = 0, model = replicate 41 0, serial = replicate 21 0\<rparr>"

record ata =
  at_apic :: apic
  drives :: "drive_info list"

definition ata_bss :: "apic \<Rightarrow> ata" where
  "ata_bss a = \<lparr>at_apic = a, drives = replicate MAX_DRIVES no_drive\<rparr>"

text \<open>Two characters per word, the high byte first, and a zero.\<close>

definition ata_text :: "u16 list \<Rightarrow> u8 list" where
  "ata_text ws = concat (map (\<lambda>v. [ucast (drop_bit 8 v), ucast (v AND 0xFF)]) ws) @ [0]"

definition identified :: "u16 list \<Rightarrow> drive_info" where
  "identified identify_data =
     (let cap = push_bit 48 (ucast (identify_data ! 103)) OR push_bit 32 (ucast (identify_data ! 102)) OR
            push_bit 16 (ucast (identify_data ! 101)) OR ucast (identify_data ! 100);
          cap = (if cap = (0 :: u64)
                 then ucast (push_bit 16 (ucast (identify_data ! 61)) OR ucast (identify_data ! 60) :: u32) else cap)
      in \<lparr>present = True, is_sata = (identify_data ! 0 = 0xEB14 \<or> identify_data ! 0 = 0xC33C), capacity = cap,
          model = ata_text (take 20 (drop 27 identify_data)), serial = ata_text (take 10 (drop 10 identify_data))\<rparr>)"

definition ata_identify :: "u16 \<Rightarrow> u8 \<Rightarrow> drive_info \<Rightarrow> io_world \<Rightarrow> bool \<times> drive_info \<times> io_world" where
  "ata_identify channel drive di w =
     (let w = ata_select_drive channel drive w;
          w = fold (\<lambda>i. ata_write_register channel (of_nat i) 0) [1..<6] w;
          w = ata_write_register channel ATA_REG_COMMAND ATA_CMD_IDENTIFY w;
          (ready, w) = ata_wait_ready channel w
      in if \<not> ready then (False, di, w)
         else let (identify_data, w) = in_sw (channel + ucast ATA_REG_DATA) 256 w
              in (True, identified identify_data, w))"

definition setup_ioapic_for_ata :: "apic \<Rightarrow> apic" where
  "setup_ioapic_for_ata a =
     (let a = ioapic_set_irq 14 0x22 0 a;
          a = ioapic_unmask_irq 14 a;
          a = ioapic_set_irq 15 0x22 0 a
      in ioapic_unmask_irq 15 a)"

definition enable_ata_interrupts :: "io_world \<Rightarrow> io_world" where
  "enable_ata_interrupts w = out_b ATA_SECONDARY_CONTROL 0 (out_b ATA_PRIMARY_CONTROL 0 w)"

definition ata_device_ready :: "u16 \<Rightarrow> io_world \<Rightarrow> int \<times> io_world" where
  "ata_device_ready io_base w =
     (let (status, w) = in_b (io_base + 0x07) w
      in (if status AND ATA_SR_BSY \<noteq> 0 then 0
          else if status AND ATA_SR_DRDY \<noteq> 0 then 1
          else if status AND ATA_SR_ERR \<noteq> 0 then -1
          else 0, w))"

text \<open>Both branches are empty in the source.\<close>

definition ata_interrupt_handler :: "io_world \<Rightarrow> io_world" where
  "ata_interrupt_handler w =
     (let (_, w) = ata_device_ready ATA_PRIMARY_DATA w;
          (_, w) = ata_device_ready ATA_SECONDARY_DATA w
      in w)"

definition ata_print :: "string \<Rightarrow> va_arg list \<Rightarrow> io_world \<Rightarrow> io_world" where
  "ata_print s = print_call s (color_value Yellow)"

definition channel_of :: "nat \<Rightarrow> u16" where
  "channel_of c = [ATA_PRIMARY_DATA, ATA_SECONDARY_DATA] ! c"

definition report_drive :: "nat \<Rightarrow> drive_info \<Rightarrow> io_world \<Rightarrow> io_world" where
  "report_drive index di w =
     (let w = ata_print ''\<newline>\<newline>Drive %d detected:\<newline>'' [VInt (of_nat index)] w;
          w = ata_print ''Interface: %s\<newline>'' [VStr (if is_sata di then ''SATA'' else ''PATA'')] w;
          w = ata_print ''Model: %s\<newline>'' [VStr (chars_of (model di))] w;
          w = ata_print ''Serial: %s\<newline>'' [VStr (chars_of (serial di))] w
      in ata_print ''Capacity: %lu sectors (%lu MB)\<newline>'' [VLong (capacity di), VLong (capacity di div 2048)] w)"

definition init_drive :: "nat \<times> nat \<Rightarrow> ata \<Rightarrow> ata" where
  "init_drive cd s =
     (let (channel, drive) = cd;
          index = channel * 2 + drive;
          (found, di, w) = ata_identify (channel_of channel) (of_nat drive) (drives s ! index) (vm_io (ap_vm (at_apic s)))
      in if found
         then s\<lparr>at_apic := do_io (\<lambda>_. report_drive index di w) (at_apic s), drives := (drives s)[index := di]\<rparr>
         else s\<lparr>at_apic := do_io (\<lambda>_. ata_print ''No drive detected at channel %d, drive %d\<newline>''
                                    [VInt (of_nat channel), VInt (of_nat drive)] w) (at_apic s),
                drives := (drives s)[index := di\<lparr>present := False\<rparr>]\<rparr>)"

definition ata_init :: "ata \<Rightarrow> ata" where
  "ata_init s =
     (let s = s\<lparr>at_apic := setup_ioapic_for_ata (at_apic s)\<rparr>;
          s = fold init_drive [(0, 0), (0, 1), (1, 0), (1, 1)] s
      in s\<lparr>at_apic := do_io (ata_print ''ATA initialization complete\<newline>'' []) (at_apic s)\<rparr>)"

section \<open>Transfers\<close>

definition needs_lba48 :: "drive_info \<Rightarrow> u64 \<Rightarrow> bool" where
  "needs_lba48 di lba \<longleftrightarrow> 0x0FFFFFFF < capacity di \<or> 0x0FFFFFFF < lba"

definition ata_address :: "u16 \<Rightarrow> bool \<Rightarrow> u64 \<Rightarrow> u16 \<Rightarrow> io_world \<Rightarrow> io_world" where
  "ata_address channel ext lba sector_count w =
     (let w = (if ext then
            let w = ata_write_register channel ATA_REG_SECCOUNT1 (ucast (drop_bit 8 sector_count AND 0xFF)) w;
                w = ata_write_register channel ATA_REG_LBA3 (ucast (drop_bit 24 lba AND 0xFF)) w;
                w = ata_write_register channel ATA_REG_LBA4 (ucast (drop_bit 32 lba AND 0xFF)) w
            in ata_write_register channel ATA_REG_LBA5 (ucast (drop_bit 40 lba AND 0xFF)) w
          else w);
          w = ata_write_register channel ATA_REG_SECCOUNT0 (ucast (sector_count AND 0xFF)) w;
          w = ata_write_register channel ATA_REG_LBA0 (ucast (lba AND 0xFF)) w;
          w = ata_write_register channel ATA_REG_LBA1 (ucast (drop_bit 8 lba AND 0xFF)) w
      in ata_write_register channel ATA_REG_LBA2 (ucast (drop_bit 16 lba AND 0xFF)) w)"

definition sector_words :: "memory \<Rightarrow> u64 \<Rightarrow> u16 list" where
  "sector_words m a = map (\<lambda>k. load16 m (a + of_nat (2 * k))) [0..<256]"

fun write_loop :: "u16 \<Rightarrow> bool \<Rightarrow> u64 \<Rightarrow> u16 \<Rightarrow> memory \<Rightarrow> nat \<Rightarrow> nat \<Rightarrow> io_world \<Rightarrow> bool \<times> io_world" where
  "write_loop channel sata buffer sector_count m i 0 w = (True, w)"
| "write_loop channel sata buffer sector_count m i (Suc n) w =
     (let (ready, w) = ata_wait_ready channel w
      in if \<not> ready then (False, w)
         else let (status, w) = ata_read_register channel ATA_REG_STATUS w
              in if status AND ATA_SR_DRQ = 0 then (False, ata_print ''Error: Drive not ready for data\<newline>'' [] w)
                 else let w = out_sw (channel + ucast ATA_REG_DATA) (sector_words m (buffer + of_nat (i * 512))) w;
                          w = (if i = unat sector_count - 1 \<or> sata
                               then snd (ata_wait_ready channel (ata_write_register channel ATA_REG_COMMAND 0xE7 w))
                               else w)
                      in write_loop channel sata buffer sector_count m (Suc i) n w)"

definition drive_channel :: "u8 \<Rightarrow> u16" where
  "drive_channel drive_index = (if drive_index div 2 = 0 then ATA_PRIMARY_DATA else ATA_SECONDARY_DATA)"

text \<open>\<open>valid_drive\<close>: the early return of both transfers.\<close>

definition valid_drive :: "u8 \<Rightarrow> ata \<Rightarrow> bool" where
  "valid_drive drive_index s \<longleftrightarrow> unat drive_index < MAX_DRIVES \<and> present (drives s ! unat drive_index)"

definition ata_write_sectors :: "u8 \<Rightarrow> u64 \<Rightarrow> u16 \<Rightarrow> u64 \<Rightarrow> ata \<Rightarrow> bool \<times> ata" where
  "ata_write_sectors drive_index lba sector_count buffer s =
     (if \<not> valid_drive drive_index s then (False, s)
      else
        let di = drives s ! unat drive_index;
            channel = drive_channel drive_index;
            slave = drive_index mod 2;
            w = vm_io (ap_vm (at_apic s));
            w = ata_select_drive channel slave w;
            w = ata_address channel (needs_lba48 di lba) lba sector_count w;
            cmd = (if needs_lba48 di lba then ATA_CMD_WRITE_PIO_EXT else ATA_CMD_WRITE_PIO);
            w = ata_write_register channel ATA_REG_COMMAND cmd w;
            (ok, w) = write_loop channel (is_sata di) buffer sector_count (vm_mem (ap_vm (at_apic s))) 0
              (unat sector_count) w
        in (ok, s\<lparr>at_apic := do_io (\<lambda>_. w) (at_apic s)\<rparr>))"

definition ata_print_error :: "u16 \<Rightarrow> io_world \<Rightarrow> io_world" where
  "ata_print_error channel w =
     (let (error, w) = ata_read_register channel ATA_REG_ERROR w;
          say = (\<lambda>b s w. if error AND b \<noteq> 0 then ata_print s [] w else w);
          w = ata_print ''ATA Error: '' [] w;
          w = say 0x01 ''Address mark not found '' w;
          w = say 0x02 ''Track 0 not found '' w;
          w = say 0x04 ''Command aborted '' w;
          w = say 0x08 ''Media change request '' w;
          w = say 0x10 ''ID not found '' w;
          w = say 0x20 ''Media changed '' w;
          w = say 0x40 ''Uncorrectable data error '' w;
          w = say 0x80 ''Bad block detected '' w
      in ata_print ''\<newline>'' [] w)"

definition store_words :: "u64 \<Rightarrow> u16 list \<Rightarrow> memory \<Rightarrow> memory" where
  "store_words a ws m = write_bytes m a (concat (map (bytes_of 2) ws))"

fun read_loop :: "u16 \<Rightarrow> u64 \<Rightarrow> nat \<Rightarrow> nat \<Rightarrow> memory \<times> io_world \<Rightarrow> bool \<times> memory \<times> io_world" where
  "read_loop channel buffer i 0 mw = (True, mw)"
| "read_loop channel buffer i (Suc n) mw =
     (let (m, w) = mw;
          (ready, w) = ata_wait_ready channel w
      in if \<not> ready then (False, m, ata_print_error channel (ata_print ''Error: Drive not ready\<newline>'' [] w))
         else let (status, w) = ata_read_register channel ATA_REG_STATUS w
              in if status AND ATA_SR_ERR \<noteq> 0
                 then (False, m, ata_print_error channel (ata_print ''Error occurred during read operation\<newline>'' [] w))
                 else let (ws, w) = in_sw (channel + ucast ATA_REG_DATA) 256 w
                      in read_loop channel buffer (Suc i) n (store_words (buffer + of_nat (i * 512)) ws m, w))"

definition ata_read_sectors :: "u8 \<Rightarrow> u64 \<Rightarrow> u16 \<Rightarrow> u64 \<Rightarrow> ata \<Rightarrow> bool \<times> ata" where
  "ata_read_sectors drive_index lba sector_count buffer s =
     (if \<not> valid_drive drive_index s then (False, s)
      else
        let di = drives s ! unat drive_index;
            channel = drive_channel drive_index;
            slave = drive_index mod 2;
            w = vm_io (ap_vm (at_apic s));
            w = ata_select_drive channel slave w;
            w = ata_address channel (needs_lba48 di lba) lba sector_count w;
            cmd = (if needs_lba48 di lba then ATA_CMD_READ_PIO_EXT else ATA_CMD_READ_PIO);
            w = ata_write_register channel ATA_REG_COMMAND cmd w;
            (ok, m, w) = read_loop channel buffer 0 (unat sector_count) (vm_mem (ap_vm (at_apic s)), w)
        in (ok, s\<lparr>at_apic := (at_apic s)\<lparr>ap_vm := (ap_vm (at_apic s))\<lparr>vm_mem := m, vm_io := w\<rparr>\<rparr>\<rparr>))"

section \<open>A controller that listens\<close>

text \<open>What the controller makes of the port accesses: every register of the task file remembers its last
  two values (a 48-bit address is written in two halves), a transfer command starts with the task file
  of that moment, and the words written after it are the data.\<close>

record controller =
  task_file :: "u16 \<Rightarrow> u8 \<times> u8"
  command :: u8
  started :: "u16 \<Rightarrow> u8 \<times> u8"
  received :: "u16 list list"

definition transfer_command :: "u8 \<Rightarrow> bool" where
  "transfer_command v \<longleftrightarrow> v = 0x20 \<or> v = 0x24 \<or> v = 0x30 \<or> v = 0x34"

fun controller_step :: "u16 \<Rightarrow> io_event \<Rightarrow> controller \<Rightarrow> controller" where
  "controller_step ch (Out8 p v) c =
     (if p - ch = 7 then
        if transfer_command v then c\<lparr>command := v, started := task_file c, received := []\<rparr> else c
      else if 1 \<le> p - ch \<and> p - ch \<le> 6 then
        c\<lparr>task_file := (task_file c)(p - ch := (v, fst (task_file c (p - ch))))\<rparr>
      else c)"
| "controller_step ch (OutWords p ws) c = (if p = ch then c\<lparr>received := received c @ [ws]\<rparr> else c)"
| "controller_step ch _ c = c"

text \<open>\<open>seen ch c w\<close>: the controller after everything that has happened in \<open>w\<close>.\<close>

definition seen :: "u16 \<Rightarrow> controller \<Rightarrow> io_world \<Rightarrow> controller" where
  "seen ch c w = fold (controller_step ch) (trace w) c"

definition task_lba :: "bool \<Rightarrow> (u16 \<Rightarrow> u8 \<times> u8) \<Rightarrow> u64" where
  "task_lba ext f =
     ucast (fst (f 3)) OR push_bit 8 (ucast (fst (f 4))) OR push_bit 16 (ucast (fst (f 5))) OR
     (if ext then push_bit 24 (ucast (snd (f 3))) OR push_bit 32 (ucast (snd (f 4))) OR push_bit 40 (ucast (snd (f 5)))
      else 0)"

definition task_count :: "bool \<Rightarrow> (u16 \<Rightarrow> u8 \<times> u8) \<Rightarrow> u16" where
  "task_count ext f = ucast (fst (f 2)) OR (if ext then push_bit 8 (ucast (snd (f 2))) else 0)"

lemma seen_simps [simp]:
  "seen ch c (out_b p v w) = controller_step ch (Out8 p v) (seen ch c w)"
  "seen ch c (out_sw p ws w) = controller_step ch (OutWords p ws) (seen ch c w)"
  "seen ch c (snd (in_b p w)) = seen ch c w"
  "seen ch c (snd (in_sw p n w)) = seen ch c w"
  "seen ch c (print_call s col as w) = seen ch c w"
  by (simp_all add: seen_def out_sw_def)

lemma out_sw_simps [simp]: "answer (out_sw p ws w) = answer w" "asked (out_sw p ws w) = asked w"
  by (simp_all add: out_sw_def)

lemma task_register [simp]:
  "reg < 8 \<Longrightarrow> ata_write_register ch reg v w = out_b (ch + ucast reg) v w"
  "reg < 8 \<Longrightarrow> ata_read_register ch reg w = in_b (ch + ucast reg) w"
proof -
  have "\<not> 7 < reg" if "reg < 8" using that by (simp add: word_less_nat_alt not_less)
  then show "reg < 8 \<Longrightarrow> ata_write_register ch reg v w = out_b (ch + ucast reg) v w"
    "reg < 8 \<Longrightarrow> ata_read_register ch reg w = in_b (ch + ucast reg) w"
    by (simp_all add: ata_write_register_def ata_read_register_def ata_high_bank_def ata_port_def)
qed

lemma high_register:
  assumes "reg \<in> {8, 9, 10, 11}"
  shows "ata_write_register ch reg v w = out_b (ch + (ucast reg - 6)) v (out_b ch (0x80 OR (reg - 8)) w)"
  using assms by (auto simp: ata_write_register_def ata_high_bank_def ata_port_def)

lemma byte_of: "(ucast (x AND 0xFF) :: u8) = ucast x" for x :: "'a::len word"
proof -
  have "x AND 0xFF = take_bit 8 x" by (simp only: take_bit_eq_mask mask_eq_exp_minus_1) simp
  then show ?thesis by (auto intro!: bit_word_eqI simp: bit_simps)
qed

definition put_register :: "u16 \<Rightarrow> u8 \<Rightarrow> controller \<Rightarrow> controller" where
  "put_register r v c = c\<lparr>task_file := (task_file c)(r := (v, fst (task_file c r)))\<rparr>"

lemma task_file_put [simp]:
  "task_file (put_register r v c) q = (if q = r then (v, fst (task_file c r)) else task_file c q)"
  by (simp add: put_register_def)

lemma step_put:
  "controller_step ch (Out8 (ch + 2) v) c = put_register 2 v c"
  "controller_step ch (Out8 (ch + 3) v) c = put_register 3 v c"
  "controller_step ch (Out8 (ch + 4) v) c = put_register 4 v c"
  "controller_step ch (Out8 (ch + 5) v) c = put_register 5 v c"
  "controller_step ch (Out8 (ch + 6) v) c = put_register 6 v c"
  "controller_step ch (Out8 ch v) c = c"
  by (simp_all add: put_register_def)

lemma step_command:
  "transfer_command v \<Longrightarrow> controller_step ch (Out8 (ch + 7) v) c = c\<lparr>command := v, started := task_file c, received := []\<rparr>"
  "\<not> transfer_command v \<Longrightarrow> controller_step ch (Out8 (ch + 7) v) c = c"
  by simp_all

text \<open>Bytes put together again.\<close>

lemma first_byte: "(ucast (ucast x :: u8) :: 'a::len word) = take_bit 8 x" for x :: "'a::len word"
  by (rule bit_word_eqI) (auto simp: bit_simps)

lemma join_byte:
  "take_bit k x OR push_bit k (ucast (ucast (drop_bit k x) :: u8)) = take_bit (k + 8) x" for x :: "'a::len word"
proof (rule bit_word_eqI)
  fix n assume "n < LENGTH('a)"
  then show "bit (take_bit k x OR push_bit k (ucast (ucast (drop_bit k x) :: u8))) n = bit (take_bit (k + 8) x) n"
    by (cases "n < k") (auto simp: bit_simps)
qed

text \<open>The task file when the command is written.\<close>

lemma address_seen:
  assumes "transfer_command cmd"
  shows "let c = seen ch con (ata_write_register ch 7 cmd (ata_address ch ext lba n (ata_select_drive ch slave w)))
    in command c = cmd \<and> received c = [] \<and>
       task_lba ext (started c) = take_bit (if ext then 48 else 24) lba \<and>
       task_count ext (started c) = take_bit (if ext then 16 else 8) n \<and>
       fst (started c 6) = 0xA0 OR push_bit 4 slave"
proof -
  let ?c = "seen ch con (ata_write_register ch 7 cmd (ata_address ch ext lba n (ata_select_drive ch slave w)))"
  have f: "command ?c = cmd \<and> received ?c = [] \<and> fst (started ?c 6) = 0xA0 OR push_bit 4 slave \<and>
      fst (started ?c 2) = ucast n \<and> fst (started ?c 3) = ucast lba \<and>
      fst (started ?c 4) = ucast (drop_bit 8 lba) \<and> fst (started ?c 5) = ucast (drop_bit 16 lba) \<and>
      (ext \<longrightarrow> snd (started ?c 2) = ucast (drop_bit 8 n) \<and> snd (started ?c 3) = ucast (drop_bit 24 lba) \<and>
         snd (started ?c 4) = ucast (drop_bit 32 lba) \<and> snd (started ?c 5) = ucast (drop_bit 40 lba))"
    using assms
    by (simp add: ata_address_def ata_select_drive_def Let_def high_register byte_of step_put step_command
        del: controller_step.simps)
  note j = join_byte[where 'a = 64, of 8 lba] join_byte[where 'a = 64, of 16 lba] join_byte[where 'a = 64, of 24 lba]
    join_byte[where 'a = 64, of 32 lba] join_byte[where 'a = 64, of 40 lba] join_byte[where 'a = 16, of 8 n]
  obtain c where c: "c = ?c" by blast
  have "task_lba ext (started c) = take_bit (if ext then 48 else 24) lba"
    using f j unfolding c[symmetric]
    by (cases ext) (simp_all add: task_lba_def first_byte flip: or.assoc)
  moreover have "task_count ext (started c) = take_bit (if ext then 16 else 8) n"
    using f j unfolding c[symmetric]
    by (cases ext) (simp_all add: task_count_def first_byte)
  ultimately show ?thesis using f unfolding c[symmetric] by (simp add: Let_def)
qed

section \<open>The loops\<close>

text \<open>An answer that is a ready status; a busy one.\<close>

definition says_ready :: "u64 \<Rightarrow> bool" where
  "says_ready v \<longleftrightarrow> \<not> bit v 7 \<and> bit v 6"

lemma status_bits:
  fixes v :: u8
  shows "v AND 0x80 = 0 \<longleftrightarrow> \<not> bit v 7" "v AND 0x40 = 0 \<longleftrightarrow> \<not> bit v 6" "v AND 8 = 0 \<longleftrightarrow> \<not> bit v 3"
    "v AND 1 = 0 \<longleftrightarrow> \<not> bit v 0"
  using and_exp_eq_0_iff_not_bit[of v 7] and_exp_eq_0_iff_not_bit[of v 6] and_exp_eq_0_iff_not_bit[of v 3]
    and_exp_eq_0_iff_not_bit[of v 0] by simp_all

lemma ata_poll_now:
  "0 < n \<Longrightarrow> says_ready (answer w (asked w)) \<Longrightarrow> ata_poll ch n w = (True, snd (in_b (ch + 7) w))"
  by (cases n) (auto simp: Let_def split_beta status_bits says_ready_def bit_simps)

lemma ata_wait_ready_now:
  "says_ready (answer w (asked w)) \<Longrightarrow> ata_wait_ready ch w = (True, snd (in_b (ch + 7) w))"
  by (simp add: ata_wait_ready_def ata_poll_now)

lemma ata_poll_busy:
  "(\<And>i. i < n \<Longrightarrow> bit (answer w (asked w + i)) 7) \<Longrightarrow> \<exists>w'. ata_poll ch n w = (False, w') \<and>
     answer w' = answer w \<and> asked w' = asked w + n"
proof (induction n arbitrary: w)
  case (Suc n)
  let ?w = "snd (in_b (ch + 7) w)"
  have "bit (answer w (asked w)) 7" using Suc.prems[of 0] by simp
  then have "ata_poll ch (Suc n) w = ata_poll ch n ?w"
    by (simp add: Let_def split_beta status_bits bit_simps)
  moreover have "bit (answer ?w (asked ?w + i)) 7" if "i < n" for i
    using Suc.prems[of "Suc i"] that by simp
  ultimately show ?case using Suc.IH[of ?w] by auto
qed simp

lemma flush_seen:
  assumes "\<And>i. says_ready (answer w i)"
  shows "let w' = snd (ata_wait_ready ch (ata_write_register ch 7 0xE7 w))
    in answer w' = answer w \<and> seen ch c w' = seen ch c w"
  using assms by (simp add: ata_wait_ready_now step_command transfer_command_def Let_def del: controller_step.simps)

lemma write_loop_seen:
  assumes "\<And>i. says_ready (answer w i)" and "\<And>i. bit (answer w i) 3"
  shows "\<exists>w'. write_loop ch sata buf cnt m i n w = (True, w') \<and> seen ch c w' = (seen ch c w)
    \<lparr>received := received (seen ch c w) @ map (\<lambda>k. sector_words m (buf + of_nat (k * 512))) [i..<i + n]\<rparr>"
  using assms
proof (induction n arbitrary: i w)
  case (Suc n)
  let ?w1 = "snd (in_b (ch + 7) w)"
  let ?w2 = "out_sw ch (sector_words m (buf + of_nat (i * 512))) (snd (in_b (ch + 7) ?w1))"
  let ?w3 = "if i = unat cnt - 1 \<or> sata then snd (ata_wait_ready ch (ata_write_register ch 7 0xE7 ?w2)) else ?w2"
  have run: "write_loop ch sata buf cnt m i (Suc n) w = write_loop ch sata buf cnt m (Suc i) n ?w3"
    using Suc.prems by (simp add: ata_wait_ready_now Let_def split_beta status_bits bit_simps)
  have w3: "answer ?w3 = answer w" "seen ch c ?w3 = (seen ch c w)
      \<lparr>received := received (seen ch c w) @ [sector_words m (buf + of_nat (i * 512))]\<rparr>"
    using flush_seen[of ?w2 ch c] Suc.prems(1) by (auto simp: Let_def)
  have l: "[i..<i + Suc n] = i # [Suc i..<Suc i + n]" by (simp add: upt_conv_Cons)
  show ?case
    unfolding run l using Suc.IH[of ?w3 "Suc i"] Suc.prems w3 by simp
qed simp

text \<open>The words of the \<open>k\<close>-th sector: after two status reads each.\<close>

definition sector_data :: "(nat \<Rightarrow> u64) \<Rightarrow> nat \<Rightarrow> nat \<Rightarrow> u16 list" where
  "sector_data ans a k = map (\<lambda>j. ucast (ans (a + 258 * k + 2 + j))) [0..<256]"

lemma in_sw_data: "fst (in_sw p 256 w) = map (\<lambda>j. ucast (answer w (asked w + j))) [0..<256]"
  by (rule nth_equalityI) (simp_all add: in_sw_def Let_def split_beta ask_words_nth)

lemma read_loop_data:
  assumes "\<And>k. k < n \<Longrightarrow> says_ready (answer w (asked w + 258 * k)) \<and> \<not> bit (answer w (asked w + 258 * k + 1)) 0"
  shows "\<exists>w'. read_loop ch buf i n (m, w) = (True,
      fold (\<lambda>k. store_words (buf + of_nat ((i + k) * 512)) (sector_data (answer w) (asked w) k)) [0..<n] m, w') \<and>
    seen ch c w' = seen ch c w"
  using assms
proof (induction n arbitrary: i m w)
  case (Suc n)
  let ?w1 = "snd (in_b (ch + 7) (snd (in_b (ch + 7) w)))" and ?m = "store_words (buf + of_nat (i * 512))"
  let ?w2 = "snd (in_sw ch 256 ?w1)"
  have ready: "says_ready (answer w (asked w))" "\<not> bit (answer w (Suc (asked w))) 0" using Suc.prems[of 0] by simp_all
  have data: "fst (in_sw ch 256 ?w1) = sector_data (answer w) (asked w) 0"
    by (simp add: in_sw_data sector_data_def)
  have run: "read_loop ch buf i (Suc n) (m, w) = read_loop ch buf (Suc i) n (?m (sector_data (answer w) (asked w) 0) m, ?w2)"
    using ready data by (simp add: ata_wait_ready_now Let_def split_beta status_bits bit_simps)
  have w2: "answer ?w2 = answer w" "asked ?w2 = asked w + 258" "seen ch c ?w2 = seen ch c w" by simp_all
  have shift: "sector_data (answer w) (asked w + 258) k = sector_data (answer w) (asked w) (Suc k)" for k
    by (simp add: sector_data_def algebra_simps)
  have "says_ready (answer ?w2 (asked ?w2 + 258 * k)) \<and> \<not> bit (answer ?w2 (asked ?w2 + 258 * k + 1)) 0" if "k < n" for k
    using Suc.prems[of "Suc k"] that unfolding w2 by (simp add: algebra_simps)
  note IH = Suc.IH[of ?w2, OF this, of "Suc i" "?m (sector_data (answer w) (asked w) 0) m"]
  have l: "[0..<Suc n] = 0 # map Suc [0..<n]" by (simp add: upt_conv_Cons map_Suc_upt del: upt_Suc)
  show ?case
    unfolding run l using IH unfolding w2 shift by (simp add: fold_map comp_def add_ac)
qed simp

section \<open>Sectors in memory\<close>

lemma length_word_bytes [simp]: "length (concat (map (bytes_of 2) ws)) = 2 * length ws" for ws :: "u16 list"
  by (induction ws) auto

lemma word_bytes_nth:
  "k < length ws \<Longrightarrow> b < 2 \<Longrightarrow> concat (map (bytes_of 2) ws) ! (2 * k + b) = bytes_of 2 (ws ! k) ! b" for ws :: "u16 list"
proof (induction ws arbitrary: k)
  case (Cons v ws)
  then show ?case by (cases k) (auto simp: nth_append)
qed simp

lemma unat_sub_cases:
  "unat (y - z) = (if unat z \<le> unat y then unat y - unat z else 2 ^ 64 + unat y - unat z)" for y z :: u64
  by (subst unat_sub_if_size) (auto simp: word_size)

text \<open>Storing sectors one after another.\<close>

definition store_sectors :: "u64 \<Rightarrow> (nat \<Rightarrow> u16 list) \<Rightarrow> nat \<Rightarrow> memory \<Rightarrow> memory" where
  "store_sectors buf d n m = fold (\<lambda>k. store_words (buf + of_nat (k * 512)) (d k)) [0..<n] m"

lemma store_sectors_at:
  assumes "n \<le> 65536" and "\<And>k. length (d k) = 256"
  shows "store_sectors buf d n m x =
    (if unat (x - buf) < 512 * n
     then concat (map (bytes_of 2) (d (unat (x - buf) div 512))) ! (unat (x - buf) mod 512) else m x)"
  using assms(1)
proof (induction n)
  case (Suc n)
  let ?o = "of_nat (n * 512) :: u64"
  have o: "unat ?o = n * 512" using Suc.prems by (intro unat_of_nat_less) simp
  have "store_sectors buf d (Suc n) m x =
      (if unat (x - buf - ?o) < 512 then concat (map (bytes_of 2) (d n)) ! unat (x - buf - ?o) else store_sectors buf d n m x)"
    by (simp add: store_sectors_def store_words_def write_bytes_at assms(2) diff_diff_eq)
  moreover have "unat (x - buf - ?o) = (if n * 512 \<le> unat (x - buf) then unat (x - buf) - n * 512
      else 2 ^ 64 + unat (x - buf) - n * 512)"
    using unat_sub_cases[of "x - buf" ?o] unfolding o .
  moreover have "unat (x - buf) div 512 = n" "unat (x - buf) mod 512 = unat (x - buf) - n * 512"
    if "n * 512 \<le> unat (x - buf)" "unat (x - buf) < 512 * Suc n"
  proof -
    have "unat (x - buf) = n * 512 + (unat (x - buf) - n * 512)" "unat (x - buf) - n * 512 < 512" using that by simp_all
    then show "unat (x - buf) div 512 = n" "unat (x - buf) mod 512 = unat (x - buf) - n * 512"
      by (metis div_mult_self3 div_less add_0_right zero_neq_numeral, metis mod_mult_self3 mod_less)
  qed
  ultimately show ?case using Suc by auto
qed (simp add: store_sectors_def)

lemma store_sectors_words:
  assumes "n \<le> 65536" and "\<And>k. length (d k) = 256" and "k < n"
  shows "sector_words (store_sectors buf d n m) (buf + of_nat (k * 512)) = d k"
proof (rule nth_equalityI)
  show "length (sector_words (store_sectors buf d n m) (buf + of_nat (k * 512))) = length (d k)"
    by (simp add: sector_words_def assms(2))
  fix j assume "j < length (sector_words (store_sectors buf d n m) (buf + of_nat (k * 512)))"
  then have j: "j < 256" by (simp add: sector_words_def)
  have byte: "store_sectors buf d n m (buf + of_nat (k * 512) + of_nat (2 * j) + of_nat b) = bytes_of 2 (d k ! j) ! b" if "b < 2" for b
  proof -
    let ?o = "k * 512 + (2 * j + b)"
    have lt: "?o < 512 * n" using assms(3) j that by simp
    then have "unat (of_nat ?o :: u64) = ?o" using assms(1) by (intro unat_of_nat_less) simp
    moreover have "?o div 512 = k" "?o mod 512 = 2 * j + b" using j that by auto
    moreover have "buf + of_nat (k * 512) + of_nat (2 * j) + of_nat b = buf + of_nat ?o" by (simp add: add.assoc)
    ultimately show ?thesis
      using lt word_bytes_nth[of j "d k" b] j that assms(2)
      by (simp only: store_sectors_at[OF assms(1,2)] add_diff_cancel_left' if_True)
  qed
  have "read_bytes (store_sectors buf d n m) (buf + of_nat (k * 512) + of_nat (2 * j)) 2 = bytes_of 2 (d k ! j)"
    by (rule nth_equalityI) (use byte in simp_all)
  then show "sector_words (store_sectors buf d n m) (buf + of_nat (k * 512)) ! j = d k ! j"
    using j by (simp add: sector_words_def load16_def word_of_bytes_of)
qed

section \<open>Properties\<close>

abbreviation at_answer :: "ata \<Rightarrow> nat \<Rightarrow> u64" where "at_answer s \<equiv> ap_answer (at_apic s)"
abbreviation at_asked :: "ata \<Rightarrow> nat" where "at_asked s \<equiv> ap_asked (at_apic s)"
abbreviation at_io :: "ata \<Rightarrow> io_world" where "at_io s \<equiv> vm_io (ap_vm (at_apic s))"
abbreviation at_mem :: "ata \<Rightarrow> memory" where "at_mem s \<equiv> vm_mem (ap_vm (at_apic s))"

lemma set_up_simps [simp]:
  "answer (ata_select_drive ch d w) = answer w" "asked (ata_select_drive ch d w) = asked w"
  "answer (ata_address ch ext lba n w) = answer w" "asked (ata_address ch ext lba n w) = asked w"
  by (simp_all add: ata_select_drive_def ata_address_def Let_def high_register)

text \<open>C17: Writing sectors. For a present drive that answers every poll with ready and data request,
  \<open>ata_write_sectors\<close> succeeds, and the controller of the drive's channel received: the write command
  that fits the addressing mode, the drive's bit, the sector count and the first sector cut to 8 and
  24 bits in the short mode (an address from \<open>2 ^ 24\<close> on loses its top bits) and to 16 and 48 bits in
  the long mode, and as data exactly the buffer's sectors, in order.\<close>

theorem write_reaches_drive:
  assumes "valid_drive i s" and "\<forall>k. says_ready (at_answer s k)" and "\<forall>k. bit (at_answer s k) 3"
  shows "let (ok, s') = ata_write_sectors i lba n buf s; c = seen (drive_channel i) con (at_io s');
      ext = needs_lba48 (drives s ! unat i) lba
    in ok \<and> command c = (if ext then ATA_CMD_WRITE_PIO_EXT else ATA_CMD_WRITE_PIO) \<and>
       task_lba ext (started c) = take_bit (if ext then 48 else 24) lba \<and>
       task_count ext (started c) = take_bit (if ext then 16 else 8) n \<and>
       fst (started c 6) = 0xA0 OR push_bit 4 (i mod 2) \<and>
       received c = map (\<lambda>k. sector_words (at_mem s) (buf + of_nat (k * 512))) [0..<unat n]"
proof -
  let ?ext = "needs_lba48 (drives s ! unat i) lba" and ?ch = "drive_channel i"
  let ?cmd = "if ?ext then ATA_CMD_WRITE_PIO_EXT else ATA_CMD_WRITE_PIO"
  let ?w = "ata_write_register ?ch 7 ?cmd (ata_address ?ch ?ext lba n (ata_select_drive ?ch (i mod 2) (at_io s)))"
  have cmd: "transfer_command ?cmd"
    by (simp add: transfer_command_def ATA_CMD_WRITE_PIO_EXT_def ATA_CMD_WRITE_PIO_def)
  have "answer ?w = at_answer s" by simp
  then have "\<And>k. says_ready (answer ?w k)" "\<And>k. bit (answer ?w k) 3" using assms(2,3) by simp_all
  from write_loop_seen[OF this, of ?ch "is_sata (drives s ! unat i)" buf n "at_mem s" 0 "unat n" con]
  obtain w' where w': "write_loop ?ch (is_sata (drives s ! unat i)) buf n (at_mem s) 0 (unat n) ?w = (True, w')"
    "seen ?ch con w' = (seen ?ch con ?w)
       \<lparr>received := received (seen ?ch con ?w) @ map (\<lambda>k. sector_words (at_mem s) (buf + of_nat (k * 512))) [0..<unat n]\<rparr>"
    unfolding add_0 by blast
  have res: "ata_write_sectors i lba n buf s = (True, s\<lparr>at_apic := do_io (\<lambda>_. w') (at_apic s)\<rparr>)"
    using assms(1) w'(1) unfolding ata_write_sectors_def Let_def by simp
  show ?thesis
    using address_seen[OF cmd, of ?ch con ?ext lba n "i mod 2" "at_io s"] w'(2)
    unfolding res Let_def prod.case by simp
qed

text \<open>A present drive, 8192 sectors, whose port always answers \<open>v\<close>.\<close>

definition sample_ata :: "u64 \<Rightarrow> ata" where
  "sample_ata v = \<lparr>at_apic = sample_apic v,
     drives = [no_drive\<lparr>present := True, capacity := 8192\<rparr>, no_drive, no_drive, no_drive]\<rparr>"

definition idle_controller :: controller where
  "idle_controller = \<lparr>task_file = (\<lambda>_. (0, 0)), command = 0, started = (\<lambda>_. (0, 0)), received = []\<rparr>"

lemma sample_ata_simps:
  "valid_drive 0 (sample_ata v)" "at_answer (sample_ata v) = (\<lambda>_. v)" "at_asked (sample_ata v) = 0"
  "needs_lba48 (drives (sample_ata v) ! 0) 5 = False" "drive_channel 0 = ATA_PRIMARY_DATA"
  by (simp_all add: valid_drive_def sample_ata_def MAX_DRIVES_def sample_apic_def needs_lba48_def drive_channel_def no_drive_def)

theorem write_reaches_drive_witness:
  "let (ok, s') = ata_write_sectors 0 5 2 0x1000 (sample_ata 0x48); c = seen ATA_PRIMARY_DATA idle_controller (at_io s')
   in ok \<and> command c = 0x30 \<and> task_lba False (started c) = 5 \<and>
      received c = [sector_words (at_mem (sample_ata 0x48)) 0x1000, sector_words (at_mem (sample_ata 0x48)) 0x1200]"
proof -
  have r: "\<forall>k. says_ready (at_answer (sample_ata 0x48) k)" "\<forall>k. bit (at_answer (sample_ata 0x48) k) 3"
    by (simp_all add: sample_ata_simps says_ready_def)
  from write_reaches_drive[OF sample_ata_simps(1) r, where lba = 5 and n = 2 and buf = "0x1000" and con = idle_controller]
  show ?thesis by (simp add: sample_ata_simps Let_def split_beta ATA_CMD_WRITE_PIO_def upt_rec)
qed

text \<open>C18: Reading sectors. When the drive is ready at every status poll and reports no error before each
  sector, \<open>ata_read_sectors\<close> succeeds, the controller was given the read command and the sector address
  and count of the addressing mode, and the buffer holds exactly the words the drive delivered, sector
  by sector; every byte outside of the buffer is unchanged.\<close>

theorem read_fills_buffer:
  assumes "valid_drive i s"
    and "\<forall>k<unat n. says_ready (at_answer s (at_asked s + 258 * k)) \<and> \<not> bit (at_answer s (at_asked s + 258 * k + 1)) 0"
  shows "let (ok, s') = ata_read_sectors i lba n buf s; c = seen (drive_channel i) con (at_io s');
      ext = needs_lba48 (drives s ! unat i) lba
    in ok \<and> command c = (if ext then ATA_CMD_READ_PIO_EXT else ATA_CMD_READ_PIO) \<and>
       task_lba ext (started c) = take_bit (if ext then 48 else 24) lba \<and>
       task_count ext (started c) = take_bit (if ext then 16 else 8) n \<and>
       (\<forall>k<unat n. sector_words (at_mem s') (buf + of_nat (k * 512)) = sector_data (at_answer s) (at_asked s) k) \<and>
       (\<forall>x. 512 * unat n \<le> unat (x - buf) \<longrightarrow> at_mem s' x = at_mem s x)"
proof -
  let ?ext = "needs_lba48 (drives s ! unat i) lba" and ?ch = "drive_channel i"
  let ?cmd = "if ?ext then ATA_CMD_READ_PIO_EXT else ATA_CMD_READ_PIO"
  let ?w = "ata_write_register ?ch 7 ?cmd (ata_address ?ch ?ext lba n (ata_select_drive ?ch (i mod 2) (at_io s)))"
  let ?m = "store_sectors buf (sector_data (at_answer s) (at_asked s)) (unat n) (at_mem s)"
  have cmd: "transfer_command ?cmd"
    by (simp add: transfer_command_def ATA_CMD_READ_PIO_EXT_def ATA_CMD_READ_PIO_def)
  have w: "answer ?w = at_answer s" "asked ?w = at_asked s" by simp_all
  have "says_ready (answer ?w (asked ?w + 258 * k)) \<and> \<not> bit (answer ?w (asked ?w + 258 * k + 1)) 0" if "k < unat n" for k
    using assms(2) that unfolding w by blast
  from read_loop_data[OF this, of "unat n" ?ch buf 0 "at_mem s" con] obtain w' where
    w': "read_loop ?ch buf 0 (unat n) (at_mem s, ?w) = (True, ?m, w')" "seen ?ch con w' = seen ?ch con ?w"
    unfolding w by (auto simp: store_sectors_def)
  have res: "ata_read_sectors i lba n buf s =
      (True, s\<lparr>at_apic := (at_apic s)\<lparr>ap_vm := (ap_vm (at_apic s))\<lparr>vm_mem := ?m, vm_io := w'\<rparr>\<rparr>\<rparr>)"
    using assms(1) w'(1) unfolding ata_read_sectors_def Let_def by simp
  have n: "unat n \<le> 65536" using unsigned_less[of n, where 'a = nat] by simp
  have len: "length (sector_data (at_answer s) (at_asked s) k) = 256" for k by (simp add: sector_data_def)
  have buf: "\<forall>k<unat n. sector_words ?m (buf + of_nat (k * 512)) = sector_data (at_answer s) (at_asked s) k"
    using store_sectors_words[of "unat n" "sector_data (at_answer s) (at_asked s)", OF n len] by blast
  have out: "\<forall>x. 512 * unat n \<le> unat (x - buf) \<longrightarrow> ?m x = at_mem s x"
    using store_sectors_at[of "unat n" "sector_data (at_answer s) (at_asked s)" buf "at_mem s", OF n len] by simp
  show ?thesis
    using address_seen[OF cmd, of ?ch con ?ext lba n "i mod 2" "at_io s"] w'(2) buf out
    unfolding res Let_def prod.case by simp
qed

theorem read_fills_buffer_witness:
  "let (ok, s') = ata_read_sectors 0 5 1 0x1000 (sample_ata 0x40); c = seen ATA_PRIMARY_DATA idle_controller (at_io s')
   in ok \<and> command c = 0x20 \<and> task_lba False (started c) = 5 \<and> at_mem s' 0x1200 = at_mem (sample_ata 0x40) 0x1200"
proof -
  have r: "\<forall>k<unat (1 :: u16). says_ready (at_answer (sample_ata 0x40) (at_asked (sample_ata 0x40) + 258 * k)) \<and>
      \<not> bit (at_answer (sample_ata 0x40) (at_asked (sample_ata 0x40) + 258 * k + 1)) 0"
    by (simp add: sample_ata_simps says_ready_def)
  from read_fills_buffer[OF sample_ata_simps(1) r, where lba = 5 and buf = "0x1000" and con = idle_controller]
  show ?thesis by (simp add: sample_ata_simps Let_def split_beta ATA_CMD_READ_PIO_def)
qed

text \<open>C28: Disk errors. A transfer on a drive number out of range or a drive that is not present fails
  without any port access. When the drive stays busy, a transfer of at least one sector fails after
  1000 polls, with memory as it was; the read then also reads the error register.\<close>

theorem transfer_errors:
  "(\<not> valid_drive i s \<longrightarrow> ata_read_sectors i lba n buf s = (False, s) \<and> ata_write_sectors i lba n buf s = (False, s)) \<and>
   (valid_drive i s \<and> n \<noteq> 0 \<and> (\<forall>k<1000. bit (at_answer s (at_asked s + k)) 7) \<longrightarrow>
     (let (ok, s') = ata_read_sectors i lba n buf s
      in \<not> ok \<and> at_mem s' = at_mem s \<and> drives s' = drives s \<and> at_asked s' = at_asked s + 1001) \<and>
     (let (ok, s') = ata_write_sectors i lba n buf s
      in \<not> ok \<and> at_mem s' = at_mem s \<and> drives s' = drives s \<and> at_asked s' = at_asked s + 1000))"
proof (intro conjI impI)
  assume v: "valid_drive i s \<and> n \<noteq> 0 \<and> (\<forall>k<1000. bit (at_answer s (at_asked s + k)) 7)"
  let ?ext = "needs_lba48 (drives s ! unat i) lba" and ?ch = "drive_channel i"
  let ?w = "\<lambda>cmd. ata_write_register ?ch 7 cmd (ata_address ?ch ?ext lba n (ata_select_drive ?ch (i mod 2) (at_io s)))"
  obtain k where k: "unat n = Suc k" using v by (metis not0_implies_Suc unat_eq_zero)
  have "\<exists>w'. ata_wait_ready ?ch (?w cmd) = (False, w') \<and> asked w' = at_asked s + 1000" for cmd
    using ata_poll_busy[of 1000 "?w cmd" ?ch] v unfolding ata_wait_ready_def by auto
  then obtain f where f: "ata_wait_ready ?ch (?w cmd) = (False, f cmd)" "asked (f cmd) = at_asked s + 1000" for cmd
    by metis
  have err: "asked (ata_print_error ?ch (ata_print t [] w)) = Suc (asked w)" for t w
    by (simp add: ata_print_error_def ata_print_def Let_def split_beta)
  show "let (ok, s') = ata_read_sectors i lba n buf s
      in \<not> ok \<and> at_mem s' = at_mem s \<and> drives s' = drives s \<and> at_asked s' = at_asked s + 1001"
    using v f err by (simp add: ata_read_sectors_def Let_def k split_beta del: task_register)
  show "let (ok, s') = ata_write_sectors i lba n buf s
      in \<not> ok \<and> at_mem s' = at_mem s \<and> drives s' = drives s \<and> at_asked s' = at_asked s + 1000"
    using v f by (simp add: ata_write_sectors_def Let_def k split_beta do_io_def del: task_register)
qed (simp_all add: ata_read_sectors_def ata_write_sectors_def)

theorem transfer_errors_witness:
  "fst (ata_read_sectors 9 5 1 0x1000 (sample_ata 0)) = False \<and>
   at_asked (snd (ata_read_sectors 0 5 1 0x1000 (sample_ata 0x80))) = 1001"
proof -
  have "\<not> valid_drive 9 (sample_ata 0)" by (simp add: valid_drive_def MAX_DRIVES_def)
  moreover have "valid_drive 0 (sample_ata 0x80) \<and> (1 :: u16) \<noteq> 0 \<and>
      (\<forall>k<1000. bit (at_answer (sample_ata 0x80) (at_asked (sample_ata 0x80) + k)) 7)"
    by (simp add: sample_ata_simps)
  ultimately show ?thesis
    using transfer_errors[of 9 "sample_ata 0" 5 1 "0x1000"] transfer_errors[of 0 "sample_ata 0x80" 5 1 "0x1000"]
    by (simp add: Let_def split_beta sample_ata_simps(3))
qed

end
