(* ===== verification/Snake.thy ===== *)
theory Snake
  imports Keyboard Display
begin

text \<open>
  The snake game, \<^verbatim>\<open>logos/snake.c\<close>. Coordinates are \<^verbatim>\<open>int\<close>, compared as signed numbers; the array of
  \<^verbatim>\<open>WIDTH * HEIGHT\<close> points is a function of the index. The property bounds its use. A run takes what
  each look at the keyboard finds as a stream; the loop is partial, as \<open>sleep\<close> is.
\<close>

section \<open>State\<close>

definition WIDTH :: u32 where "WIDTH = 80"
definition HEIGHT :: u32 where "HEIGHT = 60"
definition PIXEL_SIZE :: u32 where "PIXEL_SIZE = 10"

record point =
  px :: u32
  py :: u32

datatype direction = UP | DOWN | LEFT | RIGHT

record game =
  sg_apic :: apic
  sg_disp :: display
  snake :: "nat \<Rightarrow> point"
  snake_length :: u32
  food :: point
  dir :: direction
  seed :: u32

section \<open>Operations\<close>

definition spawn_food :: "game \<Rightarrow> game" where
  "spawn_food s =
     (let s = s\<lparr>seed := (seed s * 1103515245 + 12345) AND 0x7fffffff\<rparr>
      in s\<lparr>food := \<lparr>px = seed s mod WIDTH, py = (seed s div WIDTH) mod HEIGHT\<rparr>\<rparr>)"

definition init_game :: "game \<Rightarrow> game" where
  "init_game s =
     (let s = s\<lparr>snake_length := 2\<rparr>;
          s = s\<lparr>snake := (snake s)(0 := \<lparr>px = WIDTH div 2, py = HEIGHT div 2\<rparr>)\<rparr>;
          s = s\<lparr>dir := RIGHT\<rparr>
      in spawn_food s)"

definition draw_cell :: "screen \<Rightarrow> point \<Rightarrow> u32 \<Rightarrow> display \<Rightarrow> display" where
  "draw_cell sc p color =
     fold (\<lambda>y. fold (\<lambda>x. put_pixel sc (px p * PIXEL_SIZE + of_nat x) (py p * PIXEL_SIZE + of_nat y) color)
       [0..<unat PIXEL_SIZE]) [0..<unat PIXEL_SIZE]"

definition draw_game :: "screen \<Rightarrow> game \<Rightarrow> game" where
  "draw_game sc s =
     (let d = fold (\<lambda>y. fold (\<lambda>x. put_pixel sc (of_nat x) (of_nat y) 0xffffae) [1..<unat (WIDTH * PIXEL_SIZE - 1)])
            [1..<unat (HEIGHT * PIXEL_SIZE - 1)] (sg_disp s);
          d = fold (\<lambda>i. draw_cell sc (snake s i) 0x00FF00) [0..<nat (sint (snake_length s))] d;
          d = draw_cell sc (food s) 0xFF0000 d
      in s\<lparr>sg_disp := d\<rparr>)"

definition next_head :: "game \<Rightarrow> point" where
  "next_head s =
     (let new_head = snake s 0
      in case dir s of
           UP \<Rightarrow> new_head\<lparr>py := py new_head - 1\<rparr>
         | DOWN \<Rightarrow> new_head\<lparr>py := py new_head + 1\<rparr>
         | LEFT \<Rightarrow> new_head\<lparr>px := px new_head - 1\<rparr>
         | RIGHT \<Rightarrow> new_head\<lparr>px := px new_head + 1\<rparr>)"

definition shift_snake :: "nat \<Rightarrow> (nat \<Rightarrow> point) \<Rightarrow> nat \<Rightarrow> point" where
  "shift_snake n a = fold (\<lambda>i a. a(i := a (i - 1))) (rev [1..<n]) a"

definition update_game :: "game \<Rightarrow> bool \<times> game" where
  "update_game s =
     (let new_head = next_head s; n = nat (sint (snake_length s))
      in if sint (px new_head) < 0 \<or> sint WIDTH \<le> sint (px new_head) \<or> sint (py new_head) < 0 \<or> sint HEIGHT \<le> sint (py new_head)
         then (False, s)
         else if list_ex (\<lambda>i. px (snake s i) = px new_head \<and> py (snake s i) = py new_head) [0..<n] then (False, s)
         else
           let s = s\<lparr>snake := (shift_snake n (snake s))(0 := new_head)\<rparr>;
               s = (if px new_head = px (food s) \<and> py new_head = py (food s)
                    then spawn_food (s\<lparr>snake_length := snake_length s + 1\<rparr>) else s)
           in (True, s))"

definition turn :: "u8 \<Rightarrow> game \<Rightarrow> game" where
  "turn input s =
     (if input = 119 \<or> input = 87 then if dir s \<noteq> DOWN then s\<lparr>dir := UP\<rparr> else s
      else if input = 115 \<or> input = 83 then if dir s \<noteq> UP then s\<lparr>dir := DOWN\<rparr> else s
      else if input = 97 \<or> input = 65 then if dir s \<noteq> RIGHT then s\<lparr>dir := LEFT\<rparr> else s
      else if input = 100 \<or> input = 68 then if dir s \<noteq> LEFT then s\<lparr>dir := RIGHT\<rparr> else s
      else s)"

text \<open>One round up to the call of \<open>sleep\<close>; the flag tells whether the game goes on.\<close>

definition snake_round :: "screen \<Rightarrow> u8 \<Rightarrow> game \<Rightarrow> bool \<times> game" where
  "snake_round sc input s =
     (let s = draw_game sc s
      in if input = 113 then (False, s) else update_game (turn input s))"

partial_function (option) snake_loop :: "screen \<Rightarrow> (nat \<Rightarrow> u8) \<Rightarrow> nat \<Rightarrow> game \<Rightarrow> game option" where
  "snake_loop sc keys n s =
     (let (go, s) = snake_round sc (keys n) s
      in if go then do { a \<leftarrow> sleep 100 (sg_apic s); snake_loop sc keys (Suc n) (s\<lparr>sg_apic := a\<rparr>) }
         else Some s)"

definition run_snake_game :: "screen \<Rightarrow> (nat \<Rightarrow> u8) \<Rightarrow> game \<Rightarrow> game option" where
  "run_snake_game sc keys s = snake_loop sc keys 0 (init_game s)"

section \<open>The board\<close>

definition on_board :: "point \<Rightarrow> bool" where
  "on_board p \<longleftrightarrow> unat (px p) < 80 \<and> unat (py p) < 60"

text \<open>All cells but the last are different cells of the board; the last one may be stale: it was not
  written when the snake grew.\<close>

definition snake_ok :: "game \<Rightarrow> bool" where
  "snake_ok s \<longleftrightarrow> (let n = unat (snake_length s)
     in 2 \<le> n \<and> n \<le> 4801 \<and> on_board (food s) \<and> (\<forall>i<n - 1. on_board (snake s i)) \<and> inj_on (snake s) {..<n - 1})"

lemma on_board_spawn [simp]: "on_board (food (spawn_food s))"
  by (simp add: on_board_def spawn_food_def Let_def WIDTH_def HEIGHT_def unat_mod)

lemma spawn_food_simps [simp]:
  "snake (spawn_food s) = snake s" "snake_length (spawn_food s) = snake_length s"
  by (simp_all add: spawn_food_def Let_def)

text \<open>The board has 4800 cells.\<close>

lemma board_cells:
  fixes n :: nat
  assumes "inj_on a {..<n}" and "\<And>i. i < n \<Longrightarrow> on_board (a i)"
  shows "n \<le> 4800"
proof -
  let ?f = "\<lambda>p :: point. (unat (px p), unat (py p))"
  have inj: "inj_on (\<lambda>i. ?f (a i)) {..<n}"
  proof (rule inj_onI)
    fix i j assume ij: "i \<in> {..<n}" "j \<in> {..<n}" "?f (a i) = ?f (a j)"
    then have "a i = a j" by (simp add: word_unat_eq_iff)
    with assms(1) ij show "i = j" by (auto dest: inj_onD)
  qed
  have "(\<lambda>i. ?f (a i)) ` {..<n} \<subseteq> {..<80} \<times> {..<60}" using assms(2) by (auto simp: on_board_def)
  from card_inj_on_le[OF inj this] show ?thesis by simp
qed

lemma shift_snake_at:
  "shift_snake n a i = (if 1 \<le> i \<and> i < n then a (i - 1) else a i)"
proof (induction n arbitrary: a)
  case (Suc n)
  show ?case
  proof (cases "n = 0")
    case False
    then have "rev [1..<Suc n] = n # rev [1..<n]" by simp
    then have step: "shift_snake (Suc n) a = shift_snake n (a(n := a (n - 1)))"
      by (simp add: shift_snake_def)
    show ?thesis unfolding step Suc.IH using False by (auto simp: less_Suc_eq)
  qed (simp add: shift_snake_def)
qed (simp add: shift_snake_def)

text \<open>A round that moves: the length allows one more move, and before the snake grows all of its cells are
  different cells of the board.\<close>

definition whole :: "(nat \<Rightarrow> point) \<Rightarrow> nat \<Rightarrow> bool" where
  "whole a n \<longleftrightarrow> (\<forall>i<n. on_board (a i)) \<and> inj_on a {..<n}"

lemma moved_head:
  assumes "fst (update_game s)"
  shows "on_board (next_head s)" and "i < nat (sint (snake_length s)) \<Longrightarrow> snake s i \<noteq> next_head s"
proof -
  let ?h = "next_head s"
  have head: "\<not> sint (px ?h) < 0" "\<not> 80 \<le> sint (px ?h)" "\<not> sint (py ?h) < 0" "\<not> 60 \<le> sint (py ?h)"
    using assms by (auto simp: update_game_def Let_def WIDTH_def HEIGHT_def split: if_splits)
  have small: "\<not> sint v < 0 \<Longrightarrow> \<not> k \<le> sint v \<Longrightarrow> int (unat v) < k" for v :: u32 and k
    using unsigned_less[of v, where 'a = int] by (simp add: sint_u32 split: if_splits)
  show "on_board ?h" using small[OF head(1,2)] small[OF head(3,4)] unfolding on_board_def by linarith
  show "snake s i \<noteq> ?h" if "i < nat (sint (snake_length s))"
    using assms that by (auto simp: update_game_def Let_def list_ex_iff split: if_splits) (metis atLeastLessThan_iff zero_le)
qed

lemma moved_cells:
  assumes ok: "snake_ok s" and go: "fst (update_game s)"
  shows "whole ((shift_snake (unat (snake_length s)) (snake s))(0 := next_head s)) (unat (snake_length s))"
proof -
  let ?h = "next_head s" and ?n = "unat (snake_length s)"
  let ?a = "(shift_snake ?n (snake s))(0 := ?h)"
  have sn: "nat (sint (snake_length s)) = ?n" using ok by (simp add: snake_ok_def Let_def sint_u32)
  note hb = moved_head(1)[OF go] and free = moved_head(2)[OF go, unfolded sn]
  have cells: "?a i = (if i = 0 then ?h else snake s (i - 1))" if "i < ?n" for i
    using that by (simp add: shift_snake_at)
  have board: "on_board (?a i)" if "i < ?n" for i
    unfolding cells[OF that] using that ok hb by (auto simp: snake_ok_def Let_def)
  have old: "inj_on (snake s) {..<?n - 1}" using ok by (simp add: snake_ok_def Let_def)
  have "inj_on ?a {..<?n}"
  proof (rule inj_onI)
    fix i j assume ij: "i \<in> {..<?n}" "j \<in> {..<?n}" "?a i = ?a j"
    show "i = j"
    proof (cases "i = 0 \<or> j = 0")
      case True
      moreover have "snake s (k - 1) \<noteq> ?h" "?h \<noteq> snake s (k - 1)" if "k < ?n" for k
        using free[OF le_less_trans[OF diff_le_self that]] by metis+
      ultimately show ?thesis using ij
        by (auto simp: cells simp del: fun_upd_apply split: if_splits)
    next
      case False
      with ij have "snake s (i - 1) = snake s (j - 1)" by (simp add: cells del: fun_upd_apply)
      with False ij have "i - 1 = j - 1" by (intro inj_onD[OF old]) auto
      with False show ?thesis by linarith
    qed
  qed
  with board show ?thesis by (simp add: whole_def)
qed

lemma update_game_ok:
  assumes "snake_ok s"
  shows "snake_ok (snd (update_game s)) \<and>
    (fst (update_game s) \<longrightarrow> unat (snake_length s) \<le> 4800 \<and> whole (snake (snd (update_game s))) (unat (snake_length s)))"
proof (cases "fst (update_game s)")
  case False
  then have "snd (update_game s) = s" by (auto simp: update_game_def Let_def split: if_splits)
  with False assms show ?thesis by simp
next
  case True
  let ?h = "next_head s" and ?n = "unat (snake_length s)"
  let ?a = "(shift_snake ?n (snake s))(0 := ?h)"
  let ?s = "s\<lparr>snake := ?a\<rparr>"
  have n: "2 \<le> ?n" "?n \<le> 4801" using assms by (simp_all add: snake_ok_def Let_def)
  have sn: "nat (sint (snake_length s)) = ?n" using n by (simp add: sint_u32)
  have w: "whole ?a ?n" by (rule moved_cells[OF assms True])
  then have top: "?n \<le> 4800" by (intro board_cells[of ?a]) (simp_all add: whole_def del: fun_upd_apply)
  have succ: "unat (snake_length s + 1) = ?n + 1" using top by (simp add: unat_word_ariths)
  have res: "snd (update_game s) = (if px ?h = px (food s) \<and> py ?h = py (food s)
      then spawn_food (?s\<lparr>snake_length := snake_length s + 1\<rparr>) else ?s)"
    using True by (auto simp: update_game_def Let_def sn split: if_splits)
  have "snake_ok ?s"
    using n w assms by (auto simp: snake_ok_def whole_def Let_def intro: inj_on_subset simp del: fun_upd_apply)
  moreover have "snake_ok (spawn_food (?s\<lparr>snake_length := snake_length s + 1\<rparr>))"
    using n top w succ by (simp add: snake_ok_def whole_def Let_def del: fun_upd_apply)
  moreover have "snake (snd (update_game s)) = ?a" by (simp add: res)
  ultimately show ?thesis using top w by (simp add: res del: fun_upd_apply)
qed

section \<open>Property\<close>

fun play :: "screen \<Rightarrow> u8 list \<Rightarrow> game \<Rightarrow> game" where
  "play sc [] s = s"
| "play sc (k # ks) s = (let (go, s) = snake_round sc k s in if go then play sc ks s else s)"

lemma turn_simps [simp]:
  "snake (turn k s) = snake s" "snake_length (turn k s) = snake_length s" "food (turn k s) = food s"
  by (simp_all add: turn_def)

lemma draw_game_simps [simp]:
  "snake (draw_game sc s) = snake s" "snake_length (draw_game sc s) = snake_length s" "food (draw_game sc s) = food s"
  by (simp_all add: draw_game_def Let_def)

lemma snake_ok_round: "snake_ok s \<Longrightarrow> snake_ok (snd (snake_round sc k s))"
proof -
  assume "snake_ok s"
  then have "snake_ok (draw_game sc s)" "snake_ok (turn k (draw_game sc s))" by (simp_all add: snake_ok_def)
  then show ?thesis using update_game_ok by (simp add: snake_round_def Let_def)
qed

lemma snake_ok_init: "snake_ok (init_game s)"
proof -
  have "on_board \<lparr>px = 40, py = 30\<rparr>" by (simp add: on_board_def)
  then show ?thesis by (simp add: init_game_def Let_def snake_ok_def WIDTH_def HEIGHT_def lessThan_Suc)
qed

text \<open>C24: The snake on its board. Whatever keys are pressed, from the start of a game on the food is on the
  board, all cells of the snake but the last are different cells of the board, and the length is
  between 2 and 4801. A round that moves the snake starts with a length \<open>n\<close> of at most 4800, so that no
  move writes outside of the 4800 points, and afterwards the first \<open>n\<close> cells are all different cells of the
  board: the whole snake, unless the round made it longer. (The last cell is the exception after growth and
  at the start of a game: it shows an array point that the game has not written and that may coincide
  with another cell.)\<close>

theorem snake_stays:
  "let s' = play sc keys (init_game s); n = unat (snake_length s')
   in snake_ok s' \<and> (fst (update_game s') \<longrightarrow> n \<le> 4800 \<and> whole (snake (snd (update_game s'))) n)"
proof -
  have "snake_ok t \<Longrightarrow> snake_ok (play sc keys t)" for t
  proof (induction keys arbitrary: t)
    case (Cons k ks)
    then show ?case using snake_ok_round[of t sc k] by (simp add: Let_def split_beta)
  qed simp
  from this[OF snake_ok_init[of s]] update_game_ok show ?thesis by (simp add: Let_def)
qed

definition sample_game :: game where
  "sample_game = \<lparr>sg_apic = sample_apic 0, sg_disp = sample_display, snake = (\<lambda>_. \<lparr>px = 0, py = 0\<rparr>), snake_length = 0,
     food = \<lparr>px = 0, py = 0\<rparr>, dir = UP, seed = 12345\<rparr>"

theorem snake_stays_witness:
  "fst (update_game (init_game sample_game)) \<and> unat (snake_length (play sample_screen [] (init_game sample_game))) \<le> 4800"
proof -
  have "fst (update_game (init_game sample_game))"
    by (simp add: update_game_def init_game_def sample_game_def next_head_def Let_def WIDTH_def HEIGHT_def upt_rec
        spawn_food_def)
  then show ?thesis using snake_stays[of sample_screen "[]" sample_game] by (simp add: Let_def)
qed

end
