(* ===== verification/Kernel.thy ===== *)
theory Kernel
  imports Mouse Ata Syscall
begin

text \<open>
  The kernel as a whole: the interrupt dispatcher of \<^verbatim>\<open>x86_64/idt.c\<close> and the entry \<open>_start\<close> of
  \<^verbatim>\<open>kernel.c\<close>. The components' states are plugged together: one interrupt controller state (with the
  memory and the ports), one screen. A call of \<open>print_numstr\<close> in a component is an event of the trace;
  \<open>shown\<close> draws the events a step has added. The linker's symbols and the addresses of the assembly
  routines are the record \<open>image\<close>. \<open>None\<close> means that a step does not return.
\<close>

section \<open>State\<close>

record kernel =
  k_keyboard :: keyboard
  k_mouse :: mouse
  k_apic :: apic
  k_disp :: display
  k_drives :: "drive_info list"
  k_cpu :: cpu_info
  k_idt :: idt
  k_gdt :: gdtr

record image =
  img_idt :: u64
  img_isr :: "u8 \<Rightarrow> u64"
  img_gdt :: u64
  img_tss :: u64
  img_bootboot :: u64
  kernel_virtual_start :: u64
  kernel_virtual_end :: u64

abbreviation k_io :: "kernel \<Rightarrow> io_world" where "k_io k \<equiv> vm_io (ap_vm (k_apic k))"
abbreviation k_trace :: "kernel \<Rightarrow> io_event list" where "k_trace k \<equiv> trace (k_io k)"

definition set_io :: "io_world \<Rightarrow> kernel \<Rightarrow> kernel" where
  "set_io w k = k\<lparr>k_apic := do_io (\<lambda>_. w) (k_apic k)\<rparr>"

definition on_keyboard :: "(keyboard \<Rightarrow> keyboard) \<Rightarrow> kernel \<Rightarrow> kernel" where
  "on_keyboard f k =
     (let s = f ((k_keyboard k)\<lparr>kb_apic := k_apic k\<rparr>) in k\<lparr>k_keyboard := s, k_apic := kb_apic s\<rparr>)"

definition on_mouse :: "(mouse \<Rightarrow> mouse option) \<Rightarrow> kernel \<Rightarrow> kernel option" where
  "on_mouse f k =
     (let s = k_mouse k; s = s\<lparr>ms_gui := (ms_gui s)\<lparr>gui_apic := k_apic k, gui_disp := k_disp k\<rparr>\<rparr>
      in map_option (\<lambda>s. k\<lparr>k_mouse := s, k_apic := gui_apic (ms_gui s), k_disp := gui_disp (ms_gui s)\<rparr>) (f s))"

definition on_apic :: "(apic \<Rightarrow> apic) \<Rightarrow> kernel \<Rightarrow> kernel" where
  "on_apic f k = k\<lparr>k_apic := f (k_apic k)\<rparr>"

definition on_vm :: "(vm \<Rightarrow> vm) \<Rightarrow> kernel \<Rightarrow> kernel" where
  "on_vm f = on_apic (\<lambda>a. a\<lparr>ap_vm := f (ap_vm a)\<rparr>)"

section \<open>Drawing what was printed\<close>

fun render_event :: "screen \<Rightarrow> io_event \<Rightarrow> display \<Rightarrow> display option" where
  "render_event sc (Print s color args) d = print_numstr sc s color args d"
| "render_event sc (PrintChar c color) d = Some (print_char sc c color d)"
| "render_event sc (TermWrite s) d = terminal_write sc s [] d"
| "render_event sc _ d = Some d"

fun render :: "screen \<Rightarrow> io_event list \<Rightarrow> display \<Rightarrow> display option" where
  "render sc [] d = Some d"
| "render sc (e # es) d = do { d \<leftarrow> render_event sc e d; render sc es d }"

text \<open>\<open>shown sc f k\<close>: the step \<open>f\<close>, then its output on the screen.\<close>

definition shown :: "screen \<Rightarrow> (kernel \<Rightarrow> kernel option) \<Rightarrow> kernel \<Rightarrow> kernel option" where
  "shown sc f k = do {
     k' \<leftarrow> f k;
     d \<leftarrow> render sc (drop (length (k_trace k)) (k_trace k')) (k_disp k');
     Some (k'\<lparr>k_disp := d\<rparr>)
   }"

section \<open>Interrupts\<close>

text \<open>The handler of an exception vector, the undefined ones included; the device vectors have none here.\<close>

definition device_vectors :: "u64 list" where
  "device_vectors = [PIT_TIMER_INTERRUPT, KEYBOARD_IRQ, APIC_TIMER_IRQ, MOUSE_IRQ, ATA_PRIMARY_IRQ, ATA_SECONDARY_IRQ, SYSTEM_CALL_INTERRUPT]"

definition exception_handler :: "cpu_status \<Rightarrow> io_world \<Rightarrow> ending \<times> io_world" where
  "exception_handler status =
     (let v = interrupt_number status
      in if v = DIVIDE_BY_ZERO_ERROR then division_by_zero_handler
         else if v = DEBUG_EXCEPTION then debug_exception_handler
         else if v = NON_MASKABLE_INTERRUPT then non_maskable_interrupt_handler
         else if v = BREAKPOINT then breakpoint_handler
         else if v = OVERFLOW then overflow_handler
         else if v = BOUND_RANGE_EXCEEDED then bound_range_exceeded_handler
         else if v = INVALID_OPCODE then invalid_opcode_handler
         else if v = DEVICE_NOT_AVAILABLE then no_math_coprocessor_handler
         else if v = DOUBLE_FAULT then double_fault_handler
         else if v = COPROCESSOR_SEGMENT_OVERRUN then coprocessor_segment_overrun_handler
         else if v = INVALID_TSS then invalid_tss_handler
         else if v = SEGMENT_NOT_PRESENT then segment_not_present_handler
         else if v = STACK_SEGMENT_FAULT then stack_segment_fault_handler
         else if v = GENERAL_PROTECTION_FAULT then general_protection_fault_handler (error_code status)
         else if v = PAGE_FAULT then (\<lambda>w. (Looping, page_fault_handler (error_code status) w))
         else if v = RESERVED then isr15_handler
         else if v = x87_FLOATING_POINT_EXCEPTION then x87_fpu_error_handler
         else if v = ALIGNMENT_CHECK then alignment_check_exception_handler
         else if v = MACHINE_CHECK then machine_check_exception_handler
         else if v = SIMD_FLOATING_POINT_EXCEPTION then simd_floating_point_exception_handler
         else if v = SECURITY_EXCEPTION then security_exception_handler
         else isrX_handler)"

definition interrupts_handler :: "screen \<Rightarrow> cpu_status \<Rightarrow> kernel \<Rightarrow> (ending \<times> kernel) option" where
  "interrupts_handler sc status k =
     (let v = interrupt_number status
      in if v = PIT_TIMER_INTERRUPT then Some (Returned, k)
         else if v = KEYBOARD_IRQ then map_option (Pair Returned) (shown sc (\<lambda>k. Some (on_keyboard keyboard_interrupt_handler k)) k)
         else if v = APIC_TIMER_IRQ then Some (Returned, on_apic apic_timer_interrupt_handler k)
         else if v = MOUSE_IRQ then map_option (Pair Returned) (on_mouse (mouse_handler sc) k)
         else if v = ATA_PRIMARY_IRQ then Some (Returned, k)
         else if v = ATA_SECONDARY_IRQ then Some (Returned, k)
         else if v = SYSTEM_CALL_INTERRUPT then Some (Returned, k)
         else let (e, w) = exception_handler status (k_io k) in Some (e, set_io w k))"

section \<open>Boot\<close>

definition store_pixels :: "(nat \<Rightarrow> u64) \<Rightarrow> u32 \<Rightarrow> nat \<Rightarrow> display \<Rightarrow> display" where
  "store_pixels address color n d = d\<lparr>d_mem := fold (\<lambda>i m. store32 m (address i) color) [0..<n] (d_mem d)\<rparr>"

text \<open>The offsets are \<^verbatim>\<open>int\<close>s, extended with their sign.\<close>

definition draw_cross_hair :: "screen \<Rightarrow> display \<Rightarrow> display" where
  "draw_cross_hair sc d =
     (let s = fb_scanline sc; w = fb_width sc; h = fb_height sc;
          d = store_pixels (\<lambda>y. scr_fb sc + scast (s * of_nat y) + scast (w * 2)) 0x00FFFFFF (nat (sint h)) d
      in store_pixels (\<lambda>x. scr_fb sc + scast (s * of_int (sint h sdiv 2)) + scast (of_nat x * 4 :: u32)) 0x00FFFFFF
           (nat (sint w)) d)"

definition draw_box :: "screen \<Rightarrow> u32 \<Rightarrow> u32 \<Rightarrow> display \<Rightarrow> display" where
  "draw_box sc dx color d =
     fold (\<lambda>y. store_pixels (\<lambda>x. scr_fb sc + scast (fb_scanline sc * (of_nat y + 20)) +
       scast ((of_nat x + 300 + dx) * 4)) color 20) [0..<20] d"

definition k_print :: "screen \<Rightarrow> string \<Rightarrow> u32 \<Rightarrow> va_arg list \<Rightarrow> kernel \<Rightarrow> kernel option" where
  "k_print sc s color args = shown sc (\<lambda>k. Some (set_io (print_call s color args (k_io k)) k))"

definition on_display :: "(display \<Rightarrow> display option) \<Rightarrow> kernel \<Rightarrow> kernel option" where
  "on_display f k = map_option (\<lambda>d. k\<lparr>k_disp := d\<rparr>) (f (k_disp k))"

text \<open>The first part, on every core: tables, memory, interrupt controllers. \<open>stack\<close> is the value of the
  stack pointer that \<open>init_gdt\<close> reads.\<close>

definition boot_tables :: "image \<Rightarrow> u64 \<Rightarrow> kernel \<Rightarrow> kernel" where
  "boot_tables im stack k =
     (let k = set_io (serial_init (k_io k)) k;
          (idt, w) = idt_init (img_idt im) (img_isr im) (k_io k);
          k = set_io w (k\<lparr>k_idt := idt\<rparr>);
          (gdt, m, w) = init_gdt (img_gdt im) (img_tss im) stack (vm_mem (ap_vm (k_apic k)), k_io k)
      in on_vm (\<lambda>v. v\<lparr>vm_mem := m, vm_io := w\<rparr>) (k\<lparr>k_gdt := gdt\<rparr>))"

definition boot_devices :: "screen \<Rightarrow> kernel \<Rightarrow> kernel option" where
  "boot_devices sc k = do {
     let bb = scr_boot sc;
     let k = on_vm (\<lambda>v. v\<lparr>vm_pmm := physical_memory_init bb (vm_pmm v)\<rparr>) k;
     ac \<leftarrow> parse_acpi bb (vm_mem (ap_vm (k_apic k))) (ap_acpi (k_apic k));
     let k = on_apic (\<lambda>a. a\<lparr>ap_acpi := ac\<rparr>) k;
     let k = on_apic apic_init k;
     let (d, w) = initialize_framebuffer_details sc (k_disp k, k_io k);
     let k = set_io w (k\<lparr>k_disp := d\<rparr>);
     a \<leftarrow> ioapic_init (k_apic k);
     a \<leftarrow> init_apic_timer_interrupt a;
     let k = k\<lparr>k_apic := enable_keyboard a\<rparr>;
     Some (on_vm init_user_program_memory k)
   }"

definition boot_processor :: "screen \<Rightarrow> image \<Rightarrow> kernel \<Rightarrow> kernel option" where
  "boot_processor sc im k = do {
     let k = k\<lparr>k_disp := draw_box sc 80 0x000000FF (draw_box sc 50 0x0000FF00 (draw_box sc 20 0x00FF0000 (k_disp k)))\<rparr>;
     k \<leftarrow> on_display (disp_str sc ''HukaOS kernel'' []) k;
     k \<leftarrow> k_print sc ''\<newline>by Joseph Haita (c) 2024\<newline>\<newline>'' 0xff345e [] k;
     k \<leftarrow> shown sc (\<lambda>k. let (c, w) = identify_cpu (k_cpu k, k_io k) in Some (set_io w (k\<lparr>k_cpu := c\<rparr>))) k;
     k \<leftarrow> shown sc (\<lambda>k. let t = ata_init \<lparr>at_apic = k_apic k, drives = k_drives k\<rparr>
                         in Some (k\<lparr>k_apic := at_apic t, k_drives := drives t\<rparr>)) k;
     k \<leftarrow> shown sc (\<lambda>k. map_option (\<lambda>w. set_io w k)
            (print_sdt_type (scr_boot sc) (vm_mem (ap_vm (k_apic k))) (ap_acpi (k_apic k)) (k_io k))) k;
     k \<leftarrow> shown sc (\<lambda>k. Some (set_io (parse_memory_map (scr_boot sc) (k_io k)) k)) k;
     let (stack, w) = get_rsp (k_io k);
     k \<leftarrow> k_print sc ''\<newline>The base address of rsp  is: %p'' (color_value Cyan) [VLong stack] (set_io w k);
     k \<leftarrow> k_print sc ''\<newline>The base address of kernel start: %p'' (color_value Cyan) [VLong (kernel_virtual_start im)] k;
     k \<leftarrow> k_print sc ''\<newline>The base address of kernel end: %p'' (color_value Cyan) [VLong (kernel_virtual_end im)] k;
     let k = on_vm new_paging k;
     k \<leftarrow> on_display (terminal_write sc ''\<newline>Hello World %p'' [VPtr (img_bootboot im)]) k;
     let k = set_io (log_call LOG_LEVEL_INFO ''After Page Switch'' [] (k_io k)) k;
     on_display (disp_str sc ''\<newline>\<newline>Hello Again'' []) k
   }"

text \<open>\<open>_start\<close>, up to the endless loop at its end.\<close>

definition start :: "screen \<Rightarrow> image \<Rightarrow> u64 \<Rightarrow> kernel \<Rightarrow> kernel option" where
  "start sc im stack k = do {
     k \<leftarrow> boot_devices sc (boot_tables im stack k);
     if fb_scanline sc \<noteq> 0 then do {
       let k = k\<lparr>k_disp := draw_cross_hair sc (k_disp k)\<rparr>;
       let (current_core_id, w) = get_current_core_id (k_io k);
       let k = set_io w k;
       if current_core_id = ucast (bb_bspid (scr_boot sc)) then boot_processor sc im k else Some k
     } else Some k
   }"

section \<open>What the handlers leave\<close>

lemma exceptions_hang: "fst (exception_handler status w) = Looping"
  by (simp add: exception_handler_def Let_def division_by_zero_handler_def debug_exception_handler_def
      non_maskable_interrupt_handler_def breakpoint_handler_def overflow_handler_def bound_range_exceeded_handler_def
      invalid_opcode_handler_def no_math_coprocessor_handler_def double_fault_handler_def
      coprocessor_segment_overrun_handler_def invalid_tss_handler_def segment_not_present_handler_def
      stack_segment_fault_handler_def general_protection_fault_handler_def isr15_handler_def x87_fpu_error_handler_def
      alignment_check_exception_handler_def machine_check_exception_handler_def simd_floating_point_exception_handler_def
      security_exception_handler_def isrX_handler_def)

text \<open>The write that acknowledges an interrupt.\<close>

abbreviation eoi :: "apic \<Rightarrow> io_event" where "eoi a \<equiv> MmioWrite (apic_base_address a + 0xB0) 0"

lemma timer_trace: "ap_trace (apic_timer_interrupt_handler a) = ap_trace a @ [eoi a]"
  by (simp add: apic_timer_interrupt_handler_def Let_def send_eoi_def)

lemma on_io_in_b:
  "ap_trace (snd (on_io (in_b p) a)) = ap_trace a @ [In8 p (fst (on_io (in_b p) a))]"
  "apic_base_address (snd (on_io (in_b p) a)) = apic_base_address a"
  by (simp_all add: on_io_def Let_def split_beta)

lemma keyboard_trace:
  "\<exists>c es. ap_trace (kb_apic (keyboard_interrupt_handler s)) = ap_trace (kb_apic s) @ In8 0x60 c # es @ [eoi (kb_apic s)] \<and>
    (es = [] \<or> (\<exists>v. es = [Print ''%c'' 0xffff [VInt v]]))"
proof -
  obtain b a where b: "on_io (in_b PS2_DATA_PORT) (kb_apic s) = (b, a)" by (metis surj_pair)
  then have a: "ap_trace a = ap_trace (kb_apic s) @ [In8 0x60 b]" "apic_base_address a = apic_base_address (kb_apic s)"
    using on_io_in_b[of PS2_DATA_PORT "kb_apic s"] by (auto simp: PS2_DATA_PORT_def)
  have "kb_apic (handle_scan_code x t) = kb_apic t \<or>
      (\<exists>v. kb_apic (handle_scan_code x t) = do_io (print_call ''%c'' 0xffff [VInt v]) (kb_apic t))" for x t
    by (auto simp: handle_scan_code_def key_pressed_def kb_io_def Let_def)
  from this[of "ucast b" "s\<lparr>kb_apic := a\<rparr>"] show ?thesis
    using a by (auto simp: keyboard_interrupt_handler_def b Let_def send_eoi_def)
qed

lemma print_char_text: "print_numstr sc ''%c'' color [VInt v] d = Some (print_text sc (char_text v) color d)"
proof -
  have "(ucast (ucast v :: u64) :: u32) = v" by (rule bit_word_eqI) (auto simp: bit_simps)
  then have "numstr_text ''%c'' [VInt v] = Some (char_text v)"
    by (simp add: numstr_text_def format_loop.simps format_step_def peek_def)
  then show ?thesis by (simp add: print_numstr_def)
qed

lemma mouse_loop_trace:
  assumes "handler_loop sc status s = Some s'"
  shows "apic_base_address (gui_apic (ms_gui s')) = apic_base_address (gui_apic (ms_gui s)) \<and>
    (\<exists>es. ap_trace (gui_apic (ms_gui s')) = ap_trace (gui_apic (ms_gui s)) @ es)"
proof (rule handler_loop.raw_induct[where P = "\<lambda>sc status s s'.
      apic_base_address (gui_apic (ms_gui s')) = apic_base_address (gui_apic (ms_gui s)) \<and>
      (\<exists>es. ap_trace (gui_apic (ms_gui s')) = ap_trace (gui_apic (ms_gui s)) @ es)", OF _ assms])
  have read: "apic_base_address (gui_apic (ms_gui (snd (ms_inb p s)))) = apic_base_address (gui_apic (ms_gui s)) \<and>
      (\<exists>es. ap_trace (gui_apic (ms_gui (snd (ms_inb p s)))) = ap_trace (gui_apic (ms_gui s)) @ es)" for p s
    using on_io_in_b[of p "gui_apic (ms_gui s)"] by (simp add: ms_inb_def Let_def split_beta)
  fix f sc status s s'
  assume IH: "\<And>sc status s s'. f sc status s = Some s' \<Longrightarrow>
      apic_base_address (gui_apic (ms_gui s')) = apic_base_address (gui_apic (ms_gui s)) \<and>
      (\<exists>es. ap_trace (gui_apic (ms_gui s')) = ap_trace (gui_apic (ms_gui s)) @ es)"
    and run: "(if status AND 1 \<noteq> 0
      then let (mouse_data, s) = ms_inb PS2_DATA_PORT s; s = feed_byte sc mouse_data s; (status, s) = ms_inb PS2_CMD_PORT s
           in f sc status s
      else Some s) = Some s'"
  show "apic_base_address (gui_apic (ms_gui s')) = apic_base_address (gui_apic (ms_gui s)) \<and>
      (\<exists>es. ap_trace (gui_apic (ms_gui s')) = ap_trace (gui_apic (ms_gui s)) @ es)"
  proof (cases "status AND 1 = 0")
    case False
    let ?s1 = "feed_byte sc (fst (ms_inb PS2_DATA_PORT s)) (snd (ms_inb PS2_DATA_PORT s))"
    have "f sc (fst (ms_inb PS2_CMD_PORT ?s1)) (snd (ms_inb PS2_CMD_PORT ?s1)) = Some s'"
      using run False by (simp add: Let_def split_beta)
    from IH[OF this] read[of PS2_CMD_PORT ?s1] read[of PS2_DATA_PORT s] show ?thesis by auto
  qed (use run in simp)
qed

text \<open>\<open>mouse_handler\<close> ends with the acknowledgement.\<close>

lemma mouse_trace:
  assumes "mouse_handler sc s = Some s'"
  shows "\<exists>es. ap_trace (gui_apic (ms_gui s')) = ap_trace (gui_apic (ms_gui s)) @ es @ [eoi (gui_apic (ms_gui s))]"
proof -
  have io: "snd (ms_inb PS2_CMD_PORT s) = s\<lparr>ms_gui := (ms_gui s)\<lparr>gui_apic := snd (on_io (in_b PS2_CMD_PORT) (gui_apic (ms_gui s)))\<rparr>\<rparr>"
    by (simp add: ms_inb_def Let_def split_beta)
  obtain t where t: "handler_loop sc (fst (ms_inb PS2_CMD_PORT s)) (snd (ms_inb PS2_CMD_PORT s)) = Some t"
    "s' = t\<lparr>ms_gui := (ms_gui t)\<lparr>gui_apic := send_eoi (gui_apic (ms_gui t))\<rparr>\<rparr>"
    using assms by (auto simp: mouse_handler_def Let_def split_beta split: bind_splits)
  from mouse_loop_trace[OF t(1)] show ?thesis
    using on_io_in_b[of PS2_CMD_PORT "gui_apic (ms_gui s)"] t(2) by (auto simp: io send_eoi_def)
qed

text \<open>The keyboard's interrupt always returns: its one print has a text.\<close>

lemma keyboard_dispatch:
  assumes "interrupt_number st = 0x21"
  shows "\<exists>k' es. interrupts_handler sc st k = Some (Returned, k') \<and>
    k_trace k' = k_trace k @ es @ [eoi (k_apic k)] \<and> eoi (k_apic k) \<notin> set es"
proof -
  let ?s = "keyboard_interrupt_handler ((k_keyboard k)\<lparr>kb_apic := k_apic k\<rparr>)"
  let ?k = "k\<lparr>k_keyboard := ?s, k_apic := kb_apic ?s\<rparr>"
  obtain c es where t: "k_trace ?k = k_trace k @ In8 0x60 c # es @ [eoi (k_apic k)]"
    and es: "es = [] \<or> (\<exists>v. es = [Print ''%c'' 0xffff [VInt v]])"
    using keyboard_trace[of "(k_keyboard k)\<lparr>kb_apic := k_apic k\<rparr>"] by auto
  have "\<exists>d. render sc (In8 0x60 c # es @ [eoi (k_apic k)]) (k_disp k) = Some d"
    using es by (auto simp: print_char_text)
  then obtain d where d: "render sc (In8 0x60 c # es @ [eoi (k_apic k)]) (k_disp k) = Some d" by blast
  have "interrupts_handler sc st k = Some (Returned, ?k\<lparr>k_disp := d\<rparr>)"
    using assms t d by (simp add: interrupts_handler_def shown_def on_keyboard_def Let_def del: render.simps)
  then show ?thesis using t es by (intro exI[of _ "?k\<lparr>k_disp := d\<rparr>"] exI[of _ "In8 0x60 c # es"]) auto
qed

section \<open>Properties\<close>

text \<open>C14: The interrupt dispatcher. The keyboard's and the timer's interrupt are always handled to the end
  and acknowledged exactly once at the local APIC, as the last access; so is the mouse's as its last
  access whenever its handler returns. The other device vectors, among them those of the two disk
  channels, return at once and without an acknowledgement. Every other vector ends in a handler that
  never returns.\<close>

theorem interrupt_dispatch:
  "(interrupt_number st \<in> {0x21, 0x22} \<longrightarrow> (\<exists>k' es. interrupts_handler sc st k = Some (Returned, k') \<and>
      k_trace k' = k_trace k @ es @ [eoi (k_apic k)] \<and> eoi (k_apic k) \<notin> set es)) \<and>
   (interrupt_number st = 0x23 \<longrightarrow> (\<forall>e k'. interrupts_handler sc st k = Some (e, k') \<longrightarrow> e = Returned \<and>
      (\<exists>es. k_trace k' = k_trace k @ es @ [eoi (k_apic k)]))) \<and>
   (interrupt_number st \<in> {0x20, 0x2E, 0x2F, 0x80} \<longrightarrow> interrupts_handler sc st k = Some (Returned, k)) \<and>
   (interrupt_number st \<notin> set device_vectors \<longrightarrow> (\<exists>k'. interrupts_handler sc st k = Some (Looping, k')))"
proof (intro conjI impI allI)
  assume v: "interrupt_number st \<in> {0x21, 0x22}"
  show "\<exists>k' es. interrupts_handler sc st k = Some (Returned, k') \<and>
      k_trace k' = k_trace k @ es @ [eoi (k_apic k)] \<and> eoi (k_apic k) \<notin> set es"
  proof (cases "interrupt_number st = 0x21")
    case True
    then show ?thesis by (rule keyboard_dispatch)
  next
    case False
    then show ?thesis
      using v timer_trace[of "k_apic k"]
      by (intro exI[of _ "on_apic apic_timer_interrupt_handler k"] exI[of _ "[]"])
        (simp add: interrupts_handler_def on_apic_def)
  qed
next
  fix e k'
  assume v: "interrupt_number st = 0x23" and run: "interrupts_handler sc st k = Some (e, k')"
  let ?s = "(k_mouse k)\<lparr>ms_gui := (ms_gui (k_mouse k))\<lparr>gui_apic := k_apic k, gui_disp := k_disp k\<rparr>\<rparr>"
  obtain s' where s': "mouse_handler sc ?s = Some s'" "e = Returned"
    "k' = k\<lparr>k_mouse := s', k_apic := gui_apic (ms_gui s'), k_disp := gui_disp (ms_gui s')\<rparr>"
    using run v by (auto simp: interrupts_handler_def on_mouse_def Let_def)
  show "\<exists>es. k_trace k' = k_trace k @ es @ [eoi (k_apic k)]" using mouse_trace[OF s'(1)] s'(3) by simp
next
  fix e k'
  assume "interrupt_number st = 0x23" "interrupts_handler sc st k = Some (e, k')"
  then show "e = Returned" by (auto simp: interrupts_handler_def)
next
  assume "interrupt_number st \<in> {0x20, 0x2E, 0x2F, 0x80}"
  then show "interrupts_handler sc st k = Some (Returned, k)" by (auto simp: interrupts_handler_def)
next
  assume "interrupt_number st \<notin> set device_vectors"
  then show "\<exists>k'. interrupts_handler sc st k = Some (Looping, k')"
    using exceptions_hang[of st "k_io k"]
    by (cases "exception_handler st (k_io k)") (simp add: interrupts_handler_def device_vectors_def)
qed

definition sample_kernel :: kernel where
  "sample_kernel = \<lparr>k_keyboard = keyboard_bss (sample_apic 30), k_mouse = sample_mouse, k_apic = sample_apic 30,
     k_disp = sample_display, k_drives = [], k_cpu = \<lparr>cpu_model = 0, cpu_famiy = 0, cpu_model_name = []\<rparr>,
     k_idt = (\<lambda>_. zero_gate), k_gdt = \<lparr>gdt_limit = 0, gdt_base = 0\<rparr>\<rparr>"

definition sample_frame :: "u64 \<Rightarrow> cpu_status" where
  "sample_frame v = \<lparr>r15 = 0, r14 = 0, r13 = 0, r12 = 0, r11 = 0, r10 = 0, r9 = 0, r8 = 0, rdi = 0, rsi = 0, rbp = 0,
     rdx = 0, rcx = 0, rbx = 0, rax = 0, interrupt_number = v, error_code = 0, rip = 0, cs = 8, rflags = 2, rsp = 0, ss = 16\<rparr>"

theorem interrupt_dispatch_witness:
  "(\<exists>k' es. interrupts_handler sample_screen (sample_frame 0x21) sample_kernel = Some (Returned, k') \<and>
      k_trace k' = es @ [MmioWrite 0xFEE000B0 0]) \<and>
   interrupts_handler sample_screen (sample_frame 0x2E) sample_kernel = Some (Returned, sample_kernel) \<and>
   (\<exists>k'. interrupts_handler sample_screen (sample_frame 0xFF) sample_kernel = Some (Looping, k'))"
proof -
  have v: "interrupt_number (sample_frame v) = v" for v by (simp add: sample_frame_def)
  have k: "k_trace sample_kernel = []" "eoi (k_apic sample_kernel) = MmioWrite 0xFEE000B0 0"
    by (simp_all add: sample_kernel_def sample_apic_def)
  show ?thesis
    using interrupt_dispatch[of "sample_frame 0x21" sample_screen sample_kernel]
      interrupt_dispatch[of "sample_frame 0x2E" sample_screen sample_kernel]
      interrupt_dispatch[of "sample_frame 0xFF" sample_screen sample_kernel]
    unfolding v k by (auto simp: device_vectors_def)
qed

end
