(* ===== verification/Boot_Irqs.thy ===== *)
theory Boot_Irqs
  imports Kernel
begin

text \<open>
  The interrupt routing that \<open>_start\<close> leaves behind (\<^verbatim>\<open>kernel.c\<close>, with \<^verbatim>\<open>hardware/apic/\<close> and
  \<^verbatim>\<open>hardware/ps2/devices/keyboard.c\<close>): \<open>boot_devices\<close> runs the set-up routines of several components, each
  of which writes to devices; replayed on the I/O APIC of theory Apic, the whole trace gives its
  redirection table.
\<close>

section \<open>Accesses of other devices\<close>

text \<open>The I/O APIC's two registers in the address space of the kernel.\<close>

definition IOAPIC_VIRT :: u64 where "IOAPIC_VIRT = 0xFFFFFFFFF7002000"

fun quiet :: "io_event \<Rightarrow> bool" where
  "quiet (MmioWrite a v) = (a \<noteq> IOAPIC_VIRT \<and> a \<noteq> IOAPIC_VIRT + 16)"
| "quiet (MmioRead a v) = (a \<noteq> IOAPIC_VIRT + 16)"
| "quiet e = True"

text \<open>The answers in a trace are those of the device \<open>d\<close>.\<close>

fun faithful :: "io_event list \<Rightarrow> io_apic_device \<Rightarrow> bool" where
  "faithful [] d = True"
| "faithful (MmioRead a v # es) d = ((a = IOAPIC_VIRT + 16 \<longrightarrow> ucast v = registers d (selected d)) \<and> faithful es d)"
| "faithful (e # es) d = faithful es (device_step IOAPIC_VIRT e d)"

lemma quiet_step: "quiet e \<Longrightarrow> device_step IOAPIC_VIRT e d = d"
  by (cases e) simp_all

lemma quiet_device: "list_all quiet es \<Longrightarrow> device_after IOAPIC_VIRT es d = d"
  by (induction es arbitrary: d) (simp_all add: device_after_def quiet_step)

lemma faithful_append:
  "faithful (es @ fs) d = (faithful es d \<and> faithful fs (device_after IOAPIC_VIRT es d))"
  by (induction es d rule: faithful.induct) (auto simp: device_after_def)

section \<open>Routines that leave the I/O APIC alone\<close>

lemma create_or_get_table_io: "extends quiet (vm_io s) (vm_io (snd (create_or_get_table p s)))"
  by (auto simp: create_or_get_table_def vm_event_def set_entry_def Let_def split: prod.splits intro: extends_intros)

lemma map_4kb_page_io: "extends quiet (vm_io s) (vm_io (map_4kb_page virt phys flags s))"
  by (simp add: map_4kb_page_def Let_def split_beta set_entry_def)
    (meson create_or_get_table_io extends_trans)

lemma unmap_page_io: "extends quiet (vm_io s) (vm_io (unmap_page virt s))"
  by (auto simp: unmap_page_def invlpg_def vm_event_def set_entry_def Let_def intro: extends_intros)

lemma user_memory_io: "extends quiet (vm_io s) (vm_io (init_user_program_memory s))"
proof -
  let ?f = "\<lambda>a i s. unmap_page (a + of_nat i * 0x1000)
    (map_4kb_page (USER_PROGRAM_START + of_nat i * 0x1000) (a + of_nat i * 0x1000) (PTE_DEFAULT_FLAGS OR PTE_USER) s)"
  have one: "extends quiet (vm_io s) (vm_io (?f a i s))" for a i s
    using map_4kb_page_io unmap_page_io extends_trans by blast
  have many: "extends quiet w (vm_io s) \<Longrightarrow> extends quiet w (vm_io (fold (?f a) xs s))" for w a xs s
    by (induction xs arbitrary: s) (auto intro: extends_trans[OF _ one])
  show ?thesis
    unfolding init_user_program_memory_def vm_allocate_def Let_def split_beta
    by (auto intro!: extends_trans[OF _ map_4kb_page_io] many)
qed

abbreviation ap_io :: "apic \<Rightarrow> io_world" where "ap_io s \<equiv> vm_io (ap_vm s)"

lemma mmio_read_answer [simp]: "answer (ap_io (snd (mmio_read a s))) = answer (ap_io s)"
  by (simp add: mmio_read_def on_io_def ask_def Let_def split_beta)

lemma mmio_write_io: "quiet (MmioWrite a (ucast v)) \<Longrightarrow> extends quiet w (ap_io s) \<Longrightarrow> extends quiet w (ap_io (mmio_write a v s))"
  by (simp add: mmio_write_def extends_emit)

lemma mmio_read_io: "a \<noteq> IOAPIC_VIRT + 16 \<Longrightarrow> extends quiet w (ap_io s) \<Longrightarrow> extends quiet w (ap_io (snd (mmio_read a s)))"
  by (auto simp: mmio_read_def on_io_def Let_def split_beta intro: extends_intros)

lemma read_msr_io: "extends quiet w (ap_io s) \<Longrightarrow> extends quiet w (ap_io (snd (on_io (read_msr r) s)))"
  by (auto simp: on_io_def read_msr_def Let_def split_beta intro: extends_intros)

lemma ap_log_io: "extends quiet w (ap_io s) \<Longrightarrow> extends quiet w (ap_io (ap_log l f as s))"
  by (simp add: ap_log_def extends_log_call)

lemma ap_map_io: "extends quiet w (ap_io s) \<Longrightarrow> extends quiet w (ap_io (ap_map_4kb_page v p f s))"
  by (auto simp: ap_map_4kb_page_def intro: extends_trans[OF _ map_4kb_page_io])

text \<open>Where the local APIC is mapped, its accesses are quiet.\<close>

definition LAPIC_VIRT :: u64 where "LAPIC_VIRT = 0xFFFFFFFFF7001000"

lemma lapic_quiet [simp]:
  "LAPIC_VIRT + 0x3E0 \<noteq> IOAPIC_VIRT" "LAPIC_VIRT + 0x380 \<noteq> IOAPIC_VIRT" "LAPIC_VIRT + 0x320 \<noteq> IOAPIC_VIRT"
  "LAPIC_VIRT + 0xF0 \<noteq> IOAPIC_VIRT" "LAPIC_VIRT + 0x3E0 \<noteq> IOAPIC_VIRT + 16" "LAPIC_VIRT + 0x380 \<noteq> IOAPIC_VIRT + 16"
  "LAPIC_VIRT + 0x320 \<noteq> IOAPIC_VIRT + 16" "LAPIC_VIRT + 0x390 \<noteq> IOAPIC_VIRT + 16" "LAPIC_VIRT + 0xF0 \<noteq> IOAPIC_VIRT + 16"
  by (simp_all add: LAPIC_VIRT_def IOAPIC_VIRT_def)

lemma ap_base_simps [simp]:
  "apic_base_address (ap_log l f as s) = apic_base_address s"
  "apic_base_address (ap_map_4kb_page v p g s) = apic_base_address s"
  "apic_base_address (snd (on_io h s)) = apic_base_address s"
  "ioapic_base_address (snd (on_io h s)) = ioapic_base_address s"
  by (simp_all add: ap_log_def ap_map_4kb_page_def on_io_def Let_def split_beta)

lemma apic_init_io: "extends quiet (ap_io s) (ap_io (apic_init s))" "apic_base_address (apic_init s) = LAPIC_VIRT"
  unfolding apic_init_def get_msr_apic_base_address_def is_apic_enabled_in_msr_def enable_apic_def
    read_apic_register_def write_apic_register_def Let_def split_beta
  by (auto simp: LAPIC_VIRT_def[symmetric] write_msr_def Let_def
      intro!: ap_log_io mmio_write_io mmio_read_io read_msr_io ap_map_io extends_emit split: if_splits)

text \<open>What every poll keeps, the wait for the interval timer keeps.\<close>

lemma wait_for_pit_keeps:
  assumes "wait_for_pit s = Some s'" and "P s" and step: "\<And>t. P t \<Longrightarrow> P (snd (on_io (in_b 0x61) t))"
  shows "P s'"
proof -
  have "P s \<longrightarrow> P s'"
  proof (rule wait_for_pit.raw_induct[where P = "\<lambda>s s'. P s \<longrightarrow> P s'", OF _ assms(1)])
    fix f s s'
    assume IH: "\<And>s s'. f s = Some s' \<Longrightarrow> P s \<longrightarrow> P s'"
      and run: "(let (v, s) = on_io (in_b 0x61) s in if v AND 0x20 = 0 then f s else Some s) = Some s'"
    show "P s \<longrightarrow> P s'"
      using run step[of s] IH[of "snd (on_io (in_b 0x61) s)" s'] by (auto simp: Let_def split_beta split: if_splits)
  qed
  then show ?thesis using assms(2) by simp
qed

lemma wait_for_pit_io:
  assumes "wait_for_pit s = Some s'"
  shows "extends quiet (ap_io s) (ap_io s') \<and> apic_base_address s' = apic_base_address s \<and>
    ioapic_base_address s' = ioapic_base_address s"
  by (rule wait_for_pit_keeps[OF assms]) (auto simp: on_io_def Let_def split_beta intro: extends_intros)

lemma init_apic_timer_io:
  assumes "init_apic_timer fr s = Some s'" and "apic_base_address s = LAPIC_VIRT"
  shows "extends quiet (ap_io s) (ap_io s')" and "ioapic_base_address s' = ioapic_base_address s"
proof -
  let ?s0 = "write_apic_register INITIAL_COUNT_REGISTER_FOR_TIMER 0xFFFFFFFF
    (write_apic_register DIVIDE_CONFIGURATION_REGISTER_FOR_TIMER 0x3
      (do_io (out_b 0x40 0x04) (do_io (out_b 0x40 0xA9) (do_io (out_b 0x43 0x30) s))))"
  note regs = write_apic_register_def read_apic_register_def INITIAL_COUNT_REGISTER_FOR_TIMER_def
    DIVIDE_CONFIGURATION_REGISTER_FOR_TIMER_def LVT_TIMER_REGISTER_def CURRENT_COUNT_REGISTER_FOR_TIMER_def
  have s0: "extends quiet (ap_io s) (ap_io ?s0)" "apic_base_address ?s0 = LAPIC_VIRT"
    "ioapic_base_address ?s0 = ioapic_base_address s"
    using assms(2) by (auto simp: regs intro!: mmio_write_io extends_out_b)
  from assms(1) obtain s1 where s1: "wait_for_pit ?s0 = Some s1"
    by (auto simp: init_apic_timer_def calibrate_apic_timer_def Let_def split: bind_splits)
  note w = wait_for_pit_io[OF s1]
  then have base: "extends quiet (ap_io s) (ap_io s1)" "apic_base_address s1 = LAPIC_VIRT"
    "ioapic_base_address s1 = ioapic_base_address s"
    using s0 by (auto intro: extends_trans)
  show "extends quiet (ap_io s) (ap_io s')" "ioapic_base_address s' = ioapic_base_address s"
    using assms(1) s1 base unfolding init_apic_timer_def calibrate_apic_timer_def Let_def split_beta
    by (auto simp: regs ap_log_def split: if_splits intro!: mmio_write_io mmio_read_io extends_log_call)
qed

section \<open>The redirection entries\<close>

lemma set_irq_trace:
  "ap_trace (ioapic_set_irq 0 0x22 0 s) = ap_trace s @
     [MmioWrite (ioapic_base_address s) 0x11, MmioWrite (ioapic_base_address s + 16) 0,
      MmioWrite (ioapic_base_address s) 0x10, MmioWrite (ioapic_base_address s + 16) 0x22]"
  "ap_trace (ioapic_set_irq 1 33 0 s) = ap_trace s @
     [MmioWrite (ioapic_base_address s) 0x13, MmioWrite (ioapic_base_address s + 16) 0,
      MmioWrite (ioapic_base_address s) 0x12, MmioWrite (ioapic_base_address s + 16) 33]"
  "ioapic_base_address (ioapic_set_irq irq v i s) = ioapic_base_address s"
  "answer (ap_io (ioapic_set_irq irq v i s)) = answer (ap_io s)"
  by (simp_all add: ioapic_set_irq_def ioapic_write_def Let_def)

abbreviation next_answer :: "apic \<Rightarrow> u32" where
  "next_answer s \<equiv> ucast (answer (ap_io s) (asked (ap_io s)))"

lemma unmask_irq_trace:
  "ap_trace (ioapic_unmask_irq 0 s) = ap_trace s @
     [MmioWrite (ioapic_base_address s) 0x10, MmioRead (ioapic_base_address s + 16) (ucast (next_answer s)),
      MmioWrite (ioapic_base_address s) 0x10, MmioWrite (ioapic_base_address s + 16) (ucast (next_answer s AND NOT 0x10000))]"
  "ap_trace (ioapic_unmask_irq 33 s) = ap_trace s @
     [MmioWrite (ioapic_base_address s) 0x52, MmioRead (ioapic_base_address s + 16) (ucast (next_answer s)),
      MmioWrite (ioapic_base_address s) 0x52, MmioWrite (ioapic_base_address s + 16) (ucast (next_answer s AND NOT 0x10000))]"
  "ioapic_base_address (ioapic_unmask_irq irq s) = ioapic_base_address s"
  "answer (ap_io (ioapic_unmask_irq irq s)) = answer (ap_io s)"
  by (simp_all add: ioapic_unmask_irq_def ioapic_read_def ioapic_write_def Let_def split_beta)

lemma ucast_32 [simp]: "(ucast (ucast v :: u64) :: u32) = v" for v :: u32
  by (rule bit_word_eqI) (auto simp: bit_simps)

text \<open>What the timer's and the keyboard's set-up write, with the two values they read.\<close>

definition route_events :: "u32 \<Rightarrow> u32 \<Rightarrow> io_event list" where
  "route_events v v' =
     [MmioWrite IOAPIC_VIRT 0x11, MmioWrite (IOAPIC_VIRT + 16) 0,
      MmioWrite IOAPIC_VIRT 0x10, MmioWrite (IOAPIC_VIRT + 16) 0x22,
      MmioWrite IOAPIC_VIRT 0x10, MmioRead (IOAPIC_VIRT + 16) (ucast v),
      MmioWrite IOAPIC_VIRT 0x10, MmioWrite (IOAPIC_VIRT + 16) (ucast (v AND NOT 0x10000)),
      MmioWrite IOAPIC_VIRT 0x13, MmioWrite (IOAPIC_VIRT + 16) 0,
      MmioWrite IOAPIC_VIRT 0x12, MmioWrite (IOAPIC_VIRT + 16) 33,
      MmioWrite IOAPIC_VIRT 0x52, MmioRead (IOAPIC_VIRT + 16) (ucast v'),
      MmioWrite IOAPIC_VIRT 0x52, MmioWrite (IOAPIC_VIRT + 16) (ucast (v' AND NOT 0x10000))]"

lemma route_events_device:
  assumes "faithful (route_events v v') d"
  shows "registers (device_after IOAPIC_VIRT (route_events v v') d) =
    (registers d)(0x11 := 0, 0x10 := 0x22, 0x13 := 0, 0x12 := 33, 0x52 := registers d 0x52 AND NOT 0x10000)"
  using assms by (simp add: route_events_def device_after_def fun_eq_iff)

lemma routes_trace:
  assumes "init_apic_timer_interrupt s = Some s'" and "apic_base_address s = LAPIC_VIRT"
    and "ioapic_base_address s = IOAPIC_VIRT"
  shows "\<exists>es v v'. ap_trace (enable_keyboard s') = ap_trace s @ es @ route_events v v' \<and> list_all quiet es \<and>
    (\<forall>a. answer (ap_io s) = (\<lambda>_. a) \<longrightarrow> v = ucast a \<and> v' = ucast a)"
proof -
  from assms(1) obtain s1 where s1: "init_apic_timer 10000 s = Some s1"
    "s' = ioapic_unmask_irq 0 (ioapic_set_irq 0 0x22 0 s1)"
    by (auto simp: init_apic_timer_interrupt_def Let_def split: bind_splits)
  note t = init_apic_timer_io[OF s1(1) assms(2)]
  then obtain es where es: "ap_trace s1 = ap_trace s @ es" "list_all quiet es" "answer (ap_io s1) = answer (ap_io s)"
    by (auto simp: extends_def)
  have base: "ioapic_base_address s1 = IOAPIC_VIRT" using t(2) assms(3) by simp
  let ?t0 = "ioapic_set_irq 0 0x22 0 s1" and ?t1 = "ioapic_set_irq 1 33 0 s'"
  have ans: "answer (ap_io ?t0) = answer (ap_io s)" "answer (ap_io ?t1) = answer (ap_io s)"
    by (simp_all add: s1(2) unmask_irq_trace(4) set_irq_trace(4) es(3))
  have base': "ioapic_base_address s' = IOAPIC_VIRT" using base by (simp add: s1(2) unmask_irq_trace(3) set_irq_trace(3))
  have "ap_trace (enable_keyboard s') = ap_trace s @ es @ route_events (next_answer ?t0) (next_answer ?t1)"
    unfolding enable_keyboard_def unmask_irq_trace(2) set_irq_trace(2,3) base'
    unfolding s1(2) unmask_irq_trace(1) set_irq_trace(1,3) base es(1) route_events_def by simp
  then show ?thesis using es(2) ans by (intro exI[of _ es] exI[of _ "next_answer ?t0"] exI[of _ "next_answer ?t1"]) simp
qed

text \<open>The masking of all entries, against a device that answers for itself.\<close>

lemma mask_loop_keeps:
  assumes "mask_loop i mx s = Some s'" and "P s" and step: "\<And>i t. P t \<Longrightarrow> P (mask_round i t)"
  shows "P s'"
proof -
  have "P s \<longrightarrow> P s'"
  proof (rule mask_loop.raw_induct[where P = "\<lambda>i mx s s'. P s \<longrightarrow> P s'", OF _ assms(1)])
    fix f i s s' and mx :: u8
    assume IH: "\<And>i mx s s'. f i mx s = Some s' \<Longrightarrow> P s \<longrightarrow> P s'"
      and eq: "(if i \<le> mx then
          let redtbl_low = 0x10 + 2 * ucast i; (v, s) = ioapic_read (ucast (redtbl_low :: u32)) s; v = v OR push_bit 16 1;
              s = ioapic_write (ucast redtbl_low) v s in f (i + 1) mx s
        else Some s) = Some s'"
    have "(if i \<le> mx then f (i + 1) mx (mask_round i s) else Some s) = Some s'"
      using eq by (cases "i \<le> mx") (simp_all add: mask_round_def Let_def split_beta low_register)
    then show "P s \<longrightarrow> P s'" using step IH[of "i + 1" mx "mask_round i s" s'] by (auto split: if_splits)
  qed
  then show ?thesis using assms(2) by simp
qed

lemma mask_loop_bases:
  assumes "mask_loop i mx s = Some s'"
  shows "apic_base_address s' = apic_base_address s \<and> ioapic_base_address s' = ioapic_base_address s \<and>
    answer (ap_io s') = answer (ap_io s)"
  by (rule mask_loop_keeps[OF assms]) (simp_all add: mask_round_def ioapic_write_def ioapic_read_def Let_def split_beta)

text \<open>The masking of a device with one entry that answers every read with \<open>a\<close>.\<close>

definition mask_events :: "u32 \<Rightarrow> io_event list" where
  "mask_events a =
     [MmioWrite IOAPIC_VIRT 1, MmioRead (IOAPIC_VIRT + 16) (ucast a),
      MmioWrite IOAPIC_VIRT 0x10, MmioRead (IOAPIC_VIRT + 16) (ucast a),
      MmioWrite IOAPIC_VIRT 0x10, MmioWrite (IOAPIC_VIRT + 16) (ucast (a OR 0x10000))]"

lemma mask_loop_one:
  assumes "mask_loop 0 0 s = Some s'" and "ioapic_base_address s = IOAPIC_VIRT" and "answer (ap_io s) = (\<lambda>_. a)"
  shows "ap_trace s' = ap_trace s @ drop 2 (mask_events (ucast a))"
proof -
  have "s' = mask_round 0 s"
    using assms(1) mask_loop_step[of 0 0 s] mask_loop_step[of 1 0 "mask_round 0 s"] by simp
  then show ?thesis
    using assms(2,3) by (simp add: mask_round_def mask_events_def ioapic_read_def ioapic_write_def Let_def split_beta)
qed

lemma ioapic_init_trace:
  assumes "ioapic_init s = Some s'"
  shows "apic_base_address s' = apic_base_address s \<and> ioapic_base_address s' = IOAPIC_VIRT \<and>
    answer (ap_io s') = answer (ap_io s) \<and>
    (\<exists>es ms. ap_trace s' = ap_trace s @ es @ ms \<and> list_all quiet es \<and>
      (\<forall>d j. faithful ms d \<longrightarrow> j \<le> ucast (drop_bit 16 (registers d 1) AND 0xFF) \<longrightarrow> masked (device_after IOAPIC_VIRT ms d) j) \<and>
      (\<forall>a. answer (ap_io s) = (\<lambda>_. a) \<longrightarrow> drop_bit 16 (ucast a :: u32) AND 0xFF = 0 \<longrightarrow> ms = mask_events (ucast a)))"
proof -
  let ?t = "s\<lparr>ioapic_base_address := ucast (get_ioapic_addresss (ap_acpi s))\<rparr>"
  let ?m = "ap_map_4kb_page IOAPIC_VIRT (ucast (get_ioapic_addresss (ap_acpi s))) PTE_MMIO_FLAGS ?t"
  let ?s1 = "?m\<lparr>ioapic_base_address := IOAPIC_VIRT\<rparr>"
  let ?v = "fst (ioapic_read 1 ?s1)" and ?s2 = "snd (ioapic_read 1 ?s1)" and ?mx = "max_entry ?s1"
  have mask: "mask_loop 0 ?mx ?s2 = Some s'"
    using assms by (simp add: ioapic_init_def mask_all_ioapic_vectors_def max_entry_def Let_def split_beta IOAPIC_VIRT_def)
  have base2: "ioapic_base_address ?s2 = IOAPIC_VIRT" "apic_base_address ?s2 = apic_base_address s"
    by (simp_all add: ioapic_read_def Let_def)
  have "extends quiet (ap_io s) (ap_io ?m)" by (rule ap_map_io) simp
  then obtain es where es: "ap_trace ?s1 = ap_trace s @ es" "list_all quiet es" "answer (ap_io ?s1) = answer (ap_io s)"
    by (auto simp: extends_def)
  let ?rd = "[MmioWrite IOAPIC_VIRT 1, MmioRead (IOAPIC_VIRT + 16) (ucast ?v)]"
  have rd: "ap_trace ?s2 = ap_trace ?s1 @ ?rd" unfolding ioapic_read_trace by simp
  have "?mx < 255"
    using mask_loop_bound[OF mask] unsigned_less[of "?mx", where 'a = nat]
    by (simp add: word_less_nat_alt word_unat_eq_iff)
  from mask_loop_device[OF this, of 0 ?s2] mask obtain fs where
    fs: "ap_trace s' = ap_trace ?s2 @ fs"
    "\<And>d j. masked d j \<or> j \<le> ?mx \<Longrightarrow> masked (device_after IOAPIC_VIRT fs d) j"
    unfolding base2(1) by auto
  have dev: "masked (device_after IOAPIC_VIRT (?rd @ fs) d) j"
    if "faithful (?rd @ fs) d" "j \<le> ucast (drop_bit 16 (registers d 1) AND 0xFF)" for d j
  proof -
    have "?v = registers d 1" using that(1) by (simp add: faithful_append)
    then have "j \<le> ?mx" using that(2) unfolding max_entry_def by simp
    then show ?thesis unfolding device_after_append by (intro fs(2) disjI2)
  qed
  have const: "?rd @ fs = mask_events (ucast a)"
    if ans: "answer (ap_io s) = (\<lambda>_. a)" and z: "drop_bit 16 (ucast a :: u32) AND 0xFF = 0" for a
  proof -
    have a1: "answer (ap_io ?s1) = (\<lambda>_. a)" using es(3) ans by simp
    have v: "?v = ucast a" using a1 by (simp add: ioapic_read_def Let_def)
    then have "?mx = 0" using z unfolding max_entry_def by simp
    moreover have "answer (ap_io ?s2) = (\<lambda>_. a)" using a1 by (simp add: ioapic_read_def Let_def)
    ultimately have "fs = drop 2 (mask_events (ucast a))"
      using mask_loop_one[OF _ base2(1)] mask fs(1) by simp
    then show ?thesis unfolding v by (simp add: mask_events_def)
  qed
  have tr: "ap_trace s' = ap_trace s @ es @ (?rd @ fs)" unfolding fs(1) rd es(1) by simp
  have ans: "answer (ap_io s') = answer (ap_io s)"
    using mask_loop_bases[OF mask] es(3) by (simp add: ioapic_read_def Let_def)
  have base: "apic_base_address s' = apic_base_address s" "ioapic_base_address s' = IOAPIC_VIRT"
    using mask_loop_bases[OF mask] base2 by simp_all
  show ?thesis
    by (intro conjI base ans exI[of _ es] exI[of _ "?rd @ fs"] tr es(2) allI impI dev const)
qed

lemma boot_devices_steps:
  assumes "boot_devices sc k = Some k'"
  shows "\<exists>a0 a1 a2. extends quiet (k_io k) (ap_io a0) \<and> apic_base_address a0 = LAPIC_VIRT \<and>
    ioapic_init a0 = Some a1 \<and> init_apic_timer_interrupt a1 = Some a2 \<and>
    k_io k' = vm_io (init_user_program_memory (ap_vm (enable_keyboard a2)))"
proof -
  let ?k1 = "on_vm (\<lambda>v. v\<lparr>vm_pmm := physical_memory_init (scr_boot sc) (vm_pmm v)\<rparr>) k"
  obtain ac where ac: "parse_acpi (scr_boot sc) (vm_mem (ap_vm (k_apic ?k1))) (ap_acpi (k_apic ?k1)) = Some ac"
    using assms by (auto simp: boot_devices_def Let_def split: bind_splits)
  let ?k3 = "on_apic apic_init (on_apic (\<lambda>a. a\<lparr>ap_acpi := ac\<rparr>) ?k1)"
  let ?dw = "initialize_framebuffer_details sc (k_disp ?k3, k_io ?k3)"
  let ?a0 = "do_io (\<lambda>_. snd ?dw) (k_apic ?k3)"
  obtain a1 a2 where run: "ioapic_init ?a0 = Some a1" "init_apic_timer_interrupt a1 = Some a2"
    "k_io k' = vm_io (init_user_program_memory (ap_vm (enable_keyboard a2)))"
    using assms ac by (auto simp: boot_devices_def Let_def split_beta set_io_def on_vm_def on_apic_def split: bind_splits)
  have "extends quiet (k_io k) (k_io ?k3)" "apic_base_address ?a0 = LAPIC_VIRT"
    using apic_init_io[of "(k_apic ?k1)\<lparr>ap_acpi := ac\<rparr>"] by (simp_all add: on_apic_def on_vm_def)
  moreover have "extends quiet (k_io ?k3) (ap_io ?a0)"
    by (auto simp: initialize_framebuffer_details_def Let_def intro!: extends_log_call)
  ultimately show ?thesis using run extends_trans by blast
qed

text \<open>The trace of \<open>boot_devices\<close>: the masking, the routing, and accesses of other devices between.\<close>

lemma boot_devices_trace:
  assumes "boot_devices sc k = Some k'"
  shows "\<exists>e0 ms e2 v v' e3. k_trace k' = k_trace k @ e0 @ ms @ e2 @ route_events v v' @ e3 \<and>
    list_all quiet e0 \<and> list_all quiet e2 \<and> list_all quiet e3 \<and>
    (\<forall>d j. faithful ms d \<longrightarrow> j \<le> ucast (drop_bit 16 (registers d 1) AND 0xFF) \<longrightarrow>
      masked (device_after IOAPIC_VIRT ms d) j) \<and>
    (\<forall>a. answer (k_io k) = (\<lambda>_. a) \<longrightarrow> drop_bit 16 (ucast a :: u32) AND 0xFF = 0 \<longrightarrow>
      ms = mask_events (ucast a) \<and> v = ucast a \<and> v' = ucast a)"
proof -
  obtain a0 a1 a2 where a0: "extends quiet (k_io k) (ap_io a0)" "apic_base_address a0 = LAPIC_VIRT"
    and run: "ioapic_init a0 = Some a1" "init_apic_timer_interrupt a1 = Some a2"
    and k': "k_io k' = vm_io (init_user_program_memory (ap_vm (enable_keyboard a2)))"
    using boot_devices_steps[OF assms(1)] by blast
  obtain e0 where e0: "ap_trace a0 = k_trace k @ e0" "list_all quiet e0" "answer (ap_io a0) = answer (k_io k)"
    using a0(1) by (auto simp: extends_def)
  from ioapic_init_trace[OF run(1)] obtain e1 ms where
    e1: "ap_trace a1 = ap_trace a0 @ e1 @ ms" "list_all quiet e1" "answer (ap_io a1) = answer (k_io k)"
    and ms: "\<forall>d j. faithful ms d \<longrightarrow> j \<le> ucast (drop_bit 16 (registers d 1) AND 0xFF) \<longrightarrow>
      masked (device_after IOAPIC_VIRT ms d) j"
    and const: "\<And>a. answer (k_io k) = (\<lambda>_. a) \<Longrightarrow> drop_bit 16 (ucast a :: u32) AND 0xFF = 0 \<Longrightarrow> ms = mask_events (ucast a)"
    and base: "apic_base_address a1 = LAPIC_VIRT" "ioapic_base_address a1 = IOAPIC_VIRT"
    unfolding a0(2) e0(3) by blast
  from routes_trace[OF run(2) base] obtain e2 v v' where
    e2: "ap_trace (enable_keyboard a2) = ap_trace a1 @ e2 @ route_events v v'" "list_all quiet e2"
    "\<And>a. answer (k_io k) = (\<lambda>_. a) \<Longrightarrow> v = ucast a \<and> v' = ucast a" unfolding e1(3) by blast
  obtain e3 where e3: "k_trace k' = ap_trace (enable_keyboard a2) @ e3" "list_all quiet e3"
    using user_memory_io[of "ap_vm (enable_keyboard a2)"] unfolding k' extends_def by blast
  have "k_trace k' = k_trace k @ (e0 @ e1) @ ms @ e2 @ route_events v v' @ e3"
    unfolding e3(1) e2(1) e1(1) e0(1) by simp
  moreover have "list_all quiet (e0 @ e1)" using e0(2) e1(2) by simp
  ultimately show ?thesis
    using e2(2,3) e3(2) ms const by blast
qed

section \<open>When the set-up returns\<close>

text \<open>Hardware that does not keep the set-up waiting: the interval timer's bit comes up again and again, and
  no read says that the I/O APIC has 256 entries.\<close>

definition hardware_ready :: "io_world \<Rightarrow> bool" where
  "hardware_ready w \<longleftrightarrow> (\<forall>n. \<exists>m\<ge>n. bit (answer w m) 5) \<and> (\<forall>n. drop_bit 16 (ucast (answer w n) :: u32) AND 0xFF \<noteq> 0xFF)"

lemma hardware_ready_extends: "extends P w w' \<Longrightarrow> hardware_ready w' = hardware_ready w"
  by (simp add: hardware_ready_def extends_def)

lemma wait_for_pit_returns:
  assumes "bit (answer (ap_io s) m) 5" and "asked (ap_io s) \<le> m"
  shows "\<exists>s'. wait_for_pit s = Some s'"
  using assms
proof (induction "m - asked (ap_io s)" arbitrary: s)
  case (0 s)
  then have "bit (ucast (answer (ap_io s) (asked (ap_io s))) :: u8) 5" by (simp add: bit_simps)
  then have v: "(ucast (answer (ap_io s) (asked (ap_io s))) :: u8) AND 0x20 \<noteq> 0"
    using and_exp_eq_0_iff_not_bit[of "ucast (answer (ap_io s) (asked (ap_io s))) :: u8" 5] by simp
  show ?case using v by (subst wait_for_pit.simps) (simp add: on_io_def Let_def split_beta)
next
  case (Suc d s)
  let ?s = "snd (on_io (in_b 0x61) s)"
  have s: "answer (ap_io ?s) = answer (ap_io s)" "asked (ap_io ?s) = Suc (asked (ap_io s))"
    by (simp_all add: on_io_def Let_def split_beta)
  have "\<exists>s'. wait_for_pit ?s = Some s'" using Suc.hyps Suc.prems by (intro Suc.hyps(1)) (simp_all add: s)
  then show ?case by (subst wait_for_pit.simps) (auto simp: Let_def split_beta)
qed

lemma timer_returns:
  assumes "hardware_ready (ap_io s)"
  shows "\<exists>s'. init_apic_timer_interrupt s = Some s'"
proof -
  let ?s0 = "write_apic_register INITIAL_COUNT_REGISTER_FOR_TIMER 0xFFFFFFFF
    (write_apic_register DIVIDE_CONFIGURATION_REGISTER_FOR_TIMER 0x3
      (do_io (out_b 0x40 0x04) (do_io (out_b 0x40 0xA9) (do_io (out_b 0x43 0x30) s))))"
  have "answer (ap_io ?s0) = answer (ap_io s)" by (simp add: write_apic_register_def)
  then have "\<exists>m\<ge>asked (ap_io ?s0). bit (answer (ap_io ?s0) m) 5" using assms by (simp add: hardware_ready_def)
  then have "\<exists>s'. wait_for_pit ?s0 = Some s'" using wait_for_pit_returns by blast
  then show ?thesis
    by (auto simp: init_apic_timer_interrupt_def init_apic_timer_def calibrate_apic_timer_def Let_def split_beta)
qed

lemma byte_less: "y AND 0xFF \<noteq> 0xFF \<Longrightarrow> (ucast (y AND 0xFF) :: u8) < 255" for y :: u32
proof -
  assume ne: "y AND 0xFF \<noteq> 0xFF"
  have "unat (take_bit 8 y) < 256" by (simp add: take_bit_eq_mod unat_mod_distrib)
  moreover have y: "y AND 0xFF = take_bit 8 y" by (simp add: take_bit_eq_mask mask_eq_exp_minus_1)
  moreover have "unat (take_bit 8 y) \<noteq> 255" using ne unfolding y word_unat_eq_iff by simp
  ultimately have "unat (y AND 0xFF) < 255" by simp
  then show ?thesis by (simp add: word_less_nat_alt unsigned_ucast_eq take_bit_nat_eq_self)
qed

lemma ioapic_init_returns:
  assumes "hardware_ready (ap_io s)"
  shows "\<exists>s'. ioapic_init s = Some s'"
proof -
  let ?m = "(ap_map_4kb_page IOAPIC_VIRT (ucast (get_ioapic_addresss (ap_acpi s))) PTE_MMIO_FLAGS
    (s\<lparr>ioapic_base_address := ucast (get_ioapic_addresss (ap_acpi s))\<rparr>))\<lparr>ioapic_base_address := IOAPIC_VIRT\<rparr>"
  have "extends quiet (ap_io s) (ap_io ?m)" by (simp add: ap_map_io)
  then have "hardware_ready (ap_io ?m)" using assms hardware_ready_extends by blast
  then have "drop_bit 16 (fst (ioapic_read 1 ?m)) AND 0xFF \<noteq> 0xFF" by (simp add: hardware_ready_def ioapic_read_def Let_def)
  then have "max_entry ?m < 255" unfolding max_entry_def by (rule byte_less)
  from mask_loop_device[OF this, of 0 "snd (ioapic_read 1 ?m)"]
  show ?thesis
    by (auto simp: ioapic_init_def mask_all_ioapic_vectors_def max_entry_def Let_def split_beta IOAPIC_VIRT_def)
qed

lemma boot_devices_returns:
  assumes "hardware_ready (k_io k)"
    and "parse_acpi (scr_boot sc) (vm_mem (ap_vm (k_apic k))) (ap_acpi (k_apic k)) \<noteq> None"
  shows "\<exists>k'. boot_devices sc k = Some k'"
proof -
  let ?k1 = "on_vm (\<lambda>v. v\<lparr>vm_pmm := physical_memory_init (scr_boot sc) (vm_pmm v)\<rparr>) k"
  obtain ac where ac: "parse_acpi (scr_boot sc) (vm_mem (ap_vm (k_apic ?k1))) (ap_acpi (k_apic ?k1)) = Some ac"
    using assms(2) by (auto simp: on_vm_def on_apic_def)
  let ?k3 = "on_apic apic_init (on_apic (\<lambda>a. a\<lparr>ap_acpi := ac\<rparr>) ?k1)"
  let ?a0 = "do_io (\<lambda>_. snd (initialize_framebuffer_details sc (k_disp ?k3, k_io ?k3))) (k_apic ?k3)"
  have "extends quiet (k_io k) (k_io ?k3)"
    using apic_init_io(1)[of "(k_apic ?k1)\<lparr>ap_acpi := ac\<rparr>"] by (simp add: on_apic_def on_vm_def)
  then have "hardware_ready (k_io ?k3)" using assms(1) hardware_ready_extends by blast
  then have a0: "hardware_ready (ap_io ?a0)" by (simp add: initialize_framebuffer_details_def Let_def hardware_ready_def)
  then obtain a1 where a1: "ioapic_init ?a0 = Some a1" using ioapic_init_returns by blast
  then have "hardware_ready (ap_io a1)" using ioapic_init_trace[OF a1] a0 by (simp add: hardware_ready_def)
  then obtain a2 where "init_apic_timer_interrupt a1 = Some a2" using timer_returns by blast
  then show ?thesis using ac a1 by (simp add: boot_devices_def Let_def split_beta set_io_def)
qed

section \<open>Properties\<close>

lemma other_register:
  fixes j :: u8
  assumes "j < 120" and "j \<noteq> 0" and "j \<noteq> 1" and "j \<noteq> 33"
  shows "0x10 + 2 * j \<notin> {0x10, 0x11, 0x12, 0x13, 0x52}"
proof -
  have lt: "unat j < 120" using assms(1) by (simp add: word_less_nat_alt)
  have "unat (0x10 + 2 * j) = 16 + 2 * unat j" using lt by (simp add: unat_word_ariths)
  moreover have "unat j \<noteq> 0" "unat j \<noteq> 1" "unat j \<noteq> 33" using assms by (auto simp: word_unat_eq_iff)
  ultimately have "unat (0x10 + 2 * j) \<notin> {16, 17, 18, 19, 82}" using lt by auto
  then show ?thesis by auto
qed

text \<open>C13: The interrupt routing after the set-up. Whenever \<open>boot_devices\<close> returns and the I/O APIC
  answered its reads, the device routes line 0 to the timer's vector and line 1 to the keyboard's,
  both unmasked and to processor 0; every other entry the device has is masked, except that of line
  33: \<open>enable_keyboard\<close> unmasks the entry with the number of its vector.\<close>

theorem boot_routes_irqs:
  assumes "boot_devices sc k = Some k'" and "k_trace k' = k_trace k @ es" and "faithful es d"
    and "ucast (drop_bit 16 (registers d 1) AND 0xFF) = mx" and "mx < (120 :: u8)"
  shows "registers (device_after IOAPIC_VIRT es d) 0x10 = 0x22 \<and> registers (device_after IOAPIC_VIRT es d) 0x11 = 0 \<and>
    registers (device_after IOAPIC_VIRT es d) 0x12 = 33 \<and> registers (device_after IOAPIC_VIRT es d) 0x13 = 0 \<and>
    \<not> masked (device_after IOAPIC_VIRT es d) 33 \<and>
    (\<forall>j. j \<le> mx \<and> j \<notin> {0, 1, 33} \<longrightarrow> masked (device_after IOAPIC_VIRT es d) j)"
proof -
  obtain e0 ms e2 v v' e3 where es: "es = e0 @ ms @ e2 @ route_events v v' @ e3"
    and quiet: "list_all quiet e0" "list_all quiet e2" "list_all quiet e3"
    and ms: "\<And>d j. faithful ms d \<Longrightarrow> j \<le> ucast (drop_bit 16 (registers d 1) AND 0xFF) \<Longrightarrow>
      masked (device_after IOAPIC_VIRT ms d) j"
    using boot_devices_trace[OF assms(1)] unfolding assms(2) by auto
  note q = quiet_device[OF quiet(1)] quiet_device[OF quiet(2)] quiet_device[OF quiet(3)]
  let ?d1 = "device_after IOAPIC_VIRT ms d"
  have f: "faithful ms d" "faithful (route_events v v') ?d1"
    using assms(3) unfolding es by (simp_all add: faithful_append q)
  have fin: "registers (device_after IOAPIC_VIRT es d) =
      (registers ?d1)(0x11 := 0, 0x10 := 0x22, 0x13 := 0, 0x12 := 33, 0x52 := registers ?d1 0x52 AND NOT 0x10000)"
    using route_events_device[OF f(2)] unfolding es by (simp add: q)
  have "masked (device_after IOAPIC_VIRT es d) j" if "j \<le> mx" "j \<notin> {0, 1, 33}" for j
  proof -
    have "masked ?d1 j" using ms[OF f(1)] that(1) assms(4) by simp
    moreover have "0x10 + 2 * j \<notin> {0x10, 0x11, 0x12, 0x13, 0x52}"
      using that assms(5) by (intro other_register) auto
    ultimately show ?thesis unfolding masked_def fin by simp
  qed
  moreover have "\<not> masked (device_after IOAPIC_VIRT es d) 33"
    by (simp add: masked_def fin bit_simps bit_numeral_rec)
  ultimately show ?thesis by (simp add: fin)
qed

text \<open>A kernel on hardware that answers every read with \<open>0x22\<close>, and the device that does.\<close>

definition boot_sample :: kernel where
  "boot_sample = sample_kernel\<lparr>k_apic := sample_apic 0x22\<rparr>"

definition device_sample :: io_apic_device where
  "device_sample = \<lparr>selected = 0, registers = (\<lambda>_. 0x22)\<rparr>"

lemma quiet_faithful: "list_all quiet es \<Longrightarrow> faithful es d"
  by (induction es d rule: faithful.induct) (auto simp: quiet_step)

lemma boot_sample_returns: "\<exists>k'. boot_devices sample_screen boot_sample = Some k'"
proof -
  have "hardware_ready (k_io boot_sample)"
    by (auto simp: hardware_ready_def boot_sample_def sample_kernel_def sample_apic_def drop_bit_eq_div bit_numeral_rec)
  moreover have "parse_acpi (scr_boot sample_screen) (vm_mem (ap_vm (k_apic boot_sample))) (ap_acpi (k_apic boot_sample)) \<noteq> None"
    by (simp add: parse_acpi_def signature_is_def boot_sample_def sample_kernel_def sample_apic_def read_bytes_def upt_rec)
  ultimately show ?thesis using boot_devices_returns by blast
qed

theorem boot_routes_irqs_witness:
  "\<exists>k'. boot_devices sample_screen boot_sample = Some k' \<and>
     registers (device_after IOAPIC_VIRT (k_trace k') device_sample) 0x12 = 33 \<and>
     \<not> masked (device_after IOAPIC_VIRT (k_trace k') device_sample) 33"
proof -
  obtain k' where k': "boot_devices sample_screen boot_sample = Some k'" using boot_sample_returns by blast
  have init: "answer (k_io boot_sample) = (\<lambda>_. 0x22)" "k_trace boot_sample = []"
    by (simp_all add: boot_sample_def sample_kernel_def sample_apic_def)
  have z: "drop_bit 16 (ucast (0x22 :: u64) :: u32) AND 0xFF = 0" by (simp add: drop_bit_eq_div)
  obtain e0 e2 e3 where tr: "k_trace k' = e0 @ mask_events 0x22 @ e2 @ route_events 0x22 0x22 @ e3"
    and q: "list_all quiet e0" "list_all quiet e2" "list_all quiet e3"
    using boot_devices_trace[OF k'] init z by fastforce
  note dev = quiet_device[OF q(1)] quiet_device[OF q(2)] quiet_device[OF q(3)]
  have f: "faithful (mask_events 0x22) device_sample"
    "faithful (route_events 0x22 0x22) (device_after IOAPIC_VIRT (mask_events 0x22) device_sample)"
    by (simp_all add: mask_events_def route_events_def device_sample_def device_after_def)
  have "faithful (k_trace k') device_sample"
    unfolding tr by (simp add: faithful_append dev quiet_faithful[OF q(1)] quiet_faithful[OF q(2)] quiet_faithful[OF q(3)] f)
  moreover have "ucast (drop_bit 16 (registers device_sample 1) AND 0xFF) = (0 :: u8)"
    by (simp add: device_sample_def drop_bit_eq_div)
  ultimately show ?thesis
    using boot_routes_irqs[OF k', of "k_trace k'" device_sample 0] k' init(2) by simp
qed

end
