(* ===== verification/Boot_Identify.thy ===== *)
theory Boot_Identify
  imports Kernel
begin

text \<open>
  The strings that the hardware supplies while the kernel boots: the processor's vendor and brand
  (\<^verbatim>\<open>x86_64/cpu.c\<close>) and the names of the drives (\<^verbatim>\<open>hardware/storage/ata.c\<close>). \<open>identification\<close> is what the two
  identification routines do on the hardware; what they do does not depend on what happened before
  (\<open>identify_cpu_pre\<close>, \<open>ata_init_pre\<close>). If the strings among the answers are plain, every print of
  the two routines passes the arguments its format asks for.
\<close>

section \<open>Typed events\<close>

fun typed_event :: "io_event \<Rightarrow> bool" where
  "typed_event (Print s color args) = print_ok s args"
| "typed_event (Log l s args) = log_ok s args"
| "typed_event (TermWrite s) = print_ok s []"
| "typed_event _ = True"

text \<open>The events that supply a string: the vendor's leaf of \<open>cpuid\<close>, the three leaves of the brand, and the
  words a drive identifies itself with. A string is plain if it contains no \<^verbatim>\<open>%\<close>, the character 37.\<close>

fun plain_event :: "io_event \<Rightarrow> bool" where
  "plain_event (Cpuid leaf a b c d) \<longleftrightarrow>
     (leaf = 0 \<longrightarrow> 37 \<notin> set (vendor_bytes (a, b, c, d))) \<and>
     (leaf \<in> {0x80000002, 0x80000003, 0x80000004} \<longrightarrow> 37 \<notin> set (bytes_of 4 a @ bytes_of 4 b @ bytes_of 4 c @ bytes_of 4 d))"
| "plain_event (InWords p ws) \<longleftrightarrow> 37 \<notin> set (model (identified ws)) \<union> set (serial (identified ws))"
| "plain_event _ \<longleftrightarrow> True"

section \<open>Plain strings\<close>

lemma well_typed_plain: "CHR ''%'' \<notin> set s \<Longrightarrow> well_typed dbl str s args"
proof (induction s)
  case (Cons c s)
  moreover from Cons.prems have "peek (c # s) 0 \<noteq> CHR ''%''" by (auto simp: peek_def)
  ultimately show ?case by (simp add: well_typed.simps[of dbl str "c # s"])
qed (simp add: well_typed.simps)

lemma char_of_percent: "char_of (unat b) = CHR ''%'' \<longleftrightarrow> b = 37" for b :: u8
proof -
  have "char_of (unat b) = CHR ''%'' \<longleftrightarrow> of_char (char_of (unat b)) = (of_char (CHR ''%'') :: nat)"
    by (metis char_of_char)
  also have "of_char (char_of (unat b)) = unat b" using unsigned_less[of b, where 'a = nat] by simp
  finally show ?thesis by (simp add: word_unat_eq_iff)
qed

lemma plain_chars: "37 \<notin> set bs \<Longrightarrow> plain (chars_of bs)"
  unfolding plain_def chars_of_def
  by (rule well_typed_plain) (auto simp: char_of_percent eq_commute[of "CHR ''%''"] dest!: set_takeWhileD)

section \<open>The calls\<close>

named_theorems call_ok

lemma print_ok_plain [simp]: "CHR ''%'' \<notin> set s \<Longrightarrow> print_ok s args"
  by (simp add: print_ok_def well_typed_plain)

lemma cpu_calls [call_ok]:
  "plain t \<Longrightarrow> print_ok ''CPU Vendor: %s\<newline>'' [VStr t]"
  "plain t \<Longrightarrow> print_ok ''CPU Brand: %s\<newline>'' [VStr t]"
  "print_ok ''CPU Family: %d, Model: %d, Stepping: %d\<newline>'' [VInt x, VInt y, VInt z]"
  by (simp_all add: print_ok_def well_typed.simps peek_def)

lemma ata_calls [call_ok]:
  "print_ok ''\<newline>\<newline>Drive %d detected:\<newline>'' [VInt x]"
  "plain t \<Longrightarrow> print_ok ''Interface: %s\<newline>'' [VStr t]"
  "plain t \<Longrightarrow> print_ok ''Model: %s\<newline>'' [VStr t]"
  "plain t \<Longrightarrow> print_ok ''Serial: %s\<newline>'' [VStr t]"
  "print_ok ''Capacity: %lu sectors (%lu MB)\<newline>'' [VLong y, VLong z]"
  "print_ok ''No drive detected at channel %d, drive %d\<newline>'' [VInt x, VInt x']"
  by (simp_all add: print_ok_def well_typed.simps peek_def)

section \<open>What happened before does not matter\<close>

definition pre :: "io_event list \<Rightarrow> io_world \<Rightarrow> io_world" where
  "pre t w = w\<lparr>trace := t @ trace w\<rparr>"

lemma pre_simps [simp]:
  "trace (pre t w) = t @ trace w" "answer (pre t w) = answer w" "asked (pre t w) = asked w"
  by (simp_all add: pre_def)

named_theorems pre_intros

lemma pre_emit [pre_intros]: "emit e (pre t w) = pre t (emit e w)"
  by (simp add: pre_def emit_def)

lemma pre_ask [pre_intros]: "ask (pre t w) = (fst (ask w), pre t (snd (ask w)))"
  by (simp add: pre_def ask_def)

lemma pre_print [pre_intros]: "print_call s c as (pre t w) = pre t (print_call s c as w)"
  and pre_out_b [pre_intros]: "out_b p v (pre t w) = pre t (out_b p v w)"
  by (simp_all add: print_call_def out_b_def pre_emit)

lemma pre_in_b [pre_intros]: "in_b p (pre t w) = (fst (in_b p w), pre t (snd (in_b p w)))"
  by (simp add: in_b_def Let_def pre_intros split_beta)

lemma pre_cpuid [pre_intros]: "cpuid l (pre t w) = (fst (cpuid l w), pre t (snd (cpuid l w)))"
  by (simp add: cpuid_def Let_def pre_intros split_beta)

lemma pre_if [pre_intros]: "(if b then pre t w else pre t v) = pre t (if b then w else v)"
  by simp

lemma pre_feature [pre_intros]: "print_feature b s (pre t w) = pre t (print_feature b s w)"
  by (simp add: print_feature_def pre_intros)

lemma pre_brand [pre_intros]: "brand_registers i n (pre t w) = (fst (brand_registers i n w), pre t (snd (brand_registers i n w)))"
  by (induction n arbitrary: i w) (simp_all add: Let_def split_beta pre_intros)

text \<open>\<open>identify_cpu\<close> in two parts, the brand's answer between them.\<close>

lemma identify_cpu_pre: "identify_cpu (info, pre t w) = (fst (identify_cpu (info, w)), pre t (snd (identify_cpu (info, w))))"
proof -
  obtain v w1 where c1: "cpuid 0 w = (v, w1)" by fastforce
  obtain e x y z w2 where c2: "cpuid 1 (print_call ''CPU Vendor: %s\<newline>'' 0xFFFF55 [VStr (chars_of (vendor_bytes v))] w1) = ((e, x, y, z), w2)"
    by (metis surj_pair)
  obtain f m st where sg: "cpu_signature e = (f, m, st)" by (metis surj_pair)
  obtain e3 x3 y3 z3 w3 where
    c3: "cpuid 0x80000000 (print_call ''CPU Family: %d, Model: %d, Stepping: %d\<newline>'' 0xFFFF55 [VInt f, VInt m, VInt st] w2) = ((e3, x3, y3, z3), w3)"
    by (metis surj_pair)
  note steps = c1 c2 sg c3 pre_cpuid[of _ t w] pre_cpuid pre_print pre_feature pre_brand
  show ?thesis
    by (cases "0x80000004 \<le> e3") (simp_all add: identify_cpu_def Let_def steps split_beta)
qed

lemma pre_ask_words [pre_intros]: "ask_words n (pre t w) = (fst (ask_words n w), pre t (snd (ask_words n w)))"
  by (induction n arbitrary: w) (simp_all add: Let_def split_beta pre_intros)

lemma pre_in_sw [pre_intros]: "in_sw p n (pre t w) = (fst (in_sw p n w), pre t (snd (in_sw p n w)))"
  by (simp add: in_sw_def Let_def split_beta pre_intros)

lemma pre_ata_write [pre_intros]: "ata_write_register c r d (pre t w) = pre t (ata_write_register c r d w)"
  and pre_ata_read [pre_intros]: "ata_read_register c r (pre t w) = (fst (ata_read_register c r w), pre t (snd (ata_read_register c r w)))"
  by (simp_all add: ata_write_register_def ata_read_register_def ata_high_bank_def pre_intros)

lemma pre_ata_poll [pre_intros]: "ata_poll c n (pre t w) = (fst (ata_poll c n w), pre t (snd (ata_poll c n w)))"
  by (induction n arbitrary: w) (simp_all add: Let_def split_beta pre_intros)

lemma pre_fold: "(\<And>x w. f x (pre t w) = pre t (f x w)) \<Longrightarrow> fold f xs (pre t w) = pre t (fold f xs w)"
  by (induction xs arbitrary: w) simp_all

lemma pre_ata_identify [pre_intros]:
  "ata_identify c d di (pre t w) = (case ata_identify c d di w of (b, di', w') \<Rightarrow> (b, di', pre t w'))"
proof -
  have "fold (\<lambda>i. ata_write_register c (of_nat i) 0) xs (pre t v) = pre t (fold (\<lambda>i. ata_write_register c (of_nat i) 0) xs v)" for xs v
    by (rule pre_fold) (rule pre_ata_write)
  then show ?thesis
    by (simp add: ata_identify_def ata_select_drive_def ata_wait_ready_def Let_def split_beta pre_intros)
qed

lemma pre_report [pre_intros]: "report_drive i di (pre t w) = pre t (report_drive i di w)"
  "ata_print s as (pre t w) = pre t (ata_print s as w)"
  by (simp_all add: report_drive_def ata_print_def Let_def pre_intros)

abbreviation ap_pre :: "io_event list \<Rightarrow> apic \<Rightarrow> apic" where "ap_pre t \<equiv> do_io (pre t)"

lemma ap_pre_simps [simp]:
  "ioapic_base_address (ap_pre t a) = ioapic_base_address a" "vm_io (ap_vm (do_io f a)) = f (vm_io (ap_vm a))"
  by (simp_all add: do_io_def)

lemma do_io_const [simp]: "do_io (\<lambda>_. w) (do_io f a) = do_io (\<lambda>_. w) a" "do_io f (do_io (\<lambda>_. w) a) = do_io (\<lambda>_. f w) a"
  by (simp_all add: do_io_def)

lemma pre_mmio:
  "mmio_write a v (ap_pre t s) = ap_pre t (mmio_write a v s)"
  "mmio_read a (ap_pre t s) = (fst (mmio_read a s), ap_pre t (snd (mmio_read a s)))"
  by (simp_all add: mmio_write_def mmio_read_def do_io_def on_io_def pre_intros Let_def split_beta)

lemma pre_setup: "setup_ioapic_for_ata (ap_pre t a) = ap_pre t (setup_ioapic_for_ata a)"
  by (simp add: setup_ioapic_for_ata_def ioapic_set_irq_def ioapic_unmask_irq_def ioapic_write_def ioapic_read_def
      Let_def split_beta pre_mmio)

abbreviation ata_pre :: "io_event list \<Rightarrow> ata \<Rightarrow> ata" where "ata_pre t s \<equiv> s\<lparr>at_apic := ap_pre t (at_apic s)\<rparr>"

lemma pre_init_drive: "init_drive cd (ata_pre t s) = ata_pre t (init_drive cd s)"
  by (cases cd) (auto simp: init_drive_def Let_def pre_intros split: prod.splits)

lemma ata_init_pre: "ata_init (ata_pre t s) = ata_pre t (ata_init s)"
proof -
  have many: "fold init_drive cds (ata_pre t s) = ata_pre t (fold init_drive cds s)" for cds s
    by (induction cds arbitrary: s) (simp_all add: pre_init_drive)
  have irqs: "(ata_pre t s)\<lparr>at_apic := setup_ioapic_for_ata (at_apic (ata_pre t s))\<rparr> =
      ata_pre t (s\<lparr>at_apic := setup_ioapic_for_ata (at_apic s)\<rparr>)"
    by (simp add: pre_setup)
  have last: "(ata_pre t u)\<lparr>at_apic := do_io (ata_print s as) (at_apic (ata_pre t u))\<rparr> =
      ata_pre t (u\<lparr>at_apic := do_io (ata_print s as) (at_apic u)\<rparr>)" for u s as
    by (simp add: do_io_def pre_intros)
  show ?thesis unfolding ata_init_def Let_def irqs many last ..
qed

section \<open>The identification\<close>

text \<open>The two routines on the hardware of \<open>k\<close>: the processor's after the drives'.\<close>

definition identified_cpu :: "kernel \<Rightarrow> io_world" where
  "identified_cpu k = snd (identify_cpu (k_cpu k, (k_io k)\<lparr>trace := []\<rparr>))"

definition identified_drives :: "kernel \<Rightarrow> ata" where
  "identified_drives k = ata_init \<lparr>at_apic = do_io (\<lambda>_. identified_cpu k) (k_apic k), drives = k_drives k\<rparr>"

definition identification :: "kernel \<Rightarrow> io_event list" where
  "identification k = trace (vm_io (ap_vm (at_apic (identified_drives k))))"

text \<open>\<open>k'\<close> is \<open>k\<close> after accesses that left the hardware alone: prints, and drawing.\<close>

definition still :: "kernel \<Rightarrow> kernel \<Rightarrow> bool" where
  "still k k' \<longleftrightarrow> k_cpu k' = k_cpu k \<and> k_drives k' = k_drives k \<and> (\<exists>t. k_apic k' = do_io (\<lambda>w. w\<lparr>trace := t\<rparr>) (k_apic k))"

lemma still_refl [simp]: "still k k"
proof -
  have "k_apic k = do_io (\<lambda>w. w\<lparr>trace := k_trace k\<rparr>) (k_apic k)" by (simp add: do_io_def)
  then show ?thesis unfolding still_def by blast
qed

lemma still_trans: "still k k1 \<Longrightarrow> still k1 k2 \<Longrightarrow> still k k2"
  by (auto simp: still_def do_io_def)

lemma still_world: "still k k' \<Longrightarrow> k_io k' = pre (k_trace k') ((k_io k)\<lparr>trace := []\<rparr>)"
  by (auto simp: still_def do_io_def pre_def)

lemma still_apic: "still k k' \<Longrightarrow> do_io (\<lambda>_. w) (k_apic k') = do_io (\<lambda>_. w) (k_apic k)"
  by (auto simp: still_def)

lemma still_identify:
  assumes "still k k'"
  shows "snd (identify_cpu (k_cpu k', k_io k')) = pre (k_trace k') (identified_cpu k)"
proof -
  have "k_cpu k' = k_cpu k" using assms by (simp add: still_def)
  then show ?thesis using still_world[OF assms] by (metis identified_cpu_def identify_cpu_pre snd_conv)
qed

section \<open>Typed if plain\<close>

abbreviation onward :: "io_world \<Rightarrow> io_world \<Rightarrow> bool" where "onward \<equiv> extends (\<lambda>_. True)"

definition new_events :: "io_world \<Rightarrow> io_world \<Rightarrow> io_event list" where
  "new_events w w' = drop (length (trace w)) (trace w')"

definition plain_since :: "io_world \<Rightarrow> io_world \<Rightarrow> bool" where
  "plain_since w w' \<longleftrightarrow> list_all plain_event (new_events w w')"

definition typed_if :: "io_world \<Rightarrow> io_world \<Rightarrow> bool" where
  "typed_if w w' \<longleftrightarrow> onward w w' \<and> (plain_since w w' \<longrightarrow> extends typed_event w w')"

lemma extends_onward: "extends P w w' \<Longrightarrow> onward w w'"
  by (auto simp: extends_def list_all_iff)

lemma plain_since_trans: "onward u v \<Longrightarrow> onward v w \<Longrightarrow> plain_since u w \<longleftrightarrow> plain_since u v \<and> plain_since v w"
  by (auto simp: extends_def plain_since_def new_events_def)

lemma typed_if_refl [simp]: "typed_if w w"
  by (simp add: typed_if_def)

lemma typed_if_trans: "typed_if u v \<Longrightarrow> typed_if v w \<Longrightarrow> typed_if u w"
  unfolding typed_if_def using plain_since_trans extends_trans by blast

lemma typed_if_then: "typed_if u v \<Longrightarrow> onward v w \<Longrightarrow> (plain_since u v \<Longrightarrow> plain_since v w \<Longrightarrow> extends typed_event v w) \<Longrightarrow> typed_if u w"
  unfolding typed_if_def using plain_since_trans extends_trans by blast

lemma typed_if_extends: "typed_if u v \<Longrightarrow> extends typed_event v w \<Longrightarrow> typed_if u w"
  using typed_if_then extends_onward by blast

lemma typed_if_print: "typed_if u w \<Longrightarrow> (plain_since u w \<Longrightarrow> print_ok s args) \<Longrightarrow> typed_if u (print_call s c args w)"
  by (erule typed_if_then) (auto intro!: extends_print_call)

lemma typed_if_feature: "typed_if u w \<Longrightarrow> CHR ''%'' \<notin> set s \<Longrightarrow> typed_if u (print_feature b s w)"
  by (auto simp: print_feature_def intro!: typed_if_print)

section \<open>The processor\<close>

lemma cpuid_supplies:
  assumes "cpuid leaf w = ((a, b, c, d), w')"
  shows "extends typed_event w w'" and "new_events w w' = [Cpuid leaf a b c d]"
  using assms by (auto simp: cpuid_def ask_def Let_def extends_def emit_def new_events_def)

lemma typed_if_cpuid: "typed_if u w \<Longrightarrow> cpuid leaf w = (r, w') \<Longrightarrow> typed_if u w'"
  by (cases r) (auto dest: cpuid_supplies(1) intro: typed_if_extends)

lemma brand_supplies:
  "brand_registers i n w = (b, w') \<Longrightarrow> i + n \<le> 3 \<Longrightarrow> extends typed_event w w' \<and> (plain_since w w' \<longrightarrow> 37 \<notin> set b)"
proof (induction n arbitrary: i w b w')
  case (Suc n)
  obtain x y z u w1 where c: "cpuid (0x80000002 + of_nat i) w = ((x, y, z, u), w1)" by (metis surj_pair)
  obtain rest where r: "brand_registers (Suc i) n w1 = (rest, w')" "b = bytes_of 4 x @ bytes_of 4 y @ bytes_of 4 z @ bytes_of 4 u @ rest"
    using Suc.prems(1) c by (auto simp: Let_def split: prod.splits)
  have "i = 0 \<or> i = 1 \<or> i = 2" using Suc.prems(2) by auto
  then have "0x80000002 + of_nat i \<in> {0x80000002, 0x80000003, 0x80000004 :: u32}" by auto
  then have "plain_since w w1 \<longrightarrow> 37 \<notin> set (bytes_of 4 x @ bytes_of 4 y @ bytes_of 4 z @ bytes_of 4 u)"
    using cpuid_supplies(2)[OF c] by (simp add: plain_since_def)
  moreover have two: "extends typed_event w1 w'" "plain_since w1 w' \<longrightarrow> 37 \<notin> set rest" using Suc.IH[OF r(1)] Suc.prems(2) by auto
  ultimately show ?case
    using cpuid_supplies(1)[OF c] plain_since_trans[OF extends_onward extends_onward, OF cpuid_supplies(1)[OF c] two(1)]
    by (auto simp: r(2) intro: extends_trans)
qed simp

lemma identify_cpu_typed: "typed_if w (snd (identify_cpu (info, w)))"
proof -
  obtain v1 v2 v3 v4 w1 where c1: "cpuid 0 w = ((v1, v2, v3, v4), w1)" by (metis surj_pair)
  let ?v = "(v1, v2, v3, v4)"
  let ?p1 = "print_call ''CPU Vendor: %s\<newline>'' 0xFFFF55 [VStr (chars_of (vendor_bytes ?v))] w1"
  obtain e x y z w2 where c2: "cpuid 1 ?p1 = ((e, x, y, z), w2)" by (metis surj_pair)
  obtain f m st where sg: "cpu_signature e = (f, m, st)" by (metis surj_pair)
  let ?p2 = "print_call ''CPU Family: %d, Model: %d, Stepping: %d\<newline>'' 0xFFFF55 [VInt f, VInt m, VInt st] w2"
  obtain e3 x3 y3 z3 w3 where c3: "cpuid 0x80000000 ?p2 = ((e3, x3, y3, z3), w3)" by (metis surj_pair)
  obtain b w4 where c4: "brand_registers 0 3 w3 = (b, w4)" by fastforce
  have "plain_since w w1 \<Longrightarrow> print_ok ''CPU Vendor: %s\<newline>'' [VStr (chars_of (vendor_bytes ?v))]"
    using cpuid_supplies(2)[OF c1] by (auto simp: plain_since_def intro!: call_ok plain_chars)
  then have "typed_if w ?p1" by (intro typed_if_print typed_if_cpuid[OF _ c1]) simp_all
  note w2 = typed_if_cpuid[OF this c2]
  have "typed_if w ?p2" by (rule typed_if_print[OF w2]) (rule call_ok)
  note w3 = typed_if_cpuid[OF this c3]
  have brand: "plain_since w w4 \<Longrightarrow> 37 \<notin> set (dropWhile (\<lambda>b. b = 32) (b @ [0]))"
  proof -
    assume "plain_since w w4"
    then have "plain_since w3 w4"
      using plain_since_trans[of w w3 w4] w3 brand_supplies[OF c4] by (auto simp: typed_if_def dest: extends_onward)
    then have "37 \<notin> set b" using brand_supplies[OF c4] by simp
    then show ?thesis by (auto dest: set_dropWhileD)
  qed
  define w5 where "w5 = (if 0x80000004 \<le> e3 then print_call ''CPU Brand: %s\<newline>'' 0xFFFF55 [VStr (chars_of (dropWhile (\<lambda>b. b = 32) (b @ [0])))] w4
      else print_call ''CPU Brand: Not supported\<newline>'' 0xFFFF55 [] w3)"
  have w4: "typed_if w w4" using brand_supplies[OF c4] by (intro typed_if_extends[OF w3]) simp
  have w5: "typed_if w w5"
    unfolding w5_def using brand by (auto intro!: typed_if_print w3 w4 call_ok plain_chars)
  obtain e6 x6 y6 z6 w6 where c6: "cpuid 1 w5 = ((e6, x6, y6, z6), w6)" by (metis surj_pair)
  let ?w6 = "print_call ''\<newline>'' 0xFFFF55 [] (print_feature (bit y6 0) ''SSE3 '' (print_feature (bit z6 26) ''SSE2 ''
    (print_feature (bit z6 25) ''SSE '' (print_feature (bit z6 23) ''MMX '' (print_feature (bit z6 0) ''FPU ''
    (print_call ''CPU Features: '' 0xFFFF55 [] w6))))))"
  obtain e7 x7 y7 z7 w7 where c7: "cpuid 0x80000001 ?w6 = ((e7, x7, y7, z7), w7)" by (metis surj_pair)
  have "snd (identify_cpu (info, w)) = print_call ''\<newline>'' 0xFFFF55 [] (print_feature (bit z7 11) ''SYSCALL/SYSRET ''
      (print_feature (bit z7 29) ''64-bit '' (print_call ''Extended Features: '' 0xFFFF55 [] w7)))"
    using c7 c6 by (simp add: identify_cpu_def c1 c2 sg c3 c4 w5_def Let_def split: if_splits)
  moreover have "typed_if w w7"
    by (intro typed_if_cpuid[OF _ c7] typed_if_print typed_if_feature typed_if_cpuid[OF w5 c6]) simp_all
  ultimately show ?thesis by (auto intro!: typed_if_print typed_if_feature)
qed

section \<open>The disks\<close>

abbreviation typed_ap :: "io_world \<Rightarrow> apic \<Rightarrow> bool" where
  "typed_ap w a \<equiv> extends typed_event w (vm_io (ap_vm a))"

lemma ioapic_typed:
  "typed_ap w a \<Longrightarrow> typed_ap w (ioapic_set_irq irq v i a)"
  "typed_ap w a \<Longrightarrow> typed_ap w (ioapic_unmask_irq irq a)"
  by (auto simp: ioapic_set_irq_def ioapic_unmask_irq_def ioapic_write_def ioapic_read_def mmio_write_def mmio_read_def
      on_io_def Let_def split_beta intro!: extends_intros)

lemma ata_registers_typed:
  "extends typed_event v w \<Longrightarrow> extends typed_event v (ata_write_register c r d w)"
  "extends typed_event v w \<Longrightarrow> extends typed_event v (snd (ata_read_register c r w))"
  by (auto simp: ata_write_register_def ata_read_register_def ata_high_bank_def intro!: extends_intros)

lemma ata_poll_typed: "extends typed_event v w \<Longrightarrow> extends typed_event v (snd (ata_poll c n w))"
  by (induction n arbitrary: w) (auto simp: Let_def split_beta ata_registers_typed intro!: extends_in_b,
    (simp add: extends_in_b)+)

lemma ata_identify_supplies:
  assumes "ata_identify c d di w = (found, di', w')"
  shows "extends typed_event w w'" and "found \<Longrightarrow> plain_since w w' \<Longrightarrow> plain (chars_of (model di')) \<and> plain (chars_of (serial di'))"
proof -
  let ?w1 = "ata_write_register c ATA_REG_COMMAND ATA_CMD_IDENTIFY
    (fold (\<lambda>i. ata_write_register c (of_nat i) 0) [1..<6] (ata_select_drive c d w))"
  let ?w2 = "snd (ata_wait_ready c ?w1)"
  let ?rd = "in_sw (c + ucast ATA_REG_DATA) 256 ?w2"
  have w2: "extends typed_event w ?w2"
    unfolding ata_wait_ready_def ata_select_drive_def
    by (intro ata_poll_typed ata_registers_typed extends_fold extends_refl)
  then have rd: "extends typed_event w (snd ?rd)" by (intro extends_in_sw) simp_all
  from assms have cases: "\<not> found \<and> w' = ?w2 \<or> found \<and> w' = snd ?rd \<and> di' = identified (fst ?rd)"
    by (auto simp: ata_identify_def Let_def split_beta split: if_splits)
  show "extends typed_event w w'" using cases w2 rd by auto
  obtain es where "trace ?w2 = trace w @ es" using w2 by (auto simp: extends_def)
  then have "new_events w (snd ?rd) = es @ [InWords (c + ucast ATA_REG_DATA) (fst ?rd)]" by (simp add: new_events_def)
  then show "plain (chars_of (model di')) \<and> plain (chars_of (serial di'))" if "found" "plain_since w w'"
    using cases that by (auto simp: plain_since_def intro!: plain_chars)
qed

abbreviation ata_io :: "ata \<Rightarrow> io_world" where "ata_io s \<equiv> vm_io (ap_vm (at_apic s))"

lemma init_drive_typed:
  assumes "typed_if u (ata_io s)"
  shows "typed_if u (ata_io (init_drive cd s))"
proof -
  obtain c d where cd: "cd = (c, d)" by fastforce
  obtain found di w1 where id: "ata_identify (channel_of c) (of_nat d) (drives s ! (c * 2 + d)) (ata_io s) = (found, di, w1)"
    by (metis surj_pair)
  note facts = ata_identify_supplies[OF id]
  have w1: "typed_if u w1" by (rule typed_if_extends[OF assms facts(1)])
  have since: "plain_since u w1 \<Longrightarrow> plain_since (ata_io s) w1"
    using plain_since_trans[of u "ata_io s" w1] extends_onward[OF facts(1)] assms unfolding typed_if_def by blast
  have "typed_if w1 (report_drive (c * 2 + d) di w1)" if "found" "plain_since u w1"
    using facts(2)[OF that(1) since[OF that(2)]]
    unfolding report_drive_def ata_print_def Let_def by (intro typed_if_print) (simp_all add: call_ok plain_def well_typed_plain)
  moreover have "onward w1 (report_drive (c * 2 + d) di w1)"
    unfolding report_drive_def ata_print_def Let_def by (intro extends_print_call) simp_all
  ultimately have "typed_if u (report_drive (c * 2 + d) di w1)" if "found"
    using that by (intro typed_if_then[OF w1]) (auto simp: typed_if_def)
  moreover have "typed_if u (ata_print ''No drive detected at channel %d, drive %d\<newline>'' [VInt (of_nat c), VInt (of_nat d)] w1)"
    unfolding ata_print_def by (rule typed_if_print[OF w1]) (rule call_ok)
  ultimately show ?thesis by (cases found) (simp_all add: init_drive_def cd id Let_def)
qed

lemma ata_init_typed: "typed_if (ata_io s) (ata_io (ata_init s))"
proof -
  let ?s = "s\<lparr>at_apic := setup_ioapic_for_ata (at_apic s)\<rparr>"
  have many: "typed_if u (ata_io t) \<Longrightarrow> typed_if u (ata_io (fold init_drive cds t))" for u cds t
    by (induction cds arbitrary: t) (simp_all add: init_drive_typed)
  have "extends typed_event (ata_io s) (ata_io ?s)" by (simp add: setup_ioapic_for_ata_def Let_def ioapic_typed)
  then have "typed_if (ata_io s) (ata_io ?s)" by (rule typed_if_extends[rotated]) simp
  from many[OF this] show ?thesis
    unfolding ata_init_def Let_def by (auto simp: ata_print_def intro!: typed_if_print simp del: fold.simps)
qed

section \<open>Hardware that always gives the same answer\<close>

lemma plain_extends:
  "extends plain_event v w \<Longrightarrow> extends plain_event v (print_call s c as w)"
  "extends plain_event v w \<Longrightarrow> extends plain_event v (print_feature b s w)"
  by (simp_all add: print_feature_def extends_print_call)

lemma plain_ioapic:
  "extends plain_event w (vm_io (ap_vm a)) \<Longrightarrow> extends plain_event w (vm_io (ap_vm (setup_ioapic_for_ata a)))"
  by (auto simp: setup_ioapic_for_ata_def ioapic_set_irq_def ioapic_unmask_irq_def ioapic_write_def ioapic_read_def mmio_write_def
      mmio_read_def on_io_def Let_def split_beta intro!: extends_intros)

lemma plain_registers:
  "extends plain_event v w \<Longrightarrow> extends plain_event v (ata_write_register c r d w)"
  "extends plain_event v w \<Longrightarrow> extends plain_event v (snd (ata_read_register c r w))"
  by (auto simp: ata_write_register_def ata_read_register_def ata_high_bank_def intro!: extends_intros)

lemma no_drive_poll:
  assumes "answer w = (\<lambda>_. a)" and "(ucast a :: u8) AND 0x40 = 0"
  shows "\<not> fst (ata_poll c n w) \<and> extends plain_event w (snd (ata_poll c n w))"
  using assms(1)
proof (induction n arbitrary: w)
  case (Suc n)
  let ?r = "ata_read_register c ATA_REG_STATUS w"
  have "fst ?r = ucast a" using Suc.prems by (simp add: ata_read_register_def ata_high_bank_def)
  then have st: "fst ?r AND ATA_SR_DRDY = 0" using assms(2) by simp
  have one: "extends plain_event w (snd ?r)" by (rule plain_registers) simp
  then have "answer (snd ?r) = (\<lambda>_. a)" using Suc.prems by (simp add: extends_def)
  from Suc.IH[OF this] one show ?case using st by (auto simp: Let_def split_beta intro: extends_trans)
qed simp

lemma no_drive_init:
  assumes "answer (ata_io s) = (\<lambda>_. a)" and "(ucast a :: u8) AND 0x40 = 0"
  shows "extends plain_event (ata_io s) (ata_io (init_drive cd s))"
proof -
  obtain c d where cd: "cd = (c, d)" by fastforce
  let ?w1 = "ata_write_register (channel_of c) ATA_REG_COMMAND ATA_CMD_IDENTIFY
    (fold (\<lambda>i. ata_write_register (channel_of c) (of_nat i) 0) [1..<6] (ata_select_drive (channel_of c) (of_nat d) (ata_io s)))"
  have w1: "extends plain_event (ata_io s) ?w1"
    unfolding ata_select_drive_def by (intro plain_registers extends_fold extends_refl)
  then have "answer ?w1 = (\<lambda>_. a)" using assms(1) by (simp add: extends_def)
  note poll = no_drive_poll[OF this assms(2), of "channel_of c" 1000]
  have w2: "extends plain_event (ata_io s) (snd (ata_wait_ready (channel_of c) ?w1))"
    using poll w1 by (auto simp: ata_wait_ready_def intro: extends_trans)
  have "ata_io (init_drive cd s) = ata_print ''No drive detected at channel %d, drive %d\<newline>'' [VInt (of_nat c), VInt (of_nat d)]
      (snd (ata_wait_ready (channel_of c) ?w1))"
    using poll by (simp add: cd init_drive_def ata_identify_def ata_wait_ready_def Let_def split_beta)
  then show ?thesis using w2 by (simp add: ata_print_def plain_extends)
qed

lemma no_drives:
  assumes "answer (ata_io s) = (\<lambda>_. a)" and "(ucast a :: u8) AND 0x40 = 0"
  shows "extends plain_event (ata_io s) (ata_io (ata_init s))"
proof -
  let ?s = "s\<lparr>at_apic := setup_ioapic_for_ata (at_apic s)\<rparr>"
  have many: "extends plain_event (ata_io s) (ata_io t) \<Longrightarrow> extends plain_event (ata_io s) (ata_io (fold init_drive cds t))" for cds t
  proof (induction cds arbitrary: t)
    case (Cons cd cds)
    then have "answer (ata_io t) = (\<lambda>_. a)" using assms(1) by (simp add: extends_def)
    from extends_trans[OF Cons.prems no_drive_init[OF this assms(2)]] show ?case using Cons.IH by simp
  qed simp
  have "extends plain_event (ata_io s) (ata_io ?s)" by (simp add: plain_ioapic)
  from many[OF this] show ?thesis
    unfolding ata_init_def Let_def by (simp add: ata_print_def plain_extends del: fold.simps)
qed

lemma plain_cpu:
  assumes "answer w = (\<lambda>_. a)" and "37 \<notin> set (bytes_of 4 (ucast a :: u32))" and "(ucast a :: u32) < 0x80000004"
  shows "extends plain_event w (snd (identify_cpu (c, w)))"
proof -
  have id: "fst (cpuid l v) = (ucast a, ucast a, ucast a, ucast a)" "l \<notin> {0x80000002, 0x80000003, 0x80000004} \<Longrightarrow> extends plain_event v (snd (cpuid l v))"
    if "answer v = (\<lambda>_. a)" for l v
    using that assms(2) by (auto simp: cpuid_def Let_def split_beta vendor_bytes_def intro!: extends_emit extends_ask)
  have keep: "extends plain_event w v \<Longrightarrow> answer v = (\<lambda>_. a)" for v using assms(1) by (simp add: extends_def)
  have step: "extends plain_event w v \<Longrightarrow> l \<notin> {0x80000002, 0x80000003, 0x80000004} \<Longrightarrow> extends plain_event w (snd (cpuid l v))" for v l
    using id(2)[OF keep] extends_trans by blast
  show ?thesis
    unfolding identify_cpu_def Let_def split_beta prod.sel
    using assms(3) by (simp add: id(1) keep plain_extends step)
qed

lemma plain_identification:
  assumes a: "answer (k_io k) = (\<lambda>_. a)" and "37 \<notin> set (bytes_of 4 (ucast a :: u32))" and "(ucast a :: u32) < 0x80000004"
    and "(ucast a :: u8) AND 0x40 = 0"
  shows "list_all plain_event (identification k)"
proof -
  let ?w = "(k_io k)\<lparr>trace := []\<rparr>" and ?s = "\<lparr>at_apic = do_io (\<lambda>_. identified_cpu k) (k_apic k), drives = k_drives k\<rparr>"
  have cpu: "extends plain_event ?w (identified_cpu k)"
    unfolding identified_cpu_def by (rule plain_cpu[OF _ assms(2,3)]) (simp add: a)
  then have "answer (ata_io ?s) = (\<lambda>_. a)" by (simp add: extends_def a)
  from no_drives[OF this assms(4)] have "extends plain_event (identified_cpu k) (ata_io (identified_drives k))"
    by (simp add: identified_drives_def)
  from extends_trans[OF cpu this] show ?thesis by (simp add: extends_def identification_def)
qed

end
