(* ===== verification/Boot_Output.thy ===== *)
theory Boot_Output
  imports Boot_Identify
begin

text \<open>
  What the kernel prints while it boots (\<^verbatim>\<open>kernel.c\<close>). The printers take their arguments on trust: a
  directive without an argument of its type reads whatever lies there, and \<^verbatim>\<open>%l\<close> before an unknown
  letter never ends. This theory types the output of \<open>boot_processor\<close>, the part of \<open>_start\<close> that only
  the boot processor runs: every call it makes passes the arguments its format asks for. Typed output
  has a text, so that \<open>boot_processor\<close> comes through all of its prints. The strings that the hardware
  supplies are printed as formats once more, and are plain only if they contain no \<^verbatim>\<open>%\<close>.
\<close>

section \<open>Showing typed events\<close>



section \<open>The calls\<close>

lemma acpi_calls [call_ok]:
  "print_ok ''\<newline>The local apic id = %d and processor id = %d and length = %d'' [VInt x, VInt x', VInt x'']"
  "print_ok ''\<newline>The local apic id = %d and processor id = %d'' [VInt x, VInt x']"
  "print_ok ''\<newline>The io apic id = %d and address = %p'' [VInt x, VLong y]"
  "print_ok ''\<newline>The number of entries %d'' [VInt x]"
  "print_ok ''\<newline>Version %d'' [VInt x]"
  by (simp_all add: print_ok_def well_typed.simps peek_def)

lemma memory_calls [call_ok]:
  "print_ok ''Entry %lu: Base Address: %p, Size: %lu kb |  %lu Mb, Type: %d\<newline>'' [VLong y, VPtr y', VLong z, VLong z', VInt x]"
  "print_ok ''\<newline>Number of memory entry = %lu entries \<newline> '' [VLong y]"
  "print_ok ''The Total memory = %lu kb or %lu mb or %lu Gb'' [VLong y, VLong z, VLong z']"
  "print_ok ''\<newline>The Free memory = %lu kb or %lu mb or %lu Gb'' [VLong y, VLong z, VLong z']"
  by (simp_all add: print_ok_def well_typed.simps peek_def)


lemma log_ok_plain [simp]: "CHR ''%'' \<notin> set s \<Longrightarrow> log_ok s args"
  by (simp add: log_ok_def well_typed_plain)

section \<open>Tables and memory\<close>







section \<open>The page switch\<close>






section \<open>Steps of the boot\<close>



lemma set_io_simps [simp]:
  "k_io (set_io w k) = w" "vm_mem (ap_vm (k_apic (set_io w k))) = vm_mem (ap_vm (k_apic k))"
  "ap_acpi (k_apic (set_io w k)) = ap_acpi (k_apic k)"
  by (simp_all add: set_io_def do_io_def)


















section \<open>Properties\<close>




text \<open>The two messages of the frame buffer's set-up are not typed: the directive reads a 64-bit
  number where the call passes 32 bits.\<close>

lemma framebuffer_log_untyped:
  "\<not> log_ok ''framebuffer height = %lu'' [VInt h]" "\<not> log_ok ''framebuffer width = %lu'' [VInt h]"
  by (simp_all add: log_ok_def well_typed.simps peek_def)

end
