(* ===== verification/Interrupt_Runs.thy ===== *)
theory Interrupt_Runs
  imports Kernel
begin

text \<open>
  Interrupts one after another (\<^verbatim>\<open>x86_64/idt.c\<close> with the handlers of keyboard, timer and mouse). A run
  is any sequence of interrupts that \<open>interrupts_handler\<close> returned from; its history lists, for each,
  the vector and the accesses it made. However the devices' interrupts interleave, each device's state
  follows its own part of the history, although all of them share the controller, the ports and the
  screen.
\<close>

section \<open>Runs and their history\<close>

type_synonym history = "(u64 \<times> io_event list) list"

inductive interrupted :: "screen \<Rightarrow> kernel \<Rightarrow> history \<Rightarrow> kernel \<Rightarrow> bool" for sc k where
  idle: "interrupted sc k [] k"
| interrupt: "interrupted sc k h k1 \<Longrightarrow> interrupts_handler sc st k1 = Some (Returned, k2) \<Longrightarrow>
    k_trace k2 = k_trace k1 @ es \<Longrightarrow> interrupted sc k (h @ [(interrupt_number st, es)]) k2"

text \<open>The bytes read from the data port of the PS/2 controller.\<close>

fun port_data :: "io_event list \<Rightarrow> u8 list" where
  "port_data [] = []"
| "port_data (In8 p v # es) = (if p = 0x60 then v # port_data es else port_data es)"
| "port_data (_ # es) = port_data es"

text \<open>What the interrupts of one vector have read, and how many there were.\<close>

definition data_of :: "u64 \<Rightarrow> history \<Rightarrow> u8 list" where
  "data_of v h = concat (map (\<lambda>x. port_data (snd x)) (filter (\<lambda>x. fst x = v) h))"

definition times :: "u64 \<Rightarrow> history \<Rightarrow> nat" where
  "times v h = length (filter (\<lambda>x. fst x = v) h)"

text \<open>Keyboard, timer and mouse acknowledge at the local APIC, once and as the last access; the others
  touch nothing.\<close>

definition acknowledged :: "apic \<Rightarrow> u64 \<times> io_event list \<Rightarrow> bool" where
  "acknowledged a x \<longleftrightarrow>
     (if fst x \<in> {0x21, 0x22, 0x23}
      then snd x \<noteq> [] \<and> last (snd x) = eoi a \<and> eoi a \<notin> set (butlast (snd x))
      else snd x = [])"

lemma port_data_append [simp]: "port_data (es @ fs) = port_data es @ port_data fs"
  by (induction es rule: port_data.induct) simp_all

lemma data_of_simps [simp]:
  "data_of v [] = []" "data_of v (h @ [(u, es)]) = data_of v h @ (if u = v then port_data es else [])"
  "times v [] = 0" "times v (h @ [(u, es)]) = times v h + (if u = v then 1 else 0)"
  by (simp_all add: data_of_def times_def)

section \<open>The screen's measures\<close>

lemma details_clear_row [simp]: "framebuffer_details (clear_row sc y d) = framebuffer_details d"
  unfolding clear_row_def by (rule fold_keeps) simp

lemma details_scroll [simp]: "framebuffer_details (scroll sc d) = framebuffer_details d"
proof -
  have "framebuffer_details (fold (\<lambda>y. clear_row sc (of_nat y)) ys d) = framebuffer_details d" for ys d
    by (rule fold_keeps) simp
  then show ?thesis by (simp add: scroll_def Let_def)
qed

lemma details_print_char [simp]: "framebuffer_details (print_char sc c color d) = framebuffer_details d"
  by (simp add: print_char_def next_line_def Let_def)

lemma details_print_text [simp]: "framebuffer_details (print_text sc s color d) = framebuffer_details d"
  unfolding print_text_def by (rule fold_keeps) simp

lemma details_render_event: "render_event sc e d = Some d' \<Longrightarrow> framebuffer_details d' = framebuffer_details d"
  by (cases e) (auto simp: print_numstr_def terminal_write_def split: bind_splits)

lemma details_render: "render sc es d = Some d' \<Longrightarrow> framebuffer_details d' = framebuffer_details d"
  by (induction es arbitrary: d) (auto simp: details_render_event split: bind_splits)

section \<open>The keyboard's interrupt\<close>

lemma keyboard_interrupt:
  assumes "tracks ks s"
  shows "\<exists>c es. tracks (ks @ [c]) (keyboard_interrupt_handler s) \<and>
    ap_trace (kb_apic (keyboard_interrupt_handler s)) = ap_trace (kb_apic s) @ In8 0x60 c # es @ [eoi (kb_apic s)] \<and>
    (es = [] \<or> (\<exists>v. es = [Print ''%c'' 0xffff [VInt v]])) \<and>
    apic_ticks (kb_apic (keyboard_interrupt_handler s)) = apic_ticks (kb_apic s) \<and>
    apic_base_address (kb_apic (keyboard_interrupt_handler s)) = apic_base_address (kb_apic s)"
proof -
  obtain b a where b: "on_io (in_b PS2_DATA_PORT) (kb_apic s) = (b, a)" by (metis surj_pair)
  then have a: "ap_trace a = ap_trace (kb_apic s) @ [In8 0x60 b]" "apic_base_address a = apic_base_address (kb_apic s)"
    "apic_ticks a = apic_ticks (kb_apic s)"
    using on_io_in_b[of PS2_DATA_PORT "kb_apic s"]
    by (auto simp: PS2_DATA_PORT_def on_io_def do_io_def Let_def split_beta)
  let ?s1 = "handle_scan_code (ucast b) (s\<lparr>kb_apic := a\<rparr>)"
  have run: "keyboard_interrupt_handler s = ?s1\<lparr>kb_apic := send_eoi (kb_apic ?s1)\<rparr>"
    by (simp add: keyboard_interrupt_handler_def b Let_def)
  have "tracks (ks @ [b]) ?s1" using assms by (intro tracks_step) simp
  moreover have "kb_apic ?s1 = a \<or> (\<exists>v. kb_apic ?s1 = do_io (print_call ''%c'' 0xffff [VInt v]) a)"
    by (auto simp: handle_scan_code_def key_pressed_def kb_io_def Let_def)
  ultimately show ?thesis
    unfolding run using a by (intro exI[of _ b]) (auto simp: send_eoi_def mmio_write_def do_io_def)
qed

section \<open>The mouse's interrupt\<close>

text \<open>The pointer and the bytes of an unfinished packet, as a function of the bytes.\<close>

fun walk :: "int \<Rightarrow> int \<Rightarrow> u8 \<Rightarrow> (int \<times> int) \<times> u8 list \<Rightarrow> (int \<times> int) \<times> u8 list" where
  "walk w h b ((x, y), [b0, b1]) = ((cut_off w (x + sint b1), cut_off h (y + sint (- b))), [])"
| "walk w h b (p, bs) = (p, bs @ [b])"

definition view :: "mouse \<Rightarrow> (int \<times> int) \<times> u8 list" where
  "view s = (pointer s, take (unat (mouse_cycle s)) (mouse_byte s))"

definition mouse_ok :: "mouse \<Rightarrow> bool" where
  "mouse_ok s \<longleftrightarrow> pointer_ok s \<and> mouse_cycle s \<in> {0, 1, 2}"

lemma walk_feed_byte:
  assumes "mouse_ok s"
  shows "mouse_ok (feed_byte sc b s) \<and> scr_w (feed_byte sc b s) = scr_w s \<and> scr_h (feed_byte sc b s) = scr_h s \<and>
    view (feed_byte sc b s) = walk (int (unat (scr_w s))) (int (unat (scr_h s))) b (view s)"
proof -
  have ok: "pointer_ok s" using assms by (simp add: mouse_ok_def)
  then have "length (mouse_byte s) = 3" by (simp add: pointer_ok_def)
  then obtain x y z where m: "mouse_byte s = [x, y, z]" by (auto simp: numeral_3_eq_3 length_Suc_conv)
  consider "mouse_cycle s = 0" | "mouse_cycle s = 1" | "mouse_cycle s = 2" using assms by (auto simp: mouse_ok_def)
  then show ?thesis
  proof cases
    case 3
    have t: "take 2 (mouse_byte s) = [x, y]" by (simp add: m)
    show ?thesis using feed_byte_third[OF ok 3 t, of sc b] 3
      by (cases "pointer s") (simp add: mouse_ok_def view_def m)
  qed (use feed_byte_step[OF ok, of sc b] m in \<open>simp_all add: mouse_ok_def view_def\<close>)
qed

lemma walk_feed_bytes:
  assumes "mouse_ok s"
  shows "mouse_ok (fold (feed_byte sc) bs s) \<and> scr_w (fold (feed_byte sc) bs s) = scr_w s \<and>
    scr_h (fold (feed_byte sc) bs s) = scr_h s \<and>
    view (fold (feed_byte sc) bs s) = fold (walk (int (unat (scr_w s))) (int (unat (scr_h s)))) bs (view s)"
  using assms
proof (induction bs arbitrary: s)
  case (Cons b bs)
  then show ?case using walk_feed_byte[OF Cons.prems, of sc b] by simp
qed simp

lemma walk_track: "fst (fold (walk w h) bs (p, [])) = track w h bs p"
  by (induction w h bs p rule: track.induct) simp_all

lemma ms_inb_reads:
  "\<exists>b a. ms_inb p s = (b, with_apic a s) \<and> ap_trace a = ap_trace (gui_apic (ms_gui s)) @ [In8 p b] \<and>
    apic_ticks a = apic_ticks (gui_apic (ms_gui s)) \<and> apic_base_address a = apic_base_address (gui_apic (ms_gui s))"
  by (auto simp: ms_inb_def on_io_def Let_def split_beta with_apic_def)

lemma handler_loop_data:
  assumes "handler_loop sc status s = Some s'"
  shows "\<exists>a es. s' = with_apic a (fold (feed_byte sc) (port_data es) s) \<and>
    ap_trace a = ap_trace (gui_apic (ms_gui s)) @ es \<and> (\<forall>e\<in>set es. \<exists>p v. e = In8 p v) \<and>
    apic_ticks a = apic_ticks (gui_apic (ms_gui s)) \<and> apic_base_address a = apic_base_address (gui_apic (ms_gui s))"
proof (rule handler_loop.raw_induct[where P = "\<lambda>sc status s s'. \<exists>a es. s' = with_apic a (fold (feed_byte sc) (port_data es) s) \<and>
    ap_trace a = ap_trace (gui_apic (ms_gui s)) @ es \<and> (\<forall>e\<in>set es. \<exists>p v. e = In8 p v) \<and>
    apic_ticks a = apic_ticks (gui_apic (ms_gui s)) \<and> apic_base_address a = apic_base_address (gui_apic (ms_gui s))", OF _ assms])
  fix f sc status s s'
  assume IH: "\<And>sc status s s'. f sc status s = Some s' \<Longrightarrow>
      \<exists>a es. s' = with_apic a (fold (feed_byte sc) (port_data es) s) \<and>
        ap_trace a = ap_trace (gui_apic (ms_gui s)) @ es \<and> (\<forall>e\<in>set es. \<exists>p v. e = In8 p v) \<and>
        apic_ticks a = apic_ticks (gui_apic (ms_gui s)) \<and> apic_base_address a = apic_base_address (gui_apic (ms_gui s))"
    and run: "(if status AND 1 \<noteq> 0
      then let (mouse_data, s) = ms_inb PS2_DATA_PORT s; s = feed_byte sc mouse_data s; (status, s) = ms_inb PS2_CMD_PORT s
           in f sc status s
      else Some s) = Some s'"
  show "\<exists>a es. s' = with_apic a (fold (feed_byte sc) (port_data es) s) \<and>
        ap_trace a = ap_trace (gui_apic (ms_gui s)) @ es \<and> (\<forall>e\<in>set es. \<exists>p v. e = In8 p v) \<and>
        apic_ticks a = apic_ticks (gui_apic (ms_gui s)) \<and> apic_base_address a = apic_base_address (gui_apic (ms_gui s))"
  proof (cases "status AND 1 = 0")
    case True
    then have "s' = with_apic (gui_apic (ms_gui s)) s" using run by simp
    then show ?thesis by (intro exI[of _ "gui_apic (ms_gui s)"] exI[of _ "[]"]) simp
  next
    case False
    from ms_inb_reads[of PS2_DATA_PORT s] obtain b a1 where one: "ms_inb PS2_DATA_PORT s = (b, with_apic a1 s)"
      "ap_trace a1 = ap_trace (gui_apic (ms_gui s)) @ [In8 0x60 b]" "apic_ticks a1 = apic_ticks (gui_apic (ms_gui s))"
      "apic_base_address a1 = apic_base_address (gui_apic (ms_gui s))" by (auto simp: PS2_DATA_PORT_def)
    from ms_inb_reads[of PS2_CMD_PORT "with_apic a1 (feed_byte sc b s)"] obtain st a2 where two:
      "ms_inb PS2_CMD_PORT (with_apic a1 (feed_byte sc b s)) = (st, with_apic a2 (feed_byte sc b s))"
      "ap_trace a2 = ap_trace a1 @ [In8 0x64 st]" "apic_ticks a2 = apic_ticks a1"
      "apic_base_address a2 = apic_base_address a1" by (auto simp: PS2_CMD_PORT_def)
    have "f sc st (with_apic a2 (feed_byte sc b s)) = Some s'"
      using run False one(1) two(1) by (simp add: Let_def feed_byte_apic)
    from IH[OF this] obtain a es where ih: "s' = with_apic a (fold (feed_byte sc) (port_data es) (with_apic a2 (feed_byte sc b s)))"
      "ap_trace a = ap_trace a2 @ es" "\<forall>e\<in>set es. \<exists>p v. e = In8 p v" "apic_ticks a = apic_ticks a2"
      "apic_base_address a = apic_base_address a2" by auto
    have "fold (feed_byte sc) ds (with_apic a t) = with_apic a (fold (feed_byte sc) ds t)" for ds a t
      by (induction ds arbitrary: t) (simp_all add: feed_byte_apic)
    then show ?thesis
      using ih one two by (intro exI[of _ a] exI[of _ "In8 0x60 b # In8 0x64 st # es"]) simp
  qed
qed

text \<open>What the whole handler does to the mouse.\<close>

lemma mouse_interrupt:
  assumes "mouse_handler sc s = Some s'" and "mouse_ok s"
  shows "\<exists>es. ap_trace (gui_apic (ms_gui s')) = ap_trace (gui_apic (ms_gui s)) @ es @ [eoi (gui_apic (ms_gui s))] \<and>
    (\<forall>e\<in>set es. \<exists>p v. e = In8 p v) \<and> mouse_ok s' \<and> scr_w s' = scr_w s \<and> scr_h s' = scr_h s \<and>
    view s' = fold (walk (int (unat (scr_w s))) (int (unat (scr_h s)))) (port_data es) (view s) \<and>
    apic_ticks (gui_apic (ms_gui s')) = apic_ticks (gui_apic (ms_gui s)) \<and>
    apic_base_address (gui_apic (ms_gui s')) = apic_base_address (gui_apic (ms_gui s))"
proof -
  from ms_inb_reads[of PS2_CMD_PORT s] obtain st a1 where one: "ms_inb PS2_CMD_PORT s = (st, with_apic a1 s)"
    "ap_trace a1 = ap_trace (gui_apic (ms_gui s)) @ [In8 0x64 st]" "apic_ticks a1 = apic_ticks (gui_apic (ms_gui s))"
    "apic_base_address a1 = apic_base_address (gui_apic (ms_gui s))" by (auto simp: PS2_CMD_PORT_def)
  obtain t where t: "handler_loop sc st (with_apic a1 s) = Some t" "s' = with_apic (send_eoi (gui_apic (ms_gui t))) t"
    using assms(1) one(1) by (auto simp: mouse_handler_def Let_def with_apic_def split: bind_splits)
  from handler_loop_data[OF t(1)] obtain a es where loop: "t = with_apic a (fold (feed_byte sc) (port_data es) (with_apic a1 s))"
    "ap_trace a = ap_trace a1 @ es" "\<forall>e\<in>set es. \<exists>p v. e = In8 p v" "apic_ticks a = apic_ticks a1"
    "apic_base_address a = apic_base_address a1" by auto
  have feed: "fold (feed_byte sc) ds (with_apic a t) = with_apic a (fold (feed_byte sc) ds t)" for ds a t
    by (induction ds arbitrary: t) (simp_all add: feed_byte_apic)
  have s': "s' = with_apic (send_eoi a) (fold (feed_byte sc) (port_data es) s)"
    using t(2) loop(1) by (simp add: feed)
  note walked = walk_feed_bytes[OF assms(2), of sc "port_data es"]
  have keep: "mouse_ok (with_apic b u) = mouse_ok u" "view (with_apic b u) = view u"
    "scr_w (with_apic b u) = scr_w u" "scr_h (with_apic b u) = scr_h u" for b u
    by (simp_all add: mouse_ok_def view_def with_apic_def pointer_ok_def pointer_def gui_ok_def all_fit_def
        one_dragged_def dragged_def)
  show ?thesis
    unfolding s' keep using walked one loop(2-)
    by (intro exI[of _ "In8 0x64 st # es"]) (simp add: send_eoi_def mmio_write_def)
qed

section \<open>One interrupt\<close>

text \<open>The mouse as its handler finds it: with the kernel's controller and screen.\<close>

definition mouse_in :: "kernel \<Rightarrow> mouse" where
  "mouse_in k = (k_mouse k)\<lparr>ms_gui := (ms_gui (k_mouse k))\<lparr>gui_apic := k_apic k, gui_disp := k_disp k\<rparr>\<rparr>"

lemma mouse_in_cong:
  assumes "k_mouse k' = k_mouse k" and "framebuffer_details (k_disp k') = framebuffer_details (k_disp k)"
  shows "mouse_ok (mouse_in k') = mouse_ok (mouse_in k)" "view (mouse_in k') = view (mouse_in k)"
    "scr_w (mouse_in k') = scr_w (mouse_in k)" "scr_h (mouse_in k') = scr_h (mouse_in k)"
  using assms by (simp_all add: mouse_in_def mouse_ok_def view_def pointer_ok_def pointer_def gui_ok_def all_fit_def
      one_dragged_def dragged_def)

text \<open>What one interrupt makes of the devices' states.\<close>

definition device_steps :: "u64 \<Rightarrow> io_event list \<Rightarrow> u8 list \<Rightarrow> kernel \<Rightarrow> kernel \<Rightarrow> bool" where
  "device_steps v es ks k k' \<longleftrightarrow>
     tracks (ks @ (if v = 0x21 then port_data es else [])) (k_keyboard k') \<and>
     apic_ticks (k_apic k') = apic_ticks (k_apic k) + (if v = 0x22 then 1 else 0) \<and>
     apic_base_address (k_apic k') = apic_base_address (k_apic k) \<and>
     mouse_ok (mouse_in k') \<and> scr_w (mouse_in k') = scr_w (mouse_in k) \<and> scr_h (mouse_in k') = scr_h (mouse_in k) \<and>
     view (mouse_in k') = fold (walk (int (unat (scr_w (mouse_in k)))) (int (unat (scr_h (mouse_in k)))))
       (if v = 0x23 then port_data es else []) (view (mouse_in k)) \<and>
     acknowledged (k_apic k) (v, es)"

lemma keyboard_device_step:
  assumes "interrupts_handler sc st k = Some (Returned, k')" and "interrupt_number st = 0x21"
    and "k_trace k' = k_trace k @ es" and "tracks ks (k_keyboard k)" and "mouse_ok (mouse_in k)"
  shows "device_steps 0x21 es ks k k'"
proof -
  let ?s = "(k_keyboard k)\<lparr>kb_apic := k_apic k\<rparr>"
  let ?k = "k\<lparr>k_keyboard := keyboard_interrupt_handler ?s, k_apic := kb_apic (keyboard_interrupt_handler ?s)\<rparr>"
  have "tracks ks ?s" using assms(4) by simp
  from keyboard_interrupt[OF this] obtain c fs where
    kb: "tracks (ks @ [c]) (keyboard_interrupt_handler ?s)" "k_trace ?k = k_trace k @ In8 0x60 c # fs @ [eoi (k_apic k)]"
    "fs = [] \<or> (\<exists>v. fs = [Print ''%c'' 0xffff [VInt v]])" "apic_ticks (k_apic ?k) = apic_ticks (k_apic k)"
    "apic_base_address (k_apic ?k) = apic_base_address (k_apic k)" by auto
  obtain d where d: "k' = ?k\<lparr>k_disp := d\<rparr>" "framebuffer_details d = framebuffer_details (k_disp k)"
    using assms(1,2) by (auto simp: interrupts_handler_def shown_def on_keyboard_def Let_def details_render
        simp del: render.simps split: bind_splits)
  have es: "es = In8 0x60 c # fs @ [eoi (k_apic k)]" using assms(3) kb(2) d(1) by simp
  have "mouse_ok (mouse_in k')" "view (mouse_in k') = view (mouse_in k)"
    "scr_w (mouse_in k') = scr_w (mouse_in k)" "scr_h (mouse_in k') = scr_h (mouse_in k)"
    using mouse_in_cong[of k' k] d assms(5) by simp_all
  then show ?thesis
    unfolding device_steps_def es using kb(1,3,4,5) d(1) by (auto simp: acknowledged_def)
qed

lemma mouse_device_step:
  assumes "interrupts_handler sc st k = Some (Returned, k')" and "interrupt_number st = 0x23"
    and "k_trace k' = k_trace k @ es" and "tracks ks (k_keyboard k)" and "mouse_ok (mouse_in k)"
  shows "device_steps 0x23 es ks k k'"
proof -
  obtain s' where s': "mouse_handler sc (mouse_in k) = Some s'"
    "k' = k\<lparr>k_mouse := s', k_apic := gui_apic (ms_gui s'), k_disp := gui_disp (ms_gui s')\<rparr>"
    using assms(1,2) by (auto simp: interrupts_handler_def on_mouse_def mouse_in_def Let_def)
  have same: "mouse_in k' = s'" by (simp add: s'(2) mouse_in_def)
  have apic: "gui_apic (ms_gui (mouse_in k)) = k_apic k" by (simp add: mouse_in_def)
  from mouse_interrupt[OF s'(1) assms(5)] obtain fs where
    ms: "k_trace k' = k_trace k @ fs @ [eoi (k_apic k)]" "\<forall>e\<in>set fs. \<exists>p v. e = In8 p v" "mouse_ok s'"
    "scr_w s' = scr_w (mouse_in k)" "scr_h s' = scr_h (mouse_in k)"
    "view s' = fold (walk (int (unat (scr_w (mouse_in k)))) (int (unat (scr_h (mouse_in k))))) (port_data fs) (view (mouse_in k))"
    "apic_ticks (k_apic k') = apic_ticks (k_apic k)" "apic_base_address (k_apic k') = apic_base_address (k_apic k)"
    unfolding apic by (auto simp: s'(2))
  have "es = fs @ [eoi (k_apic k)]" using assms(3) ms(1) by simp
  moreover have "k_keyboard k' = k_keyboard k" by (simp add: s'(2))
  ultimately show ?thesis
    unfolding device_steps_def same using ms(2-) assms(4) by (auto simp: acknowledged_def)
qed

lemma interrupt_device_steps:
  assumes "interrupts_handler sc st k = Some (Returned, k')" and "k_trace k' = k_trace k @ es"
    and "tracks ks (k_keyboard k)" and "mouse_ok (mouse_in k)"
  shows "device_steps (interrupt_number st) es ks k k'"
proof -
  let ?v = "interrupt_number st"
  consider "?v = 0x21" | "?v = 0x23" | "?v = 0x22" | "?v \<in> {0x20, 0x2E, 0x2F, 0x80}" | "?v \<notin> set device_vectors"
    by (auto simp: device_vectors_def)
  then show ?thesis
  proof cases
    case 3
    then have k': "k' = on_apic apic_timer_interrupt_handler k" using assms(1) by (simp add: interrupts_handler_def)
    then have "es = [eoi (k_apic k)]" using assms(2) timer_trace[of "k_apic k"] by (simp add: on_apic_def)
    moreover have "mouse_ok (mouse_in k')" "view (mouse_in k') = view (mouse_in k)"
      "scr_w (mouse_in k') = scr_w (mouse_in k)" "scr_h (mouse_in k') = scr_h (mouse_in k)"
      using mouse_in_cong[of k' k] assms(4) k' by (simp_all add: on_apic_def)
    ultimately show ?thesis
      using assms(3) 3 k' by (auto simp: device_steps_def acknowledged_def on_apic_def apic_timer_interrupt_handler_def
          send_eoi_def mmio_write_def Let_def)
  next
    case 4
    then have "k' = k" using assms(1) by (auto simp: interrupts_handler_def)
    then show ?thesis using 4 assms(2-) by (auto simp: device_steps_def acknowledged_def)
  next
    case 5
    then have "fst (exception_handler st (k_io k)) = Returned"
      using assms(1) by (auto simp: interrupts_handler_def device_vectors_def Let_def split_beta split: if_splits)
    then show ?thesis by (simp add: exceptions_hang)
  qed (use assms keyboard_device_step[of sc st k k'] mouse_device_step[of sc st k k'] in auto)
qed

section \<open>Properties\<close>

text \<open>C4: Interleaved interrupts. In any sequence of interrupts that return, in whatever order the devices
  raise them, the keyboard's flags and last key are those of the codes its own interrupts read, the tick
  counter has counted the timer's, the pointer is where the mouse's own bytes lead it, with an
  unfinished packet carried over the other devices' interrupts, pointer and windows are on the screen;
  every keyboard, timer and mouse interrupt is acknowledged exactly once as its last access, and the
  other vectors touch nothing.\<close>

theorem interrupts_interleave:
  assumes "interrupted sc k h k'" and "tracks ks (k_keyboard k)" and "pointer_ok (mouse_in k)"
    and "mouse_cycle (k_mouse k) = 0"
  shows "tracks (ks @ data_of 0x21 h) (k_keyboard k') \<and>
    apic_ticks (k_apic k') = apic_ticks (k_apic k) + of_nat (times 0x22 h) \<and>
    pointer (k_mouse k') = track (int (unat (scr_w (mouse_in k)))) (int (unat (scr_h (mouse_in k))))
      (data_of 0x23 h) (pointer (k_mouse k)) \<and>
    pointer_ok (mouse_in k') \<and> k_trace k' = k_trace k @ concat (map snd h) \<and>
    list_all (acknowledged (k_apic k)) h"
proof -
  let ?w = "int (unat (scr_w (mouse_in k)))" and ?h = "int (unat (scr_h (mouse_in k)))"
  have start: "mouse_ok (mouse_in k)" "view (mouse_in k) = (pointer (k_mouse k), [])"
    using assms(3,4) by (simp_all add: mouse_ok_def mouse_in_def view_def pointer_def)
  have "tracks (ks @ data_of 0x21 h) (k_keyboard k') \<and>
      apic_ticks (k_apic k') = apic_ticks (k_apic k) + of_nat (times 0x22 h) \<and>
      apic_base_address (k_apic k') = apic_base_address (k_apic k) \<and>
      mouse_ok (mouse_in k') \<and> scr_w (mouse_in k') = scr_w (mouse_in k) \<and> scr_h (mouse_in k') = scr_h (mouse_in k) \<and>
      view (mouse_in k') = fold (walk ?w ?h) (data_of 0x23 h) (view (mouse_in k)) \<and>
      k_trace k' = k_trace k @ concat (map snd h) \<and> list_all (acknowledged (k_apic k)) h"
    using assms(1)
  proof induction
    case (interrupt h k1 st k2 es)
    then have "device_steps (interrupt_number st) es (ks @ data_of 0x21 h) k1 k2"
      by (intro interrupt_device_steps) auto
    moreover have "acknowledged (k_apic k1) x = acknowledged (k_apic k) x" for x
      using interrupt.IH by (simp add: acknowledged_def)
    ultimately show ?case using interrupt.IH interrupt.hyps(3) by (auto simp: device_steps_def)
  qed (use assms(2) start in simp)
  moreover have "pointer (k_mouse k') = fst (view (mouse_in k'))" by (simp add: view_def mouse_in_def pointer_def)
  ultimately show ?thesis
    by (simp add: start(2) walk_track mouse_ok_def del: of_nat_unat)
qed

text \<open>A tick, a mouse packet of three bytes, and a key.\<close>

definition run_sample :: kernel where
  "run_sample = sample_kernel\<lparr>k_apic := (sample_apic 0)\<lparr>ap_vm := (ap_vm (sample_apic 0))\<lparr>
     vm_io := \<lparr>answer = (\<lambda>i. [1, 8, 1, 5, 1, 253, 0, 30] ! i), asked = 0, trace = []\<rparr>\<rparr>\<rparr>\<rparr>"

lemma mouse_returns:
  assumes "ms_answer s = (\<lambda>i. [1, 8, 1, 5, 1, 253, 0, 30] ! i)" and "ms_asked s = 0"
  shows "\<exists>s'. mouse_handler sc s = Some s'"
proof -
  from ms_inb_simps(2) obtain a where a: "snd (ms_inb PS2_CMD_PORT s) = with_apic a s" "ap_answer a = ms_answer s"
    "ap_asked a = Suc (ms_asked s)" by blast
  have "\<exists>b. handler_loop sc 1 (with_apic a s) =
      Some (with_apic b (fold (feed_byte sc) (data_bytes (ms_answer (with_apic a s)) (ms_asked (with_apic a s)) 3) (with_apic a s)))"
    by (rule handler_loop_feeds) (use a assms in \<open>auto simp: less_Suc_eq numeral_3_eq_3\<close>)
  then show ?thesis
    using a assms ms_inb_simps(1)[of PS2_CMD_PORT s] by (auto simp: mouse_handler_def Let_def split_beta)
qed

theorem interrupts_interleave_witness:
  "\<exists>k' h. interrupted sample_screen run_sample h k' \<and> map fst h = [0x22, 0x23, 0x21] \<and>
    apic_ticks (k_apic k') = 6 \<and> pointer_ok (mouse_in k') \<and> list_all (acknowledged (k_apic run_sample)) h"
proof -
  have v: "interrupt_number (sample_frame v) = v" for v by (simp add: sample_frame_def)
  let ?k1 = "on_apic apic_timer_interrupt_handler run_sample"
  have t1: "k_trace ?k1 = k_trace run_sample @ [eoi (k_apic run_sample)]" by (simp add: on_apic_def timer_trace)
  have h1: "interrupts_handler sample_screen (sample_frame 0x22) run_sample = Some (Returned, ?k1)"
    by (simp add: interrupts_handler_def v)
  have "ms_answer (mouse_in ?k1) = (\<lambda>i. [1, 8, 1, 5, 1, 253, 0, 30] ! i)" "ms_asked (mouse_in ?k1) = 0"
    by (simp_all add: mouse_in_def on_apic_def run_sample_def)
  from mouse_returns[OF this] obtain s' where s': "mouse_handler sample_screen (mouse_in ?k1) = Some s'" by blast
  let ?k2 = "?k1\<lparr>k_mouse := s', k_apic := gui_apic (ms_gui s'), k_disp := gui_disp (ms_gui s')\<rparr>"
  have h2: "interrupts_handler sample_screen (sample_frame 0x23) ?k1 = Some (Returned, ?k2)"
    using s' by (simp add: interrupts_handler_def v on_mouse_def mouse_in_def)
  obtain es2 where t2: "k_trace ?k2 = k_trace ?k1 @ es2" using mouse_trace[OF s'] by (auto simp: mouse_in_def)
  obtain k3 es3 where h3: "interrupts_handler sample_screen (sample_frame 0x21) ?k2 = Some (Returned, k3)"
    and t3: "k_trace k3 = k_trace ?k2 @ es3"
    using keyboard_dispatch[of "sample_frame 0x21" sample_screen ?k2] v by auto
  let ?h = "[(0x22, [eoi (k_apic run_sample)]), (0x23, es2), (0x21, es3)]"
  have run: "interrupted sample_screen run_sample ?h k3"
    using interrupt[OF interrupt[OF interrupt[OF idle h1 t1] h2 t2] h3 t3] by (simp add: v)
  have kb: "tracks [] (k_keyboard run_sample)"
    by (simp add: tracks_def run_sample_def sample_kernel_def keyboard_bss_def shift_held_def caps_on_def ctrl_pressed_def)
  have ok: "pointer_ok (mouse_in run_sample)" "mouse_cycle (k_mouse run_sample) = 0"
    using sample_mouse_ok by (simp_all add: pointer_ok_def mouse_in_def run_sample_def sample_kernel_def sample_mouse_def
        mouse_bss_def sample_gui_def gui_ok_def all_fit_def one_dragged_def dragged_def)
  have "apic_ticks (k_apic run_sample) = 5" by (simp add: run_sample_def sample_apic_def)
  then show ?thesis
    using interrupts_interleave[OF run kb ok] run by (intro exI[of _ k3] exI[of _ ?h]) (simp add: times_def)
qed

end
