(* ===== verification/Boot_Screen.thy ===== *)
theory Boot_Screen
  imports Kernel
begin

text \<open>
  The screen that \<open>_start\<close> draws first (\<^verbatim>\<open>kernel.c\<close>): the cross-hair that every core draws and the three
  boxes of the boot processor, as pixels of the frame buffer.
\<close>

section \<open>Stores at offsets\<close>

text \<open>The offsets of \<open>_start\<close> are \<^verbatim>\<open>int\<close>s: up to \<open>2 ^ 31\<close> they are extended as they stand.\<close>

lemma sint_small: "unat w < 2 ^ 31 \<Longrightarrow> sint (w :: u32) = int (unat w)"
proof -
  assume w: "unat w < 2 ^ 31"
  have n: "uint w = int (unat w)" by simp
  have "int (unat w) < 2 ^ 31" using w by (metis of_nat_less_iff of_nat_numeral of_nat_power)
  then show "sint w = int (unat w)" unfolding sint_uint n
    by (intro signed_take_bit_int_eq_self) (simp_all add: order_trans[of "- 2147483648" 0 "uint w"])
qed

lemma signed_small: "n < 2 ^ 31 \<Longrightarrow> scast (of_nat n :: u32) = (of_nat n :: u64)"
proof -
  assume n: "n < 2 ^ 31"
  then have "sint (of_nat n :: u32) = int n"
    by (simp add: sint_small unsigned_of_nat take_bit_nat_eq_self)
  then show ?thesis by (metis of_int_sint of_int_of_nat_eq)
qed

lemma store_pixels_at_offset:
  assumes "\<And>i. i < n \<Longrightarrow> address i = scr_fb sc + of_nat (off i)"
    and "\<And>i. i < n \<Longrightarrow> off i mod 4 = 0 \<and> off i < 2 ^ 32" and "o2 mod 4 = 0" and "o2 < 2 ^ 32"
  shows "at_offset sc (d_mem (store_pixels address color n d)) o2 =
    (if \<exists>i<n. o2 = off i then color else at_offset sc (d_mem d) o2)"
proof -
  have "at_offset sc (fold (\<lambda>i m. store32 m (address i) color) [0..<k] (d_mem d)) o2 =
      (if \<exists>i<k. o2 = off i then color else at_offset sc (d_mem d) o2)" if "k \<le> n" for k
    using that
  proof (induction k)
    case (Suc k)
    then have k: "k < n" by simp
    show ?case
      using Suc store32_at_offset[of "off k" o2] assms(2)[OF k] assms(3,4)
      by (auto simp: assms(1)[OF k] less_Suc_eq)
  qed simp
  from this[of n] show ?thesis by (simp add: store_pixels_def)
qed

text \<open>Rows below \<open>rows\<close> lie in the positive range of an \<^verbatim>\<open>int\<close>.\<close>

definition int_geometry :: "screen \<Rightarrow> nat \<Rightarrow> bool" where
  "int_geometry sc rows \<longleftrightarrow> bytes_per_row sc mod 4 = 0 \<and> rows * bytes_per_row sc < 2 ^ 31"

lemma int_offset:
  assumes "int_geometry sc rows" and "r < rows" and "4 * c < bytes_per_row sc"
  shows "(r * bytes_per_row sc + 4 * c) mod 4 = 0" and "r * bytes_per_row sc + 4 * c < 2 ^ 31"
proof -
  show "(r * bytes_per_row sc + 4 * c) mod 4 = 0" using assms(1) by (auto simp: int_geometry_def)
  have "(r + 1) * bytes_per_row sc \<le> rows * bytes_per_row sc" using assms(2) by (intro mult_le_mono1) simp
  then show "r * bytes_per_row sc + 4 * c < 2 ^ 31" using assms(1,3) by (simp add: int_geometry_def)
qed

text \<open>The address of a pixel, computed as the code does: row and column extended on their own.\<close>

lemma pixel_address:
  assumes "int_geometry sc rows" and "r < rows" and "4 * c < bytes_per_row sc"
  shows "scr_fb sc + scast (fb_scanline sc * of_nat r) + scast (of_nat (4 * c) :: u32) =
    scr_fb sc + of_nat (r * bytes_per_row sc + 4 * c)"
proof -
  have small: "r * bytes_per_row sc < 2 ^ 31" "4 * c < 2 ^ 31" using int_offset(2)[OF assms] by simp_all
  have "fb_scanline sc * of_nat r = (of_nat (r * bytes_per_row sc) :: u32)" by (simp add: mult.commute)
  then show ?thesis using signed_small[OF small(1)] signed_small[OF small(2)] by (simp only: of_nat_add add.assoc)
qed

lemma store_row_pixels:
  assumes g: "int_geometry sc rows" and a: "\<And>i. i < n \<Longrightarrow> y i < rows \<and> 4 * x i < bytes_per_row sc"
    and adr: "\<And>i. i < n \<Longrightarrow> address i = scr_fb sc + scast (fb_scanline sc * of_nat (y i)) + scast (of_nat (4 * x i) :: u32)"
    and rc: "r < rows" "4 * c < bytes_per_row sc"
  shows "pixel sc (d_mem (store_pixels address color n d)) r c =
    (if \<exists>i<n. y i = r \<and> x i = c then color else pixel sc (d_mem d) r c)"
proof -
  have "pixel sc (d_mem (store_pixels address color n d)) r c =
      (if \<exists>i<n. r * bytes_per_row sc + 4 * c = y i * bytes_per_row sc + 4 * x i then color else pixel sc (d_mem d) r c)"
    unfolding pixel_def
  proof (rule store_pixels_at_offset)
    fix i assume i: "i < n"
    then show "address i = scr_fb sc + of_nat (y i * bytes_per_row sc + 4 * x i)"
      using a[OF i] by (simp only: adr[OF i] pixel_address[OF g])
    show "(y i * bytes_per_row sc + 4 * x i) mod 4 = 0 \<and> y i * bytes_per_row sc + 4 * x i < 2 ^ 32"
      using a[OF i] int_offset[OF g, of "y i" "x i"] by auto
  qed (use int_offset[OF g rc] in auto)
  then show ?thesis using a offset_inj[OF rc(2)] by auto
qed

section \<open>Cross-hair and boxes\<close>

lemma int_half: "int n sdiv 2 = int (n div 2)"
  by (cases "n = 0") (simp_all add: signed_divide_int_def zdiv_int)

lemma cross_hair_pixels:
  assumes g: "int_geometry sc (unat (fb_height sc))" and small: "fb_height sc < 2 ^ 31" "fb_width sc < 2 ^ 31"
    and w: "4 * unat (fb_width sc) \<le> bytes_per_row sc" "even (unat (fb_width sc))"
    and rc: "r < unat (fb_height sc)" "c < unat (fb_width sc)"
  shows "pixel sc (d_mem (draw_cross_hair sc d)) r c =
    (if 2 * c = unat (fb_width sc) \<or> r = unat (fb_height sc) div 2 then 0xFFFFFF else pixel sc (d_mem d) r c)"
proof -
  let ?w = "unat (fb_width sc)" and ?h = "unat (fb_height sc)"
  have s: "sint (fb_height sc) = int ?h" "sint (fb_width sc) = int ?w"
    using small by (simp_all add: sint_small word_less_nat_alt)
  have c4: "4 * c < bytes_per_row sc" using rc(2) w(1) by linarith
  have half: "fb_width sc * 2 = (of_nat (4 * (?w div 2)) :: u32)"
  proof -
    have "4 * (?w div 2) = ?w * 2" using w(2) by auto
    then have "(of_nat (4 * (?w div 2)) :: u32) = of_nat (?w * 2)" by (rule arg_cong)
    then show ?thesis by simp
  qed
  have mid: "of_int (sint (fb_height sc) sdiv 2) = (of_nat (?h div 2) :: u32)"
    unfolding s(1) int_half by (simp only: of_int_of_nat_eq)
  note row = store_row_pixels[OF g _ _ rc(1) c4]
  let ?d = "store_pixels (\<lambda>y. scr_fb sc + scast (fb_scanline sc * of_nat y) + scast (fb_width sc * 2)) 0xFFFFFF ?h d"
  have bar: "pixel sc (d_mem ?d) r c = (if \<exists>i<?h. i = r \<and> ?w div 2 = c then 0xFFFFFF else pixel sc (d_mem d) r c)"
    by (rule row) (use w rc in \<open>auto simp: half\<close>)
  have "pixel sc (d_mem (store_pixels (\<lambda>x. scr_fb sc + scast (fb_scanline sc * of_int (sint (fb_height sc) sdiv 2)) +
      scast (of_nat x * 4 :: u32)) 0xFFFFFF ?w ?d)) r c =
    (if \<exists>i<?w. ?h div 2 = r \<and> i = c then 0xFFFFFF else pixel sc (d_mem ?d) r c)"
    by (rule row) (use w rc in \<open>auto simp: mid mult.commute\<close>)
  then show ?thesis using bar rc w(2) by (auto simp: draw_cross_hair_def Let_def s)
qed

text \<open>A box: twenty rows from row 20, twenty columns from column \<open>300 + dx\<close>.\<close>

lemma draw_box_pixels:
  assumes g: "int_geometry sc rows" and rows: "40 \<le> rows" and dx: "4 * (320 + dx) \<le> bytes_per_row sc"
    and rc: "r < rows" "4 * c < bytes_per_row sc"
  shows "pixel sc (d_mem (draw_box sc (of_nat dx) color d)) r c =
    (if r \<in> {20..<40} \<and> c \<in> {300 + dx ..< 320 + dx} then color else pixel sc (d_mem d) r c)"
proof -
  let ?line = "\<lambda>y. store_pixels (\<lambda>x. scr_fb sc + scast (fb_scanline sc * (of_nat y + 20)) +
    scast ((of_nat x + 300 + of_nat dx) * 4 :: u32)) color 20"
  have line: "pixel sc (d_mem (?line y d)) r c =
      (if \<exists>i<20. y + 20 = r \<and> i + 300 + dx = c then color else pixel sc (d_mem d) r c)" if "y < 20" for y d
    by (rule store_row_pixels[OF g _ _ rc]) (use that rows dx in \<open>auto simp: algebra_simps\<close>)
  have "pixel sc (d_mem (fold ?line [0..<k] d)) r c =
      (if r \<in> {20..<20 + k} \<and> c \<in> {300 + dx ..< 320 + dx} then color else pixel sc (d_mem d) r c)" if "k \<le> 20" for k
    using that
  proof (induction k)
    case (Suc k)
    have "(\<exists>i<20. k + 20 = r \<and> i + 300 + dx = c) \<longleftrightarrow> r = k + 20 \<and> c \<in> {300 + dx ..< 320 + dx}"
      by (auto intro: exI[of _ "c - (300 + dx)"])
    then show ?case using Suc line[of k "fold ?line [0..<k] d"] by auto
  qed simp
  from this[of 20] show ?thesis by (simp add: draw_box_def)
qed

section \<open>The picture\<close>

lemma layers:
  "\<not> (P \<and> Q) \<Longrightarrow> \<not> (P \<and> R) \<Longrightarrow> \<not> (Q \<and> R) \<Longrightarrow>
   (if R then z else if Q then y else if P then x else w) = (if P then x else if Q then y else if R then z else w)"
  by simp

text \<open>C38: The first picture of the boot processor. On a screen of even width, whose rows are whole pixels and
  lie within the positive range of an \<^verbatim>\<open>int\<close>, with room for the boxes: after the cross-hair and the three
  boxes the column in the middle and the row in the middle are white, the boxes, twenty by twenty
  from row 20 and columns 320, 350 and 380, are red, green and blue on top of it, and every other
  pixel of the screen is as it was.\<close>

theorem boot_screen_pixels:
  assumes "int_geometry sc (unat (fb_height sc))" and "fb_height sc < 2 ^ 31" and "fb_width sc < 2 ^ 31"
    and "4 * unat (fb_width sc) \<le> bytes_per_row sc" and "even (unat (fb_width sc))"
    and "40 \<le> unat (fb_height sc)" and "400 \<le> unat (fb_width sc)"
    and "r < unat (fb_height sc)" and "c < unat (fb_width sc)"
  shows "pixel sc (d_mem (draw_box sc 80 0x0000FF (draw_box sc 50 0x00FF00 (draw_box sc 20 0xFF0000 (draw_cross_hair sc d))))) r c =
    (if r \<in> {20..<40} \<and> c \<in> {320..<340} then 0xFF0000
     else if r \<in> {20..<40} \<and> c \<in> {350..<370} then 0x00FF00
     else if r \<in> {20..<40} \<and> c \<in> {380..<400} then 0x0000FF
     else if c = unat (fb_width sc) div 2 \<or> r = unat (fb_height sc) div 2 then 0xFFFFFF
     else pixel sc (d_mem d) r c)"
proof -
  have c4: "4 * c < bytes_per_row sc" using assms(4,9) by linarith
  have room: "4 * (320 + dx) \<le> bytes_per_row sc" if "dx \<le> 80" for dx
  proof (rule order_trans[OF mult_le_mono2 assms(4)])
    show "320 + dx \<le> unat (fb_width sc)" by (rule order_trans[OF _ assms(7)]) (use that in simp)
  qed
  have box: "pixel sc (d_mem (draw_box sc (of_nat dx) color d)) r c =
      (if r \<in> {20..<40} \<and> c \<in> {300 + dx ..< 320 + dx} then color else pixel sc (d_mem d) r c)" if "dx \<le> 80" for dx color d
    by (rule draw_box_pixels[OF assms(1,6) room[OF that] assms(8) c4])
  have boxes:
    "pixel sc (d_mem (draw_box sc 20 color d)) r c = (if r \<in> {20..<40} \<and> c \<in> {320..<340} then color else pixel sc (d_mem d) r c)"
    "pixel sc (d_mem (draw_box sc 50 color d)) r c = (if r \<in> {20..<40} \<and> c \<in> {350..<370} then color else pixel sc (d_mem d) r c)"
    "pixel sc (d_mem (draw_box sc 80 color d)) r c = (if r \<in> {20..<40} \<and> c \<in> {380..<400} then color else pixel sc (d_mem d) r c)"
    for color d using box[of 20 color d] box[of 50 color d] box[of 80 color d] by simp_all
  have "2 * c = unat (fb_width sc) \<longleftrightarrow> c = unat (fb_width sc) div 2" using assms(5) by auto
  then show ?thesis unfolding boxes cross_hair_pixels[OF assms(1-5,8,9)] by (simp only:) (rule layers, auto)
qed

text \<open>A screen of 640 by 480 pixels.\<close>

definition vga_screen :: screen where
  "vga_screen = sample_screen\<lparr>scr_boot := (scr_boot sample_screen)\<lparr>bb_fb_width := 640, bb_fb_height := 480, bb_fb_scanline := 2560\<rparr>\<rparr>"

theorem boot_screen_pixels_witness:
  "let p = pixel vga_screen (d_mem (draw_box vga_screen 80 0x0000FF (draw_box vga_screen 50 0x00FF00
      (draw_box vga_screen 20 0xFF0000 (draw_cross_hair vga_screen sample_display)))))
   in p 20 320 = 0xFF0000 \<and> p 39 399 = 0x0000FF \<and> p 19 320 = 0xFFFFFF \<and> p 240 7 = 0xFFFFFF \<and>
     p 20 340 = pixel vga_screen (d_mem sample_display) 20 340"
proof -
  have s: "fb_width vga_screen = 640" "fb_height vga_screen = 480" "fb_scanline vga_screen = 2560"
    by (simp_all add: vga_screen_def)
  have g: "int_geometry vga_screen 480" by (simp add: int_geometry_def s)
  note px = boot_screen_pixels[where sc = vga_screen and d = sample_display, unfolded s, simplified, OF g]
  show ?thesis
    unfolding Let_def using px[of 20 320] px[of 39 399] px[of 19 320] px[of 240 7] px[of 20 340] by simp
qed

end
