(* ===== verification/User_Memory.thy ===== *)
theory User_Memory
  imports Paging_Map
begin

text \<open>
  The memory of user programs (\<^verbatim>\<open>memory/vmm.c\<close>): block allocator and page tables together. The pages of
  the program and of its stack are mapped to memory that the allocator hands out, and the addresses at
  which the kernel saw this memory before are unmapped. The user bit of the tables on the way decides
  whether a user program can reach them.
\<close>

section \<open>Allocating under the invariant\<close>

lemma vm_allocate_space:
  assumes ok: "space_ok T s" and r: "room (c + n) (vm_pmm s)" and sz: "unat sz = c * 4096" "0 < c"
    and call: "vm_allocate sz s = (a, s')"
  shows "space_ok T s'" and "room n (vm_pmm s')" and "a \<noteq> 0" and "page_aligned a" and "unat a + unat sz \<le> 2 ^ 52"
    and "vm_mem s' = vm_mem s" and "vm_cr3 s' = vm_cr3 s"
proof -
  obtain p' where p': "allocate_memory sz (vm_pmm s) = (a, p')" "s' = s\<lparr>vm_pmm := p'\<rparr>"
    using call by (auto simp: vm_allocate_def split: prod.splits)
  have fr: "free_pages_ok (vm_pmm s) (vm_mem s)" using ok by (simp add: space_ok_def)
  note t = take_pages[OF fr r sz p'(1)]
  have "tables_apart T p'"
    using ok t(5) unfolding space_ok_def tables_apart_def by blast
  then show "space_ok T s'" using ok t(6) by (simp add: space_ok_def p'(2) pml4_base_def read_cr3_def)
  show "room n (vm_pmm s')" "a \<noteq> 0" "page_aligned a" "unat a + unat sz \<le> 2 ^ 52"
    "vm_mem s' = vm_mem s" "vm_cr3 s' = vm_cr3 s"
    using t by (simp_all add: p'(2))
qed

lemma translate_cong:
  "vm_mem s' = vm_mem s \<Longrightarrow> vm_cr3 s' = vm_cr3 s \<Longrightarrow>
   translate_virtual_to_physical w s' = translate_virtual_to_physical w s \<and> pd_entry w s' = pd_entry w s"
  by (simp add: translate_virtual_to_physical_def pd_entry_def pml4_base_def read_cr3_def Let_def)

section \<open>Mapping leaves other regions alone\<close>

text \<open>The 2 MiB region of an address; \<open>small_region\<close>: its page-directory entry has bit 21 clear.\<close>

definition same_region :: "u64 \<Rightarrow> u64 \<Rightarrow> bool" where
  "same_region v w \<longleftrightarrow> idx 1 v = idx 1 w \<and> idx 2 v = idx 2 w \<and> idx 3 v = idx 3 w"

definition small_region :: "u64 \<Rightarrow> vm \<Rightarrow> bool" where
  "small_region v s \<longleftrightarrow> (case pd_entry v s of None \<Rightarrow> False | Some a \<Rightarrow> load64 (vm_mem s) a AND PAGE_LARGE = 0)"

lemma small_region_page: "small_region v s \<Longrightarrow> small_page v s"
  by (simp add: small_region_def small_page_def split: option.splits)

lemma create_other:
  assumes ok: "space_ok T s" and t: "k < 3" "t \<in> T (Suc k)" "unat i < 512"
    and call: "create_or_get_table (slot t i) s = (t', s')"
    and t0: "j \<le> 3" "t0 \<in> T j" "unat i0 < 512" "slot t0 i0 \<noteq> slot t i"
  shows "load64 (vm_mem s') (slot t0 i0) = load64 (vm_mem s) (slot t0 i0)"
proof -
  have ap: "tables_apart T (vm_pmm s)" using ok by (simp add: space_ok_def)
  have "page_aligned t" "page_aligned t0" using tables_aligned[OF ap _ t(2)] tables_aligned[OF ap t0(1,2)] t(1) by simp_all
  note ld = load_slot[OF this t(3) t0(3)]
  show ?thesis using call t0(4) ld
    by (auto simp: create_or_get_table_def set_entry_def vm_event_def Let_def split: prod.splits if_splits)
qed

lemma ensure_other:
  assumes "space_ok T s" and "room (k + n) (vm_pmm s)" and "k \<le> 3" and "t \<in> T k" and "ensure k t v s = (pt, s')"
    and "j \<le> 3" and "t0 \<in> T j" and "unat i0 < 512" and "\<not> visits (vm_mem s') k t v (slot t0 i0)"
  shows "load64 (vm_mem s') (slot t0 i0) = load64 (vm_mem s) (slot t0 i0)"
  using assms
proof (induction k arbitrary: T s t)
  case (Suc k)
  let ?e = "slot t (idx (Suc k) v)"
  obtain t1 s1 where c: "create_or_get_table ?e s = (t1, s1)" by fastforce
  from Suc.prems(5) c have e: "ensure k t1 v s1 = (pt, s')" by simp
  from create_step[OF Suc.prems(1) Suc.prems(2)[unfolded add_Suc] _ Suc.prems(4) idx_less c] Suc.prems(3)
  obtain T1 where 1: "grows T s T1 s1" "t1 \<in> T1 k" "room (k + n) (vm_pmm s1)"
    "is_present (vm_mem s1) ?e" "get_physical_address (vm_mem s1) ?e = t1" by auto
  have ok1: "space_ok T1 s1" and sub: "t0 \<in> T1 j" "t \<in> T1 (Suc k)" using 1(1) Suc.prems(4,7) by (auto simp: grows_def)
  have k3: "k \<le> 3" using Suc.prems(3) by simp
  from ensure_path[OF ok1 1(3) k3 1(2) e] obtain T2 where 2: "grows T1 s1 T2 s'" by blast
  have "load64 (vm_mem s') ?e = load64 (vm_mem s1) ?e" by (rule grows_load[OF 2 Suc.prems(3) sub(2) idx_less 1(4)])
  then have top: "is_present (vm_mem s') ?e" "get_physical_address (vm_mem s') ?e = t1"
    using 1(4,5) by (simp_all add: is_present_def get_physical_address_mask)
  then have off: "slot t0 i0 \<noteq> ?e" "\<not> visits (vm_mem s') k t1 v (slot t0 i0)"
    using Suc.prems(9) by (auto simp: Let_def)
  have "load64 (vm_mem s') (slot t0 i0) = load64 (vm_mem s1) (slot t0 i0)"
    by (rule Suc.IH[OF ok1 1(3) k3 1(2) e Suc.prems(6) sub(1) Suc.prems(8) off(2)])
  also have "\<dots> = load64 (vm_mem s) (slot t0 i0)"
    using create_other[OF Suc.prems(1) _ Suc.prems(4) idx_less c Suc.prems(6-8) off(1)] Suc.prems(3) by simp
  finally show ?case .
qed simp

lemma pd_entry_levels:
  assumes "pd_entry v s = Some a" and "space_ok T s"
  obtains t2 t1 where "t2 \<in> T 2" "t1 \<in> T 1" "a = slot t1 (idx 1 v)"
    "is_present (vm_mem s) (slot (pml4_base s) (idx 3 v))" "get_physical_address (vm_mem s) (slot (pml4_base s) (idx 3 v)) = t2"
    "is_present (vm_mem s) (slot t2 (idx 2 v))" "get_physical_address (vm_mem s) (slot t2 (idx 2 v)) = t1"
proof -
  let ?m = "vm_mem s" and ?e3 = "slot (pml4_base s) (idx 3 v)"
  have en: "entries_ok T ?m" and top: "pml4_base s \<in> T 3" using assms(2) by (simp_all add: space_ok_def)
  from assms(1) have pr: "is_present ?m ?e3" "is_present ?m (slot (get_physical_address ?m ?e3) (idx 2 v))"
    "a = slot (get_physical_address ?m (slot (get_physical_address ?m ?e3) (idx 2 v))) (idx 1 v)"
    by (auto simp: pd_entry_def Let_def split: if_splits)
  have 2: "get_physical_address ?m ?e3 \<in> T 2"
    using entries_okD(1)[OF en, of 2 "pml4_base s" v] top pr(1) by (simp add: numeral_3_eq_3)
  have "get_physical_address ?m (slot (get_physical_address ?m ?e3) (idx 2 v)) \<in> T 1"
    using entries_okD(1)[OF en, of 1 "get_physical_address ?m ?e3" v] 2 pr(2) by (simp add: numeral_2_eq_2)
  with that 2 pr show ?thesis by blast
qed

text \<open>An entry of the page directory survives whatever keeps the entries above it.\<close>

lemma pd_entry_keep:
  assumes "pd_entry v s = Some a" and "space_ok T s" and "vm_cr3 s' = vm_cr3 s"
    and "\<And>j t. 2 \<le> j \<Longrightarrow> j \<le> 3 \<Longrightarrow> t \<in> T j \<Longrightarrow> is_present (vm_mem s) (slot t (idx j v)) \<Longrightarrow>
      load64 (vm_mem s') (slot t (idx j v)) = load64 (vm_mem s) (slot t (idx j v))"
  shows "pd_entry v s' = Some a"
proof -
  obtain t2 t1 where t: "t2 \<in> T 2" "t1 \<in> T 1" "a = slot t1 (idx 1 v)"
    "is_present (vm_mem s) (slot (pml4_base s) (idx 3 v))" "get_physical_address (vm_mem s) (slot (pml4_base s) (idx 3 v)) = t2"
    "is_present (vm_mem s) (slot t2 (idx 2 v))" "get_physical_address (vm_mem s) (slot t2 (idx 2 v)) = t1"
    using pd_entry_levels[OF assms(1,2)] by blast
  have base: "pml4_base s' = pml4_base s" "pml4_base s \<in> T 3"
    using assms(2,3) by (simp_all add: space_ok_def pml4_base_def read_cr3_def)
  have "load64 (vm_mem s') (slot (pml4_base s) (idx 3 v)) = load64 (vm_mem s) (slot (pml4_base s) (idx 3 v))"
    "load64 (vm_mem s') (slot t2 (idx 2 v)) = load64 (vm_mem s) (slot t2 (idx 2 v))"
    using assms(4)[of 3 "pml4_base s"] assms(4)[of 2 t2] base(2) t by simp_all
  then show ?thesis
    using t by (simp add: pd_entry_def Let_def base(1) is_present_def get_physical_address_mask)
qed

text \<open>Both calls keep the entries above the last level: \<open>unmap_page\<close> of a small page all of them,
  \<open>map_4kb_page\<close> the present ones.\<close>

lemma store_last_level:
  assumes ok: "space_ok T s" and pt: "pt \<in> T 0" and t: "1 \<le> j" "j \<le> 3" "t \<in> T j" "unat i < 512"
  shows "load64 (store64 (vm_mem s) (slot pt (idx 0 v)) x) (slot t i) = load64 (vm_mem s) (slot t i)"
proof -
  have ap: "tables_apart T (vm_pmm s)" using ok by (simp add: space_ok_def)
  have "t \<noteq> pt" using tables_level[OF ap t(2) _ t(3), of 0] pt t(1) by auto
  then show ?thesis using load_slot[OF tables_aligned[OF ap _ pt] tables_aligned[OF ap t(2,3)] idx_less t(4)] by simp
qed

lemma map_upper:
  assumes ok: "space_ok T s" and r: "room (3 + n) (vm_pmm s)" and e: "ensure 3 (pml4_base s) virt s = (pt, s1)"
    and t: "1 \<le> j" "j \<le> 3" "t \<in> T j" "unat i < 512"
  shows "load64 (vm_mem (map_4kb_page virt frame flags s)) (slot t i) = load64 (vm_mem s1) (slot t i)"
    and "is_present (vm_mem s) (slot t i) \<Longrightarrow> load64 (vm_mem s1) (slot t i) = load64 (vm_mem s) (slot t i)"
proof -
  have top: "pml4_base s \<in> T 3" using ok by (simp add: space_ok_def)
  from ensure_path[OF ok r order.refl top e] obtain T1 where g: "grows T s T1 s1" and pt: "pt \<in> T1 0" by blast
  have "space_ok T1 s1" "t \<in> T1 j" using g t(2,3) by (auto simp: grows_def)
  from store_last_level[OF this(1) pt t(1,2) this(2) t(4)]
  show "load64 (vm_mem (map_4kb_page virt frame flags s)) (slot t i) = load64 (vm_mem s1) (slot t i)"
    by (simp add: map_4kb_ensure e set_entry_def)
  show "load64 (vm_mem s1) (slot t i) = load64 (vm_mem s) (slot t i)" if "is_present (vm_mem s) (slot t i)"
    by (rule grows_load[OF g t(2-4) that])
qed

lemma unmap_upper:
  assumes ok: "space_ok T s" and u: "small_page virt s" and t: "1 \<le> j" "j \<le> 3" "t \<in> T j" "unat i < 512"
  shows "load64 (vm_mem (unmap_page virt s)) (slot t i) = load64 (vm_mem s) (slot t i)"
proof (cases "\<exists>a. pd_entry virt s = Some a \<and> is_present (vm_mem s) a")
  case True
  then obtain a where a: "pd_entry virt s = Some a" "is_present (vm_mem s) a" by blast
  from pd_entry_visits[OF ok a(1)] a(2) have "get_physical_address (vm_mem s) a \<in> T 0" by auto
  from store_last_level[OF ok this t] show ?thesis
    using a u by (simp add: unmap_cases small_page_def set_entry_def invlpg_def vm_event_def)
qed (use u in \<open>auto simp: unmap_cases small_page_def split: option.splits\<close>)

lemma map_keeps_cr3: "vm_cr3 (map_4kb_page virt frame flags s) = vm_cr3 s" if "space_ok T s" "room (3 + n) (vm_pmm s)"
proof -
  obtain pt s1 where e: "ensure 3 (pml4_base s) virt s = (pt, s1)" by fastforce
  have top: "pml4_base s \<in> T 3" using that(1) by (simp add: space_ok_def)
  from ensure_path[OF that order.refl top e] have "vm_cr3 s1 = vm_cr3 s" by (auto simp: grows_def)
  then show ?thesis by (simp add: map_4kb_ensure e set_entry_def)
qed

lemma unmap_keeps_cr3: "vm_cr3 (unmap_page virt s) = vm_cr3 s"
  by (simp add: unmap_cases set_entry_def invlpg_def vm_event_def split: option.splits)

lemma map_keeps_region:
  assumes ok: "space_ok T s" and r: "room (3 + n) (vm_pmm s)"
    and other: "\<not> same_region virt v" and small: "small_region v s"
  shows "small_region v (map_4kb_page virt frame flags s)"
proof -
  obtain a where a: "pd_entry v s = Some a" "load64 (vm_mem s) a AND PAGE_LARGE = 0"
    using small by (auto simp: small_region_def split: option.splits)
  obtain pt s1 where e: "ensure 3 (pml4_base s) virt s = (pt, s1)" by fastforce
  have top: "pml4_base s \<in> T 3" using ok by (simp add: space_ok_def)
  from ensure_path[OF ok r order.refl top e] obtain T1 where g: "grows T s T1 s1" by blast
  have ok1: "space_ok T1 s1" and cr3: "vm_cr3 s1 = vm_cr3 s" using g by (auto simp: grows_def)
  then have base: "pml4_base s1 = pml4_base s" by (simp add: pml4_base_def read_cr3_def)
  note upper = map_upper[OF ok r e]
  have a1: "pd_entry v s1 = Some a"
    by (rule pd_entry_keep[OF a(1) ok cr3]) (rule upper(2), auto simp: idx_less)
  have a2: "pd_entry v (map_4kb_page virt frame flags s) = Some a"
    by (rule pd_entry_keep[OF a(1) ok map_keeps_cr3[OF ok r]]) (rule trans[OF upper(1) upper(2)], auto simp: idx_less)
  obtain t1 where t1: "t1 \<in> T 1" "a = slot t1 (idx 1 v)" using pd_entry_visits[OF ok a(1)] by blast
  have seen: "visits (vm_mem s1) 3 (pml4_base s1) v a" using pd_entry_visits[OF ok1 a1] by blast
  have le3: "(\<forall>l. 1 \<le> l \<longrightarrow> l \<le> 3 \<longrightarrow> P l) \<longleftrightarrow> P 1 \<and> P 2 \<and> P (3::nat)" for P
    by (auto simp: le_Suc_eq numeral_3_eq_3 numeral_2_eq_2)
  have "t1 \<in> T1 1" using g t1(1) by (auto simp: grows_def)
  from visits_iff_same[OF ok1 _ this idx_less seen[unfolded t1(2)], of virt, unfolded le3] other
  have "\<not> visits (vm_mem s1) 3 (pml4_base s) virt a" by (auto simp: t1(2) base same_region_def)
  then have "load64 (vm_mem s1) a = load64 (vm_mem s) a"
    using ensure_other[OF ok r order.refl top e _ t1(1) idx_less] t1(2) by simp
  then show ?thesis using a(2) a2 upper(1)[OF _ _ t1(1) idx_less] t1(2) by (simp add: small_region_def)
qed

lemma unmap_keeps_region:
  assumes ok: "space_ok T s" and u: "small_page virt s" and small: "small_region v s"
  shows "small_region v (unmap_page virt s)"
proof -
  obtain b where b: "pd_entry v s = Some b" "load64 (vm_mem s) b AND PAGE_LARGE = 0"
    using small by (auto simp: small_region_def split: option.splits)
  obtain t1 where t1: "t1 \<in> T 1" "b = slot t1 (idx 1 v)" using pd_entry_visits[OF ok b(1)] by blast
  note upper = unmap_upper[OF ok u]
  have "pd_entry v (unmap_page virt s) = Some b"
    by (rule pd_entry_keep[OF b(1) ok unmap_keeps_cr3]) (rule upper, auto simp: idx_less)
  then show ?thesis using b(2) upper[OF _ _ t1(1) idx_less] t1(2) by (simp add: small_region_def)
qed

section \<open>The calls of init_user_program_memory\<close>

lemma room_mono: "room m p \<Longrightarrow> n \<le> m \<Longrightarrow> room n p"
  unfolding room_def by (meson le_trans mult_le_mono1)

text \<open>A run is legal if it maps only outside the regions \<open>V\<close> of the pages it unmaps.\<close>

fun apart_from :: "u64 set \<Rightarrow> page_op \<Rightarrow> bool" where
  "apart_from V (Map_Page v f g) = (legal_frame f g \<and> (\<forall>u\<in>V. \<not> same_region v u))"
| "apart_from V (Unmap_Page v) = (v \<in> V)"

lemma legal_apart:
  assumes "space_ok T s" and "room (3 * length ops) (vm_pmm s)" and "\<forall>v\<in>V. small_region v s"
    and "list_all (apart_from V) ops"
  shows "legal_run map_4kb_page unmap_page legal_frame small_page ops s"
  using assms
proof (induction ops arbitrary: s T)
  case (Cons x ops)
  show ?case
  proof (cases x)
    case (Map_Page v f g)
    have legal: "page_aligned f" "g AND frame_mask = 0" "g AND 1 \<noteq> 0" using Cons.prems(4) by (simp_all add: Map_Page legal_frame_def)
    have r: "room (3 + 3 * length ops) (vm_pmm s)" using Cons.prems(2) by simp
    from map_4kb_maps[OF Cons.prems(1) r legal, of v] obtain T' where
      "space_ok T' (map_4kb_page v f g s)" "room (3 * length ops) (vm_pmm (map_4kb_page v f g s))" by blast
    moreover have "\<forall>u\<in>V. small_region u (map_4kb_page v f g s)"
      using map_keeps_region[OF Cons.prems(1) r] Cons.prems(3,4) by (simp add: Map_Page)
    ultimately show ?thesis using Cons.IH Cons.prems(4) by (simp add: Map_Page)
  next
    case (Unmap_Page v)
    have small: "small_page v s" using Cons.prems(3,4) small_region_page by (simp add: Unmap_Page)
    have "room (3 * length ops) (vm_pmm (unmap_page v s))"
      using room_mono[OF Cons.prems(2)] by (simp add: unmap_keeps_pmm)
    moreover have "space_ok T (unmap_page v s)" using unmap_unmaps[OF Cons.prems(1) small] by blast
    ultimately show ?thesis
      using Cons.IH[of T "unmap_page v s"] Cons.prems(3,4) unmap_keeps_region[OF Cons.prems(1) small] small
      by (simp add: Unmap_Page)
  qed
qed simp

definition user_flags :: u64 where "user_flags = PTE_DEFAULT_FLAGS OR PTE_USER"

definition program_page :: "nat \<Rightarrow> u64" where "program_page i = USER_PROGRAM_START + of_nat i * 0x1000"

definition user_ops :: "u64 \<Rightarrow> u64 \<Rightarrow> page_op list" where
  "user_ops a b =
     concat (map (\<lambda>i. [Map_Page (program_page i) (a + of_nat i * 0x1000) user_flags, Unmap_Page (a + of_nat i * 0x1000)]) [0..<4])
     @ [Map_Page (USER_SPACE_END - 0x1000) b user_flags]"

lemma four: "[0..<4] = [0, 1, 2, 3]" by (simp add: upt_rec)

lemma init_user_ops:
  assumes "vm_allocate 0x4000 s = (a, s1)" and "vm_allocate 0x1000 s1 = (b, s2)" and "a \<noteq> 0" and "b \<noteq> 0"
  shows "init_user_program_memory s = run_page_ops map_4kb_page unmap_page (user_ops a b) s2"
  using assms by (simp add: init_user_program_memory_def user_ops_def user_flags_def program_page_def PAGE_SIZE_def four)

section \<open>Pages as ranges of addresses\<close>

lemma unat_idx: "unat (idx k v) = unat v div 2 ^ (12 + 9 * k) mod 512"
proof -
  have "idx k v = take_bit 9 (drop_bit (12 + 9 * k) v)" by (simp add: idx_def take_bit_eq_mask mask_eq_exp_minus_1)
  then have "unat (idx k v) = take_bit 9 (drop_bit (12 + 9 * k) (unat v))"
    using unsigned_less[of v, where 'a = nat]
    by (simp only: unsigned_take_bit_eq unsigned_drop_bit_eq) (simp add: take_bit_nat_eq_self)
  then show ?thesis by (simp add: take_bit_eq_mod drop_bit_eq_div)
qed

lemma div_mod_digits:
  assumes "(p :: nat) < 2 ^ 36" and "q < 2 ^ 36"
    and "p mod 512 = q mod 512" and "p div 2 ^ 9 mod 512 = q div 2 ^ 9 mod 512"
    and "p div 2 ^ 18 mod 512 = q div 2 ^ 18 mod 512" and "p div 2 ^ 27 mod 512 = q div 2 ^ 27 mod 512"
  shows "p = q"
proof -
  have step: "x = y" if "x mod 512 = y mod 512" "x div 512 = y div 512" for x y :: nat
    using that by (metis div_mult_mod_eq)
  have next_digit: "n div 2 ^ 9 = n div 512" "n div 2 ^ 18 = n div 2 ^ 9 div 512" "n div 2 ^ 27 = n div 2 ^ 18 div 512" for n :: nat
    by (simp_all add: div_mult2_eq[symmetric])
  have "n div 2 ^ 27 mod 512 = n div 2 ^ 27" if "n < 2 ^ 36" for n :: nat
    using that less_mult_imp_div_less[of n 512 "2 ^ 27"] by simp
  then have "p div 2 ^ 27 = q div 2 ^ 27" using assms by metis
  then have "p div 2 ^ 18 = q div 2 ^ 18" using step assms(5) next_digit(3) by metis
  then have "p div 2 ^ 9 = q div 2 ^ 9" using step assms(4) next_digit(2) by metis
  then show ?thesis using step assms(3) next_digit(1) by metis
qed

lemma shift: "(n :: nat) div 2 ^ (12 + 9 * k) = n div 4096 div 2 ^ (9 * k)"
  by (simp add: power_add div_mult2_eq)

lemma same_page_range:
  assumes "unat v < 2 ^ 48" and "unat w < 2 ^ 48"
  shows "same_page v w \<longleftrightarrow> unat v div 4096 = unat w div 4096"
proof
  assume "same_page v w"
  then have "\<forall>k\<le>3. unat (idx k v) = unat (idx k w)" by (simp add: same_page_def)
  then have d: "unat v div 4096 div 2 ^ (9 * k) mod 512 = unat w div 4096 div 2 ^ (9 * k) mod 512" if "k \<le> 3" for k
    using that by (simp only: unat_idx shift)
  show "unat v div 4096 = unat w div 4096"
  proof (rule div_mod_digits)
    show "unat v div 4096 < 2 ^ 36" "unat w div 4096 < 2 ^ 36"
      using assms by (auto intro!: less_mult_imp_div_less)
  qed (use d[of 0] d[of 1] d[of 2] d[of 3] in simp_all)
next
  assume "unat v div 4096 = unat w div 4096"
  then have "unat (idx k v) = unat (idx k w)" for k by (simp only: unat_idx shift)
  then show "same_page v w" by (simp add: same_page_def word_unat_eq_iff)
qed

text \<open>The pages of the calls, by number.\<close>

lemma page_numbers:
  assumes "unat a mod 4096 = 0" and "unat a + 0x4000 \<le> 2 ^ 34" and "unat w < 2 ^ 48"
  shows "i < 4 \<Longrightarrow> same_page (program_page i) w \<longleftrightarrow> unat w div 4096 = 0x400000 + i"
    and "i < 4 \<Longrightarrow> same_page (a + of_nat i * 0x1000) w \<longleftrightarrow> unat w div 4096 = unat a div 4096 + i"
    and "same_page (USER_SPACE_END - 0x1000) w \<longleftrightarrow> unat w div 4096 = 0x7FFFFFFFE"
proof -
  have p: "unat (program_page i) = 0x400000000 + i * 4096" if "i < 4" for i
  proof -
    have "program_page i = of_nat (0x400000000 + i * 4096)" by (simp add: program_page_def USER_PROGRAM_START_def)
    then show ?thesis using that unat_of_nat_less[of "0x400000000 + i * 4096"] by simp
  qed
  show "same_page (program_page i) w \<longleftrightarrow> unat w div 4096 = 0x400000 + i" if "i < 4"
    using same_page_range[of "program_page i" w] p[OF that] that assms(3) by auto
  have q: "unat (a + of_nat i * 0x1000) = unat a + i * 4096" if "i < 4" for i
  proof -
    have "a + of_nat i * 0x1000 = of_nat (unat a + i * 4096)" by simp
    then show ?thesis using that assms(2) unat_of_nat_less[of "unat a + i * 4096"] by simp
  qed
  show "same_page (a + of_nat i * 0x1000) w \<longleftrightarrow> unat w div 4096 = unat a div 4096 + i" if "i < 4"
    using same_page_range[of "a + of_nat i * 0x1000" w] q[OF that] that assms by auto
  show "same_page (USER_SPACE_END - 0x1000) w \<longleftrightarrow> unat w div 4096 = 0x7FFFFFFFE"
    using same_page_range[of "USER_SPACE_END - 0x1000" w] assms(3) by (auto simp: USER_SPACE_END_def)
qed

lemma latest_user_ops:
  assumes "unat a mod 4096 = 0" and "unat a + 0x4000 \<le> 2 ^ 34" and "unat w < 2 ^ 48"
  shows "latest same_page w (user_ops a b) x =
    (let n = unat w div 4096 in
     if n = 0x7FFFFFFFE then b OR (w AND 0xFFF)
     else if 0x400000 \<le> n \<and> n < 0x400004 then (a + of_nat (n - 0x400000) * 0x1000) OR (w AND 0xFFF)
     else if unat a div 4096 \<le> n \<and> n < unat a div 4096 + 4 then 0 else x)"
proof -
  have A: "unat a div 4096 + 4 \<le> 0x400000" using assms(1,2) by auto
  note pages = page_numbers[OF assms]
  have "latest same_page w (user_ops a b) x =
    (let n = unat w div 4096; m = unat a div 4096; fr = \<lambda>i. (a + of_nat i * 0x1000) OR (w AND 0xFFF) in
     if n = 0x7FFFFFFFE then b OR (w AND 0xFFF)
     else if n = m + 3 then 0 else if n = 0x400003 then fr 3 else if n = m + 2 then 0 else if n = 0x400002 then fr 2
     else if n = m + 1 then 0 else if n = 0x400001 then fr 1 else if n = m then 0 else if n = 0x400000 then fr 0 else x)"
    using pages(1)[of 0] pages(1)[of 1] pages(1)[of 2] pages(1)[of 3]
      pages(2)[of 0] pages(2)[of 1] pages(2)[of 2] pages(2)[of 3] pages(3)
    by (simp add: user_ops_def four Let_def)
  moreover have "n = m \<or> n = m + 1 \<or> n = m + 2 \<or> n = m + 3" if "m \<le> n" "n < m + 4" for m n :: nat
    using that by auto
  ultimately show ?thesis using A by (auto simp: Let_def)
qed

section \<open>The memory of a user program\<close>

lemma page_sum:
  fixes n k :: nat
  assumes "n mod 4096 = 0"
  shows "(n + k) div 4096 = n div 4096 + k div 4096" and "(n + k) mod 4096 = k mod 4096"
proof -
  have "4096 dvd n" using assms by (simp add: mod_eq_0_iff_dvd)
  then show "(n + k) div 4096 = n div 4096 + k div 4096" by (rule div_plus_div_distrib_dvd_left)
  show "(n + k) mod 4096 = k mod 4096" using assms mod_add_left_eq[of n 4096 k] by simp
qed

lemma page_offset:
  fixes a x w :: u64
  assumes "unat a mod 4096 = 0" and "unat a + unat x < 2 ^ 64" and "n = unat x div 4096"
    and "unat w mod 4096 = unat x mod 4096"
  shows "(a + of_nat n * 0x1000) OR (w AND 0xFFF) = a + x"
proof -
  let ?p = "a + of_nat n * 0x1000" and ?o = "take_bit 12 w :: u64"
  have p: "?p = of_nat (unat a + n * 4096)" by simp
  have o: "unat ?o = unat x mod 4096" using assms(4) by (simp add: take_bit_eq_mod unat_mod_distrib)
  have le: "unat a + n * 4096 + unat x mod 4096 = unat a + unat x" using assms(3) by simp
  have up: "unat ?p = unat a + n * 4096"
    unfolding p using le assms(2) unat_of_nat_less[of "unat a + n * 4096"] by simp
  then have z: "take_bit 12 ?p = 0"
    using assms(1) by (simp add: word_unat_eq_iff take_bit_eq_mod unat_mod_distrib)
  have "?p AND ?o = 0"
  proof -
    have "?p AND ?o = take_bit 12 ?p AND w" by (simp add: take_bit_eq_mask ac_simps)
    then show ?thesis using z by simp
  qed
  then have "?p OR ?o = ?p + ?o" by (simp add: disjunctive_add_eq_or)
  also have "\<dots> = of_nat (unat ?p) + of_nat (unat ?o)" by simp
  also have "\<dots> = of_nat (unat a + unat x)"
    unfolding up o by (simp only: of_nat_add[symmetric] le)
  finally show ?thesis by (simp add: take_bit_eq_mask mask_eq_exp_minus_1)
qed

lemma high_index:
  "i < 4 \<Longrightarrow> unat (idx 2 (program_page i)) = 16" "unat (idx 3 (USER_SPACE_END - 0x1000)) = 255"
  "unat v < 2 ^ 34 \<Longrightarrow> unat (idx 2 v) < 16 \<and> unat (idx 3 v) = 0"
proof -
  show "unat (idx 2 (program_page i)) = 16" if "i < 4"
  proof -
    have "i = 0 \<or> i = 1 \<or> i = 2 \<or> i = 3" using that by auto
    then show ?thesis by (auto simp: idx_def program_page_def USER_PROGRAM_START_def)
  qed
  show "unat (idx 3 (USER_SPACE_END - 0x1000)) = 255" by (simp add: idx_def USER_SPACE_END_def)
  assume v: "unat v < 2 ^ 34"
  then have "unat v div 2 ^ 30 < 16" by (intro less_mult_imp_div_less) simp
  then show "unat (idx 2 v) < 16 \<and> unat (idx 3 v) = 0" using v by (simp add: unat_idx)
qed

text \<open>The pages the kernel saw the new memory at: the four from \<open>a\<close>.\<close>

definition identity_pages :: "u64 \<Rightarrow> u64 set" where
  "identity_pages a = (\<lambda>i. a + of_nat i * 0x1000) ` {0..<4}"

lemma identity_bounds:
  fixes a :: u64
  assumes "unat a + 0x4000 \<le> 2 ^ 34" and "i < 4"
  shows "unat (a + of_nat i * 0x1000) = unat a + i * 4096"
proof -
  have "a + of_nat i * 0x1000 = of_nat (unat a + i * 4096)" by simp
  then show ?thesis using assms unat_of_nat_less[of "unat a + i * 4096"] by simp
qed

lemma user_ops_apart:
  assumes "page_aligned a" and "page_aligned b" and "unat a + 0x4000 \<le> 2 ^ 34"
  shows "list_all (apart_from (identity_pages a)) (user_ops a b)"
proof -
  have fl: "user_flags AND frame_mask = 0" "user_flags AND 1 \<noteq> 0"
    by (simp_all add: user_flags_def PTE_DEFAULT_FLAGS_def PTE_USER_def frame_mask_def)
  have low: "unat u < 2 ^ 34" if "u \<in> identity_pages a" for u
    using that identity_bounds[OF assms(3)] assms(3) by (fastforce simp: identity_pages_def)
  have frame: "page_aligned (a + of_nat i * 0x1000)" if "i < 4" for i
    using identity_bounds[OF assms(3) that] assms(1,3) that by (simp add: page_aligned_iff)
  have "\<not> same_region (program_page i) u" if "i < 4" "u \<in> identity_pages a" for i u
    using high_index(1)[OF that(1)] high_index(3)[OF low[OF that(2)]] by (auto simp: same_region_def)
  moreover have "\<not> same_region (USER_SPACE_END - 0x1000) u" if "u \<in> identity_pages a" for u
    using high_index(2) high_index(3)[OF low[OF that]] by (auto simp: same_region_def)
  ultimately show ?thesis
    using fl assms(2) frame by (auto simp: user_ops_def legal_frame_def identity_pages_def list_all_iff)
qed

lemma init_user_legal:
  assumes ok: "space_ok T s" and r: "room 32 (vm_pmm s)"
    and calls: "vm_allocate 0x4000 s = (a, s1)" "vm_allocate 0x1000 s1 = (b, s2)"
    and low: "unat a + 0x4000 \<le> 2 ^ 34"
    and small: "\<forall>v\<in>identity_pages a. small_region v s"
  shows "space_ok T s2" and "room (3 * length (user_ops a b)) (vm_pmm s2)"
    and "legal_run map_4kb_page unmap_page legal_frame small_page (user_ops a b) s2"
    and "init_user_program_memory s = run_page_ops map_4kb_page unmap_page (user_ops a b) s2"
    and "vm_mem s2 = vm_mem s" and "vm_cr3 s2 = vm_cr3 s"
    and "page_aligned a" and "page_aligned b" and "unat b + 0x1000 \<le> 2 ^ 52"
proof -
  have "room (4 + 28) (vm_pmm s)" using r by simp
  note 1 = vm_allocate_space[OF ok this _ _ calls(1), simplified]
  have "room (1 + 27) (vm_pmm s1)" using 1(2) by simp
  note 2 = vm_allocate_space[OF 1(1) this _ _ calls(2), simplified]
  show ok2: "space_ok T s2" and room2: "room (3 * length (user_ops a b)) (vm_pmm s2)"
    using 2(1,2) by (simp_all add: user_ops_def four)
  show keep: "vm_mem s2 = vm_mem s" "vm_cr3 s2 = vm_cr3 s" using 1(6,7) 2(6,7) by simp_all
  have "\<forall>v\<in>identity_pages a. small_region v s2"
    using small translate_cong[OF keep] keep by (simp add: small_region_def split: option.splits)
  then show "legal_run map_4kb_page unmap_page legal_frame small_page (user_ops a b) s2"
    using legal_apart[OF ok2 room2] user_ops_apart[OF 1(4) 2(4) low] by blast
  show "init_user_program_memory s = run_page_ops map_4kb_page unmap_page (user_ops a b) s2"
    by (rule init_user_ops[OF calls 1(3) 2(3)])
  show "page_aligned a" "page_aligned b" "unat b + 0x1000 \<le> 2 ^ 52" using 1(4) 2(4,5) by simp_all
qed

lemma init_user_run:
  assumes "space_ok T s" and "room 32 (vm_pmm s)"
    and "vm_allocate 0x4000 s = (a, s1)" and "vm_allocate 0x1000 s1 = (b, s2)"
    and "unat a + 0x4000 \<le> 2 ^ 34" and "\<forall>v\<in>identity_pages a. small_region v s"
  shows "\<exists>T'. space_ok T' (init_user_program_memory s)"
    and "translate_virtual_to_physical w (init_user_program_memory s) =
      latest same_page w (user_ops a b) (translate_virtual_to_physical w s)"
proof -
  note run = init_user_legal[OF assms]
  have "usable_space (3 * length (user_ops a b)) s2" using run(1,2) by (auto simp: usable_space_def)
  from pages.run_latest[OF this run(3)] translate_cong[OF run(5,6)]
  show "\<exists>T'. space_ok T' (init_user_program_memory s)"
    "translate_virtual_to_physical w (init_user_program_memory s) =
      latest same_page w (user_ops a b) (translate_virtual_to_physical w s)"
    by (simp_all add: run(4) usable_space_def)
qed

lemma init_user_translate:
  assumes "space_ok T s" and "room 32 (vm_pmm s)"
    and "vm_allocate 0x4000 s = (a, s1)" and "vm_allocate 0x1000 s1 = (b, s2)"
    and "unat a + 0x4000 \<le> 2 ^ 34" and "\<forall>v\<in>identity_pages a. small_region v s"
  shows "unat x < 0x4000 \<Longrightarrow> translate_virtual_to_physical (USER_PROGRAM_START + x) (init_user_program_memory s) = a + x"
    and "unat x < 0x4000 \<Longrightarrow> translate_virtual_to_physical (a + x) (init_user_program_memory s) = 0"
    and "unat x < 0x1000 \<Longrightarrow> translate_virtual_to_physical (0x7FFFFFFFE000 + x) (init_user_program_memory s) = b + x"
    and "unat w < 2 ^ 48 \<Longrightarrow> unat w \<notin> {0x400000000 ..< 0x400004000} \<Longrightarrow>
      unat w \<notin> {unat a ..< unat a + 0x4000} \<Longrightarrow> unat w \<notin> {0x7FFFFFFFE000 ..< 0x7FFFFFFFF000} \<Longrightarrow>
      translate_virtual_to_physical w (init_user_program_memory s) = translate_virtual_to_physical w s"
proof -
  note run = init_user_legal[OF assms]
  have al: "unat a mod 4096 = 0" "unat b mod 4096 = 0" using run(7,8) by (simp_all add: page_aligned_iff)
  let ?tr = "\<lambda>w. translate_virtual_to_physical w (init_user_program_memory s)"
  note lat = trans[OF init_user_run(2)[OF assms] latest_user_ops[OF al(1) assms(5)]]
  have plus: "unat (c + x) = unat c + unat x" if "unat c + unat x < 2 ^ 48" for c x :: u64
    using that by (simp add: unat_plus_if')
  show "?tr (USER_PROGRAM_START + x) = a + x" if x: "unat x < 0x4000"
  proof -
    have u: "unat (USER_PROGRAM_START + x) = 0x400000000 + unat x"
      using plus[of USER_PROGRAM_START x] x by (simp add: USER_PROGRAM_START_def)
    have d: "(0x400000000 + unat x) div 4096 = 0x400000 + unat x div 4096" "unat x div 4096 < 4"
      using page_sum(1)[of "0x400000000" "unat x"] less_mult_imp_div_less[of "unat x" 4 4096] x by simp_all
    have m: "unat (USER_PROGRAM_START + x) mod 4096 = unat x mod 4096" unfolding u by (rule page_sum) simp
    have "unat a + unat x < 2 ^ 64" using x assms(5) by simp
    from page_offset[OF al(1) this refl m]
    show ?thesis using lat[of "USER_PROGRAM_START + x"] d(2) x by (simp add: u d(1) Let_def)
  qed
  show "?tr (a + x) = 0" if x: "unat x < 0x4000"
  proof -
    have u: "unat (a + x) = unat a + unat x" using plus[of a x] x assms(5) by simp
    have "unat x div 4096 < 4" "unat a div 4096 + 4 \<le> 0x400000"
      using less_mult_imp_div_less[of "unat x" 4 4096] x al(1) assms(5) by auto
    then show ?thesis using lat[of "a + x"] x assms(5) by (simp add: u page_sum(1)[OF al(1)] Let_def)
  qed
  show "?tr (0x7FFFFFFFE000 + x) = b + x" if x: "unat x < 0x1000"
  proof -
    have u: "unat (0x7FFFFFFFE000 + x) = 0x7FFFFFFFE000 + unat x" using plus[of "0x7FFFFFFFE000" x] x by simp
    have d: "(0x7FFFFFFFE000 + unat x) div 4096 = 0x7FFFFFFFE" "unat x div 4096 = 0"
      using page_sum(1)[of "0x7FFFFFFFE000" "unat x"] x by simp_all
    have m: "unat (0x7FFFFFFFE000 + x) mod 4096 = unat x mod 4096" unfolding u by (rule page_sum) simp
    have "unat b + unat x < 2 ^ 64" using x run(9) by simp
    from page_offset[OF al(2) this refl m] d(2)
    show ?thesis using lat[of "0x7FFFFFFFE000 + x"] x by (simp add: u d(1) Let_def)
  qed
  show "?tr w = translate_virtual_to_physical w s"
    if "unat w < 2 ^ 48" "unat w \<notin> {0x400000000 ..< 0x400004000}" "unat w \<notin> {unat a ..< unat a + 0x4000}"
      "unat w \<notin> {0x7FFFFFFFE000 ..< 0x7FFFFFFFF000}"
  proof -
    have "unat w div 4096 \<noteq> 0x7FFFFFFFE" "\<not> (0x400000 \<le> unat w div 4096 \<and> unat w div 4096 < 0x400004)"
      using that(2,4) by auto
    moreover have "\<not> (unat a div 4096 \<le> unat w div 4096 \<and> unat w div 4096 < unat a div 4096 + 4)"
      using that(3) al(1) by auto
    ultimately show ?thesis unfolding lat[OF that(1)] by (auto simp: Let_def)
  qed
qed

text \<open>C7: The memory of a user program. With room for 32 pages (five for the program and its stack, three
  tables for each of the nine calls, at most) and the allocated memory below the program's addresses,
  in regions mapped by page tables whose addresses have bit 21 clear: the 16 KiB from
  \<open>USER_PROGRAM_START\<close> translate to the allocated block, byte for byte, the page below the end of user
  space to the page of the stack, the addresses the kernel had for the block to nothing, and every
  other address as before; the address space stays well formed.\<close>

theorem user_memory_mapped:
  assumes "space_ok T s" and "room 32 (vm_pmm s)"
    and "vm_allocate 0x4000 s = (a, s1)" and "vm_allocate 0x1000 s1 = (b, s2)"
    and "unat a + 0x4000 \<le> 2 ^ 34" and "\<forall>v\<in>identity_pages a. small_region v s"
  shows "(\<exists>T'. space_ok T' (init_user_program_memory s)) \<and>
    (\<forall>x. unat x < 0x4000 \<longrightarrow>
      translate_virtual_to_physical (USER_PROGRAM_START + x) (init_user_program_memory s) = a + x \<and>
      translate_virtual_to_physical (a + x) (init_user_program_memory s) = 0) \<and>
    (\<forall>x. unat x < 0x1000 \<longrightarrow>
      translate_virtual_to_physical (0x7FFFFFFFE000 + x) (init_user_program_memory s) = b + x) \<and>
    (\<forall>w. unat w < 2 ^ 48 \<longrightarrow> unat w \<notin> {0x400000000 ..< 0x400004000} \<longrightarrow>
      unat w \<notin> {unat a ..< unat a + 0x4000} \<longrightarrow> unat w \<notin> {0x7FFFFFFFE000 ..< 0x7FFFFFFFF000} \<longrightarrow>
      translate_virtual_to_physical w (init_user_program_memory s) = translate_virtual_to_physical w s)"
  using init_user_run(1)[OF assms] init_user_translate[OF assms] by blast

lemma sample_pd_region:
  "v \<in> {0x300000, 0x301000, 0x302000, 0x303000} \<Longrightarrow> pd_entry v sample_vm = Some (slot 0x203000 1)"
  by (auto simp: pd_entry_def Let_def idx_def pml4_base_def read_cr3_def sample_vm_def is_present_def
      get_physical_address_mask frame_mask_def sample_loads)

lemma sample_small_regions: "\<forall>v\<in>identity_pages 0x300000. small_region v sample_vm"
proof -
  have "identity_pages 0x300000 = {0x300000, 0x301000, 0x302000, 0x303000}"
    unfolding identity_pages_def by (simp only: set_upt[symmetric] four) simp
  moreover have "load64 (vm_mem sample_vm) (slot 0x203000 1) = 0"
    using sample_loads(3)[of 1] by (simp add: sample_vm_def)
  ultimately show ?thesis using sample_pd_region by (simp add: small_region_def)
qed

lemma sample_user_calls:
  "\<exists>s1 s2. vm_allocate 0x4000 sample_vm = (0x300000, s1) \<and> vm_allocate 0x1000 s1 = (0x304000, s2)"
proof -
  note 1 = allocate_first[OF sample_free_bytes(2), where n = "0x4000"]
  then have es: "free_extents (snd (allocate_memory 0x4000 (vm_pmm sample_vm))) = [(0x304000, 0x3c000)]" by simp
  note 2 = allocate_first[OF es, where n = "0x1000"]
  show ?thesis using 1(1) 2(1) by (auto simp: vm_allocate_def split_beta Let_def)
qed

theorem user_memory_mapped_witness:
  "let s = init_user_program_memory sample_vm
   in translate_virtual_to_physical 0x400001234 s = 0x301234 \<and> translate_virtual_to_physical 0x301234 s = 0 \<and>
     translate_virtual_to_physical 0x7FFFFFFFE010 s = 0x304010 \<and>
     translate_virtual_to_physical 0x5000 s = translate_virtual_to_physical 0x5000 sample_vm"
proof -
  obtain s1 s2 where calls: "vm_allocate 0x4000 sample_vm = (0x300000, s1)" "vm_allocate 0x1000 s1 = (0x304000, s2)"
    using sample_user_calls by blast
  have room: "room 32 (vm_pmm sample_vm)" by (simp add: room_def sample_free_bytes)
  note t = user_memory_mapped[OF sample_space_ok room calls _ sample_small_regions]
  have "(\<forall>x. unat x < 0x4000 \<longrightarrow> P x) \<Longrightarrow> P (0x1234 :: u64)" "(\<forall>x. unat x < 0x1000 \<longrightarrow> P x) \<Longrightarrow> P (0x10 :: u64)" for P
    by auto
  note this(1)[OF conjunct1[OF conjunct2[OF t]]] this(2)[OF conjunct1[OF conjunct2[OF conjunct2[OF t]]]]
  moreover have "translate_virtual_to_physical 0x5000 (init_user_program_memory sample_vm) = translate_virtual_to_physical 0x5000 sample_vm"
    using t by simp
  ultimately show ?thesis by (simp add: USER_PROGRAM_START_def Let_def)
qed

section \<open>Access from user mode\<close>

text \<open>A user program reaches a page only if bit 2 is set in every entry of the walk, the tables'
  entries included: the rule of the processor. \<open>user_blocked\<close>: some table on the way lacks the bit.\<close>

fun user_walk :: "memory \<Rightarrow> nat \<Rightarrow> u64 \<Rightarrow> u64 \<Rightarrow> bool" where
  "user_walk m 0 t v = (load64 m (slot t (idx 0 v)) AND PTE_USER \<noteq> 0)"
| "user_walk m (Suc k) t v =
     (let e = slot t (idx (Suc k) v)
      in load64 m e AND PTE_USER \<noteq> 0 \<and> user_walk m k (get_physical_address m e) v)"

fun user_blocked :: "memory \<Rightarrow> nat \<Rightarrow> u64 \<Rightarrow> u64 \<Rightarrow> bool" where
  "user_blocked m 0 t v = False"
| "user_blocked m (Suc k) t v =
     (let e = slot t (idx (Suc k) v)
      in is_present m e \<and> (load64 m e AND PTE_USER = 0 \<or> user_blocked m k (get_physical_address m e) v))"

lemma blocked_walk: "user_blocked m k t v \<Longrightarrow> \<not> user_walk m k t v"
  by (induction k arbitrary: t) (auto simp: Let_def)

lemma blocked_region: "\<forall>l. 1 \<le> l \<longrightarrow> l \<le> k \<longrightarrow> idx l v = idx l w \<Longrightarrow> user_blocked m k t v \<longleftrightarrow> user_blocked m k t w"
  by (induction k arbitrary: t) (auto simp: Let_def)

lemma blocked_keep:
  assumes "space_ok T s" and "\<And>j t i. 1 \<le> j \<Longrightarrow> j \<le> 3 \<Longrightarrow> t \<in> T j \<Longrightarrow> unat i < 512 \<Longrightarrow> is_present (vm_mem s) (slot t i) \<Longrightarrow>
      load64 m (slot t i) = load64 (vm_mem s) (slot t i)"
  shows "k \<le> 3 \<Longrightarrow> t \<in> T k \<Longrightarrow> user_blocked (vm_mem s) k t v \<Longrightarrow> user_blocked m k t v"
proof (induction k arbitrary: t)
  case (Suc k)
  let ?e = "slot t (idx (Suc k) v)"
  have en: "entries_ok T (vm_mem s)" using assms(1) by (simp add: space_ok_def)
  have pr: "is_present (vm_mem s) ?e" using Suc.prems(3) by (simp add: Let_def)
  have same: "load64 m ?e = load64 (vm_mem s) ?e" using assms(2)[OF _ Suc.prems(1,2) idx_less pr] by simp
  have "get_physical_address (vm_mem s) ?e \<in> T k" using entries_okD(1)[OF en _ Suc.prems(2) pr] Suc.prems(1) by simp
  with Suc.IH[of "get_physical_address (vm_mem s) ?e"] Suc.prems(1,3) pr same show ?case
    by (auto simp: Let_def is_present_def get_physical_address_mask)
qed simp

text \<open>A table that \<open>create_or_get_table\<close> makes is entered without the user bit.\<close>

lemma created_entry:
  assumes "space_ok T s" and "room (Suc n) (vm_pmm s)" and "\<not> is_present (vm_mem s) parent"
    and "create_or_get_table parent s = (t', s')"
  shows "load64 (vm_mem s') parent AND PTE_USER = 0"
proof -
  obtain a p where a: "allocate_memory PAGE_SIZE (vm_pmm s) = (a, p)" by fastforce
  have fr: "free_pages_ok (vm_pmm s) (vm_mem s)" using assms(1) by (simp add: space_ok_def)
  have r: "room (1 + n) (vm_pmm s)" using assms(2) by simp
  from take_pages(1,2)[OF fr r _ _ a] have al: "a \<noteq> 0" "a AND frame_mask = a" by (simp_all add: PAGE_SIZE_def page_aligned_def)
  have "a AND PTE_USER = (a AND frame_mask) AND PTE_USER" by (simp only: al(2))
  then have "a AND PTE_USER = 0" by (simp add: and.assoc frame_mask_def PTE_USER_def)
  then have "(a OR PAGE_PRESENT OR PAGE_WRITABLE) AND PTE_USER = 0"
    by (simp add: bit.conj_disj_distrib2 PAGE_PRESENT_def PAGE_WRITABLE_def PTE_USER_def)
  moreover have "load64 (vm_mem s') parent = a OR PAGE_PRESENT OR PAGE_WRITABLE"
    using assms(3,4) a al(1) by (auto simp: create_or_get_table_def set_entry_def load64_store64_same)
  ultimately show ?thesis by simp
qed

lemma ensure_blocked:
  assumes "space_ok T s" and "room (k + n) (vm_pmm s)" and "k \<le> 3" and "t \<in> T k" and "ensure k t v s = (pt, s')"
    and "walk (vm_mem s) k t v = None"
  shows "user_blocked (vm_mem s') k t v"
  using assms
proof (induction k arbitrary: T s t)
  case (Suc k)
  let ?e = "slot t (idx (Suc k) v)"
  obtain t1 s1 where c: "create_or_get_table ?e s = (t1, s1)" by fastforce
  from Suc.prems(5) c have e: "ensure k t1 v s1 = (pt, s')" by simp
  from create_step[OF Suc.prems(1) Suc.prems(2)[unfolded add_Suc] _ Suc.prems(4) idx_less c] Suc.prems(3)
  obtain T1 where 1: "grows T s T1 s1" "t1 \<in> T1 k" "room (k + n) (vm_pmm s1)"
    "is_present (vm_mem s1) ?e" "get_physical_address (vm_mem s1) ?e = t1" by auto
  have ok1: "space_ok T1 s1" and sub: "t \<in> T1 (Suc k)" using 1(1) Suc.prems(4) by (auto simp: grows_def)
  have k3: "k \<le> 3" using Suc.prems(3) by simp
  from ensure_path[OF ok1 1(3) k3 1(2) e] obtain T2 where 2: "grows T1 s1 T2 s'" by blast
  have ld: "load64 (vm_mem s') ?e = load64 (vm_mem s1) ?e" by (rule grows_load[OF 2 Suc.prems(3) sub idx_less 1(4)])
  then have top: "is_present (vm_mem s') ?e" "get_physical_address (vm_mem s') ?e = t1"
    using 1(4,5) by (simp_all add: is_present_def get_physical_address_mask)
  show ?case
  proof (cases "is_present (vm_mem s) ?e")
    case True
    then have "s1 = s" "t1 = get_physical_address (vm_mem s) ?e" using c by (auto simp: create_or_get_table_def)
    then have "walk (vm_mem s1) k t1 v = None" using Suc.prems(6) True by (simp add: Let_def)
    from Suc.IH[OF ok1 1(3) k3 1(2) e this] top show ?thesis by simp
  next
    case False
    have "load64 (vm_mem s') ?e AND PTE_USER = 0"
      using created_entry[OF Suc.prems(1) _ False c] Suc.prems(2) ld by simp
    then show ?thesis using top by simp
  qed
qed simp

lemma map_blocked:
  assumes ok: "space_ok T s" and r: "room (3 + n) (vm_pmm s)"
  shows "walk (vm_mem s) 3 (pml4_base s) v = None \<Longrightarrow> user_blocked (vm_mem (map_4kb_page v frame flags s)) 3 (pml4_base s) v"
    and "user_blocked (vm_mem s) 3 (pml4_base s) w \<Longrightarrow> user_blocked (vm_mem (map_4kb_page v frame flags s)) 3 (pml4_base s) w"
proof -
  obtain pt s1 where e: "ensure 3 (pml4_base s) v s = (pt, s1)" by fastforce
  have top: "pml4_base s \<in> T 3" using ok by (simp add: space_ok_def)
  from ensure_path[OF ok r order.refl top e] obtain T1 where g: "grows T s T1 s1" and pt: "pt \<in> T1 0" by blast
  have ok1: "space_ok T1 s1" and top1: "pml4_base s \<in> T1 3" using g top by (auto simp: grows_def)
  let ?m = "vm_mem (map_4kb_page v frame flags s)"
  show "user_blocked ?m 3 (pml4_base s) v" if "walk (vm_mem s) 3 (pml4_base s) v = None"
    by (rule blocked_keep[OF ok1 _ order.refl top1 ensure_blocked[OF ok r order.refl top e that]])
      (simp add: map_4kb_ensure e set_entry_def store_last_level[OF ok1 pt])
  show "user_blocked ?m 3 (pml4_base s) w" if "user_blocked (vm_mem s) 3 (pml4_base s) w"
    by (rule blocked_keep[OF ok _ order.refl top that]) (rule trans[OF map_upper(1,2)[OF ok r e]])
qed

lemma pml4_base_cong: "vm_cr3 s' = vm_cr3 s \<Longrightarrow> pml4_base s' = pml4_base s"
  by (simp add: pml4_base_def read_cr3_def)

lemma run_blocked:
  assumes "space_ok T s" and "room (3 * length ops) (vm_pmm s)"
    and "legal_run map_4kb_page unmap_page legal_frame small_page ops s" and "user_blocked (vm_mem s) 3 (pml4_base s) w"
  shows "user_blocked (vm_mem (run_page_ops map_4kb_page unmap_page ops s)) 3 (pml4_base (run_page_ops map_4kb_page unmap_page ops s)) w"
  using assms
proof (induction ops arbitrary: s T)
  case (Cons x ops)
  show ?case
  proof (cases x)
    case (Map_Page v f g)
    have r: "room (3 + 3 * length ops) (vm_pmm s)" using Cons.prems(2) by simp
    have legal: "page_aligned f" "g AND frame_mask = 0" "g AND 1 \<noteq> 0" using Cons.prems(3) by (simp_all add: Map_Page legal_frame_def)
    from map_4kb_maps[OF Cons.prems(1) r legal, of v] obtain T' where
      "space_ok T' (map_4kb_page v f g s)" "room (3 * length ops) (vm_pmm (map_4kb_page v f g s))" by blast
    then show ?thesis
      using Cons.IH Cons.prems(3) map_blocked(2)[OF Cons.prems(1) r Cons.prems(4)] pml4_base_cong[OF map_keeps_cr3[OF Cons.prems(1) r]]
      by (simp add: Map_Page)
  next
    case (Unmap_Page v)
    have small: "small_page v s" using Cons.prems(3) by (simp add: Unmap_Page)
    have top: "pml4_base s \<in> T 3" using Cons.prems(1) by (simp add: space_ok_def)
    have "room (3 * length ops) (vm_pmm (unmap_page v s))"
      using room_mono[OF Cons.prems(2)] by (simp add: unmap_keeps_pmm)
    moreover have "space_ok T (unmap_page v s)" using unmap_unmaps[OF Cons.prems(1) small] by blast
    moreover have "user_blocked (vm_mem (unmap_page v s)) 3 (pml4_base (unmap_page v s)) w"
      unfolding pml4_base_cong[OF unmap_keeps_cr3]
      by (rule blocked_keep[OF Cons.prems(1) _ order.refl top Cons.prems(4)]) (rule unmap_upper[OF Cons.prems(1) small])
    ultimately show ?thesis using Cons.IH Cons.prems(3) by (simp add: Unmap_Page)
  qed
qed simp

lemma idx_region:
  assumes "unat v div 2 ^ 21 = unat w div 2 ^ 21" and "1 \<le> l"
  shows "idx l v = idx l w"
proof -
  obtain j where l: "l = Suc j" using assms(2) by (cases l) simp_all
  have "(n :: nat) div 2 ^ (12 + 9 * l) = n div 2 ^ 21 div 2 ^ (9 * j)" for n
    by (simp only: l div_mult2_eq[symmetric] power_add[symmetric]) simp
  then show ?thesis by (simp only: word_unat_eq_iff unat_idx assms(1))
qed

text \<open>C10: No user program runs in this memory. If no table leads to the program's addresses yet, then after
  \<open>init_user_program_memory\<close> the 16 KiB from \<open>USER_PROGRAM_START\<close> translate to the allocated block, and
  the processor refuses a user program every byte of it: the tables the calls create are entered as
  present and writable only.\<close>

theorem user_memory_refused:
  assumes "space_ok T s" and "room 32 (vm_pmm s)"
    and "vm_allocate 0x4000 s = (a, s1)" and "vm_allocate 0x1000 s1 = (b, s2)"
    and "unat a + 0x4000 \<le> 2 ^ 34" and "\<forall>v\<in>identity_pages a. small_region v s"
    and "walk (vm_mem s) 3 (pml4_base s) USER_PROGRAM_START = None" and "unat x < 0x4000"
  shows "translate_virtual_to_physical (USER_PROGRAM_START + x) (init_user_program_memory s) = a + x \<and>
    \<not> user_walk (vm_mem (init_user_program_memory s)) 3 (pml4_base (init_user_program_memory s)) (USER_PROGRAM_START + x)"
proof
  show "translate_virtual_to_physical (USER_PROGRAM_START + x) (init_user_program_memory s) = a + x"
    by (rule init_user_translate(1)[OF assms(1-6,8)])
  note run = init_user_legal[OF assms(1-6)]
  obtain ops where ops: "user_ops a b = Map_Page USER_PROGRAM_START a user_flags # ops"
    by (simp add: user_ops_def four program_page_def)
  let ?s = "map_4kb_page USER_PROGRAM_START a user_flags s2"
  have r: "room (3 + 3 * length ops) (vm_pmm s2)" using run(2) by (simp add: ops)
  have legal: "page_aligned a" "user_flags AND frame_mask = 0" "user_flags AND 1 \<noteq> 0"
    "legal_run map_4kb_page unmap_page legal_frame small_page ops ?s"
    using run(3) by (simp_all add: ops legal_frame_def)
  from map_4kb_maps[OF run(1) r legal(1-3), of USER_PROGRAM_START] obtain T' where
    t: "space_ok T' ?s" "room (3 * length ops) (vm_pmm ?s)" by blast
  have none: "walk (vm_mem s2) 3 (pml4_base s2) USER_PROGRAM_START = None"
    using assms(7) by (simp add: run(5) pml4_base_cong[OF run(6)])
  have "user_blocked (vm_mem ?s) 3 (pml4_base ?s) USER_PROGRAM_START"
    unfolding pml4_base_cong[OF map_keeps_cr3[OF run(1) r]] by (rule map_blocked(1)[OF run(1) r none])
  from run_blocked[OF t legal(4) this]
  have "user_blocked (vm_mem (init_user_program_memory s)) 3 (pml4_base (init_user_program_memory s)) USER_PROGRAM_START"
    by (simp add: run(4) ops)
  moreover have "unat USER_PROGRAM_START div 2 ^ 21 = unat (USER_PROGRAM_START + x) div 2 ^ 21"
    using assms(8) by (simp add: USER_PROGRAM_START_def unat_plus_if')
  ultimately show "\<not> user_walk (vm_mem (init_user_program_memory s)) 3 (pml4_base (init_user_program_memory s)) (USER_PROGRAM_START + x)"
    using blocked_region blocked_walk idx_region by metis
qed

theorem user_memory_refused_witness:
  "let s = init_user_program_memory sample_vm
   in translate_virtual_to_physical 0x400001234 s = 0x301234 \<and> \<not> user_walk (vm_mem s) 3 (pml4_base s) 0x400001234"
proof -
  obtain s1 s2 where calls: "vm_allocate 0x4000 sample_vm = (0x300000, s1)" "vm_allocate 0x1000 s1 = (0x304000, s2)"
    using sample_user_calls by blast
  have room: "room 32 (vm_pmm sample_vm)" by (simp add: room_def sample_free_bytes)
  have "walk (vm_mem sample_vm) 3 (pml4_base sample_vm) USER_PROGRAM_START = None"
    by (simp add: numeral_3_eq_3 Let_def idx_def pml4_base_def read_cr3_def sample_vm_def is_present_def
        get_physical_address_mask frame_mask_def sample_loads USER_PROGRAM_START_def)
  from user_memory_refused[OF sample_space_ok room calls _ sample_small_regions this, of "0x1234"]
  show ?thesis by (simp add: USER_PROGRAM_START_def Let_def)
qed

end
