(* ===== verification/Large_Pages.thy ===== *)
theory Large_Pages
  imports Paging_Map
begin

text \<open>
  Unmapping inside a page of 2 MiB (\<open>unmap_page\<close> of \<^verbatim>\<open>memory/paging.c\<close>). The processor takes an entry of
  a page directory for a large page by its bit 7, as \<open>translate_virtual_to_physical\<close> does; \<open>unmap_page\<close> tests
  \<open>PAGE_LARGE\<close> instead, the size of such a page, whose one bit is a bit of the frame's address.
\<close>

section \<open>The walk to a large page\<close>

abbreviation pml4e_of :: "u64 \<Rightarrow> vm \<Rightarrow> u64" where
  "pml4e_of v s \<equiv> slot (pml4_base s) (idx 3 v)"

abbreviation pdpte_of :: "u64 \<Rightarrow> vm \<Rightarrow> u64" where
  "pdpte_of v s \<equiv> slot (get_physical_address (vm_mem s) (pml4e_of v s)) (idx 2 v)"

abbreviation pde_of :: "u64 \<Rightarrow> vm \<Rightarrow> u64" where
  "pde_of v s \<equiv> slot (get_physical_address (vm_mem s) (pdpte_of v s)) (idx 1 v)"

text \<open>The address \<open>v\<close> lies in a page of 2 MiB; the three tables that lead there; the page's frame.\<close>

definition in_large_page :: "u64 \<Rightarrow> vm \<Rightarrow> bool" where
  "in_large_page v s \<longleftrightarrow> is_present (vm_mem s) (pml4e_of v s) \<and> is_present (vm_mem s) (pdpte_of v s) \<and>
     load64 (vm_mem s) (pdpte_of v s) AND 0x80 = 0 \<and>
     is_present (vm_mem s) (pde_of v s) \<and> load64 (vm_mem s) (pde_of v s) AND 0x80 \<noteq> 0"

definition path_tables :: "u64 \<Rightarrow> vm \<Rightarrow> u64 list" where
  "path_tables v s = [pml4_base s, get_physical_address (vm_mem s) (pml4e_of v s), get_physical_address (vm_mem s) (pdpte_of v s)]"

definition large_frame :: "u64 \<Rightarrow> vm \<Rightarrow> u64" where
  "large_frame v s = get_physical_address (vm_mem s) (pde_of v s)"

lemma same_region_idx:
  assumes "drop_bit 21 w = drop_bit 21 v" and "1 \<le> k"
  shows "idx k w = idx k v"
proof -
  have e: "drop_bit (12 + 9 * k) x = drop_bit (9 * k - 9) (drop_bit 21 x)" for x :: u64
    using assms(2) by (simp add: drop_bit_drop_bit)
  show ?thesis by (simp only: idx_def e assms(1))
qed

lemma large_translate:
  assumes "in_large_page v s" and "drop_bit 21 w = drop_bit 21 v"
  shows "translate_virtual_to_physical w s = (large_frame v s AND NOT 0x1FFFFF) OR (w AND 0x1FFFFF)"
  using assms(1) same_region_idx[OF assms(2)]
  by (simp add: translate_virtual_to_physical_def in_large_page_def large_frame_def idx_levels Let_def)

lemma pd_entry_large: "in_large_page v s \<Longrightarrow> pd_entry v s = Some (pde_of v s)"
  by (simp add: in_large_page_def pd_entry_def Let_def)

lemma page_large_bit: "e AND PAGE_LARGE \<noteq> 0 \<longleftrightarrow> bit e 21"
  using and_exp_eq_0_iff_not_bit[of e 21] by (simp add: PAGE_LARGE_def)

lemma store_zero: "store64 m a 0 x = (if unat (x - a) < 8 then 0 else m x)"
  by (simp add: store64_def write_bytes_at bytes_of_def)

text \<open>The two outcomes of \<open>unmap_page\<close>.\<close>

lemma unmap_odd:
  assumes "in_large_page v s" and "bit (load64 (vm_mem s) (pde_of v s)) 21"
  shows "unmap_page v s = set_entry (pde_of v s) 0 s"
  using assms by (simp add: unmap_cases pd_entry_large page_large_bit)

lemma unmap_even:
  assumes "in_large_page v s" and "\<not> bit (load64 (vm_mem s) (pde_of v s)) 21"
  shows "unmap_page v s = invlpg v (set_entry (slot (large_frame v s) (idx 0 v)) 0 s)"
  using assms by (simp add: unmap_cases pd_entry_large page_large_bit large_frame_def in_large_page_def)

lemma root_kept [simp]: "pml4_base (set_entry a e s) = pml4_base s" "pml4_base (invlpg v s) = pml4_base s"
  "vm_mem (set_entry a e s) = store64 (vm_mem s) a e" "vm_mem (invlpg v s) = vm_mem s"
  by (simp_all add: pml4_base_def read_cr3_def set_entry_def invlpg_def vm_event_def)

text \<open>The entry cleared: the walk ends there.\<close>

lemma cleared_unmaps:
  assumes "in_large_page v s" and "page_aligned (pml4_base s)" and "distinct (path_tables v s)"
    and "drop_bit 21 w = drop_bit 21 v"
  shows "translate_virtual_to_physical w (set_entry (pde_of v s) 0 s) = 0"
proof -
  have al: "page_aligned (get_physical_address (vm_mem s) e)" for e by (simp add: get_physical_address_mask)
  have "load64 (store64 (vm_mem s) (pde_of v s) 0) (pml4e_of v s) = load64 (vm_mem s) (pml4e_of v s)"
    "load64 (store64 (vm_mem s) (pde_of v s) 0) (pdpte_of v s) = load64 (vm_mem s) (pdpte_of v s)"
    "load64 (store64 (vm_mem s) (pde_of v s) 0) (pde_of v s) = 0"
    using assms(2,3) by (simp_all add: load_slot al idx_less path_tables_def load64_store64_same)
  then show ?thesis
    using assms(1) same_region_idx[OF assms(4)]
    by (simp add: translate_virtual_to_physical_def in_large_page_def idx_levels is_present_def get_physical_address_def Let_def)
qed

text \<open>A store into the frame: the walk is the same.\<close>

lemma frame_store_maps:
  assumes "in_large_page v s" and "page_aligned (pml4_base s)" and "large_frame v s \<notin> set (path_tables v s)"
    and "drop_bit 21 w = drop_bit 21 v" and "unat i < 512"
  shows "translate_virtual_to_physical w (set_entry (slot (large_frame v s) i) 0 s) = translate_virtual_to_physical w s"
proof -
  let ?m = "store64 (vm_mem s) (slot (large_frame v s) i) 0"
  have al: "page_aligned (get_physical_address (vm_mem s) e)" for e by (simp add: get_physical_address_mask)
  have "load64 ?m (pml4e_of v s) = load64 (vm_mem s) (pml4e_of v s)" "load64 ?m (pdpte_of v s) = load64 (vm_mem s) (pdpte_of v s)"
    "load64 ?m (pde_of v s) = load64 (vm_mem s) (pde_of v s)"
    using assms(2,3,5) by (auto simp: large_frame_def load_slot al idx_less path_tables_def)
  then show ?thesis
    using assms(1) same_region_idx[OF assms(4)]
    by (simp add: translate_virtual_to_physical_def in_large_page_def idx_levels is_present_def get_physical_address_def Let_def)
qed

section \<open>Property\<close>

text \<open>C5: Unmapping an address inside a page of 2 MiB. Before, the whole region translates into the page's
  frame. If bit 21 of the entry is set, so that the frame is at an odd multiple of 2 MiB, no address of
  the region is mapped afterwards, but the processor is not told (no \<open>invlpg\<close>). If it is clear, the entry
  is taken for that of a table: eight bytes of the frame's contents, at the index of the address in a table
  of 4 KiB pages, are overwritten with zeros, which is all that happens to the memory; and the region
  is mapped as before, unless the frame is one of the tables on the way. (The tables are pages of their own,
  the root below 2^52.)\<close>

theorem unmap_large_page:
  assumes "in_large_page v s" and "page_aligned (pml4_base s)" and "distinct (path_tables v s)"
    and "drop_bit 21 w = drop_bit 21 v"
  shows "translate_virtual_to_physical w s = (large_frame v s AND NOT 0x1FFFFF) OR (w AND 0x1FFFFF) \<and>
    (if bit (load64 (vm_mem s) (pde_of v s)) 21
     then translate_virtual_to_physical w (unmap_page v s) = 0 \<and> vm_io (unmap_page v s) = vm_io s
     else (\<forall>x. vm_mem (unmap_page v s) x = (if unat (x - (large_frame v s + pt_index v * 8)) < 8 then 0 else vm_mem s x)) \<and>
       (large_frame v s \<notin> set (path_tables v s) \<longrightarrow>
         translate_virtual_to_physical w (unmap_page v s) = translate_virtual_to_physical w s))"
proof (cases "bit (load64 (vm_mem s) (pde_of v s)) 21")
  case True
  then show ?thesis
    using large_translate[OF assms(1,4)] cleared_unmaps[OF assms] unmap_odd[OF assms(1) True] by (simp add: set_entry_def)
next
  case False
  have tr: "translate_virtual_to_physical w (invlpg v t) = translate_virtual_to_physical w t" for t
    by (simp add: translate_virtual_to_physical_def)
  show ?thesis
    unfolding unmap_even[OF assms(1) False]
    using False large_translate[OF assms(1,4)] frame_store_maps[OF assms(1,2) _ assms(4) idx_less]
    by (simp add: tr idx_levels store_zero slot_def)
qed

text \<open>The first two regions of an address space, in the frames at 4 MiB and at 6 MiB.\<close>

definition large_entries :: memory where
  "large_entries = store64 (store64 (store64 (store64 (\<lambda>_. 0)
     (slot 0x1000 0) 0x2003) (slot 0x2000 0) 0x3003) (slot 0x3000 0) 0x400083) (slot 0x3000 1) 0x600083"

definition large_vm :: vm where
  "large_vm = sample_vm\<lparr>vm_mem := large_entries, vm_cr3 := 0x1000\<rparr>"

lemma large_loads:
  "load64 large_entries (slot 0x1000 0) = 0x2003" "load64 large_entries (slot 0x2000 0) = 0x3003"
  "load64 large_entries (slot 0x3000 0) = 0x400083" "load64 large_entries (slot 0x3000 1) = 0x600083"
  by (simp_all add: large_entries_def load_slot page_aligned_def frame_mask_def)

theorem unmap_large_page_witness:
  "translate_virtual_to_physical 0x201000 large_vm = 0x601000 \<and>
   translate_virtual_to_physical 0x201000 (unmap_page 0x205000 large_vm) = 0 \<and>
   translate_virtual_to_physical 0x5123 large_vm = 0x405123 \<and>
   translate_virtual_to_physical 0x5123 (unmap_page 0x5000 large_vm) = 0x405123"
proof -
  have vm: "vm_mem large_vm = large_entries" "pml4_base large_vm = 0x1000"
    by (simp_all add: large_vm_def pml4_base_def read_cr3_def)
  note walk = is_present_def get_physical_address_mask frame_mask_def idx_def large_loads vm
  have 1: "in_large_page 0x5000 large_vm" "page_aligned (pml4_base large_vm)" "distinct (path_tables 0x5000 large_vm)"
    "large_frame 0x5000 large_vm = 0x400000" "load64 (vm_mem large_vm) (pde_of 0x5000 large_vm) = 0x400083"
    "set (path_tables 0x5000 large_vm) = {0x1000, 0x2000, 0x3000}"
    by (auto simp: in_large_page_def path_tables_def large_frame_def page_aligned_def walk)
  have 2: "in_large_page 0x205000 large_vm" "distinct (path_tables 0x205000 large_vm)"
    "large_frame 0x205000 large_vm = 0x600000" "load64 (vm_mem large_vm) (pde_of 0x205000 large_vm) = 0x600083"
    by (simp_all add: in_large_page_def path_tables_def large_frame_def walk)
  have b1: "\<not> bit (load64 (vm_mem large_vm) (pde_of 0x5000 large_vm)) 21" unfolding 1(5) by (simp add: bit_numeral_rec)
  have b2: "bit (load64 (vm_mem large_vm) (pde_of 0x205000 large_vm)) 21" unfolding 2(4) by (simp add: bit_numeral_rec)
  have "translate_virtual_to_physical 0x5123 large_vm = 0x405123 \<and> translate_virtual_to_physical 0x5123 (unmap_page 0x5000 large_vm) = 0x405123"
    using unmap_large_page[where w = "0x5123", OF 1(1-3)] b1 1(4,6) by simp
  moreover have "translate_virtual_to_physical 0x201000 large_vm = 0x601000 \<and> translate_virtual_to_physical 0x201000 (unmap_page 0x205000 large_vm) = 0"
    using unmap_large_page[where w = "0x201000", OF 2(1) 1(2) 2(2)] b2 2(3) by simp
  ultimately show ?thesis by blast
qed

end
