(* ===== verification/Boot_Space.thy ===== *)
theory Boot_Space
  imports Boot_Irqs User_Memory
begin

text \<open>
  The address space that \<open>_start\<close> leaves behind: the set-up of memory, ACPI tables, interrupt controllers
  and user memory composed. Each step is followed on what the rest needs: a well-formed address space
  with room for the next tables, free memory that small pages map, and what every address translates to.
  This is for an address space of 4 KiB pages; what \<open>unmap_page\<close> does to the 2 MiB pages of a loader's identity
  mapping is in theory Large_Pages.
\<close>

section \<open>Free memory only shrinks\<close>

lemma create_free:
  assumes "space_ok T s" and "room (Suc n) (vm_pmm s)" and "create_or_get_table parent s = (t', s')"
  shows "free_bytes (vm_pmm s') \<subseteq> free_bytes (vm_pmm s)"
proof (cases "is_present (vm_mem s) parent")
  case True
  then have "s' = s" using assms(3) by (auto simp: create_or_get_table_def)
  then show ?thesis by simp
next
  case False
  obtain a p where a: "allocate_memory PAGE_SIZE (vm_pmm s) = (a, p)" by fastforce
  have "free_pages_ok (vm_pmm s) (vm_mem s)" using assms(1) by (simp add: space_ok_def)
  from take_page(1,4)[OF this assms(2) a] have "a \<noteq> 0" "free_bytes p \<subseteq> free_bytes (vm_pmm s)" by auto
  then show ?thesis using assms(3) a False by (auto simp: create_or_get_table_def set_entry_def)
qed

lemma ensure_free:
  assumes "space_ok T s" and "room (k + n) (vm_pmm s)" and "k \<le> 3" and "t \<in> T k" and "ensure k t v s = (pt, s')"
  shows "free_bytes (vm_pmm s') \<subseteq> free_bytes (vm_pmm s)"
  using assms
proof (induction k arbitrary: T s t)
  case (Suc k)
  let ?e = "slot t (idx (Suc k) v)"
  obtain t1 s1 where c: "create_or_get_table ?e s = (t1, s1)" by fastforce
  from Suc.prems(5) c have e: "ensure k t1 v s1 = (pt, s')" by simp
  from create_step[OF Suc.prems(1) Suc.prems(2)[unfolded add_Suc] _ Suc.prems(4) idx_less c] Suc.prems(3)
  obtain T1 where 1: "space_ok T1 s1" "t1 \<in> T1 k" "room (k + n) (vm_pmm s1)" by (auto simp: grows_def)
  have "free_bytes (vm_pmm s') \<subseteq> free_bytes (vm_pmm s1)"
    using Suc.IH[OF 1(1,3) _ 1(2) e] Suc.prems(3) by simp
  also have "\<dots> \<subseteq> free_bytes (vm_pmm s)"
    by (rule create_free[OF Suc.prems(1) Suc.prems(2)[unfolded add_Suc] c])
  finally show ?case .
qed simp

lemma map_free:
  assumes "space_ok T s" and "room (3 + n) (vm_pmm s)"
  shows "free_bytes (vm_pmm (map_4kb_page virt frame flags s)) \<subseteq> free_bytes (vm_pmm s)"
proof -
  obtain pt s1 where e: "ensure 3 (pml4_base s) virt s = (pt, s1)" by fastforce
  have "pml4_base s \<in> T 3" using assms(1) by (simp add: space_ok_def)
  from ensure_free[OF assms order.refl this e] show ?thesis by (simp add: map_4kb_ensure e set_entry_def)
qed

section \<open>What the next step needs\<close>

text \<open>\<open>space_is n F tr\<close>: a well-formed address space with room for \<open>n\<close> pages, whose free memory lies in \<open>F\<close>,
  where small pages map it, and which translates addresses by \<open>tr\<close>.\<close>

definition space_is :: "nat \<Rightarrow> nat set \<Rightarrow> (u64 \<Rightarrow> u64) \<Rightarrow> vm \<Rightarrow> bool" where
  "space_is n F tr s \<longleftrightarrow> (\<exists>T. space_ok T s) \<and> room n (vm_pmm s) \<and> free_bytes (vm_pmm s) \<subseteq> F \<and>
     (\<forall>u. unat u \<in> F \<longrightarrow> small_region u s) \<and> (\<forall>w. translate_virtual_to_physical w s = tr w)"

text \<open>The ports and the trace do not matter.\<close>

definition same_space :: "vm \<Rightarrow> vm \<Rightarrow> bool" where
  "same_space s s' \<longleftrightarrow> vm_mem s' = vm_mem s \<and> vm_cr3 s' = vm_cr3 s \<and> vm_pmm s' = vm_pmm s"

lemma same_space_refl [simp]: "same_space s s"
  by (simp add: same_space_def)

lemma same_space_trans: "same_space s t \<Longrightarrow> same_space t u \<Longrightarrow> same_space s u"
  by (simp add: same_space_def)

lemma space_is_same:
  assumes "space_is n F tr s" and "same_space s s'"
  shows "space_is n F tr s'"
proof -
  have keep: "vm_mem s' = vm_mem s" "vm_cr3 s' = vm_cr3 s" "vm_pmm s' = vm_pmm s" using assms(2) by (simp_all add: same_space_def)
  have "space_ok T s' = space_ok T s" for T by (simp add: space_ok_def keep pml4_base_def read_cr3_def)
  moreover have "small_region u s' = small_region u s" for u
    using translate_cong[OF keep(1,2), of u] by (simp add: small_region_def keep split: option.splits)
  ultimately show ?thesis using assms(1) translate_cong[OF keep(1,2)] by (simp add: space_is_def keep)
qed

lemma low_region:
  assumes "F \<subseteq> {..<2 ^ 34}" and "unat u \<in> F" and "idx 3 virt \<noteq> 0"
  shows "\<not> same_region virt u"
proof -
  have "unat u < 2 ^ 34" using assms(1,2) by auto
  then have "idx 3 u = 0" using high_index(3)[of u] by (simp add: word_unat_eq_iff)
  then show ?thesis using assms(3) by (simp add: same_region_def)
qed

lemma space_is_map:
  assumes sp: "space_is (3 + n) F tr s" and F: "F \<subseteq> {..<2 ^ 34}" and virt: "idx 3 virt \<noteq> 0"
    and legal: "page_aligned frame" "flags AND frame_mask = 0" "flags AND 1 \<noteq> 0"
  shows "space_is n F (\<lambda>w. if same_page virt w then frame OR (w AND 0xFFF) else tr w) (map_4kb_page virt frame flags s)"
proof -
  obtain T where ok: "space_ok T s" "room (3 + n) (vm_pmm s)" and free: "free_bytes (vm_pmm s) \<subseteq> F"
    and small: "\<And>u. unat u \<in> F \<Longrightarrow> small_region u s" and tr: "\<And>w. translate_virtual_to_physical w s = tr w"
    using sp by (auto simp: space_is_def)
  have "small_region u (map_4kb_page virt frame flags s)" if "unat u \<in> F" for u
    by (rule map_keeps_region[OF ok low_region[OF F that virt] small[OF that]])
  moreover have "free_bytes (vm_pmm (map_4kb_page virt frame flags s)) \<subseteq> F" using map_free[OF ok] free by blast
  ultimately show ?thesis using map_4kb_maps[OF ok legal, of virt] tr by (auto simp: space_is_def)
qed

section \<open>Canonical addresses\<close>

text \<open>The walk reads the low 48 bits only.\<close>

lemma idx_low48: "k \<le> 3 \<Longrightarrow> idx k (take_bit 48 v) = idx k v"
proof -
  assume k: "k \<le> 3"
  have "idx k u = take_bit 9 (drop_bit (12 + 9 * k) u)" for u by (simp add: idx_def take_bit_eq_mask mask_eq_exp_minus_1)
  then show ?thesis using k by (intro bit_word_eqI) (auto simp: bit_simps)
qed

lemma translate_low48:
  assumes "space_ok T s"
  shows "translate_virtual_to_physical (take_bit 48 v) s = translate_virtual_to_physical v s"
proof -
  have "same_page (take_bit 48 v) v" by (simp add: same_page_def idx_low48)
  then have "page_map s (take_bit 48 v) = page_map s v" by (rule page_map_same)
  moreover have "take_bit 48 v AND 0xFFF = v AND 0xFFF"
  proof -
    have m: "(0xFFF :: u64) = mask 12" by (simp add: mask_eq_exp_minus_1)
    show ?thesis unfolding m by (rule bit_word_eqI) (auto simp: bit_simps)
  qed
  ultimately show ?thesis by (simp add: translate_page_map[OF assms] split: option.splits)
qed

text \<open>The page of a page-aligned address.\<close>

lemma page_of:
  assumes "unat v mod 4096 = 0" and "unat v + 0x1000 \<le> 2 ^ 64" and "unat x < 0x1000"
  shows "idx k (v + x) = idx k v" and "unat (v + x) mod 4096 = unat x"
proof -
  have u: "unat (v + x) = unat v + unat x" using assms(2,3) by (simp add: unat_plus_if')
  have "unat (v + x) div 4096 = unat v div 4096" using assms(3) by (simp add: u page_sum(1)[OF assms(1)])
  then have "unat (idx k (v + x)) = unat (idx k v)" by (simp only: unat_idx shift)
  then show "idx k (v + x) = idx k v" by (simp add: word_unat_eq_iff)
  show "unat (v + x) mod 4096 = unat x" using assms(3) by (simp add: u page_sum(2)[OF assms(1)])
qed

lemma frame_plus:
  assumes "page_aligned f" and "unat x < 0x1000" and "unat w mod 4096 = unat x"
  shows "f OR (w AND 0xFFF) = f + x"
proof -
  have f: "unat f mod 4096 = 0" "unat f < 2 ^ 52" using assms(1) by (simp_all add: page_aligned_iff)
  have "unat f + unat x < 2 ^ 64" using f(2) assms(2) by simp
  from page_offset[OF f(1) this, of 0 w] assms(2,3) show ?thesis by simp
qed

section \<open>The steps of boot_devices\<close>

lemma same_space_io [simp]:
  "same_space v (ap_vm (do_io f s)) = same_space v (ap_vm s)" "same_space v (ap_vm (snd (on_io g s))) = same_space v (ap_vm s)"
  "ap_acpi (snd (on_io g s)) = ap_acpi s"
  by (simp_all add: same_space_def do_io_def on_io_def Let_def split_beta)

lemma same_space_device [simp]:
  "same_space v (ap_vm (ap_log l f as s)) = same_space v (ap_vm s)"
  "same_space v (ap_vm (mmio_write a x s)) = same_space v (ap_vm s)"
  "same_space v (ap_vm (snd (mmio_read a s))) = same_space v (ap_vm s)"
  "same_space v (ap_vm (ioapic_write r x s)) = same_space v (ap_vm s)"
  "same_space v (ap_vm (snd (ioapic_read r s))) = same_space v (ap_vm s)"
  "same_space v (ap_vm (write_apic_register q x s)) = same_space v (ap_vm s)"
  "same_space v (ap_vm (snd (read_apic_register q s))) = same_space v (ap_vm s)"
  by (simp_all add: ap_log_def mmio_write_def mmio_read_def ioapic_write_def ioapic_read_def
      write_apic_register_def read_apic_register_def Let_def)

lemma acpi_kept [simp]:
  "ap_acpi (ap_log l f as s) = ap_acpi s" "ap_acpi (mmio_write a x s) = ap_acpi s" "ap_acpi (snd (mmio_read a s)) = ap_acpi s"
  "ap_acpi (write_apic_register q x s) = ap_acpi s" "ap_acpi (snd (read_apic_register q s)) = ap_acpi s"
  "ap_acpi (ap_map_4kb_page v p g s) = ap_acpi s"
  by (simp_all add: ap_log_def mmio_write_def mmio_read_def write_apic_register_def read_apic_register_def ap_map_4kb_page_def)

lemma apic_init_space:
  "\<exists>u. same_space (ap_vm s) u \<and>
     same_space (map_4kb_page LAPIC_VIRT (ucast (get_lapic_address (ap_acpi s))) PTE_MMIO_FLAGS u) (ap_vm (apic_init s)) \<and>
     ap_acpi (apic_init s) = ap_acpi s"
proof -
  let ?s = "ap_log LOG_LEVEL_INFO ''Initializing APIC'' [] s"
  have "same_space (map_4kb_page LAPIC_VIRT (ucast (get_lapic_address (ap_acpi s))) PTE_MMIO_FLAGS (ap_vm ?s)) (ap_vm (apic_init s)) \<and>
      ap_acpi (apic_init s) = ap_acpi s"
    unfolding apic_init_def get_msr_apic_base_address_def is_apic_enabled_in_msr_def enable_apic_def Let_def split_beta
    by (simp add: LAPIC_VIRT_def ap_map_4kb_page_def)
  then show ?thesis by (intro exI[of _ "ap_vm ?s"]) simp
qed

lemma ioapic_init_space:
  assumes "ioapic_init s = Some s'"
  shows "same_space (map_4kb_page IOAPIC_VIRT (ucast (get_ioapic_addresss (ap_acpi s))) PTE_MMIO_FLAGS (ap_vm s)) (ap_vm s')"
proof -
  obtain t mx where t: "mask_loop 0 mx t = Some s'"
    "same_space (map_4kb_page IOAPIC_VIRT (ucast (get_ioapic_addresss (ap_acpi s))) PTE_MMIO_FLAGS (ap_vm s)) (ap_vm t)"
    using assms by (fastforce simp: ioapic_init_def mask_all_ioapic_vectors_def Let_def split_beta IOAPIC_VIRT_def ap_map_4kb_page_def)
  let ?m = "map_4kb_page IOAPIC_VIRT (ucast (get_ioapic_addresss (ap_acpi s))) PTE_MMIO_FLAGS (ap_vm s)"
  show ?thesis
    by (rule mask_loop_keeps[OF t(1), where P = "\<lambda>t. same_space ?m (ap_vm t)"])
      (use t(2) in \<open>simp_all add: mask_round_def Let_def split_beta\<close>)
qed

lemma timer_space:
  assumes "init_apic_timer_interrupt s = Some s'"
  shows "same_space (ap_vm s) (ap_vm (enable_keyboard s')) \<and>
    apic_base_address (enable_keyboard s') = apic_base_address s \<and> ioapic_base_address (enable_keyboard s') = ioapic_base_address s"
proof -
  let ?keep = "\<lambda>t. same_space (ap_vm s) (ap_vm t) \<and> apic_base_address t = apic_base_address s \<and> ioapic_base_address t = ioapic_base_address s"
  let ?s0 = "write_apic_register INITIAL_COUNT_REGISTER_FOR_TIMER 0xFFFFFFFF
    (write_apic_register DIVIDE_CONFIGURATION_REGISTER_FOR_TIMER 0x3
      (do_io (out_b 0x40 0x04) (do_io (out_b 0x40 0xA9) (do_io (out_b 0x43 0x30) s))))"
  note bases = write_apic_register_def read_apic_register_def ioapic_write_def ioapic_read_def ioapic_set_irq_def
    ioapic_unmask_irq_def enable_keyboard_def ap_log_def
  obtain s1 where s1: "wait_for_pit ?s0 = Some s1"
    using assms by (auto simp: init_apic_timer_interrupt_def init_apic_timer_def calibrate_apic_timer_def Let_def split: bind_splits)
  have "?keep ?s0" by (simp add: write_apic_register_def)
  then have "?keep s1" by (rule wait_for_pit_keeps[OF s1]) simp
  then show ?thesis
    using assms s1 unfolding init_apic_timer_interrupt_def init_apic_timer_def calibrate_apic_timer_def Let_def split_beta
    by (auto simp: bases Let_def split_beta split: if_splits)
qed

lemma boot_devices_space:
  assumes "boot_devices sc k = Some k'"
    and "parse_acpi (scr_boot sc) (vm_mem (ap_vm (k_apic k))) (ap_acpi (k_apic k)) = Some ac"
  obtains u0 u1 u2 where
    "same_space ((ap_vm (k_apic k))\<lparr>vm_pmm := physical_memory_init (scr_boot sc) (vm_pmm (ap_vm (k_apic k)))\<rparr>) u0"
    and "same_space (map_4kb_page LAPIC_VIRT (ucast (get_lapic_address ac)) PTE_MMIO_FLAGS u0) u1"
    and "same_space (map_4kb_page IOAPIC_VIRT (ucast (get_ioapic_addresss ac)) PTE_MMIO_FLAGS u1) u2"
    and "ap_vm (k_apic k') = init_user_program_memory u2"
    and "apic_base_address (k_apic k') = LAPIC_VIRT" and "ioapic_base_address (k_apic k') = IOAPIC_VIRT"
proof -
  let ?k1 = "on_vm (\<lambda>v. v\<lparr>vm_pmm := physical_memory_init (scr_boot sc) (vm_pmm v)\<rparr>) k"
  have ac: "parse_acpi (scr_boot sc) (vm_mem (ap_vm (k_apic ?k1))) (ap_acpi (k_apic ?k1)) = Some ac"
    using assms(2) by (simp add: on_vm_def on_apic_def)
  let ?k3 = "on_apic apic_init (on_apic (\<lambda>a. a\<lparr>ap_acpi := ac\<rparr>) ?k1)"
  let ?dw = "initialize_framebuffer_details sc (k_disp ?k3, k_io ?k3)"
  let ?a0 = "do_io (\<lambda>_. snd ?dw) (k_apic ?k3)"
  obtain a1 a2 where run: "ioapic_init ?a0 = Some a1" "init_apic_timer_interrupt a1 = Some a2"
    "ap_vm (k_apic k') = init_user_program_memory (ap_vm (enable_keyboard a2))"
    "apic_base_address (k_apic k') = apic_base_address (enable_keyboard a2)"
    "ioapic_base_address (k_apic k') = ioapic_base_address (enable_keyboard a2)"
    using assms(1) ac by (auto simp: boot_devices_def Let_def split_beta set_io_def on_vm_def on_apic_def split: bind_splits)
  obtain u0 where u0: "same_space ((ap_vm (k_apic k))\<lparr>vm_pmm := physical_memory_init (scr_boot sc) (vm_pmm (ap_vm (k_apic k)))\<rparr>) u0"
    "same_space (map_4kb_page LAPIC_VIRT (ucast (get_lapic_address ac)) PTE_MMIO_FLAGS u0) (ap_vm ?a0)" "ap_acpi ?a0 = ac"
    using apic_init_space[of "(k_apic ?k1)\<lparr>ap_acpi := ac\<rparr>"] by (auto simp: on_vm_def on_apic_def)
  note io = ioapic_init_space[OF run(1), unfolded u0(3)]
  note timer = timer_space[OF run(2)]
  have "apic_base_address a1 = LAPIC_VIRT" "ioapic_base_address a1 = IOAPIC_VIRT"
    using ioapic_init_trace[OF run(1)] apic_init_io(2)[of "(k_apic ?k1)\<lparr>ap_acpi := ac\<rparr>"] by (simp_all add: on_apic_def)
  then show ?thesis
    using that[OF u0(1,2) same_space_trans[OF io conjunct1[OF timer]] run(3)] timer run(4,5) by simp
qed

section \<open>The memory of the user program\<close>

lemma user_space:
  assumes sp: "space_is 32 F tr s" and F: "F \<subseteq> {..<2 ^ 34}"
  shows "\<exists>a b T. space_ok T (init_user_program_memory s) \<and>
    byte_range a 0x4000 \<subseteq> F \<and> byte_range b 0x1000 \<subseteq> F \<and> byte_range a 0x4000 \<inter> byte_range b 0x1000 = {} \<and>
    (\<forall>x. unat x < 0x4000 \<longrightarrow> translate_virtual_to_physical (USER_PROGRAM_START + x) (init_user_program_memory s) = a + x) \<and>
    (\<forall>x. unat x < 0x1000 \<longrightarrow> translate_virtual_to_physical (0x7FFFFFFFE000 + x) (init_user_program_memory s) = b + x) \<and>
    (\<forall>w. unat w < 2 ^ 48 \<longrightarrow> unat w \<notin> {0x400000000 ..< 0x400004000} \<longrightarrow> unat w \<notin> F \<longrightarrow>
      unat w \<notin> {0x7FFFFFFFE000 ..< 0x7FFFFFFFF000} \<longrightarrow> translate_virtual_to_physical w (init_user_program_memory s) = tr w)"
proof -
  obtain T where ok: "space_ok T s" and room: "room 32 (vm_pmm s)" and free: "free_bytes (vm_pmm s) \<subseteq> F"
    and small: "\<And>u. unat u \<in> F \<Longrightarrow> small_region u s" and tr: "\<And>w. translate_virtual_to_physical w s = tr w"
    using sp by (auto simp: space_is_def)
  obtain a p1 where a: "allocate_memory 0x4000 (vm_pmm s) = (a, p1)" by fastforce
  obtain b p2 where b: "allocate_memory 0x1000 p1 = (b, p2)" by fastforce
  have fr: "free_pages_ok (vm_pmm s) (vm_mem s)" using ok by (simp add: space_ok_def)
  have "room (4 + 28) (vm_pmm s)" using room by simp
  note 1 = take_pages[OF fr this _ _ a, simplified]
  have "room (1 + 27) p1" using 1(7) by simp
  note 2 = take_pages[OF 1(6) this _ _ b, simplified]
  have calls: "vm_allocate 0x4000 s = (a, s\<lparr>vm_pmm := p1\<rparr>)" "vm_allocate 0x1000 (s\<lparr>vm_pmm := p1\<rparr>) = (b, s\<lparr>vm_pmm := p2\<rparr>)"
    using a b by (simp_all add: vm_allocate_def)
  have rng: "byte_range a 0x4000 = {unat a ..< unat a + 0x4000}" by (simp add: byte_range_def)
  have inF: "byte_range a 0x4000 \<subseteq> F" "byte_range b 0x1000 \<subseteq> F" "byte_range a 0x4000 \<inter> byte_range b 0x1000 = {}"
    using 1(4,5) 2(4) free by auto
  then have "unat a + 0x3FFF \<in> F" unfolding rng by auto
  then have low: "unat a + 0x4000 \<le> 2 ^ 34" using F by auto
  have "unat (a + of_nat i * 0x1000) \<in> F" if "i < 4" for i
    using inF(1) that identity_bounds[OF low that] unfolding rng by auto
  then have "\<forall>v\<in>identity_pages a. small_region v s" using small by (auto simp: identity_pages_def)
  note user = init_user_translate[OF ok room calls low this] init_user_run(1)[OF ok room calls low this]
  have "translate_virtual_to_physical w (init_user_program_memory s) = tr w"
    if "unat w < 2 ^ 48" "unat w \<notin> {0x400000000 ..< 0x400004000}" "unat w \<notin> F" "unat w \<notin> {0x7FFFFFFFE000 ..< 0x7FFFFFFFF000}" for w
  proof -
    have "unat w \<notin> {unat a ..< unat a + 0x4000}" using that(3) inF(1) unfolding rng by blast
    from user(4)[OF that(1,2) this that(4)] show ?thesis using tr by simp
  qed
  then show ?thesis using user(1,3,5) inF by blast
qed

section \<open>The device registers\<close>

lemma high48:
  fixes v x :: u64
  assumes "unat v = 0xFFFF * 2 ^ 48 + n" and "n + 0x1000 \<le> 2 ^ 48" and "unat x < 0x1000"
  shows "unat (take_bit 48 (v + x)) = n + unat x"
proof -
  have "unat (v + x) = 0xFFFF * 2 ^ 48 + (n + unat x)" using assms by (simp add: unat_plus_if')
  moreover have "unat (take_bit 48 (v + x)) = take_bit 48 (unat (v + x))" by (rule unsigned_take_bit_eq)
  ultimately have "unat (take_bit 48 (v + x)) = (0xFFFF * 2 ^ 48 + (n + unat x)) mod 2 ^ 48"
    by (simp only: take_bit_eq_mod)
  also have "\<dots> = (n + unat x) mod 2 ^ 48" by (rule mod_mult_self3)
  also have "\<dots> = n + unat x" using assms(2,3) by (intro mod_less) simp
  finally show ?thesis .
qed

lemma device_pages:
  assumes "unat x < 0x1000"
  shows "unat (take_bit 48 (LAPIC_VIRT + x)) = 0xFFFFF7001000 + unat x"
    and "unat (take_bit 48 (IOAPIC_VIRT + x)) = 0xFFFFF7002000 + unat x"
    and "same_page LAPIC_VIRT (LAPIC_VIRT + x)" and "same_page IOAPIC_VIRT (IOAPIC_VIRT + x)"
    and "\<not> same_page IOAPIC_VIRT (LAPIC_VIRT + x)"
    and "unat (LAPIC_VIRT + x) mod 4096 = unat x" and "unat (IOAPIC_VIRT + x) mod 4096 = unat x"
proof -
  note page = page_of[of LAPIC_VIRT x] page_of[of IOAPIC_VIRT x]
  show "unat (take_bit 48 (LAPIC_VIRT + x)) = 0xFFFFF7001000 + unat x" "unat (take_bit 48 (IOAPIC_VIRT + x)) = 0xFFFFF7002000 + unat x"
    using high48[of LAPIC_VIRT "0xFFFFF7001000" x] high48[of IOAPIC_VIRT "0xFFFFF7002000" x] assms
    by (simp_all add: LAPIC_VIRT_def IOAPIC_VIRT_def)
  show "same_page LAPIC_VIRT (LAPIC_VIRT + x)" "same_page IOAPIC_VIRT (IOAPIC_VIRT + x)"
    "unat (LAPIC_VIRT + x) mod 4096 = unat x" "unat (IOAPIC_VIRT + x) mod 4096 = unat x"
    using page assms by (simp_all add: same_page_def LAPIC_VIRT_def IOAPIC_VIRT_def)
  have "idx 0 (LAPIC_VIRT + x) = 1" "idx 0 IOAPIC_VIRT = 2"
    using page(1)[of 0] assms by (simp_all add: LAPIC_VIRT_def IOAPIC_VIRT_def idx_def)
  then show "\<not> same_page IOAPIC_VIRT (LAPIC_VIRT + x)" by (auto simp: same_page_def)
qed

section \<open>Properties\<close>

text \<open>What the two device pages make of a translation \<open>tr\<close>: the frames \<open>l\<close> and \<open>i\<close> at their fixed addresses.\<close>

abbreviation device_map :: "u64 \<Rightarrow> u64 \<Rightarrow> (u64 \<Rightarrow> u64) \<Rightarrow> u64 \<Rightarrow> u64" where
  "device_map l i tr w \<equiv> if same_page IOAPIC_VIRT w then i OR (w AND 0xFFF)
     else if same_page LAPIC_VIRT w then l OR (w AND 0xFFF) else tr w"

lemma device_space:
  assumes v: "space_is 38 F tr v" and lim: "F \<subseteq> {..<2 ^ 34}" and al: "page_aligned l" "page_aligned i"
    and u: "same_space v u0" "same_space (map_4kb_page LAPIC_VIRT l PTE_MMIO_FLAGS u0) u1"
      "same_space (map_4kb_page IOAPIC_VIRT i PTE_MMIO_FLAGS u1) u2"
  shows "space_is 32 F (device_map l i tr) u2"
proof -
  have fl: "PTE_MMIO_FLAGS AND frame_mask = 0" "PTE_MMIO_FLAGS AND 1 \<noteq> 0"
    by (simp_all add: PTE_MMIO_FLAGS_def PTE_DEFAULT_FLAGS_def frame_mask_def)
  have high: "idx 3 LAPIC_VIRT \<noteq> 0" "idx 3 IOAPIC_VIRT \<noteq> 0" by (simp_all add: idx_def LAPIC_VIRT_def IOAPIC_VIRT_def)
  have s0: "space_is (3 + (3 + 32)) F tr u0" using space_is_same[OF v u(1)] by simp
  note s1 = space_is_same[OF space_is_map[OF s0 lim high(1) al(1) fl] u(2)]
  show ?thesis by (rule space_is_same[OF space_is_map[OF s1 lim high(2) al(2) fl] u(3)])
qed

lemma low_half_page:
  assumes "unat w < 2 ^ 47"
  shows "\<not> same_page LAPIC_VIRT w" and "\<not> same_page IOAPIC_VIRT w"
proof -
  have "unat (idx 3 w) < 256"
    using assms less_mult_imp_div_less[of "unat w" 256 "2 ^ 39"] by (simp add: unat_idx)
  moreover have "unat (idx 3 LAPIC_VIRT) = 511" "unat (idx 3 IOAPIC_VIRT) = 511"
    by (simp_all add: idx_def LAPIC_VIRT_def IOAPIC_VIRT_def)
  ultimately show "\<not> same_page LAPIC_VIRT w" "\<not> same_page IOAPIC_VIRT w"
    by (auto simp: same_page_def dest: spec[of _ 3])
qed

text \<open>The address space after the set-up. Let the address space be well formed once the physical memory is
  initialised, so that it has no large pages and the free memory is zero; with room for 38 pages, the free memory
  below 16 GiB, where no page directory entry has bit 21 set; and the two addresses the ACPI tables give page aligned. Whenever \<open>boot_devices\<close> then returns, the drivers' base
  addresses are virtual addresses whose pages translate to the local and the I/O APIC that the tables
  name; the addresses of the user program and of its stack translate to two disjoint blocks of memory
  that was free; every other address of the lower half outside of the free memory translates as before, and the
  address space is well formed.\<close>

theorem boot_address_space:
  assumes "boot_devices sc k = Some k'"
    and "parse_acpi (scr_boot sc) (vm_mem (ap_vm (k_apic k))) (ap_acpi (k_apic k)) = Some ac"
    and v: "v = (ap_vm (k_apic k))\<lparr>vm_pmm := physical_memory_init (scr_boot sc) (vm_pmm (ap_vm (k_apic k)))\<rparr>"
    and "space_ok T v" and "room 38 (vm_pmm v)" and "free_bytes (vm_pmm v) \<subseteq> {..<2 ^ 34}"
    and "\<forall>u. unat u \<in> free_bytes (vm_pmm v) \<longrightarrow> small_region u v"
    and "page_aligned (ucast (get_lapic_address ac))" and "page_aligned (ucast (get_ioapic_addresss ac))"
  shows "(\<exists>T'. space_ok T' (ap_vm (k_apic k'))) \<and>
    (\<forall>x. unat x < 0x1000 \<longrightarrow>
      translate_virtual_to_physical (apic_base_address (k_apic k') + x) (ap_vm (k_apic k')) = ucast (get_lapic_address ac) + x \<and>
      translate_virtual_to_physical (ioapic_base_address (k_apic k') + x) (ap_vm (k_apic k')) = ucast (get_ioapic_addresss ac) + x) \<and>
    (\<exists>a b. byte_range a 0x4000 \<union> byte_range b 0x1000 \<subseteq> free_bytes (vm_pmm v) \<and> byte_range a 0x4000 \<inter> byte_range b 0x1000 = {} \<and>
      (\<forall>x. unat x < 0x4000 \<longrightarrow> translate_virtual_to_physical (USER_PROGRAM_START + x) (ap_vm (k_apic k')) = a + x) \<and>
      (\<forall>x. unat x < 0x1000 \<longrightarrow> translate_virtual_to_physical (0x7FFFFFFFE000 + x) (ap_vm (k_apic k')) = b + x)) \<and>
    (\<forall>w. unat w < 2 ^ 47 \<longrightarrow> unat w \<notin> free_bytes (vm_pmm v) \<union> {0x400000000 ..< 0x400004000} \<union> {0x7FFFFFFFE000 ..< 0x7FFFFFFFF000} \<longrightarrow>
      translate_virtual_to_physical w (ap_vm (k_apic k')) = translate_virtual_to_physical w v)"
proof -
  let ?F = "free_bytes (vm_pmm v)" and ?L = "ucast (get_lapic_address ac) :: u64" and ?I = "ucast (get_ioapic_addresss ac) :: u64"
  obtain u0 u1 u2 where u: "same_space v u0" "same_space (map_4kb_page LAPIC_VIRT ?L PTE_MMIO_FLAGS u0) u1"
    "same_space (map_4kb_page IOAPIC_VIRT ?I PTE_MMIO_FLAGS u1) u2"
    and k': "ap_vm (k_apic k') = init_user_program_memory u2"
    and base: "apic_base_address (k_apic k') = LAPIC_VIRT" "ioapic_base_address (k_apic k') = IOAPIC_VIRT"
    using boot_devices_space[OF assms(1,2)] unfolding v by blast
  have "space_is 38 ?F (\<lambda>w. translate_virtual_to_physical w v) v" using assms(4-7) by (auto simp: space_is_def)
  note s2 = device_space[OF this assms(6,8,9) u]
  let ?tr = "device_map ?L ?I (\<lambda>w. translate_virtual_to_physical w v)"
  obtain a b T' where ok: "space_ok T' (ap_vm (k_apic k'))"
    and ab: "byte_range a 0x4000 \<subseteq> ?F" "byte_range b 0x1000 \<subseteq> ?F" "byte_range a 0x4000 \<inter> byte_range b 0x1000 = {}"
    and prog: "\<And>x. unat x < 0x4000 \<Longrightarrow> translate_virtual_to_physical (USER_PROGRAM_START + x) (ap_vm (k_apic k')) = a + x"
    and stack: "\<And>x. unat x < 0x1000 \<Longrightarrow> translate_virtual_to_physical (0x7FFFFFFFE000 + x) (ap_vm (k_apic k')) = b + x"
    and rest: "\<And>w. unat w < 2 ^ 48 \<Longrightarrow> unat w \<notin> {0x400000000 ..< 0x400004000} \<Longrightarrow> unat w \<notin> ?F \<Longrightarrow>
      unat w \<notin> {0x7FFFFFFFE000 ..< 0x7FFFFFFFF000} \<Longrightarrow> translate_virtual_to_physical w (ap_vm (k_apic k')) = ?tr w"
    using user_space[OF s2 assms(6)] unfolding k' by blast
  obtain T2 where ok2: "space_ok T2 u2" and tr2: "\<And>w. translate_virtual_to_physical w u2 = ?tr w"
    using s2 by (auto simp: space_is_def)
  have dev: "translate_virtual_to_physical w (ap_vm (k_apic k')) = ?tr w"
    if "unat (take_bit 48 w) = n" "0xFFFFF7000000 \<le> n" "n < 2 ^ 48" for w n
  proof -
    have "n \<notin> ?F" using assms(6) that(2) by auto
    then have "translate_virtual_to_physical (take_bit 48 w) (ap_vm (k_apic k')) = ?tr (take_bit 48 w)"
      using that by (intro rest) auto
    then show ?thesis using translate_low48[OF ok] translate_low48[OF ok2] tr2 by metis
  qed
  have "translate_virtual_to_physical (LAPIC_VIRT + x) (ap_vm (k_apic k')) = ?L + x \<and>
      translate_virtual_to_physical (IOAPIC_VIRT + x) (ap_vm (k_apic k')) = ?I + x" if x: "unat x < 0x1000" for x
  proof -
    note d = device_pages[OF x]
    show ?thesis
      using dev[OF d(1)] dev[OF d(2)] d(3-5) frame_plus[OF assms(8) x d(6)] frame_plus[OF assms(9) x d(7)] x by simp
  qed
  moreover have "translate_virtual_to_physical w (ap_vm (k_apic k')) = translate_virtual_to_physical w v"
    if "unat w < 2 ^ 47" "unat w \<notin> ?F \<union> {0x400000000 ..< 0x400004000} \<union> {0x7FFFFFFFE000 ..< 0x7FFFFFFFF000}" for w
    using rest[of w] low_half_page[OF that(1)] that by simp
  ultimately show ?thesis using ok ab prog stack unfolding base by blast
qed

text \<open>The sample address space of theory Paging_Map, on a machine whose memory map lists its free memory and
  whose ACPI fields hold the usual addresses.\<close>

definition space_boot :: bootboot where
  "space_boot = sample_boot\<lparr>bb_acpi_ptr := 0x300000, bb_mmap := (\<lambda>i. if i = 0 then \<lparr>ent_ptr = 0x300000, ent_size = 0x40001\<rparr>
     else \<lparr>ent_ptr = 0xFEE00000, ent_size = 0x1003\<rparr>)\<rparr>"

definition space_kernel :: kernel where
  "space_kernel = sample_kernel\<lparr>k_apic := (sample_apic 0x22)\<lparr>
     ap_vm := sample_vm\<lparr>vm_pmm := pmm_bss, vm_io := \<lparr>answer = (\<lambda>_. 0x22), asked = 0, trace = []\<rparr>\<rparr>,
     ap_acpi := acpi_bss\<lparr>madt_apic_base := 0xFEE00000, madt_ioapic_base := 0xFEC00000\<rparr>\<rparr>\<rparr>"

lemma space_entries:
  "num_mmap_entries space_boot = 2"
  "mmap_entries space_boot = [\<lparr>ent_ptr = 0x300000, ent_size = 0x40001\<rparr>, \<lparr>ent_ptr = 0xFEE00000, ent_size = 0x1003\<rparr>]"
proof -
  show "num_mmap_entries space_boot = 2" by (simp add: num_mmap_entries_def space_boot_def sample_boot_def)
  then show "mmap_entries space_boot = [\<lparr>ent_ptr = 0x300000, ent_size = 0x40001\<rparr>, \<lparr>ent_ptr = 0xFEE00000, ent_size = 0x1003\<rparr>]"
    by (simp add: mmap_entries_def space_boot_def upt_rec)
qed

lemma space_extents: "free_extents (init_blocks space_boot pmm_bss) = [(0x300000, 0x40000)]"
proof -
  have "mmap_wf space_boot"
    by (simp add: mmap_wf_def space_entries)
      (simp add: MMapEnt_Size_def MMapEnt_Ptr_def ent_range_def extents_apart_def NUM_BLOCKS_def)
  then show ?thesis
    by (simp add: boot_extents map_free_extents_def space_entries)
      (simp add: ent_free_def free_extent_def MMapEnt_Type_def MMapEnt_Ptr_def MMapEnt_Size_def)
qed

lemma space_ok_extents:
  assumes "space_ok T s" and "vm_mem s' = vm_mem s" and "vm_cr3 s' = vm_cr3 s" and "free_extents (vm_pmm s') = free_extents (vm_pmm s)"
  shows "space_ok T s'"
  using assms(1) by (simp add: space_ok_def assms(2-4) pml4_base_def read_cr3_def tables_apart_def free_pages_ok_def pmm_wf_def free_bytes_def)

lemma sample_low_region:
  assumes "unat u \<in> {0x300000 ..< 0x340000}"
  shows "pd_entry u sample_vm = Some (slot 0x203000 1)"
proof -
  have "unat u div 2 ^ 21 = 1" "unat u div 2 ^ 30 = 0" "unat u div 2 ^ 39 = 0" using assms by auto
  then have "idx 1 u = 1" "idx 2 u = 0" "idx 3 u = 0" by (simp_all add: word_unat_eq_iff unat_idx)
  then show ?thesis
    by (simp add: pd_entry_def Let_def pml4_base_def read_cr3_def sample_vm_def is_present_def
        get_physical_address_mask frame_mask_def sample_loads)
qed

theorem boot_address_space_witness:
  "\<exists>k'. boot_devices (sample_screen\<lparr>scr_boot := space_boot\<rparr>) space_kernel = Some k' \<and>
     translate_virtual_to_physical (apic_base_address (k_apic k') + 0xB0) (ap_vm (k_apic k')) = 0xFEE000B0 \<and>
     translate_virtual_to_physical (ioapic_base_address (k_apic k') + 0x10) (ap_vm (k_apic k')) = 0xFEC00010 \<and>
     translate_virtual_to_physical 0x123 (ap_vm (k_apic k')) = 0x5123"
proof -
  let ?sc = "sample_screen\<lparr>scr_boot := space_boot\<rparr>" and ?ac = "acpi_bss\<lparr>madt_apic_base := 0xFEE00000, madt_ioapic_base := 0xFEC00000\<rparr>"
  let ?v = "(ap_vm (k_apic space_kernel))\<lparr>vm_pmm := physical_memory_init (scr_boot ?sc) (vm_pmm (ap_vm (k_apic space_kernel)))\<rparr>"
  have vm: "vm_mem (ap_vm (k_apic space_kernel)) = sample_entries" "vm_pmm (ap_vm (k_apic space_kernel)) = pmm_bss"
    "vm_cr3 (ap_vm (k_apic space_kernel)) = vm_cr3 sample_vm" "ap_acpi (k_apic space_kernel) = ?ac"
    by (simp_all add: space_kernel_def sample_vm_def)
  have ext: "free_extents (vm_pmm ?v) = [(0x300000, 0x40000)]" by (simp add: vm physical_memory_init_def space_extents)
  then have free: "free_bytes (vm_pmm ?v) = {0x300000 ..< 0x340000}" by (simp add: free_bytes_def byte_range_def)
  have "parse_acpi (scr_boot ?sc) (vm_mem (ap_vm (k_apic space_kernel))) (ap_acpi (k_apic space_kernel)) = Some ?ac"
    by (simp add: vm parse_acpi_def signature_is_def space_boot_def find_rsdp_def read_bytes_def upt_rec sample_zero)
  moreover have "hardware_ready (k_io space_kernel)"
    by (auto simp: hardware_ready_def space_kernel_def drop_bit_eq_div bit_numeral_rec)
  ultimately obtain k' where k': "boot_devices ?sc space_kernel = Some k'"
    and ac: "parse_acpi (scr_boot ?sc) (vm_mem (ap_vm (k_apic space_kernel))) (ap_acpi (k_apic space_kernel)) = Some ?ac"
    using boot_devices_returns[of space_kernel ?sc] by auto
  have mem: "vm_mem ?v = vm_mem sample_vm" "vm_cr3 ?v = vm_cr3 sample_vm" by (simp_all add: vm sample_vm_def)
  have ok: "space_ok sample_tables ?v"
    by (rule space_ok_extents[OF sample_space_ok mem]) (simp only: ext sample_free_bytes(2))
  have room: "room 38 (vm_pmm ?v)" unfolding room_def ext by simp
  have small: "\<forall>u. unat u \<in> free_bytes (vm_pmm ?v) \<longrightarrow> small_region u ?v"
  proof (intro allI impI)
    fix u :: u64 assume "unat u \<in> free_bytes (vm_pmm ?v)"
    then have "pd_entry u sample_vm = Some (slot 0x203000 1)" unfolding free by (rule sample_low_region)
    then have "pd_entry u ?v = Some (slot 0x203000 1)"
      using trans[OF conjunct2[OF translate_cong[OF mem, of u]]] by blast
    moreover have "load64 (vm_mem ?v) (slot 0x203000 1) = 0"
      using sample_loads(3)[of 1] by (simp add: vm)
    ultimately show "small_region u ?v" by (simp add: small_region_def)
  qed
  have al: "page_aligned (ucast (get_lapic_address ?ac))" "page_aligned (ucast (get_ioapic_addresss ?ac))"
    by (simp_all add: get_lapic_address_def get_ioapic_addresss_def page_aligned_def frame_mask_def)
  have b: "free_bytes (vm_pmm ?v) \<subseteq> {..<2 ^ 34}" unfolding free by auto
  note t = boot_address_space[OF k' ac refl ok room b small al]
  have dev: "translate_virtual_to_physical (apic_base_address (k_apic k') + x) (ap_vm (k_apic k')) = 0xFEE00000 + x \<and>
      translate_virtual_to_physical (ioapic_base_address (k_apic k') + x) (ap_vm (k_apic k')) = 0xFEC00000 + x" if "unat x < 0x1000" for x
    using conjunct1[OF conjunct2[OF t]] that by (simp add: get_lapic_address_def get_ioapic_addresss_def)
  have "translate_virtual_to_physical 0x123 (ap_vm (k_apic k')) = translate_virtual_to_physical 0x123 ?v"
    using conjunct2[OF conjunct2[OF conjunct2[OF t]]] unfolding free by simp
  also have "\<dots> = translate_virtual_to_physical 0x123 sample_vm" using translate_cong[OF mem] by blast
  also have "\<dots> = 0x5123"
    by (simp add: translate_virtual_to_physical_def idx_levels idx_def Let_def pml4_base_def read_cr3_def sample_vm_def
        is_present_def get_physical_address_mask frame_mask_def sample_loads)
  finally show ?thesis using k' dev[of "0xB0"] dev[of "0x10"] by simp
qed

end
