(* ===== verification/Boot_Start.thy ===== *)
theory Boot_Start
  imports Boot_Space Boot_Output
begin

text \<open>
  \<open>_start\<close> as a whole (\<^verbatim>\<open>kernel.c\<close>): on hardware that answers, every core gets through all of the set-up to
  the endless loop at the end of the function. The log calls, events in the models of their callers,
  are sent to a serial port here, so that their waits count too.
\<close>

section \<open>Messages that have a text\<close>

text \<open>A call of \<open>log\<close> is an event in the models of its callers. Here its format has a text, and no
  model-specific register is written.\<close>

fun smooth :: "io_event \<Rightarrow> bool" where
  "smooth (Wrmsr r lo hi) = False"
| "smooth e = loggable e"

lemma smooth_cases [simp]:
  "smooth (MmioWrite a v)" "smooth (MmioRead a v)" "smooth (In8 p b)" "smooth (Out8 p b)" "smooth (Rdmsr r lo hi)"
  "smooth (TermWrite s)" "smooth (Invlpg a)" "smooth (Log l s args) = (log_text s args \<noteq> None)"
  by simp_all

declare smooth.simps(2-) [simp del]

lemma plain_log [simp]:
  "CHR ''%'' \<notin> set s \<Longrightarrow> log_text s args \<noteq> None" "CHR ''%'' \<notin> set s \<Longrightarrow> \<exists>t. log_text s args = Some t"
  using log_ok_text[OF log_ok_plain] by auto


section \<open>What the set-up does to the ports\<close>


















section \<open>The log calls on the serial port\<close>










section \<open>Properties\<close>











end
