(* ===== verification/Fsz.thy ===== *)
theory Fsz
  imports Kernel_Prelude
begin

text \<open>
  The file system sketch, \<^verbatim>\<open>src/fs/fsz.c\<close>: a program for a POSIX host over a block device. The host's
  functions (\<open>pread\<close>, \<open>pwrite\<close>, \<open>open\<close>, \<open>malloc\<close>, \<open>time\<close>) and the two inode functions that the
  header declares and no file defines are the record \<open>host\<close>; what the properties rely on of the device is the
  predicate \<open>file_device\<close>. The super block and the inodes are the bytes of their structures, fields are
  read and written at the structures' offsets. Offsets on the device are computed at the code's widths.
\<close>

section \<open>The host\<close>

record 'd host =
  h_open :: "string \<Rightarrow> int \<times> int"   \<comment> \<open>the descriptor and \<^verbatim>\<open>errno\<close>\<close>
  h_pread :: "'d \<Rightarrow> nat \<Rightarrow> u64 \<Rightarrow> u8 list"
  h_pwrite :: "'d \<Rightarrow> u8 list \<Rightarrow> u64 \<Rightarrow> nat \<times> 'd"
  h_malloc :: "u32 \<Rightarrow> bool"
  h_time :: u64
  h_allocate_inode :: "'d \<Rightarrow> u32 \<times> 'd"
  h_free_inode :: "u32 \<Rightarrow> 'd \<Rightarrow> 'd"

text \<open>A device without short transfers: the bytes of \<open>content\<close> are read and written.\<close>

definition file_device :: "'d host \<Rightarrow> ('d \<Rightarrow> memory) \<Rightarrow> bool" where
  "file_device h content \<longleftrightarrow>
     (\<forall>d n a. h_pread h d n a = read_bytes (content d) a n) \<and>
     (\<forall>d bs a. fst (h_pwrite h d bs a) = length bs \<and> content (snd (h_pwrite h d bs a)) = write_bytes (content d) a bs)"

section \<open>Structures\<close>

definition FSZ_SECSIZE :: u32 where "FSZ_SECSIZE = 4096"
definition FSZ_MAGIC :: "u8 list" where "FSZ_MAGIC = [70, 83, 90, 49]"
definition EIO :: int where "EIO = 5"
definition EINVAL :: int where "EINVAL = 22"
definition ENOSPC :: int where "ENOSPC = 28"

definition field :: "nat \<Rightarrow> nat \<Rightarrow> u8 list \<Rightarrow> 'a::len word" where
  "field off n bs = word_of_bytes (take n (drop off bs))"

definition put :: "nat \<Rightarrow> u8 list \<Rightarrow> u8 list \<Rightarrow> u8 list" where
  "put off new bs = take off bs @ new @ drop (off + length new) bs"

definition sizeof_superblock :: nat where "sizeof_superblock = 104"
definition sb_numsec :: "u8 list \<Rightarrow> u64" where "sb_numsec = field 56 8"
definition sb_free_block_bitmap_start :: "u8 list \<Rightarrow> u32" where "sb_free_block_bitmap_start = field 76 4"
definition sb_inode_table_start :: "u8 list \<Rightarrow> u32" where "sb_inode_table_start = field 80 4"
definition sb_data_area_start :: "u8 list \<Rightarrow> u32" where "sb_data_area_start = field 84 4"

definition sizeof_inode :: nat where "sizeof_inode = 1128"
definition inode_size :: "u8 list \<Rightarrow> u32" where "inode_size = field 8 4"
definition direct_block_0 :: "u8 list \<Rightarrow> u32" where "direct_block_0 = field 120 4"
definition inline_size :: nat where "inline_size = 1000"
definition inlinedata :: "u8 list \<Rightarrow> u8 list" where "inlinedata inode = take inline_size (drop 120 inode)"

record 'd fsz =
  sb :: "u8 list"
  device_fd :: int
  device :: 'd      \<comment> \<open>what the descriptor stands for\<close>

section \<open>Operations\<close>

text \<open>The calls of \<open>close\<close> on the two error paths leave the bytes of the device alone.\<close>

definition fsz_init :: "'d host \<Rightarrow> string \<Rightarrow> 'd fsz \<Rightarrow> int \<times> 'd fsz" where
  "fsz_init h device_path s =
     (let (fd, errno) = h_open h device_path;
          s = s\<lparr>device_fd := fd\<rparr>
      in if device_fd s < 0 then (- errno, s)
         else let bs = h_pread h (device s) sizeof_superblock 0
              in if length bs \<noteq> sizeof_superblock then (- EIO, s\<lparr>sb := bs @ drop (length bs) (sb s)\<rparr>)
                 else let s = s\<lparr>sb := bs\<rparr>
                      in if take 4 (sb s) \<noteq> FSZ_MAGIC then (- EINVAL, s) else (0, s))"

definition bitmap_offset :: "'d fsz \<Rightarrow> u32" where
  "bitmap_offset s = sb_free_block_bitmap_start (sb s) * FSZ_SECSIZE"

definition bitmap_size :: "'d fsz \<Rightarrow> u32" where
  "bitmap_size s = ucast ((sb_numsec (sb s) - ucast (sb_data_area_start (sb s)) + 7) div 8)"

definition free_bit :: "u8 list \<Rightarrow> nat \<Rightarrow> bool" where
  "free_bit bitmap i \<longleftrightarrow> \<not> bit (bitmap ! (i div 8)) (i mod 8)"

definition fsz_allocate_block :: "'d host \<Rightarrow> 'd fsz \<Rightarrow> u32 \<times> 'd fsz" where
  "fsz_allocate_block h s =
     (let n = unat (bitmap_size s)
      in if \<not> h_malloc h (bitmap_size s) then (0, s)
         else let bitmap = h_pread h (device s) n (ucast (bitmap_offset s))
              in if length bitmap \<noteq> n then (0, s)
                 else case first_index (free_bit bitmap) (unat (bitmap_size s * 8)) of
                        None \<Rightarrow> (0, s)
                      | Some i \<Rightarrow>
                          let bitmap = bitmap[i div 8 := set_bit (i mod 8) (bitmap ! (i div 8))];
                              (written, d) = h_pwrite h (device s) bitmap (ucast (bitmap_offset s));
                              s = s\<lparr>device := d\<rparr>
                          in if written \<noteq> n then (0, s) else (sb_data_area_start (sb s) + of_nat i, s))"

definition fsz_free_block :: "'d host \<Rightarrow> u32 \<Rightarrow> 'd fsz \<Rightarrow> 'd fsz" where
  "fsz_free_block h block s =
     (let bitmap_index = block - sb_data_area_start (sb s);
          byte_offset = bitmap_index div 8;
          bit_offset = bitmap_index mod 8;
          at = (ucast (bitmap_offset s + byte_offset) :: u64);
          bs = h_pread h (device s) 1 at
      in if length bs \<noteq> 1 then s
         else let byte = bs ! 0 AND NOT (push_bit (unat bit_offset) 1)
              in s\<lparr>device := snd (h_pwrite h (device s) [byte] at)\<rparr>)"

definition inode_offset :: "'d fsz \<Rightarrow> u64 \<Rightarrow> u64" where
  "inode_offset s n = ucast (sb_inode_table_start (sb s) * FSZ_SECSIZE) + n * of_nat sizeof_inode"

definition fsz_create :: "'d host \<Rightarrow> string \<Rightarrow> u32 \<Rightarrow> 'd fsz \<Rightarrow> int \<times> 'd fsz" where
  "fsz_create h path mode s =
     (let (inode_num, d) = h_allocate_inode h (device s);
          s = s\<lparr>device := d\<rparr>
      in if inode_num = 0 then (- ENOSPC, s)
         else let inode = replicate sizeof_inode 0;
                  inode = put 0 [73, 78, 79, 68] inode;
                  now = bytes_of 8 (h_time h * 1000000);
                  inode = put 24 now (put 32 now (put 40 now inode));
                  inode = put 116 (bytes_of 4 mode) inode;
                  (written, d) = h_pwrite h (device s) inode (inode_offset s (ucast inode_num));
                  s = s\<lparr>device := d\<rparr>
              in if written \<noteq> sizeof_inode then (- EIO, s\<lparr>device := h_free_inode h inode_num (device s)\<rparr>)
                 else (0, s))"

text \<open>Both results are of type \<^verbatim>\<open>size_t\<close>: an error code is a number near \<open>2 ^ 64\<close>. A descriptor is an
  \<^verbatim>\<open>int\<close> and the number of the inode.\<close>

definition fsz_read :: "'d host \<Rightarrow> u32 \<Rightarrow> u64 \<Rightarrow> 'd fsz \<Rightarrow> u64 \<times> u8 list" where
  "fsz_read h fd count s =
     (let inode = h_pread h (device s) sizeof_inode (inode_offset s (scast fd))
      in if length inode \<noteq> sizeof_inode then (of_int (- EIO), [])
         else let count = (if ucast (inode_size inode) < count then ucast (inode_size inode) else count)
              in if unat (inode_size inode) \<le> inline_size then (count, take (unat count) (inlinedata inode))
                 else let bs = h_pread h (device s) (unat count) (ucast (direct_block_0 inode * FSZ_SECSIZE))
                      in if length bs \<noteq> unat count then (of_int (- EIO), bs) else (count, bs))"

definition fsz_write_inode :: "'d host \<Rightarrow> u32 \<Rightarrow> u8 list \<Rightarrow> u64 \<Rightarrow> 'd fsz \<Rightarrow> u64 \<times> 'd fsz" where
  "fsz_write_inode h fd inode count s =
     (let now = bytes_of 8 (h_time h * 1000000);
          inode = put 32 now (put 40 now inode);
          (written, d) = h_pwrite h (device s) inode (inode_offset s (scast fd));
          s = s\<lparr>device := d\<rparr>
      in if written \<noteq> sizeof_inode then (of_int (- EIO), s) else (count, s))"

text \<open>The copy of the small data onto the large data, which share their bytes, does nothing.\<close>

definition fsz_write :: "'d host \<Rightarrow> u32 \<Rightarrow> u8 list \<Rightarrow> 'd fsz \<Rightarrow> u64 \<times> 'd fsz" where
  "fsz_write h fd buf s =
     (let count = of_nat (length buf);
          inode = h_pread h (device s) sizeof_inode (inode_offset s (scast fd))
      in if length inode \<noteq> sizeof_inode then (of_int (- EIO), s)
         else if ucast (inode_size inode) + count \<le> (of_nat inline_size :: u64) then
           let inode = put (120 + unat (inode_size inode)) buf inode;
               inode = put 8 (bytes_of 4 (inode_size inode + ucast count)) inode
           in fsz_write_inode h fd inode count s
         else
           let (block, s) = (if unat (inode_size inode) \<le> inline_size then fsz_allocate_block h s else (1, s))
           in if block = 0 then (of_int (- ENOSPC), s)
              else
                let inode = (if unat (inode_size inode) \<le> inline_size then put 120 (bytes_of 4 block) inode else inode);
                    (written, d) = h_pwrite h (device s) buf (ucast (direct_block_0 inode * FSZ_SECSIZE));
                    s = s\<lparr>device := d\<rparr>
                in if written \<noteq> length buf then (of_int (- EIO), s)
                   else let inode = put 8 (bytes_of 4 (inode_size inode + ucast count)) inode
                        in fsz_write_inode h fd inode count s)"

section \<open>Fields\<close>

lemma length_put [simp]: "off + length new \<le> length bs \<Longrightarrow> length (put off new bs) = length bs"
  by (simp add: put_def)

lemma nth_put:
  assumes "off + length new \<le> length bs" and "i < length bs"
  shows "put off new bs ! i = (if off \<le> i \<and> i < off + length new then new ! (i - off) else bs ! i)"
  using assms by (auto simp: put_def nth_append min_def)

lemma slice_put_same:
  "off + length new \<le> length bs \<Longrightarrow> n = length new \<Longrightarrow> take n (drop off (put off new bs)) = new"
  by (simp add: put_def)

lemma slice_put_apart:
  assumes "off + length new \<le> length bs" and "q + n \<le> off \<or> off + length new \<le> q"
  shows "take n (drop q (put off new bs)) = take n (drop q bs)"
  using assms by (intro nth_equalityI) (auto simp: nth_put)

lemma field_put_same:
  fixes v :: "'a::len word"
  shows "off + n \<le> length bs \<Longrightarrow> LENGTH('a) \<le> 8 * n \<Longrightarrow> field off n (put off (bytes_of n v) bs) = v"
  by (simp add: field_def slice_put_same word_of_bytes_of)

lemma field_put_apart:
  "off + length new \<le> length bs \<Longrightarrow> q + n \<le> off \<or> off + length new \<le> q \<Longrightarrow> field q n (put off new bs) = field q n bs"
  by (simp add: field_def slice_put_apart)

lemma of_nat_unat_cancel: "of_nat (unat x) = x" for x :: "'a::len word"
  by (simp add: word_unat_eq_iff unat_of_nat)

section \<open>The device and the bitmap\<close>

lemma file_deviceD:
  assumes "file_device h content"
  shows "h_pread h d n x = read_bytes (content d) x n" and "fst (h_pwrite h d bs x) = length bs"
    and "content (snd (h_pwrite h d bs x)) = write_bytes (content d) x bs"
  using assms by (simp_all add: file_device_def)

lemma unat_wide: "unat (ucast v :: u64) = unat v" for v :: u32
  using unsigned_less[of v, where 'a = nat] by (simp add: unsigned_ucast_eq take_bit_nat_eq_self_iff)

definition bitmap_of :: "('d \<Rightarrow> memory) \<Rightarrow> 'd fsz \<Rightarrow> u8 list" where
  "bitmap_of content s = read_bytes (content (device s)) (ucast (bitmap_offset s)) (unat (bitmap_size s))"

definition mark_bit :: "nat \<Rightarrow> u8 list \<Rightarrow> u8 list" where
  "mark_bit i bitmap = bitmap[i div 8 := set_bit (i mod 8) (bitmap ! (i div 8))]"

lemma free_bit_mark:
  assumes "i < 8 * length bitmap"
  shows "free_bit (mark_bit i bitmap) j \<longleftrightarrow> j \<noteq> i \<and> free_bit bitmap j"
proof (cases "j div 8 = i div 8")
  case True
  then have "j mod 8 = i mod 8 \<longleftrightarrow> j = i" by (metis div_mult_mod_eq)
  moreover have "i div 8 < length bitmap" using assms by (simp add: div_less_iff_less_mult mult.commute)
  ultimately show ?thesis using True by (auto simp: free_bit_def mark_bit_def bit_set_bit_iff)
qed (auto simp: free_bit_def mark_bit_def)

text \<open>An allocation that succeeds took the first free bit and wrote the bitmap with this bit set.\<close>

lemma allocate_block_result:
  assumes dev: "file_device h content" and alloc: "fsz_allocate_block h s = (b, s1)" and "b \<noteq> 0"
    and sz: "unat (bitmap_size s) * 8 < 2 ^ 32"
  obtains i where "i < 8 * unat (bitmap_size s)" and "free_bit (bitmap_of content s) i"
    and "b = sb_data_area_start (sb s) + of_nat i" and "sb s1 = sb s"
    and "content (device s1) = write_bytes (content (device s)) (ucast (bitmap_offset s)) (mark_bit i (bitmap_of content s))"
proof -
  note dv = file_deviceD[OF dev]
  have n8: "unat (bitmap_size s * 8) = 8 * unat (bitmap_size s)" using sz by (simp add: unat_word_ariths)
  obtain i where i: "first_index (free_bit (bitmap_of content s)) (8 * unat (bitmap_size s)) = Some i"
    using alloc \<open>b \<noteq> 0\<close>
    by (auto simp: fsz_allocate_block_def Let_def dv(1) n8 bitmap_of_def split: if_splits option.splits)
  have "b = sb_data_area_start (sb s) + of_nat i" "sb s1 = sb s"
    "content (device s1) = write_bytes (content (device s)) (ucast (bitmap_offset s)) (mark_bit i (bitmap_of content s))"
    using alloc \<open>b \<noteq> 0\<close> i dv(3)[of "device s"]
    by (auto simp: fsz_allocate_block_def Let_def dv(1) n8 split_beta bitmap_of_def mark_bit_def split: if_splits)
  with i show thesis by (intro that[of i]) (auto simp: first_index_Some_iff)
qed

lemma bitmap_byte_address:
  assumes i: "i < 8 * n" and n: "n * 8 < 2 ^ 32" and off: "unat (o1 :: u32) + n \<le> 2 ^ 32"
  shows "(ucast (o1 + of_nat i div 8) :: u64) = ucast o1 + of_nat (i div 8)"
proof -
  have idx: "i div 8 < n" using i by (simp add: div_less_iff_less_mult mult.commute)
  have "unat (of_nat i :: u32) = i" using i n by (simp add: unat_of_nat)
  then have "unat (of_nat i div 8 :: u32) = i div 8" by (simp add: unat_div)
  then have "unat (o1 + of_nat i div 8) = unat o1 + i div 8" using off idx by (simp add: unat_word_ariths)
  moreover have "unat (of_nat (i div 8) :: u64) = i div 8" using i n by (intro unat_of_nat_less) simp
  moreover have "unat o1 < 2 ^ 32" using unsigned_less[of o1, where 'a = nat] by simp
  ultimately have "unat (ucast (o1 + of_nat i div 8) :: u64) = unat (ucast o1 + of_nat (i div 8) :: u64)"
    using idx n by (simp add: unat_word_ariths unat_wide)
  then show ?thesis by (simp only: word_unat_eq_iff)
qed

text \<open>Freeing clears one bit of one byte.\<close>

lemma free_block_clears:
  assumes dev: "file_device h content" and i: "i < 8 * unat (bitmap_size s)"
    and sz: "unat (bitmap_size s) * 8 < 2 ^ 32" and off: "unat (bitmap_offset s) + unat (bitmap_size s) \<le> 2 ^ 32"
  defines "a \<equiv> ucast (bitmap_offset s) + of_nat (i div 8)"
  shows "content (device (fsz_free_block h (sb_data_area_start (sb s) + of_nat i) s)) =
    (content (device s))(a := content (device s) a AND NOT (push_bit (i mod 8) 1))"
proof -
  have "unat (of_nat i :: u32) = i" using i sz by (simp add: unat_of_nat)
  then have k: "unat (of_nat i mod 8 :: u32) = i mod 8" by (simp add: unat_mod)
  have "content (device (fsz_free_block h (sb_data_area_start (sb s) + of_nat i) s)) =
      write_bytes (content (device s)) a [content (device s) a AND NOT (push_bit (i mod 8) 1)]"
    by (simp only: fsz_free_block_def Let_def file_deviceD(1)[OF dev] k add_diff_cancel_left'
        bitmap_byte_address[OF i sz off] a_def)
      (simp add: read_bytes_def file_deviceD(3)[OF dev])
  then show ?thesis by simp
qed

lemma clear_set_bit: "\<not> bit v k \<Longrightarrow> set_bit k v AND NOT (push_bit k 1) = v" for v :: u8
  by (intro bit_word_eqI) (auto simp: bit_simps)

section \<open>Properties\<close>

text \<open>C30: Blocks. On a device without short transfers, whose bitmap lies below 4 GiB, an allocation that
  succeeds returns a block whose bit was free, marks it and changes no other bit; freeing that block
  restores the device.\<close>

theorem block_roundtrip:
  assumes dev: "file_device h content" and alloc: "fsz_allocate_block h s = (b, s1)" and "b \<noteq> 0"
    and sz: "unat (bitmap_size s) * 8 < 2 ^ 32" and off: "unat (bitmap_offset s) + unat (bitmap_size s) \<le> 2 ^ 32"
  shows "\<exists>i<8 * unat (bitmap_size s). b = sb_data_area_start (sb s) + of_nat i \<and> free_bit (bitmap_of content s) i \<and>
      (\<forall>j. free_bit (bitmap_of content s1) j \<longleftrightarrow> j \<noteq> i \<and> free_bit (bitmap_of content s) j) \<and>
      content (device (fsz_free_block h b s1)) = content (device s)"
proof -
  let ?n = "unat (bitmap_size s)" and ?a = "ucast (bitmap_offset s) :: u64" and ?m = "content (device s)"
  obtain i where i: "i < 8 * ?n" "free_bit (bitmap_of content s) i" "b = sb_data_area_start (sb s) + of_nat i"
    and s1: "sb s1 = sb s" "content (device s1) = write_bytes ?m ?a (mark_bit i (bitmap_of content s))"
    by (rule allocate_block_result[OF assms(1-4)])
  let ?old = "bitmap_of content s" and ?x = "?a + of_nat (i div 8)"
  have idx: "i div 8 < ?n" using i(1) by (simp add: div_less_iff_less_mult mult.commute)
  have len: "length ?old = ?n" "length (mark_bit i ?old) = ?n" by (simp_all add: bitmap_of_def mark_bit_def)
  have same: "bitmap_size s1 = bitmap_size s" "bitmap_offset s1 = bitmap_offset s"
    by (simp_all add: bitmap_size_def bitmap_offset_def s1(1))
  have new: "bitmap_of content s1 = mark_bit i ?old"
    using read_write_bytes_same[of "mark_bit i ?old" ?m ?a] len sz by (simp add: bitmap_of_def[of content s1] same s1(2))
  have u: "unat (of_nat (i div 8) :: u64) = i div 8" using idx sz by (intro unat_of_nat_less) simp
  have at: "content (device s1) y = (if y = ?x then set_bit (i mod 8) (?m y) else ?m y)" for y
  proof (cases "unat (y - ?a) < ?n")
    case True
    have "y = ?x \<longleftrightarrow> y - ?a = of_nat (i div 8)" by (auto simp: algebra_simps)
    then have "y = ?x \<longleftrightarrow> unat (y - ?a) = i div 8" by (simp only: word_unat_eq_iff u)
    moreover have "?old ! unat (y - ?a) = ?m y" using True by (simp add: bitmap_of_def of_nat_unat_cancel)
    ultimately show ?thesis using True len sz by (auto simp: s1(2) write_bytes_at mark_bit_def nth_list_update)
  next
    case False
    then show ?thesis using idx u len sz by (auto simp: s1(2) write_bytes_at)
  qed
  have "\<not> bit (?m ?x) (i mod 8)" using i(2) idx by (simp add: free_bit_def bitmap_of_def)
  then have "content (device (fsz_free_block h b s1)) = ?m"
    using free_block_clears[OF dev, of i s1] i(1) sz off clear_set_bit[of "?m ?x" "i mod 8"]
    by (simp add: same s1(1) i(3) at fun_eq_iff)
  moreover have "free_bit (bitmap_of content s1) j \<longleftrightarrow> j \<noteq> i \<and> free_bit ?old j" for j
    using free_bit_mark[of i ?old j] i(1) len by (simp add: new)
  ultimately show ?thesis using i by blast
qed

text \<open>A device that is its memory; 80 sectors with the data area from sector 16 on, its bitmap in
  sector 1 and the inodes from sector 2 on.\<close>

definition memory_host :: "memory host" where
  "memory_host = \<lparr>h_open = (\<lambda>_. (3, 0)), h_pread = (\<lambda>d n a. read_bytes d a n),
     h_pwrite = (\<lambda>d bs a. (length bs, write_bytes d a bs)), h_malloc = (\<lambda>_. True), h_time = 7,
     h_allocate_inode = (\<lambda>d. (1, d)), h_free_inode = (\<lambda>_ d. d)\<rparr>"

definition sample_superblock :: "u8 list" where
  "sample_superblock = FSZ_MAGIC @ replicate 52 0 @ [80, 0, 0, 0, 0, 0, 0, 0] @ replicate 12 0 @
     [1, 0, 0, 0] @ [2, 0, 0, 0] @ [16, 0, 0, 0] @ replicate 16 0"

definition sample_fsz :: "memory fsz" where
  "sample_fsz = \<lparr>sb = sample_superblock, device_fd = 3, device = (\<lambda>a. if a = 4096 then 7 else 0)\<rparr>"

lemma memory_host_device: "file_device memory_host (\<lambda>d. d)"
  by (simp add: file_device_def memory_host_def)

lemma sample_fields:
  "sb_numsec sample_superblock = 80" "sb_free_block_bitmap_start sample_superblock = 1"
  "sb_inode_table_start sample_superblock = 2" "sb_data_area_start sample_superblock = 16"
  by (simp_all add: sb_numsec_def sb_free_block_bitmap_start_def sb_inode_table_start_def sb_data_area_start_def field_def
      sample_superblock_def FSZ_MAGIC_def word_of_bytes_def)

theorem block_roundtrip_witness:
  "fst (fsz_allocate_block memory_host sample_fsz) = 19 \<and>
   device (fsz_free_block memory_host 19 (snd (fsz_allocate_block memory_host sample_fsz))) = device sample_fsz"
proof -
  have sb: "sb sample_fsz = sample_superblock" by (simp add: sample_fsz_def)
  have n: "bitmap_size sample_fsz = 8" "bitmap_offset sample_fsz = 4096"
    by (simp_all add: bitmap_size_def bitmap_offset_def sb sample_fields FSZ_SECSIZE_def)
  have bm: "read_bytes (device sample_fsz) 4096 8 = [7, 0, 0, 0, 0, 0, 0, 0]"
    by (simp add: sample_fsz_def read_bytes_def upt_rec)
  have "first_index (free_bit [7, 0, 0, 0, 0, 0, 0, 0]) 64 = Some 3" by code_simp
  then have a: "fst (fsz_allocate_block memory_host sample_fsz) = 19"
    by (simp add: fsz_allocate_block_def Let_def n memory_host_def bm sb sample_fields split_beta)
  from block_roundtrip[OF memory_host_device surjective_pairing, of sample_fsz] show ?thesis
    using a by (simp add: n Let_def) blast
qed

text \<open>The inode a small write leaves: the size grows, the inline data are appended to.\<close>

definition small_write_inode :: "u8 list \<Rightarrow> u8 list \<Rightarrow> u8 list \<Rightarrow> u8 list" where
  "small_write_inode now buf inode =
     put 32 now (put 40 now (put 8 (bytes_of 4 (inode_size inode + of_nat (length buf)))
       (put (120 + unat (inode_size inode)) buf inode)))"

lemma small_write_inode_facts:
  fixes inode :: "u8 list"
  defines "k \<equiv> unat (inode_size inode)"
  assumes len: "length inode = sizeof_inode" and lim: "k + length buf \<le> inline_size" and now: "length now = 8"
  shows "length (small_write_inode now buf inode) = sizeof_inode"
    and "unat (inode_size (small_write_inode now buf inode)) = k + length buf"
    and "take (k + length buf) (inlinedata (small_write_inode now buf inode)) = take k (inlinedata inode) @ buf"
proof -
  let ?in1 = "put (120 + k) buf inode"
  let ?in2 = "put 8 (bytes_of 4 (inode_size inode + of_nat (length buf))) ?in1"
  let ?in3 = "put 32 now (put 40 now ?in2)"
  have in3: "small_write_inode now buf inode = ?in3" by (simp add: small_write_inode_def k_def)
  have lens: "length inode = 1128" "length ?in1 = 1128" "length ?in2 = 1128" "length ?in3 = 1128"
    using len lim now by (simp_all add: sizeof_inode_def inline_size_def)
  then show "length (small_write_inode now buf inode) = sizeof_inode" by (simp add: in3 sizeof_inode_def)
  have "inode_size ?in3 = inode_size inode + of_nat (length buf)"
    using lim lens now by (simp add: inode_size_def field_put_apart field_put_same)
  also have "\<dots> = of_nat (k + length buf)" by (simp add: k_def)
  finally have "inode_size ?in3 = of_nat (k + length buf)" .
  moreover have "unat (of_nat (k + length buf) :: u32) = k + length buf"
    using lim by (simp only: unat_of_nat inline_size_def) simp
  ultimately show "unat (inode_size (small_write_inode now buf inode)) = k + length buf" by (simp add: in3)
  have "inlinedata ?in3 = inlinedata ?in1"
    using lim lens now by (simp add: inlinedata_def slice_put_apart inline_size_def)
  moreover have "take (k + length buf) (inlinedata ?in1) = take k (inlinedata inode) @ buf"
    using lim lens by (intro nth_equalityI) (auto simp: inlinedata_def inline_size_def nth_put nth_append)
  ultimately show "take (k + length buf) (inlinedata (small_write_inode now buf inode)) = take k (inlinedata inode) @ buf"
    by (simp add: in3)
qed

lemma small_write_result:
  assumes dev: "file_device h content" and old: "old = read_bytes (content (device s)) (inode_offset s (scast fd)) sizeof_inode"
    and lim: "unat (inode_size old) + length buf \<le> inline_size"
  shows "fsz_write h fd buf s = (of_nat (length buf), s\<lparr>device := snd (h_pwrite h (device s)
    (small_write_inode (bytes_of 8 (h_time h * 1000000)) buf old) (inode_offset s (scast fd)))\<rparr>)"
proof -
  note dv = file_deviceD[OF dev]
  have narrow: "(ucast (of_nat n :: u64) :: u32) = of_nat n" for n by transfer (simp add: take_bit_of_nat)
  have l64: "unat (of_nat n :: u64) = n" if "n \<le> 1000" for n using that by (intro unat_of_nat_less) simp
  have fits: "ucast (inode_size old) + of_nat (length buf) \<le> (of_nat inline_size :: u64)"
    using lim by (simp add: word_le_nat_alt unat_word_ariths unat_wide l64 inline_size_def)
  have len: "length old = sizeof_inode" by (simp add: old)
  have same: "inode_size (put (120 + unat (inode_size old)) buf old) = inode_size old"
    using lim len by (simp add: inode_size_def field_put_apart sizeof_inode_def inline_size_def)
  have "length (small_write_inode (bytes_of 8 (h_time h * 1000000)) buf old) = sizeof_inode"
    using small_write_inode_facts(1)[OF len lim] by simp
  then show ?thesis
    using fits len same
    by (simp add: fsz_write_def Let_def dv fsz_write_inode_def split_beta narrow small_write_inode_def flip: old)
qed

text \<open>C31: Small files. On a device without short transfers, a write that leaves a file of at most 1000 bytes
  succeeds and appends: a read of the whole file afterwards returns the old bytes followed by the new
  ones.\<close>

theorem small_write_appends:
  assumes dev: "file_device h content"
    and old: "old = read_bytes (content (device s)) (inode_offset s (scast fd)) sizeof_inode"
    and k: "k = unat (inode_size old)" and small: "k + length buf \<le> inline_size"
  shows "let (r, s1) = fsz_write h fd buf s
    in r = of_nat (length buf) \<and>
       fsz_read h fd (of_nat (k + length buf)) s1 = (of_nat (k + length buf), take k (inlinedata old) @ buf)"
proof -
  note dv = file_deviceD[OF dev]
  let ?a = "inode_offset s (scast fd)" and ?in = "small_write_inode (bytes_of 8 (h_time h * 1000000)) buf old"
  let ?s1 = "s\<lparr>device := snd (h_pwrite h (device s) ?in ?a)\<rparr>"
  have "length old = sizeof_inode" by (simp add: old)
  note facts = small_write_inode_facts[OF this small[unfolded k], of "bytes_of 8 (h_time h * 1000000)", folded k, simplified]
  have "read_bytes (content (device ?s1)) (inode_offset ?s1 (scast fd)) sizeof_inode = ?in"
    using read_write_bytes_same[of ?in "content (device s)" ?a] facts(1)
    by (simp add: dv inode_offset_def sizeof_inode_def)
  moreover have "unat (of_nat (k + length buf) :: u64) = k + length buf"
    using small by (intro unat_of_nat_less) (simp add: inline_size_def)
  ultimately have "fsz_read h fd (of_nat (k + length buf)) ?s1 = (of_nat (k + length buf), take (k + length buf) (inlinedata ?in))"
    using facts(1,2) small by (simp add: fsz_read_def Let_def dv word_less_nat_alt unat_wide)
  then show ?thesis using small_write_result[OF dev old small[unfolded k]] by (simp add: facts(3))
qed

lemma sample_inode:
  "inode_offset sample_fsz 1 = 9320" "inode_size (read_bytes (device sample_fsz) 9320 sizeof_inode) = 0"
proof -
  have "take 4 (drop 8 (read_bytes m a sizeof_inode)) = read_bytes m (a + 8) 4" for m a
    by (intro nth_equalityI) (auto simp: sizeof_inode_def add.assoc)
  moreover have "read_bytes (device sample_fsz) 9328 4 = [0, 0, 0, 0]"
    by (simp add: sample_fsz_def read_bytes_def upt_rec)
  ultimately show "inode_size (read_bytes (device sample_fsz) 9320 sizeof_inode) = 0"
    by (simp add: inode_size_def field_def word_of_bytes_def)
qed (simp add: inode_offset_def sample_fsz_def sample_fields FSZ_SECSIZE_def sizeof_inode_def)

theorem small_write_appends_witness:
  "fst (fsz_write memory_host 1 [104, 105] sample_fsz) = 2 \<and>
   fsz_read memory_host 1 2 (snd (fsz_write memory_host 1 [104, 105] sample_fsz)) = (2, [104, 105])"
  using small_write_appends[OF memory_host_device refl refl, of sample_fsz 1 "[104, 105]"]
  by (simp add: sample_inode inline_size_def Let_def split_beta)

end
