(* ===== verification/Spec2Isabelle.thy ===== *)
theory Spec2Isabelle
  imports Pmm Phys Libc_String Paging_Clone Libc_Conv Libc_Double Spinlock Cpu Descriptors Acpi Apic Process Syscall
    Format Display Keyboard Gui Mouse Ata Snake Kernel Boot_Irqs Boot_Output
    Interrupt_Runs Boot_Screen User_Memory Large_Pages Boot_Space Boot_Start Fsz
begin

text \<open>
  HukkaOS is an x86-64 kernel in C that the BOOTBOOT loader starts on every core. This development
  models its C sources under \<^verbatim>\<open>src/\<close> (the paths below are relative to the kernel's \<^verbatim>\<open>kernel/source/\<close>
  unless they start with \<^verbatim>\<open>libc/\<close> or \<^verbatim>\<open>fs/\<close>), one theory per component, and proves what each component
  does: also where the code does something else than its comments say.

  How the program hangs together. \<open>_start\<close> (theory \<open>Kernel\<close>) sets up the serial port, the interrupt
  and segment tables, the physical memory, the ACPI tables, the interrupt controllers, the timer,
  the keyboard and the memory of user programs; then the boot processor draws, identifies itself and
  the disks, clones the page tables and waits for interrupts. An interrupt reaches
  \<open>interrupts_handler\<close>, which hands it to the keyboard, the timer, the mouse or an exception handler.

  Shared ground.
  \<^item> \<open>Kernel_Prelude\<close>: C integers are words of their width; memory is a function from 64-bit addresses
    to bytes, with loads and stores of 1 to 8 bytes; ranges apart from one another; the first index
    with a property; the collections of rewrite rules the components share.
  \<^item> \<open>Machine_IO\<close> (\<^verbatim>\<open>hardware/io/io.c\<close>): the hardware answers reads from a stream that is an argument of
    the model, and what the code sends is a trace of events: port accesses, device registers,
    processor instructions, and the calls of the log and of the printers; \<open>extends\<close> says what a call adds
    to the trace.
  \<^item> \<open>Float64\<close>: the values of C's \<^verbatim>\<open>double\<close> as integers times powers of two, with the rounding of IEEE 754
    to 53 bits and the conversions the compiler emits.
  \<^item> \<open>Boot_Info\<close> (\<^verbatim>\<open>include/boot/bootboot.h\<close>): the loader's structure and memory map.

  Memory.
  \<^item> \<open>Alloc_Spec\<close>, \<open>Page_Alloc_Spec\<close>, \<open>Address_Space_Spec\<close>: the contracts of an allocator of byte ranges, of
    an allocator of pages and of an address space, as locales; what follows for runs of calls is
    proved there once.
  \<^item> \<open>Pmm\<close> (\<^verbatim>\<open>memory/pmm.c\<close>): the free and used block tables, interpretation of the first contract:
    allocations since boot are disjoint; freeing, its eight-bit search and the blocks it loses.
  \<^item> \<open>Spinlock\<close> (\<^verbatim>\<open>hardware/lock/spinlock.c\<close>): the cores as a step relation that interleaves their
    instructions; mutual exclusion, serialisation and progress by rule induction.
  \<^item> \<open>Phys\<close> (\<^verbatim>\<open>memory/phys.c\<close>): the bitmap allocator, interpretation of the second contract; runs of
    pages; how a region is divided between bitmap and pages.
  \<^item> \<open>Paging\<close> (\<^verbatim>\<open>memory/paging.c\<close>, \<^verbatim>\<open>memory/vmm.c\<close>): four-level tables as entries in memory. \<open>Paging_Map\<close>:
    under the invariant \<open>space_ok\<close> the tables are a map from pages to frames, and mapping and unmapping
    refine its update and deletion: the interpretation of the third contract. \<open>Paging_Clone\<close>: the
    clone of an address space translates every address as the original and shares no table with it.
    \<open>User_Memory\<close>: allocator and tables together in \<open>init_user_program_memory\<close>, what the program's pages
    translate to, and why the processor refuses them to it. \<open>Large_Pages\<close>: what unmapping does inside a page
    of 2 MiB. \<open>Boot_Space\<close>: the address space of 4 KiB pages that the whole set-up leaves, from the memory map
    and the ACPI tables to the drivers' registers.

  Library.
  \<^item> \<open>Libc_String\<close> (\<^verbatim>\<open>libc/string.c\<close>), \<open>Libc_Conv\<close> (\<^verbatim>\<open>libc/conversion.c\<close>, \<^verbatim>\<open>bitwise.c\<close>, \<^verbatim>\<open>tmath.c\<close>): strings in
    byte memory and numbers to text, with the bytes each function writes and leaves alone.
    \<open>Libc_Double\<close>: \<open>double_to_string\<close>, and the digits it prints.
  \<^item> \<open>Format\<close> (\<^verbatim>\<open>debug/log.c\<close>): the loop over a format string that \<open>log\<close>, \<open>print_numstr\<close> and
    \<open>terminal_write\<close> share, and the serial log. A format is \<open>well_typed\<close> for its arguments when every
    directive finds one of its type; then the call returns with a text.

  Processor and interrupts.
  \<^item> \<open>Cpu\<close>, \<open>Descriptors\<close> (\<^verbatim>\<open>x86_64/\<close>): identification, model-specific registers, the descriptor tables as
    the processor decodes them, the exception handlers. \<open>Syscall\<close> (\<^verbatim>\<open>process/syscall/syscall.c\<close>, and the
    user program's side of it, \<^verbatim>\<open>libc/hukaos.c\<close>): the set-up of system calls, on a model of the processor's
    model-specific registers with the faults it documents.
  \<^item> \<open>Acpi\<close> (\<^verbatim>\<open>hardware/acpi/\<close>): table search, the interrupt controller table, the HPET timer.
    \<open>Apic\<close> (\<^verbatim>\<open>hardware/apic/\<close>): local and I/O controller and the timer, against a model of the device.
  \<^item> \<open>Process\<close> (\<^verbatim>\<open>process/process.c\<close>, \<^verbatim>\<open>scheduler/scheduler.c\<close>): processes and threads as structures in
    memory; the scheduler goes round the ready threads of a process.

  Devices and screen.
  \<^item> \<open>Font\<close>, \<open>Display\<close> (\<^verbatim>\<open>display/framebuffer.c\<close>, \<^verbatim>\<open>terminal/terminal.c\<close>, \<^verbatim>\<open>gui/widgets.c\<close>, \<^verbatim>\<open>logos/\<close>): pixels at
    32-bit offsets of the frame buffer, glyphs, cursor and scrolling.
  \<^item> \<open>Keyboard\<close>, \<open>Mouse\<close> (\<^verbatim>\<open>hardware/ps2/\<close>), \<open>Gui\<close> (\<^verbatim>\<open>gui/gui.c\<close>): each device follows the history of its
    bytes; the windows stay on the screen and follow the pointer.
  \<^item> \<open>Ata\<close> (\<^verbatim>\<open>hardware/storage/ata.c\<close>): transfers against a controller that collects what it is sent.
  \<^item> \<open>Snake\<close> (\<^verbatim>\<open>logos/snake.c\<close>): the game never leaves its array.
  \<^item> \<open>Fsz\<close> (\<^verbatim>\<open>fs/fsz.c\<close>): the file system sketch, a program for a POSIX host; blocks and small files.
  \<^item> \<open>Kernel\<close> (\<^verbatim>\<open>x86_64/idt.c\<close>, \<^verbatim>\<open>kernel.c\<close>): the components' states plugged together. \<open>Boot_Irqs\<close>:
    the trace of the whole set-up, replayed on the I/O APIC, gives its routing. \<open>Boot_Identify\<close>: the
    two routines that print strings which the hardware supplies. \<open>Boot_Output\<close>: every print
    of the boot processor passes the arguments its format asks for. \<open>Interrupt_Runs\<close>: sequences of
    interrupts as an inductive relation; every device follows its own bytes in all of them. \<open>Boot_Screen\<close>: the picture
    the boot starts with. \<open>Boot_Start\<close>: on hardware that answers, \<open>_start\<close> gets to its endless loop; the
    log calls of the whole set-up are sent to the serial port there, its waits included.

  This theory states what two cores do together, and gathers the others.

  Conventions. A loop that may not end is a \<open>partial_function\<close>, and \<open>None\<close> is not returning; that a call
  returns is always proved as such. The other loops are folds over the range the C loop counts
  through, so no fuel is chosen by the model; the bounds that appear are the code's: 1000 polls of a
  disk, 100000 of the mouse, 12000 blocks of memory, 4800 cells of the snake. The frame buffer's bytes
  are kept apart from the kernel's memory: the properties on pixels state the geometry they need.
  Print and log calls inside a component are events of its trace. \<open>Kernel.shown\<close> renders the prints;
  \<open>Format.send_logs\<close> makes the log calls on a serial port, whose wait may not end: where a property says that
  code with log calls returns, \<open>Boot_Start.logged\<close> counts those waits too. Instructions that the processor
  may refuse (a write of a model-specific register) are events as well, and theory Syscall says which of them
  fault. Records of
  functions of 64-bit addresses stand for C structures the code reaches through pointers wherever
  aliasing matters, and Isabelle records for the static variables.

  Not modelled. The assembly files \<^verbatim>\<open>src/asm/\<close> (register saving, entry to ring 3): the
  handlers are modelled on the register frame they get, and the system call on the registers that the
  stub of \<^verbatim>\<open>libc/hukaos.c\<close> loads. The arrays of the two pictures: data, an argument of the drawing routines. The compiler's own headers,
  the user programs and three source files, which are empty. The functions that \<^verbatim>\<open>fs/fsz.h\<close> declares
  and nothing defines. The fonts in PSF form: bytes at an address the linker supplies.
\<close>

section \<open>The memory of two cores\<close>

text \<open>C9: Two cores share the free memory. \<open>_start\<close> runs on every core and initialises the allocator there.
  In every interleaving of two cores, once both are through, the table lists every free region of the
  memory map twice; on a map with one free region, two requests of the region's size then both succeed
  with the same address.\<close>

theorem two_cores_duplicate:
  assumes "mmap_wf bb" and "reachable bb 2 pmm_bss S" and "\<forall>c<2. sys_core S c = Finished"
  shows "free_extents (sys_pmm S) = map_free_extents bb @ map_free_extents bb \<and>
    (\<forall>a n. map_free_extents bb = [(a, n)] \<longrightarrow> n \<noteq> 0 \<longrightarrow>
      fst (run_allocs allocate_memory [n, n] (sys_pmm S)) = [(a, n), (a, n)])"
proof -
  have "sys_pmm S = init_blocks bb (init_blocks bb pmm_bss)"
    using all_finished[OF assms(2,3)] by (simp add: numeral_2_eq_2)
  then show ?thesis using second_init_duplicates_facts[OF assms(1)] by simp
qed

theorem two_cores_duplicate_witness:
  "\<exists>S. reachable sample_boot 2 pmm_bss S \<and>
    fst (run_allocs allocate_memory [0x4000, 0x4000] (sys_pmm S)) = [(0x100000, 0x4000), (0x100000, 0x4000)]"
proof -
  let ?run = "\<lambda>c S. S\<lparr>sys_pmm := init_blocks sample_boot (sys_pmm S), sys_lock := False,
    sys_core := (sys_core S)(c := Finished)\<rparr>"
  let ?S0 = "boot_system pmm_bss"
  let ?S1 = "?run 0 ?S0" and ?S2 = "?run 1 (?run 0 ?S0)"
  have one: "reachable sample_boot 2 pmm_bss ?S1"
    by (rule core_runs[OF reachable.start]) (simp_all add: boot_system_def)
  have two: "reachable sample_boot 2 pmm_bss ?S2"
    by (rule core_runs[OF one]) (simp_all add: boot_system_def)
  have "\<forall>c<2. sys_core ?S2 c = Finished" by (auto simp: less_2_cases_iff)
  from two_cores_duplicate[OF sample_mmap_wf two this] sample_free_extents
  have "fst (run_allocs allocate_memory [0x4000, 0x4000] (sys_pmm ?S2)) = [(0x100000, 0x4000), (0x100000, 0x4000)]"
    by simp
  with two show ?thesis by blast
qed

end
